(* ===== verification/Go_Prelude.thy ===== *)
theory Go_Prelude
  imports Main "HOL-Library.Sublist"
begin

text \<open>
  The fragment of Go's standard library that the modelled packages use: \<open>strings\<close> and
  \<open>path/filepath\<close> on byte strings, together with the generic lemmas the component theories share.
  Go strings are byte sequences, so \<open>string\<close> (a list of 8-bit characters) is their exact carrier.
  \<open>TrimSpace\<close> and \<open>ToLower\<close> are modelled on the ASCII range; the Unicode spaces and letters that
  Go also folds have more than one byte in UTF-8 and are left alone here.
\<close>

named_theorems go_string \<open>equations of Go's string functions\<close>
named_theorems go_path \<open>facts about lexically cleaned paths\<close>

subsection \<open>Package strings\<close>

definition is_space :: "char \<Rightarrow> bool" where
  "is_space c \<longleftrightarrow> c = CHR '' '' \<or> c = CHR 0x09 \<or> c = CHR 0x0A \<or> c = CHR 0x0B \<or> c = CHR 0x0C \<or> c = CHR 0x0D"

definition TrimSpace :: "string \<Rightarrow> string" where
  "TrimSpace s = rev (dropWhile is_space (rev (dropWhile is_space s)))"

definition HasPrefix :: "string \<Rightarrow> string \<Rightarrow> bool" where
  "HasPrefix s p \<longleftrightarrow> take (length p) s = p"

definition HasSuffix :: "string \<Rightarrow> string \<Rightarrow> bool" where
  "HasSuffix s p \<longleftrightarrow> HasPrefix (rev s) (rev p)"

definition TrimPrefix :: "string \<Rightarrow> string \<Rightarrow> string" where
  "TrimPrefix s p = (if HasPrefix s p then drop (length p) s else s)"

definition TrimSuffix :: "string \<Rightarrow> string \<Rightarrow> string" where
  "TrimSuffix s p = (if HasSuffix s p then take (length s - length p) s else s)"

definition lower_char :: "char \<Rightarrow> char" where
  "lower_char c = (let n = (of_char c :: nat) in if 65 \<le> n \<and> n \<le> 90 then char_of (n + 32) else c)"

definition ToLower :: "string \<Rightarrow> string" where
  "ToLower s = map lower_char s"

text \<open>\<open>strings.Index\<close>, with \<open>None\<close> for Go's \<open>-1\<close>.\<close>

fun Index :: "string \<Rightarrow> string \<Rightarrow> nat option" where
  "Index s sub =
     (if HasPrefix s sub then Some 0
      else (case s of [] \<Rightarrow> None | _ # s' \<Rightarrow> map_option Suc (Index s' sub)))"

declare Index.simps [simp del]

definition Contains :: "string \<Rightarrow> string \<Rightarrow> bool" where
  "Contains s sub \<longleftrightarrow> Index s sub \<noteq> None"

text \<open>\<open>strings.Split\<close> and \<open>strings.Join\<close> for a one-byte separator.\<close>

fun split_on :: "char \<Rightarrow> string \<Rightarrow> string list" where
  "split_on c [] = [[]]"
| "split_on c (x # xs) =
     (if x = c then [] # split_on c xs
      else (case split_on c xs of [] \<Rightarrow> [[x]] | y # ys \<Rightarrow> (x # y) # ys))"

fun join_with :: "string \<Rightarrow> string list \<Rightarrow> string" where
  "join_with sep [] = []"
| "join_with sep [x] = x"
| "join_with sep (x # y # ys) = x @ sep @ join_with sep (y # ys)"

subsection \<open>Package path/filepath (Unix)\<close>

definition slash :: char where
  "slash = CHR 0x2F"

definition IsAbs :: "string \<Rightarrow> bool" where
  "IsAbs p \<longleftrightarrow> HasPrefix p ''/''"

text \<open>
  \<open>filepath.Clean\<close> walks the elements of a path with an output buffer. The buffer is the stack of
  the elements kept so far, last one first: an empty element and \<open>.\<close> are dropped, \<open>..\<close> removes
  the last kept element, and where there is none to remove it is kept in a relative path and
  dropped in a rooted one.
\<close>

fun clean_segs :: "bool \<Rightarrow> string list \<Rightarrow> string list \<Rightarrow> string list" where
  "clean_segs rooted st [] = rev st"
| "clean_segs rooted st (x # xs) =
     (if x = [] \<or> x = ''.'' then clean_segs rooted st xs
      else if x = ''..'' then
        (case st of
           [] \<Rightarrow> clean_segs rooted (if rooted then [] else [''..'']) xs
         | t # ts \<Rightarrow> if t = ''..'' then clean_segs rooted (x # st) xs else clean_segs rooted ts xs)
      else clean_segs rooted (x # st) xs)"

definition Clean :: "string \<Rightarrow> string" where
  "Clean p =
     (if p = [] then ''.''
      else if IsAbs p then ''/'' @ join_with ''/'' (clean_segs True [] (split_on slash p))
      else (let segs = clean_segs False [] (split_on slash p)
            in if segs = [] then ''.'' else join_with ''/'' segs))"

text \<open>\<open>filepath.Join\<close>: empty elements are ignored, the rest is joined and cleaned.\<close>

definition PathJoin :: "string list \<Rightarrow> string" where
  "PathJoin xs =
     (let ys = filter (\<lambda>x. x \<noteq> []) xs in if ys = [] then [] else Clean (join_with ''/'' ys))"


text \<open>\<open>filepath.Dir\<close>: what precedes the last element, cleaned.\<close>

definition PathDir :: "string \<Rightarrow> string" where
  "PathDir p = Clean (rev (dropWhile (\<lambda>c. c \<noteq> slash) (rev p)))"


subsection \<open>Prefixes, splitting and joining\<close>

lemma HasPrefix_iff: "HasPrefix s p \<longleftrightarrow> (\<exists>t. s = p @ t)"
  unfolding HasPrefix_def by (metis append_eq_conv_conj append_take_drop_id)

lemma HasPrefix_append [simp]: "HasPrefix (p @ t) p"
  by (simp add: HasPrefix_def)

lemma HasPrefix_refl [simp]: "HasPrefix s s"
  by (simp add: HasPrefix_def)

lemma HasPrefix_Nil [simp]: "HasPrefix s []"
  by (simp add: HasPrefix_def)

lemma HasPrefix_trans: "HasPrefix s q \<Longrightarrow> HasPrefix q p \<Longrightarrow> HasPrefix s p"
  by (auto simp: HasPrefix_iff)

lemma HasPrefix_Cons [go_string]:
  "HasPrefix (x # xs) (y # ys) \<longleftrightarrow> x = y \<and> HasPrefix xs ys"
  "\<not> HasPrefix [] (y # ys)"
  by (auto simp: HasPrefix_def)

lemma HasPrefix_length: "HasPrefix s p \<Longrightarrow> length p \<le> length s"
  by (auto simp: HasPrefix_iff)

lemma HasSuffix_iff: "HasSuffix s p \<longleftrightarrow> (\<exists>t. s = t @ p)"
  unfolding HasSuffix_def HasPrefix_iff by (metis rev_append rev_rev_ident)

lemma HasSuffix_append [simp]: "HasSuffix (t @ p) p"
  by (auto simp: HasSuffix_iff)

lemma TrimPrefix_append [simp]: "TrimPrefix (p @ t) p = t"
  by (simp add: TrimPrefix_def)

lemma TrimSuffix_append [simp]: "TrimSuffix (t @ p) p = t"
  by (simp add: TrimSuffix_def)

lemma TrimSpace_Nil [simp]: "TrimSpace [] = []"
  by (simp add: TrimSpace_def)

lemma dropWhile_hd_id: "s = [] \<or> \<not> P (hd s) \<Longrightarrow> dropWhile P s = s"
  by (cases s) auto

lemma TrimSpace_id: "s = [] \<or> \<not> is_space (hd s) \<and> \<not> is_space (last s) \<Longrightarrow> TrimSpace s = s"
  by (auto simp: TrimSpace_def dropWhile_hd_id hd_rev)

lemma TrimSpace_idem [simp]: "TrimSpace (TrimSpace s) = TrimSpace s"
proof (cases "TrimSpace s = []")
  case False
  define u where "u = dropWhile is_space s"
  define v where "v = dropWhile is_space (rev u)"
  have v: "v \<noteq> []" and eq: "TrimSpace s = rev v"
    using False by (auto simp: TrimSpace_def u_def v_def)
  have "\<not> is_space (hd v)" using v unfolding v_def by (rule hd_dropWhile)
  moreover obtain w where "rev u = w @ v" unfolding v_def by (metis takeWhile_dropWhile_id)
  then have u: "u = rev v @ rev w" by (metis rev_append rev_rev_ident)
  then have "hd (rev v) = hd u" and "u \<noteq> []" using v by auto
  moreover have "\<not> is_space (hd u)"
    using \<open>u \<noteq> []\<close> unfolding u_def by (rule hd_dropWhile)
  ultimately show ?thesis unfolding eq by (intro TrimSpace_id) (simp add: last_rev)
qed simp

lemma TrimSpace_pad:
  assumes "list_all is_space a" and "list_all is_space b"
  shows "TrimSpace (a @ s @ b) = TrimSpace s"
proof (cases "list_all is_space s")
  case True
  then have "dropWhile is_space (a @ s @ b) = []" and "dropWhile is_space s = []"
    using assms by (simp_all only: dropWhile_eq_Nil_conv list_all_iff set_append) blast+
  then show ?thesis by (simp only: TrimSpace_def)
next
  case False
  then obtain x where x: "x \<in> set s" "\<not> is_space x" by (auto simp: list_all_iff)
  then have s: "dropWhile is_space (s @ b) = dropWhile is_space s @ b" by (rule dropWhile_append1)
  have "dropWhile is_space (a @ s @ b) = dropWhile is_space (s @ b)"
    using assms by (simp add: list_all_iff)
  moreover have "dropWhile is_space (rev b @ u) = dropWhile is_space u" for u
    using assms(2) by (intro dropWhile_append2) (simp add: list_all_iff)
  ultimately show ?thesis using s by (simp add: TrimSpace_def)
qed

lemma TrimSpace_not_blank: "x \<in> set s \<Longrightarrow> \<not> is_space x \<Longrightarrow> TrimSpace s \<noteq> []"
proof -
  assume "x \<in> set s" "\<not> is_space x"
  then have "x \<in> set (dropWhile is_space s)"
    by (metis Un_iff set_append set_takeWhileD takeWhile_dropWhile_id)
  with \<open>\<not> is_space x\<close> show ?thesis by (auto simp: TrimSpace_def)
qed

lemma split_on_neq_Nil [simp]: "split_on c s \<noteq> []"
  by (cases s) (auto split: list.splits)

lemma split_on_no_sep: "x \<in> set (split_on c s) \<Longrightarrow> c \<notin> set x"
proof (induction s arbitrary: x)
  case (Cons a s)
  then show ?case by (auto split: list.splits if_splits)
qed simp

lemma split_on_append_sep: "split_on c (x @ c # y) = split_on c x @ split_on c y"
  by (induction x) (auto split: list.splits)

lemma split_on_id: "c \<notin> set x \<Longrightarrow> split_on c x = [x]"
  by (induction x) auto

lemma split_on_join:
  "segs \<noteq> [] \<Longrightarrow> \<forall>x \<in> set segs. c \<notin> set x \<Longrightarrow> split_on c (join_with [c] segs) = segs"
  by (induction "[c]" segs rule: join_with.induct) (auto simp: split_on_id split_on_append_sep)

lemma join_with_append:
  "a \<noteq> [] \<Longrightarrow> b \<noteq> [] \<Longrightarrow> join_with sep (a @ b) = join_with sep a @ sep @ join_with sep b"
proof (induction sep a rule: join_with.induct)
  case (2 sep x)
  then show ?case by (cases b) auto
qed auto


subsection \<open>Cleaned paths\<close>

text \<open>
  A cleaned rooted path is determined by its elements: \<open>abs_path segs\<close> for elements that are
  nonempty, are neither \<open>.\<close> nor \<open>..\<close>, and hold no separator. The lemmas below turn the string
  tests of the source (a prefix followed by a separator) into tests on element lists.
\<close>

definition norm_seg :: "string \<Rightarrow> bool" where
  "norm_seg x \<longleftrightarrow> x \<noteq> [] \<and> x \<noteq> ''.'' \<and> x \<noteq> ''..'' \<and> slash \<notin> set x"

definition norm_segs :: "string list \<Rightarrow> bool" where
  "norm_segs segs \<longleftrightarrow> list_all norm_seg segs"

definition abs_path :: "string list \<Rightarrow> string" where
  "abs_path segs = ''/'' @ join_with ''/'' segs"

definition segs_of :: "string \<Rightarrow> string list" where
  "segs_of p = clean_segs True [] (split_on slash p)"

lemma norm_segs_simps [simp]:
  "norm_segs []" "norm_segs (x # xs) \<longleftrightarrow> norm_seg x \<and> norm_segs xs"
  "norm_segs (xs @ ys) \<longleftrightarrow> norm_segs xs \<and> norm_segs ys" "norm_segs (rev xs) \<longleftrightarrow> norm_segs xs"
  by (auto simp: norm_segs_def)

lemma slash_string: "''/'' = [slash]"
  by (simp add: slash_def)

lemma norm_segs_no_slash: "norm_segs segs \<Longrightarrow> \<forall>x \<in> set segs. slash \<notin> set x"
  by (auto simp: norm_segs_def norm_seg_def list_all_iff)

lemma clean_segs_norm:
  "norm_segs st \<Longrightarrow> \<forall>x \<in> set xs. slash \<notin> set x \<Longrightarrow> norm_segs (clean_segs True st xs)"
proof (induction True st xs rule: clean_segs.induct)
  case (2 st x xs)
  then show ?case by (cases st) (auto simp: norm_seg_def)
qed simp

lemma clean_segs_id: "norm_segs xs \<Longrightarrow> clean_segs r st xs = rev st @ xs"
  by (induction xs arbitrary: st) (auto simp: norm_seg_def)

lemma clean_segs_snoc_Nil: "clean_segs r st (xs @ [[]]) = clean_segs r st xs"
  by (induction r st xs rule: clean_segs.induct) (auto split: list.splits)

lemma norm_segs_of [simp, go_path]: "norm_segs (segs_of p)"
  unfolding segs_of_def by (rule clean_segs_norm) (auto dest: split_on_no_sep)

lemma split_abs_path:
  "norm_segs segs \<Longrightarrow> split_on slash (abs_path segs) = [] # (if segs = [] then [[]] else segs)"
  by (simp add: abs_path_def slash_string split_on_join norm_segs_no_slash)

lemma segs_of_abs_path [simp, go_path]: "norm_segs segs \<Longrightarrow> segs_of (abs_path segs) = segs"
  by (simp add: segs_of_def split_abs_path clean_segs_id)

lemma IsAbs_abs_path [simp, go_path]: "IsAbs (abs_path segs)"
  by (simp add: IsAbs_def abs_path_def HasPrefix_Cons)

lemma Clean_abs [go_path]: "IsAbs p \<Longrightarrow> Clean p = abs_path (segs_of p)"
  by (auto simp: Clean_def abs_path_def segs_of_def IsAbs_def HasPrefix_Cons)

lemma Clean_abs_path [simp, go_path]: "norm_segs segs \<Longrightarrow> Clean (abs_path segs) = abs_path segs"
  by (simp add: Clean_abs)

lemma Clean_idem_abs: "IsAbs p \<Longrightarrow> Clean (Clean p) = Clean p"
  by (simp add: Clean_abs)

lemma abs_path_inject:
  "norm_segs a \<Longrightarrow> norm_segs b \<Longrightarrow> abs_path a = abs_path b \<longleftrightarrow> a = b"
  by (metis segs_of_abs_path)

lemma abs_path_neq [simp]: "abs_path a \<noteq> []" "abs_path a \<noteq> ''.''" "abs_path a \<noteq> ''..''"
  by (auto simp: abs_path_def)

lemma abs_path_root: "norm_segs a \<Longrightarrow> abs_path a = ''/'' \<longleftrightarrow> a = []"
  using abs_path_inject [of a "[]"] by (simp add: abs_path_def)

text \<open>
  The containment test of the source: \<open>b\<close> lies strictly below \<open>a\<close> iff its path starts with the
  path of \<open>a\<close> and a separator. The root is the special case, since its path already ends in one.
\<close>

lemma abs_path_below:
  assumes a: "norm_segs a" and b: "norm_segs b" and ne: "a \<noteq> []"
  shows "HasPrefix (abs_path b) (abs_path a @ ''/'') \<longleftrightarrow> strict_prefix a b"
proof
  assume "HasPrefix (abs_path b) (abs_path a @ ''/'')"
  then obtain t where t: "abs_path b = abs_path a @ slash # t"
    by (auto simp: HasPrefix_iff slash_string)
  have "split_on slash (abs_path b) = split_on slash (abs_path a) @ split_on slash t"
    unfolding t by (rule split_on_append_sep)
  then have "(if b = [] then [[]] else b) = a @ split_on slash t"
    using a b ne by (simp add: split_abs_path)
  moreover have "b \<noteq> []"
  proof
    assume "b = []"
    then show False using t ne by (auto simp: abs_path_def)
  qed
  ultimately show "strict_prefix a b" by (auto simp: strict_prefix_def)
next
  assume "strict_prefix a b"
  then obtain c where "b = a @ c" "c \<noteq> []" by (auto simp: strict_prefix_def prefix_def)
  then show "HasPrefix (abs_path b) (abs_path a @ ''/'')"
    using ne by (simp add: abs_path_def join_with_append HasPrefix_iff)
qed

lemma abs_path_below_root: "HasPrefix (abs_path b) ''/''"
  by (simp add: abs_path_def HasPrefix_Cons)

lemma abs_path_snoc:
  "abs_path (xs @ [x]) = (if xs = [] then ''/'' else abs_path xs @ ''/'') @ x"
  by (simp add: abs_path_def join_with_append)

lemma dropWhile_no_slash:
  "slash \<notin> set x \<Longrightarrow> rev (dropWhile (\<lambda>c. c \<noteq> slash) (rev x @ slash # rev a)) = a @ [slash]"
  by (subst dropWhile_append2) auto

lemma Clean_trailing:
  assumes "norm_segs xs"
  shows "Clean (abs_path xs @ ''/'') = abs_path xs"
proof -
  have "IsAbs (abs_path xs @ ''/'')" by (simp add: IsAbs_def abs_path_def HasPrefix_Cons)
  moreover have "segs_of (abs_path xs @ ''/'') = xs"
    using assms by (simp add: segs_of_def slash_string split_on_append_sep [where y = "[]", simplified]
        split_abs_path clean_segs_snoc_Nil clean_segs_id)
  ultimately show ?thesis by (simp add: Clean_abs)
qed

lemma PathDir_abs_path [go_path]:
  assumes "norm_segs xs"
  shows "PathDir (abs_path xs) = abs_path (butlast xs)"
proof (cases xs rule: rev_cases)
  case Nil
  then show ?thesis by (simp add: PathDir_def abs_path_def Clean_def slash_def IsAbs_def HasPrefix_Cons)
next
  case (snoc ys y)
  then have y: "slash \<notin> set y" and ys: "norm_segs ys" using assms by (simp_all add: norm_seg_def)
  have "PathDir (abs_path xs) = Clean ((if ys = [] then [] else abs_path ys) @ ''/'')"
    using dropWhile_no_slash [OF y, of "if ys = [] then [] else abs_path ys"]
    by (simp add: PathDir_def snoc abs_path_snoc slash_string split: if_splits)
  also have "\<dots> = abs_path ys"
    using Clean_trailing [OF ys] Clean_abs_path [of "[]"] by (auto simp: abs_path_def)
  finally show ?thesis by (simp add: snoc)
qed

subsection \<open>Cleaning is idempotent\<close>

text \<open>
  A cleaned relative path is some number of leading \<open>..\<close> followed by ordinary elements: the stack
  (kept last element first) always has that shape.
\<close>

definition rel_segs :: "string list \<Rightarrow> bool" where
  "rel_segs segs \<longleftrightarrow> (\<exists>n ys. segs = replicate n ''..'' @ ys \<and> norm_segs ys)"

lemma rel_segs_Nil [simp]: "rel_segs []"
  by (auto simp: rel_segs_def)

lemma rel_segs_snoc: "rel_segs xs \<Longrightarrow> norm_seg x \<Longrightarrow> rel_segs (xs @ [x])"
  unfolding rel_segs_def by (elim exE conjE, rule_tac x = n in exI, rule_tac x = "ys @ [x]" in exI) simp

lemma rel_segs_snoc_dots: "rel_segs (xs @ [''..'']) \<Longrightarrow> rel_segs (xs @ [''..'', ''..''])"
proof -
  assume "rel_segs (xs @ [''..''])"
  then obtain n ys where eq: "xs @ [''..''] = replicate n ''..'' @ ys" and ys: "norm_segs ys"
    unfolding rel_segs_def by blast
  have "ys = []"
  proof (rule ccontr)
    assume "ys \<noteq> []"
    then have "last ys = ''..''" using eq by (metis last_appendR last_snoc)
    then show False using ys \<open>ys \<noteq> []\<close> last_in_set [of ys]
      by (auto simp: norm_segs_def list_all_iff norm_seg_def)
  qed
  then have "xs @ [''..'', ''..''] = replicate (Suc n) ''..'' @ []"
    using eq by (simp add: replicate_append_same [symmetric])
  then show ?thesis unfolding rel_segs_def by (metis norm_segs_simps(1))
qed

lemma rel_segs_butlast: "rel_segs (xs @ [x]) \<Longrightarrow> rel_segs xs"
proof -
  assume "rel_segs (xs @ [x])"
  then obtain n ys where eq: "xs @ [x] = replicate n ''..'' @ ys" and ys: "norm_segs ys"
    unfolding rel_segs_def by blast
  show "rel_segs xs"
  proof (cases ys rule: rev_cases)
    case Nil
    then obtain m where "n = Suc m" using eq by (cases n) auto
    then have "xs = replicate m ''..''"
      using eq Nil by (simp add: replicate_append_same [symmetric])
    then show ?thesis unfolding rel_segs_def by (metis append_Nil2 norm_segs_simps(1))
  next
    case (snoc zs z)
    then show ?thesis using eq ys unfolding rel_segs_def by auto
  qed
qed

lemma rel_segs_dots [simp]: "rel_segs [''..'']"
  unfolding rel_segs_def by (rule exI [of _ "Suc 0"], rule exI [of _ "[]"]) simp

lemma clean_segs_rel:
  "rel_segs (rev st) \<Longrightarrow> \<forall>x \<in> set xs. slash \<notin> set x \<Longrightarrow> rel_segs (clean_segs False st xs)"
proof (induction xs arbitrary: st)
  case (Cons x xs)
  then have IH: "rel_segs (rev st') \<Longrightarrow> rel_segs (clean_segs False st' xs)" for st' by simp
  consider "x = [] \<or> x = ''.''" | "x = ''..''" | "norm_seg x"
    using Cons.prems(2) by (auto simp: norm_seg_def)
  then show ?case
  proof cases
    case 1
    then show ?thesis using IH [OF Cons.prems(1)] by auto
  next
    case 2
    show ?thesis
    proof (cases st)
      case Nil
      then show ?thesis using 2 IH [of "[''..'']"] by simp
    next
      case (Cons t ts)
      then have st: "rel_segs (rev ts @ [t])" using \<open>rel_segs (rev st)\<close> by simp
      show ?thesis
      proof (cases "t = ''..''")
        case True
        then have "rel_segs (rev (x # st))" using rel_segs_snoc_dots [of "rev ts"] st Cons 2 by simp
        then show ?thesis using IH 2 True Cons by simp
      next
        case False
        then show ?thesis using IH [of ts] rel_segs_butlast [OF st] 2 Cons by simp
      qed
    qed
  next
    case 3
    then have "rel_segs (rev (x # st))" using rel_segs_snoc Cons.prems(1) by simp
    then show ?thesis using IH 3 by (simp add: norm_seg_def)
  qed
qed simp

lemma clean_segs_dots: "clean_segs False (replicate k ''..'') (replicate n ''..'' @ ys) =
  clean_segs False (replicate (n + k) ''..'') ys"
proof (induction n arbitrary: k)
  case (Suc n)
  then show ?case using Suc.IH [of "Suc k"] by (cases k) simp_all
qed simp

lemma clean_segs_rel_id: "rel_segs segs \<Longrightarrow> clean_segs False [] segs = segs"
  using clean_segs_dots [of 0] by (auto simp: rel_segs_def clean_segs_id)

lemma rel_segs_seg: "rel_segs segs \<Longrightarrow> x \<in> set segs \<Longrightarrow> x \<noteq> [] \<and> slash \<notin> set x"
  unfolding rel_segs_def
proof (elim exE conjE)
  fix n ys
  assume "segs = replicate n ''..'' @ ys" "norm_segs ys" "x \<in> set segs"
  then consider "x = ''..''" | "norm_seg x" by (auto simp: norm_segs_def list_all_iff)
  then show "x \<noteq> [] \<and> slash \<notin> set x" by cases (simp_all add: norm_seg_def slash_def)
qed

lemma Clean_dot: "Clean ''.'' = ''.''"
  by (simp add: Clean_def IsAbs_def HasPrefix_Cons slash_def)

lemma Clean_rel_cases:
  assumes "\<not> IsAbs p"
  obtains (dot) "Clean p = ''.''"
  | (segs) segs where "Clean p = join_with ''/'' segs" "rel_segs segs" "segs \<noteq> []"
proof -
  define segs where "segs = clean_segs False [] (split_on slash p)"
  have rel: "rel_segs segs"
    unfolding segs_def by (rule clean_segs_rel) (auto dest: split_on_no_sep)
  have "Clean p = (if p = [] \<or> segs = [] then ''.'' else join_with ''/'' segs)"
    using assms by (simp add: Clean_def segs_def Let_def)
  then show thesis using rel that by (auto split: if_splits)
qed

lemma join_rel_segs:
  assumes rel: "rel_segs segs" and ne: "segs \<noteq> []"
  shows "\<not> IsAbs (join_with ''/'' segs)" and "join_with ''/'' segs \<noteq> []"
    and "split_on slash (join_with ''/'' segs) = segs"
proof -
  obtain x xs where Cons: "segs = x # xs" using ne by (cases segs) auto
  then have x: "x \<noteq> []" "slash \<notin> set x" using rel_segs_seg [OF rel] by auto
  obtain y where "join_with ''/'' segs = x @ y" unfolding Cons by (cases xs) auto
  then show "\<not> IsAbs (join_with ''/'' segs)" "join_with ''/'' segs \<noteq> []"
    using x by (auto simp: IsAbs_def slash_def HasPrefix_Cons neq_Nil_conv)
  show "split_on slash (join_with ''/'' segs) = segs"
    using rel_segs_seg [OF rel] ne by (simp add: slash_string split_on_join)
qed

lemma Clean_idem [simp]: "Clean (Clean p) = Clean p"
proof (cases "IsAbs p")
  case True
  then show ?thesis by (rule Clean_idem_abs)
next
  case False
  then show ?thesis
  proof (cases rule: Clean_rel_cases)
    case dot
    then show ?thesis by (simp add: Clean_dot)
  next
    case (segs segs)
    then show ?thesis
      using join_rel_segs [OF segs(2,3)] clean_segs_rel_id [OF segs(2)] by (simp add: Clean_def)
  qed
qed

lemma Clean_neq_Nil [simp]: "Clean p \<noteq> []"
proof
  assume "Clean p = []"
  then have "Clean [] = []" by (metis Clean_idem)
  then show False by (simp add: Clean_def)
qed

lemma Clean_rel: "\<not> IsAbs p \<Longrightarrow> \<not> IsAbs (Clean p)"
  by (erule Clean_rel_cases) (auto simp: join_rel_segs IsAbs_def [of "''.''"] HasPrefix_Cons)

lemma IsAbs_Clean [simp]: "IsAbs (Clean p) \<longleftrightarrow> IsAbs p"
  using Clean_rel [of p] by (cases "IsAbs p") (simp_all add: Clean_abs)

subsection \<open>Decoded JSON\<close>

text \<open>
  A value as the JSON decoder delivers it (\<open>any\<close>): a number is kept as the text \<open>%v\<close> prints for it. The
  two typed slices are the shapes an adapter may build without decoding.
\<close>

datatype json =
  JNull | JBool bool | JNumber string | JString string | JList "json list"
| JMap "(string \<times> json) list" | JStrings "string list" | JMaps "(string \<times> json) list list"

end
