(* ===== verification/Rule_Scan.thy ===== *)
theory Rule_Scan
  imports Go_Prelude
begin

text \<open>
  The contract behind every rule list of the permission system: the list is scanned in declaration
  order and the first entry that hits decides, and is reported. Deny patterns of a worker, entries
  of the operator's policy and protected roots are all read this way; each of those scanners is an
  interpretation of the locale on its own definitions.
\<close>

locale first_match =
  fixes scan :: "'e list \<Rightarrow> 't \<Rightarrow> 'e option"
    and hit :: "'e \<Rightarrow> 't \<Rightarrow> bool"
  assumes scan_Nil: "scan [] t = None"
    and scan_Cons: "scan (e # es) t = (if hit e t then Some e else scan es t)"
begin

lemma scan_find: "scan es t = find (\<lambda>e. hit e t) es"
  by (induction es) (simp_all add: scan_Nil scan_Cons)

lemma scan_None: "scan es t = None \<longleftrightarrow> (\<forall>e \<in> set es. \<not> hit e t)"
  by (auto simp: scan_find find_None_iff)

lemma scan_Some_hit: "scan es t = Some e \<Longrightarrow> e \<in> set es \<and> hit e t"
  by (auto simp: scan_find find_Some_iff)

lemma scan_append: "scan (xs @ ys) t = (case scan xs t of Some e \<Rightarrow> Some e | None \<Rightarrow> scan ys t)"
  by (induction xs) (simp_all add: scan_Nil scan_Cons)

lemma scan_first:
  "scan es t = Some e \<Longrightarrow> \<exists>us vs. es = us @ e # vs \<and> hit e t \<and> (\<forall>u \<in> set us. \<not> hit u t)"
proof (induction es)
  case (Cons x es)
  show ?case
  proof (cases "hit x t")
    case True
    then show ?thesis using Cons.prems by (intro exI [of _ "[]"] exI [of _ es]) (simp add: scan_Cons)
  next
    case False
    then obtain us vs where "es = us @ e # vs" "hit e t" "\<forall>u \<in> set us. \<not> hit u t"
      using Cons by (auto simp: scan_Cons)
    then show ?thesis using False by (intro exI [of _ "x # us"] exI [of _ vs]) simp
  qed
qed (simp add: scan_Nil)

lemma scan_Some:
  "scan es t = Some e \<longleftrightarrow> (\<exists>us vs. es = us @ e # vs \<and> hit e t \<and> (\<forall>u \<in> set us. \<not> hit u t))"
  (is "_ \<longleftrightarrow> ?first")
proof
  assume ?first
  then obtain us vs where "es = us @ e # vs" "hit e t" "scan us t = None"
    by (auto simp: scan_None)
  then show "scan es t = Some e" by (simp add: scan_append scan_Cons)
qed (rule scan_first)

lemma scan_more: "scan xs t \<noteq> None \<Longrightarrow> set xs \<subseteq> set ys \<Longrightarrow> scan ys t \<noteq> None"
  by (auto simp: scan_None)

end

end
