(* ===== verification/Perm_Policy.thy ===== *)
theory Perm_Policy
  imports Rule_Scan
begin

text \<open>
  Package \<open>internal/permpolicy\<close>: the operator's permission policy, its file store and \<open>Decide\<close>, the
  one implementation of the precedence chain. Code outside the repository is gathered in the record
  \<open>deps\<close>: the doublestar matcher and validator, the YAML decoder and encoder, and the home
  directory the operating system reports. The file system is a map from paths to contents.
\<close>

subsection \<open>Data\<close>

datatype list_name = ListDeny | ListAccept

datatype verdict =
  VerdictNone | VerdictDeny | VerdictGrant | VerdictAccept | VerdictProject | VerdictAsk

record policy =
  Deny :: "string list"
  Accept :: "string list"

record decision =
  Verdict :: verdict
  Entry :: string
  InList :: list_name

record inputs =
  SessionGranted :: bool

text \<open>
  What a path holds: nothing, a regular file with its bytes, a file that can be stat'ed but not read,
  or one whose stat fails with an error other than "does not exist".
\<close>

datatype file_state = Absent | Unreadable | Unstatable | Content string

datatype yaml = YamlEOF | YamlError | YamlPolicy policy

text \<open>The errors of reading a policy, and the error \<open>Decide\<close> wraps them in.\<close>

datatype load_error =
  ReadError | ParseError | EmptyEntry list_name | MalformedEntry list_name string

datatype policy_error =
  PolicyLoadError string load_error
| Denied string string string
| UnknownList string

record deps =
  PathMatch :: "string \<Rightarrow> string \<Rightarrow> bool option"
  ValidatePattern :: "string \<Rightarrow> bool"
  Decode :: "string \<Rightarrow> yaml"
  Marshal :: "policy \<Rightarrow> string"
  UserHomeDir :: "string option"
  HomeEnv :: string

type_synonym fs = "string \<Rightarrow> file_state"

definition List_String :: "list_name \<Rightarrow> string" where
  "List_String l = (if l = ListAccept then ''accept'' else ''deny'')"

definition ParseList :: "string \<Rightarrow> policy_error + list_name" where
  "ParseList s =
     (let n = ToLower (TrimSpace s)
      in if n = ''deny'' then Inr ListDeny
         else if n = ''accept'' then Inr ListAccept
         else Inl (UnknownList s))"

definition Verdict_String :: "verdict \<Rightarrow> string" where
  "Verdict_String v =
     (case v of VerdictDeny \<Rightarrow> ''deny'' | VerdictGrant \<Rightarrow> ''session_grant'' | VerdictAccept \<Rightarrow> ''accept''
      | VerdictProject \<Rightarrow> ''project'' | VerdictAsk \<Rightarrow> ''ask'' | VerdictNone \<Rightarrow> ''none'')"

definition Proceed :: "verdict \<Rightarrow> bool" where
  "Proceed v = (case v of VerdictDeny \<Rightarrow> False | VerdictAsk \<Rightarrow> False | VerdictNone \<Rightarrow> False | _ \<Rightarrow> True)"

definition Empty :: "policy \<Rightarrow> bool" where
  "Empty p \<longleftrightarrow> length (Deny p) = 0 \<and> length (Accept p) = 0"

definition no_policy :: policy where
  "no_policy = \<lparr>Deny = [], Accept = []\<rparr>"

text \<open>\<open>DefaultPath\<close>, \<open>dataDir\<close> and \<open>ExplicitPath\<close>: the environment is an argument.\<close>

definition dataDir :: "(string \<Rightarrow> string) \<Rightarrow> string" where
  "dataDir getenv =
     (let v = TrimSpace (getenv ''ORCHICON_DATA_DIR'') in if v \<noteq> [] then v else ''/var/lib/orchicon'')"

definition DefaultPath :: "(string \<Rightarrow> string) \<Rightarrow> string" where
  "DefaultPath getenv =
     (let v = TrimSpace (getenv ''ORCHICON_PERMISSION_POLICY'')
      in if v \<noteq> [] then v else PathJoin [dataDir getenv, ''permission-policy.yaml''])"

definition ExplicitPath :: "(string \<Rightarrow> string) \<Rightarrow> bool" where
  "ExplicitPath getenv \<longleftrightarrow> TrimSpace (getenv ''ORCHICON_PERMISSION_POLICY'') \<noteq> []"

subsection \<open>Matching\<close>

definition home :: "deps \<Rightarrow> string" where
  "home D = (case UserHomeDir D of Some h \<Rightarrow> if h \<noteq> [] then h else HomeEnv D | None \<Rightarrow> HomeEnv D)"

definition expandHome :: "deps \<Rightarrow> string \<Rightarrow> string" where
  "expandHome D p =
     (let s = TrimSpace p
      in if s = ''~'' then home D
         else if HasPrefix s ''~/'' then PathJoin [home D, drop 2 s]
         else if s = ''$HOME'' \<or> s = ''${HOME}'' then home D
         else if HasPrefix s ''$HOME/'' then PathJoin [home D, drop (length ''$HOME/'') s]
         else if HasPrefix s ''${HOME}/'' then PathJoin [home D, drop (length ''${HOME}/'') s]
         else s)"

definition matchPattern :: "deps \<Rightarrow> string \<Rightarrow> string \<Rightarrow> bool" where
  "matchPattern D entry target =
     (let pat = expandHome D entry
      in if pat = [] \<or> target = [] then False
         else if pat = target then True
         else if HasSuffix pat ''/**'' \<and> TrimSuffix pat ''/**'' = target then True
         else if PathMatch D pat target = Some True then True
         else False)"

definition candidates :: "deps \<Rightarrow> string \<Rightarrow> string list" where
  "candidates D target =
     (let exp = expandHome D target in if exp \<noteq> target then [target, exp] else [target])"

fun matchAny :: "deps \<Rightarrow> string list \<Rightarrow> string \<Rightarrow> string option" where
  "matchAny D [] target = None"
| "matchAny D (e # entries) target =
     (if list_ex (matchPattern D e) (candidates D target) then Some e
      else matchAny D entries target)"

subsection \<open>Loading\<close>

fun check_entries :: "deps \<Rightarrow> list_name \<Rightarrow> string list \<Rightarrow> load_error option" where
  "check_entries D half [] = None"
| "check_entries D half (e # es) =
     (if TrimSpace e = [] then Some (EmptyEntry half)
      else if \<not> ValidatePattern D (expandHome D e) then Some (MalformedEntry half e)
      else check_entries D half es)"

definition Parse :: "deps \<Rightarrow> string \<Rightarrow> load_error + policy" where
  "Parse D b =
     (if TrimSpace b = [] then Inr no_policy
      else (case Decode D b of
              YamlEOF \<Rightarrow> Inr no_policy
            | YamlError \<Rightarrow> Inl ParseError
            | YamlPolicy p \<Rightarrow>
                (case check_entries D ListDeny (Deny p) of
                   Some e \<Rightarrow> Inl e
                 | None \<Rightarrow> (case check_entries D ListAccept (Accept p) of
                             Some e \<Rightarrow> Inl e
                           | None \<Rightarrow> Inr p))))"

definition Load :: "deps \<Rightarrow> fs \<Rightarrow> string \<Rightarrow> load_error + policy" where
  "Load D fs path =
     (case fs path of
        Absent \<Rightarrow> Inr no_policy
      | Unreadable \<Rightarrow> Inl ReadError
      | Unstatable \<Rightarrow> Inl ReadError
      | Content b \<Rightarrow> Parse D b)"

subsection \<open>The store\<close>

definition StoreRead :: "deps \<Rightarrow> fs \<Rightarrow> string \<Rightarrow> load_error + policy" where
  "StoreRead D fs path = Load D fs path"

definition DenyBelow :: "deps \<Rightarrow> fs \<Rightarrow> string \<Rightarrow> string \<Rightarrow> load_error + string list" where
  "DenyBelow D fs path dir =
     (let d = Clean (expandHome D (TrimSpace dir))
      in if d = [] \<or> d = ''.'' then Inr []
         else (let prefix = (if \<not> HasSuffix d ''/'' then d @ ''/'' else d)
               in case StoreRead D fs path of
                    Inl e \<Rightarrow> Inl e
                  | Inr p \<Rightarrow>
                      Inr (filter (\<lambda>e. let pat = Clean (expandHome D e)
                                       in pat = d \<or> HasPrefix pat prefix) (Deny p))))"

definition Decide :: "deps \<Rightarrow> fs \<Rightarrow> string \<Rightarrow> string \<Rightarrow> inputs \<Rightarrow> policy_error + decision" where
  "Decide D fs path target inp =
     (case StoreRead D fs path of
        Inl e \<Rightarrow> Inl (PolicyLoadError path e)
      | Inr p \<Rightarrow>
          (case matchAny D (Deny p) target of
             Some entry \<Rightarrow> Inr \<lparr>Verdict = VerdictDeny, Entry = entry, InList = ListDeny\<rparr>
           | None \<Rightarrow>
               if SessionGranted inp then
                 Inr \<lparr>Verdict = VerdictGrant, Entry = [], InList = ListDeny\<rparr>
               else (case matchAny D (Accept p) target of
                       Some entry \<Rightarrow> Inr \<lparr>Verdict = VerdictAccept, Entry = entry, InList = ListAccept\<rparr>
                     | None \<Rightarrow> Inr \<lparr>Verdict = VerdictAsk, Entry = [], InList = ListDeny\<rparr>)))"

definition Consult :: "deps \<Rightarrow> fs \<Rightarrow> string \<Rightarrow> string \<Rightarrow> policy_error + decision" where
  "Consult D fs path target = Decide D fs path target \<lparr>SessionGranted = False\<rparr>"

definition Refusal :: "string \<Rightarrow> string \<Rightarrow> string \<Rightarrow> policy_error" where
  "Refusal path target entry = Denied path target entry"

definition IsPolicyLoadFailure :: "policy_error \<Rightarrow> bool" where
  "IsPolicyLoadFailure e = (case e of PolicyLoadError _ _ \<Rightarrow> True | _ \<Rightarrow> False)"

text \<open>\<open>HostSuiteGuard\<close>: \<open>None\<close> is the nil error, the paths may proceed.\<close>

fun HostSuiteGuard :: "deps \<Rightarrow> fs \<Rightarrow> string \<Rightarrow> string list \<Rightarrow> policy_error option" where
  "HostSuiteGuard D fs path [] = None"
| "HostSuiteGuard D fs path (target # paths) =
     (if TrimSpace target = [] then HostSuiteGuard D fs path paths
      else (case Decide D fs path target \<lparr>SessionGranted = False\<rparr> of
              Inl e \<Rightarrow> Some e
            | Inr d \<Rightarrow> if Verdict d = VerdictDeny then Some (Refusal path target (Entry d))
                       else HostSuiteGuard D fs path paths))"

subsection \<open>Writing the file\<close>

text \<open>
  \<open>WriteFile\<close> in the order of its system calls. Which call fails is an argument, and so are the lengths of what
  a reader of the temporary file may find while it is being written, and whether the removal of the
  temporary file after a failure works (its error is ignored). The result lists every state of the files
  the call passes through, the last one being the final state, with the error of the failing call.
\<close>

datatype write_step = MarshalPolicy | MkdirAll | CreateTemp | WriteTemp | ChmodTemp | CloseTemp | Rename

record write_run =
  failing :: "write_step option"
  cuts :: "nat list"
  remove_fails :: bool

definition fileHeader :: string where
  "fileHeader =
     ''# Orchicon permission policy '' @ [CHR 0xE2, CHR 0x80, CHR 0x94] @
     '' read on every gated decision; edits take effect immediately.'' @ [CHR 0x0A] @
     ''# deny  : always refused. A session grant CANNOT override an entry here.'' @ [CHR 0x0A] @
     ''# accept: never prompts. Precedence: never-allow binaries > deny > session grant > accept > ask.'' @
     [CHR 0x0A] @ ''# Patterns are doublestar globs; a leading ~ is the operator'' @ [CHR 0x27] @
     ''s home.'' @ [CHR 0x0A]"

definition WriteTmp :: "write_run \<Rightarrow> string \<Rightarrow> string \<Rightarrow> fs list \<Rightarrow> fs list" where
  "WriteTmp R tmp bytes states = states @ map (\<lambda>n. (last states)(tmp := Content (take n bytes))) (cuts R)"

definition RemoveTmp :: "write_run \<Rightarrow> string \<Rightarrow> fs list \<Rightarrow> fs list" where
  "RemoveTmp R tmp states = (if remove_fails R then states else states @ [(last states)(tmp := Absent)])"

definition WriteFile ::
    "deps \<Rightarrow> write_run \<Rightarrow> string \<Rightarrow> fs \<Rightarrow> string \<Rightarrow> policy \<Rightarrow> write_step option \<times> fs list" where
  "WriteFile D R tmp fs path p =
     (if failing R = Some MarshalPolicy \<or> failing R = Some MkdirAll \<or> failing R = Some CreateTemp then (failing R, [fs])
      else
        let bytes = fileHeader @ Marshal D p;
            states = WriteTmp R tmp bytes [fs, fs(tmp := Content [])]
        in if failing R = Some WriteTemp then (failing R, RemoveTmp R tmp states)
           else
             let states = states @ [(last states)(tmp := Content bytes)]
             in if failing R = Some ChmodTemp \<or> failing R = Some CloseTemp \<or> failing R = Some Rename
                then (failing R, RemoveTmp R tmp states)
                else (None, states @ [(last states)(path := last states tmp, tmp := Absent)]))"

definition PresetYAML :: string where
  "PresetYAML =
     ''deny:'' @ [CHR 0x0A] @ ''  - ~/.ssh/**'' @ [CHR 0x0A] @ ''  - ~/.gnupg/**'' @ [CHR 0x0A] @
     ''  - ~/.aws/**'' @ [CHR 0x0A] @ ''  - ~/.config/gh/**'' @ [CHR 0x0A] @
     ''  - ~/.git-credentials'' @ [CHR 0x0A] @ ''  - ~/.netrc'' @ [CHR 0x0A] @
     ''  - ~/.docker/config.json'' @ [CHR 0x0A] @ ''accept: []'' @ [CHR 0x0A]"

text \<open>\<open>MustParsePreset\<close> panics where \<open>Parse\<close> fails: \<open>None\<close> is the panic.\<close>

definition MustParsePreset :: "deps \<Rightarrow> policy option" where
  "MustParsePreset D = (case Parse D PresetYAML of Inl _ \<Rightarrow> None | Inr p \<Rightarrow> Some p)"

datatype boot_error = Panic | StatFailed | WriteFailed write_step | LoadFailed load_error

definition EnsureDefault ::
    "deps \<Rightarrow> (string \<Rightarrow> string) \<Rightarrow> write_run \<Rightarrow> string \<Rightarrow> fs \<Rightarrow> string \<Rightarrow> boot_error option \<times> fs" where
  "EnsureDefault D getenv R tmp fs path =
     (if ExplicitPath getenv then (None, fs)
      else (case fs path of
              Content _ \<Rightarrow> (None, fs)
            | Unreadable \<Rightarrow> (None, fs)
            | Unstatable \<Rightarrow> (Some StatFailed, fs)
            | Absent \<Rightarrow>
                (case MustParsePreset D of
                   None \<Rightarrow> (Some Panic, fs)
                 | Some p \<Rightarrow>
                     (case WriteFile D R tmp fs path p of
                        (Some st, states) \<Rightarrow> (Some (WriteFailed st), last states)
                      | (None, states) \<Rightarrow> (None, last states)))))"

definition Boot ::
    "deps \<Rightarrow> (string \<Rightarrow> string) \<Rightarrow> write_run \<Rightarrow> string \<Rightarrow> fs \<Rightarrow> string \<Rightarrow> boot_error option \<times> fs" where
  "Boot D getenv R tmp fs path =
     (case EnsureDefault D getenv R tmp fs path of
        (Some e, fs') \<Rightarrow> (Some e, fs')
      | (None, fs') \<Rightarrow>
          (case Load D fs' path of Inl e \<Rightarrow> (Some (LoadFailed e), fs') | Inr _ \<Rightarrow> (None, fs')))"


subsection \<open>The precedence chain\<close>

definition entry_hit :: "deps \<Rightarrow> string \<Rightarrow> string \<Rightarrow> bool" where
  "entry_hit D e target \<longleftrightarrow> list_ex (matchPattern D e) (candidates D target)"

interpretation policy_rules: first_match "matchAny D" "entry_hit D" for D
  by unfold_locales (simp_all add: entry_hit_def)

lemma matchAny_hit: "matchAny D es target \<noteq> None \<longleftrightarrow> list_ex (\<lambda>e. entry_hit D e target) es"
  by (auto simp: policy_rules.scan_None list_ex_iff)

lemmas Decide_simps = Decide_def StoreRead_def

lemma Decide_loaded:
  assumes "Load D fs path = Inr p"
  shows "Decide D fs path target inp =
    (case matchAny D (Deny p) target of
       Some entry \<Rightarrow> Inr \<lparr>Verdict = VerdictDeny, Entry = entry, InList = ListDeny\<rparr>
     | None \<Rightarrow>
         if SessionGranted inp then Inr \<lparr>Verdict = VerdictGrant, Entry = [], InList = ListDeny\<rparr>
         else (case matchAny D (Accept p) target of
                 Some entry \<Rightarrow> Inr \<lparr>Verdict = VerdictAccept, Entry = entry, InList = ListAccept\<rparr>
               | None \<Rightarrow> Inr \<lparr>Verdict = VerdictAsk, Entry = [], InList = ListDeny\<rparr>))"
  using assms by (simp add: Decide_simps)

text \<open>
  C16. Deny outranks everything below it: once a policy is loaded, a target some deny entry covers is
  refused whatever the session has been granted and whatever the accept list says, and the refusal
  names the first such entry in the operator's file order.
\<close>

theorem deny_outranks_grant:
  assumes "Load D fs path = Inr p" and "Deny p = us @ e # vs"
    and "entry_hit D e target" and "list_all (\<lambda>u. \<not> entry_hit D u target) us"
  shows "Decide D fs path target inp =
    Inr \<lparr>Verdict = VerdictDeny, Entry = e, InList = ListDeny\<rparr>"
proof -
  have "matchAny D (Deny p) target = Some e"
    using assms(2-4) by (subst policy_rules.scan_Some) (auto simp: list_all_iff)
  then show ?thesis by (simp add: Decide_loaded [OF assms(1)])
qed

text \<open>A concrete instance of the outside code, for witnesses: no globbing beyond the literal rules.\<close>

definition sample_policy :: policy where
  "sample_policy = \<lparr>Deny = [''~/.ssh/**''], Accept = [''/home/me/.ssh/**'', ''/srv'']\<rparr>"

definition sample_deps :: deps where
  "sample_deps =
     \<lparr>PathMatch = (\<lambda>pat t. Some (HasSuffix pat ''/**'' \<and> HasPrefix t (TrimSuffix pat ''**''))),
      ValidatePattern = (\<lambda>_. True), Decode = (\<lambda>_. YamlPolicy sample_policy), Marshal = (\<lambda>_. ''x''),
      UserHomeDir = Some ''/home/me'', HomeEnv = []\<rparr>"

lemma sample_load: "Load sample_deps (\<lambda>_. Content ''x'') path = Inr sample_policy"
proof -
  have "Parse sample_deps ''x'' = Inr sample_policy" by code_simp
  then show ?thesis by (simp add: Load_def)
qed

theorem deny_outranks_grant_witness:
  "Decide sample_deps (\<lambda>_. Content ''x'') ''p'' ''/home/me/.ssh/id_rsa'' \<lparr>SessionGranted = True\<rparr> =
     Inr \<lparr>Verdict = VerdictDeny, Entry = ''~/.ssh/**'', InList = ListDeny\<rparr>"
proof (rule deny_outranks_grant [OF sample_load])
  show "Deny sample_policy = [] @ ''~/.ssh/**'' # []" by (simp add: sample_policy_def)
  show "entry_hit sample_deps ''~/.ssh/**'' ''/home/me/.ssh/id_rsa''" by code_simp
qed simp

text \<open>
  The chain below the deny list, and its end: with no deny entry on the target the verdict is the
  session grant if there is one, else accept if an accept entry covers the target, else ask. In
  particular the project verdict, which the package comment lists as a rung, is never returned.
\<close>

theorem Decide_chain:
  assumes "Load D fs path = Inr p" and "Decide D fs path target inp = Inr d"
  shows "Verdict d =
      (if list_ex (\<lambda>e. entry_hit D e target) (Deny p) then VerdictDeny
       else if SessionGranted inp then VerdictGrant
       else if list_ex (\<lambda>e. entry_hit D e target) (Accept p) then VerdictAccept
       else VerdictAsk) \<and>
    Verdict d \<noteq> VerdictProject \<and> Verdict d \<noteq> VerdictNone"
  using assms(2) matchAny_hit [of D "Deny p" target] matchAny_hit [of D "Accept p" target]
  by (auto simp: Decide_loaded [OF assms(1)] split: option.splits if_splits)

theorem Decide_chain_witness:
  "Decide sample_deps (\<lambda>_. Content ''x'') ''p'' ''/opt'' \<lparr>SessionGranted = False\<rparr> =
     Inr \<lparr>Verdict = VerdictAsk, Entry = [], InList = ListDeny\<rparr> \<and>
   Verdict \<lparr>Verdict = VerdictAsk, Entry = [], InList = ListDeny\<rparr> \<noteq> VerdictProject"
proof -
  have d: "Decide sample_deps (\<lambda>_. Content ''x'') ''p'' ''/opt'' \<lparr>SessionGranted = False\<rparr> =
     Inr \<lparr>Verdict = VerdictAsk, Entry = [], InList = ListDeny\<rparr>"
    by code_simp
  show ?thesis using d Decide_chain [OF sample_load d] by simp
qed


lemma Decide_deny_iff:
  assumes "Load D fs path = Inr p"
  shows "(\<exists>d. Decide D fs path target inp = Inr d \<and> Verdict d = VerdictDeny) \<longleftrightarrow>
    list_ex (\<lambda>e. entry_hit D e target) (Deny p)"
  using matchAny_hit [of D "Deny p" target]
  by (auto simp: Decide_loaded [OF assms] split: option.splits)

lemma Decide_load_error: "Load D fs path = Inl e \<Longrightarrow> Decide D fs path target inp = Inl (PolicyLoadError path e)"
  by (simp add: Decide_simps)

subsection \<open>Spellings of the home directory\<close>

lemma expandHome_abs:
  assumes "IsAbs t" and "TrimSpace t = t"
  shows "expandHome D t = t"
proof -
  obtain u where "t = CHR ''/'' # u" using assms(1) by (auto simp: IsAbs_def HasPrefix_iff)
  then show ?thesis using assms(2) by (simp add: expandHome_def HasPrefix_Cons Let_def)
qed

lemma entry_hit_expanded:
  assumes "IsAbs (expandHome D t)" and "TrimSpace (expandHome D t) = expandHome D t"
    and "entry_hit D e (expandHome D t)"
  shows "entry_hit D e t"
  using assms(3) expandHome_abs [OF assms(1,2)] by (auto simp: entry_hit_def candidates_def Let_def)

text \<open>
  Spelling a path with \<open>~\<close> or \<open>$HOME\<close> does not get around the deny list: if the expanded path is
  denied, the unexpanded spelling is denied too, under any session grant.
\<close>

theorem deny_covers_home_spellings:
  assumes "Load D fs path = Inr p"
    and "IsAbs (expandHome D t)" and "TrimSpace (expandHome D t) = expandHome D t"
    and "Decide D fs path (expandHome D t) inp = Inr d" and "Verdict d = VerdictDeny"
  shows "\<exists>d'. Decide D fs path t inp' = Inr d' \<and> Verdict d' = VerdictDeny"
proof -
  have "list_ex (\<lambda>e. entry_hit D e (expandHome D t)) (Deny p)"
    using assms(4,5) Decide_deny_iff [OF assms(1)] by blast
  then have "list_ex (\<lambda>e. entry_hit D e t) (Deny p)"
    using entry_hit_expanded [OF assms(2,3)] by (auto simp: list_ex_iff)
  then show ?thesis by (simp add: Decide_deny_iff [OF assms(1)])
qed

theorem deny_covers_home_spellings_witness:
  "\<exists>d'. Decide sample_deps (\<lambda>_. Content ''x'') ''p'' ''$HOME/.ssh/id'' \<lparr>SessionGranted = True\<rparr> = Inr d' \<and>
     Verdict d' = VerdictDeny"
proof (rule deny_covers_home_spellings [OF sample_load])
  show "Decide sample_deps (\<lambda>_. Content ''x'') ''p'' (expandHome sample_deps ''$HOME/.ssh/id'')
      \<lparr>SessionGranted = False\<rparr> = Inr \<lparr>Verdict = VerdictDeny, Entry = ''~/.ssh/**'', InList = ListDeny\<rparr>"
    by code_simp
  show "IsAbs (expandHome sample_deps ''$HOME/.ssh/id'')" by code_simp
  show "TrimSpace (expandHome sample_deps ''$HOME/.ssh/id'') = expandHome sample_deps ''$HOME/.ssh/id''"
    by code_simp
qed simp

subsection \<open>The guard of the host tool suite\<close>

definition named :: "string list \<Rightarrow> string list" where
  "named paths = filter (\<lambda>t. TrimSpace t \<noteq> []) paths"

lemma HostSuiteGuard_loaded:
  assumes "Load D fs path = Inr p"
  shows "HostSuiteGuard D fs path paths = None \<longleftrightarrow>
    list_all (\<lambda>t. \<not> list_ex (\<lambda>e. entry_hit D e t) (Deny p)) (named paths)"
proof (induction paths)
  case (Cons t paths)
  then show ?case
    using Decide_deny_iff [OF assms, of t "\<lparr>SessionGranted = False\<rparr>"] Decide_loaded [OF assms]
    by (auto simp: named_def split: option.splits if_splits)
qed (simp add: named_def)

lemma HostSuiteGuard_load_error:
  "Load D fs path = Inl e \<Longrightarrow> named paths \<noteq> [] \<Longrightarrow>
   HostSuiteGuard D fs path paths = Some (PolicyLoadError path e)"
  by (induction paths) (auto simp: named_def Decide_load_error split: if_splits)

text \<open>
  The host suite fails closed and agrees with the policy: paths proceed iff none is named at all, or
  the policy loads and no deny entry covers any named path. A policy that cannot be read is
  reported as a load failure, never as a denial.
\<close>

theorem HostSuiteGuard_exact:
  "(HostSuiteGuard D fs path paths = None \<longleftrightarrow>
      named paths = [] \<or>
      (\<exists>p. Load D fs path = Inr p \<and>
        list_all (\<lambda>t. \<not> list_ex (\<lambda>e. entry_hit D e t) (Deny p)) (named paths))) \<and>
   (\<forall>e err. HostSuiteGuard D fs path paths = Some err \<and> Load D fs path = Inl e \<longrightarrow> IsPolicyLoadFailure err)"
proof (cases "Load D fs path")
  case (Inl e)
  have "named paths = [] \<Longrightarrow> HostSuiteGuard D fs path paths = None"
    by (induction paths) (auto simp: named_def split: if_splits)
  then show ?thesis
    using HostSuiteGuard_load_error [OF Inl, of paths] Inl
    by (cases "named paths = []") (auto simp: IsPolicyLoadFailure_def)
next
  case (Inr p)
  then show ?thesis using HostSuiteGuard_loaded [OF Inr] by auto
qed

theorem HostSuiteGuard_exact_witness:
  "IsPolicyLoadFailure (the (HostSuiteGuard sample_deps (\<lambda>_. Unreadable) ''p'' [''/etc/hosts'']))"
proof -
  have "Load sample_deps (\<lambda>_. Unreadable) ''p'' = Inl ReadError" by (simp add: Load_def)
  moreover have "named [''/etc/hosts''] \<noteq> []" by code_simp
  ultimately show ?thesis
    using HostSuiteGuard_exact [of sample_deps "\<lambda>_. Unreadable" "''p''" "[''/etc/hosts'']"] by force
qed

subsection \<open>What a consent card may promise\<close>

text \<open>
  The entries \<open>DenyBelow\<close> lists for a directory really keep refusing: after the directory is granted
  for the session, every path such an entry covers is still denied.
\<close>

theorem DenyBelow_still_denied:
  assumes "DenyBelow D fs path dir = Inr es" and "e \<in> set es" and "entry_hit D e target"
  shows "\<exists>d. Decide D fs path target \<lparr>SessionGranted = True\<rparr> = Inr d \<and> Verdict d = VerdictDeny"
proof -
  obtain p where p: "Load D fs path = Inr p" "e \<in> set (Deny p)"
    using assms(1,2) by (auto simp: DenyBelow_def StoreRead_def Let_def split: if_splits sum.splits)
  then show ?thesis using assms(3) by (auto simp: Decide_deny_iff list_ex_iff)
qed

theorem DenyBelow_still_denied_witness:
  "\<exists>d. Decide sample_deps (\<lambda>_. Content ''x'') ''p'' ''~/.ssh/id'' \<lparr>SessionGranted = True\<rparr> = Inr d \<and>
     Verdict d = VerdictDeny"
proof (rule DenyBelow_still_denied)
  show "DenyBelow sample_deps (\<lambda>_. Content ''x'') ''p'' ''~'' = Inr [''~/.ssh/**'']" by code_simp
  show "entry_hit sample_deps ''~/.ssh/**'' ''~/.ssh/id''" by code_simp
qed simp

subsection \<open>Writing, booting\<close>

text \<open>What a write can do to the files before it renames: only the temporary file changes.\<close>

definition tmp_only :: "string \<Rightarrow> fs \<Rightarrow> fs \<Rightarrow> bool" where
  "tmp_only tmp fs f \<longleftrightarrow> (\<forall>q. q \<noteq> tmp \<longrightarrow> f q = fs q)"

lemma tmp_only_update [simp]: "tmp_only tmp fs (f(tmp := x)) = tmp_only tmp fs f"
  by (auto simp: tmp_only_def)

lemma tmp_only_refl [simp]: "tmp_only tmp fs fs"
  by (simp add: tmp_only_def)

lemma WriteTmp_tmp_only:
  assumes "list_all (tmp_only tmp fs) states" "states \<noteq> []"
  shows "list_all (tmp_only tmp fs) (WriteTmp R tmp bytes states) \<and> WriteTmp R tmp bytes states \<noteq> []"
  using assms by (auto simp: WriteTmp_def list_all_iff)

lemma RemoveTmp_tmp_only:
  assumes "list_all (tmp_only tmp fs) states" "states \<noteq> []"
  shows "list_all (tmp_only tmp fs) (RemoveTmp R tmp states) \<and> RemoveTmp R tmp states \<noteq> []
    \<and> (remove_fails R \<or> last (RemoveTmp R tmp states) tmp = Absent)"
  using assms by (auto simp: RemoveTmp_def list_all_iff)

lemma WriteFile_trace:
  assumes "WriteFile D R tmp fs path p = (err, states)" "fs tmp = Absent"
  shows "err = failing R \<and> (if err = None
      then \<exists>before f. states = before @ [f(path := Content (fileHeader @ Marshal D p), tmp := Absent)] \<and>
             list_all (tmp_only tmp fs) before \<and> tmp_only tmp fs f
      else states \<noteq> [] \<and> list_all (tmp_only tmp fs) states \<and> (remove_fails R \<or> last states tmp = Absent))"
proof -
  define bytes where "bytes = fileHeader @ Marshal D p"
  define s1 where "s1 = WriteTmp R tmp bytes [fs, fs(tmp := Content [])]"
  define s2 where "s2 = s1 @ [(last s1)(tmp := Content bytes)]"
  have s1: "list_all (tmp_only tmp fs) s1" "s1 \<noteq> []"
    unfolding s1_def using WriteTmp_tmp_only [of tmp fs "[fs, fs(tmp := Content [])]"] by simp_all
  then have s2: "list_all (tmp_only tmp fs) s2" "s2 \<noteq> []" "last s2 tmp = Content bytes" "tmp_only tmp fs (last s2)"
    unfolding s2_def by (auto simp: list_all_iff)
  have w: "(err, states) = (if failing R = Some MarshalPolicy \<or> failing R = Some MkdirAll \<or> failing R = Some CreateTemp then (failing R, [fs])
      else if failing R = Some WriteTemp then (failing R, RemoveTmp R tmp s1)
      else if failing R = Some ChmodTemp \<or> failing R = Some CloseTemp \<or> failing R = Some Rename
      then (failing R, RemoveTmp R tmp s2)
      else (None, s2 @ [(last s2)(path := last s2 tmp, tmp := Absent)]))"
    unfolding assms(1) [symmetric] WriteFile_def Let_def s2_def s1_def bytes_def by (rule refl)
  show ?thesis
  proof (cases "failing R")
    case None
    then show ?thesis using w s2 bytes_def by auto
  next
    case (Some st)
    then show ?thesis using w assms(2) RemoveTmp_tmp_only [OF s1, of R] RemoveTmp_tmp_only [OF s2(1,2), of R]
      by (cases st) auto
  qed
qed

lemma Decide_reads: "f path = g path \<Longrightarrow> Decide D f path t inp = Decide D g path t inp"
  by (simp add: Decide_def StoreRead_def Load_def)

text \<open>
  C34. A policy write is atomic for everyone who consults the policy meanwhile. Whichever call fails and however
  the bytes trickle into the temporary file, every decision taken in any state the write passes through
  is the one under the old file or the one under the whole new file; until a successful rename it is
  the old file's. No file but the policy and the temporary file is ever touched. A failed write leaves the
  policy as it was, a successful one leaves the new policy, and the temporary file is gone unless its
  removal after a failure failed as well. Assumed: the temporary file has a fresh name.
\<close>

theorem WriteFile_atomic:
  assumes "path \<noteq> tmp" and "fs tmp = Absent" and "WriteFile D R tmp fs path p = (err, states)"
  shows "(\<forall>i < length states. Decide D (states ! i) path t inp =
      (if err = None \<and> Suc i = length states then Decide D (fs(path := Content (fileHeader @ Marshal D p))) path t inp
       else Decide D fs path t inp)) \<and>
    list_all (\<lambda>f. \<forall>q. q \<noteq> path \<longrightarrow> q \<noteq> tmp \<longrightarrow> f q = fs q) states \<and>
    err = failing R \<and> last states path = (if err = None then Content (fileHeader @ Marshal D p) else fs path) \<and>
    (last states tmp = Absent \<or> err \<noteq> None \<and> remove_fails R)"
proof (cases "err = None")
  case True
  then obtain before f where t: "states = before @ [f(path := Content (fileHeader @ Marshal D p), tmp := Absent)]"
      "list_all (tmp_only tmp fs) before" "tmp_only tmp fs f" "err = failing R"
    using WriteFile_trace [OF assms(3,2)] by auto
  have "Decide D (before ! i) path t inp = Decide D fs path t inp" if "i < length before" for i
    using that t(2) assms(1) by (intro Decide_reads) (auto simp: list_all_length tmp_only_def)
  moreover have "Decide D (f(path := Content (fileHeader @ Marshal D p), tmp := Absent)) path t inp =
      Decide D (fs(path := Content (fileHeader @ Marshal D p))) path t inp"
    using assms(1) by (intro Decide_reads) simp
  ultimately show ?thesis
    using t True assms(1) by (auto simp: nth_append less_Suc_eq list_all_iff tmp_only_def)
next
  case False
  then have s: "err = failing R" "states \<noteq> []" "list_all (tmp_only tmp fs) states" "remove_fails R \<or> last states tmp = Absent"
    using WriteFile_trace [OF assms(3,2)] by auto
  have "Decide D (states ! i) path t inp = Decide D fs path t inp" if "i < length states" for i
    using that s(3) assms(1) by (intro Decide_reads) (auto simp: list_all_length tmp_only_def)
  moreover have "last states path = fs path" using s(2,3) assms(1) by (auto simp: list_all_iff tmp_only_def)
  ultimately show ?thesis using s False by (auto simp: list_all_iff tmp_only_def)
qed

definition sample_run :: "write_step option \<Rightarrow> write_run" where
  "sample_run st = \<lparr>failing = st, cuts = [1, 2], remove_fails = False\<rparr>"

theorem WriteFile_atomic_witness:
  "last (snd (WriteFile sample_deps (sample_run (Some Rename)) ''t'' ((\<lambda>_. Absent)(''p'' := Content ''old'')) ''p'' no_policy)) ''p'' =
     Content ''old''"
  using WriteFile_atomic [of "''p''" "''t''" "(\<lambda>_. Absent)(''p'' := Content ''old'')" sample_deps "sample_run (Some Rename)" no_policy]
  by (cases "WriteFile sample_deps (sample_run (Some Rename)) ''t'' ((\<lambda>_. Absent)(''p'' := Content ''old'')) ''p'' no_policy")
    (auto simp: sample_run_def)

text \<open>
  What is written is what is read back, provided the YAML encoder and decoder are inverse on the
  policy (behind the comment header) and its entries are valid patterns.
\<close>

theorem write_read_roundtrip:
  assumes "path \<noteq> tmp" and "failing R = None" "WriteFile D R tmp fs path p = (err, states)"
    and "Decode D (fileHeader @ Marshal D p) = YamlPolicy p"
    and "check_entries D ListDeny (Deny p) = None" and "check_entries D ListAccept (Accept p) = None"
  shows "StoreRead D (last states) path = Inr p"
proof -
  have "CHR ''#'' \<in> set (fileHeader @ Marshal D p)" by (simp add: fileHeader_def)
  then have "TrimSpace (fileHeader @ Marshal D p) \<noteq> []"
    by (rule TrimSpace_not_blank) (simp add: is_space_def)
  then have "Parse D (fileHeader @ Marshal D p) = Inr p" using assms(4-6) by (simp add: Parse_def)
  moreover have "last states path = Content (fileHeader @ Marshal D p)"
    using assms(1-3) by (auto simp: WriteFile_def Let_def)
  ultimately show ?thesis by (simp add: StoreRead_def Load_def)
qed

theorem write_read_roundtrip_witness:
  "StoreRead sample_deps (last (snd (WriteFile sample_deps (sample_run None) ''t'' (\<lambda>_. Absent) ''p'' sample_policy))) ''p'' =
     Inr sample_policy"
proof -
  obtain err states where w: "WriteFile sample_deps (sample_run None) ''t'' (\<lambda>_. Absent) ''p'' sample_policy = (err, states)"
    by fastforce
  have "check_entries sample_deps ListDeny (Deny sample_policy) = None"
    "check_entries sample_deps ListAccept (Accept sample_policy) = None"
    by code_simp+
  moreover have "Decode sample_deps b = YamlPolicy sample_policy" for b by (simp add: sample_deps_def)
  ultimately show ?thesis using write_read_roundtrip [OF _ _ w] w by (simp add: sample_run_def)
qed

text \<open>
  Boot installs the preset only where it may, and a plane that boots always reaches a decision: an
  explicitly named file and an existing file are never touched, and after a successful boot no
  consult of the policy can fail to load.
\<close>

theorem Boot_ok:
  assumes "Boot D getenv R tmp fs path = (None, fs')"
  shows "(ExplicitPath getenv \<or> fs path \<noteq> Absent \<longrightarrow> fs' = fs) \<and>
    (\<exists>d. Decide D fs' path target inp = Inr d)"
proof -
  obtain p where "Load D fs' path = Inr p"
    using assms by (auto simp: Boot_def split: prod.splits option.splits sum.splits)
  then have "\<exists>d. Decide D fs' path target inp = Inr d"
    by (auto simp: Decide_loaded split: option.splits)
  moreover have "fs' = fs" if "ExplicitPath getenv \<or> fs path \<noteq> Absent"
    using assms that
    by (auto simp: Boot_def EnsureDefault_def split: prod.splits option.splits sum.splits file_state.splits if_splits)
  ultimately show ?thesis by blast
qed

theorem Boot_ok_witness:
  "\<exists>d. Decide sample_deps (\<lambda>_. Content ''x'') ''p'' ''/tmp'' \<lparr>SessionGranted = False\<rparr> = Inr d"
proof -
  have "Boot sample_deps (\<lambda>_. []) (sample_run None) ''t'' (\<lambda>_. Content ''x'') ''p'' = (None, \<lambda>_. Content ''x'')"
    by (simp add: Boot_def EnsureDefault_def ExplicitPath_def sample_load)
  from Boot_ok [OF this] show ?thesis by blast
qed

end
