(* ===== verification/Never_Allow.thy ===== *)
theory Never_Allow
  imports Go_Prelude
begin

text \<open>
  Package \<open>internal/neverallow\<close>: the class of binaries and commands that is never allowed to run.
  One declaration, read by the execution guard (\<open>Guard_Shim\<close>) and by the worker sandbox
  (\<open>Worker_Restrict\<close>).
\<close>

record binary =
  Name :: string
  Shim :: bool

abbreviation shimmed_binary :: "string \<Rightarrow> binary" where
  "shimmed_binary n \<equiv> \<lparr>Name = n, Shim = True\<rparr>"

abbreviation pattern_binary :: "string \<Rightarrow> binary" where
  "pattern_binary n \<equiv> \<lparr>Name = n, Shim = False\<rparr>"

definition Binaries :: "binary list" where
  "Binaries =
     [shimmed_binary ''sudo'', shimmed_binary ''dd'', shimmed_binary ''mkfs'',
      shimmed_binary ''mkfs.ext2'', shimmed_binary ''mkfs.ext3'', shimmed_binary ''mkfs.ext4'',
      shimmed_binary ''mkfs.xfs'', shimmed_binary ''mkfs.btrfs'', shimmed_binary ''mkfs.fat'',
      shimmed_binary ''mkfs.vfat'', shimmed_binary ''mkswap'', shimmed_binary ''fdisk'',
      shimmed_binary ''parted'', shimmed_binary ''shred'', shimmed_binary ''wipefs'',
      shimmed_binary ''pvcreate'', shimmed_binary ''pvremove'', shimmed_binary ''vgcreate'',
      shimmed_binary ''vgremove'', shimmed_binary ''lvcreate'', shimmed_binary ''lvremove'',
      pattern_binary ''mkfs.*'', pattern_binary ''fdisk*'', pattern_binary ''wipefs*'']"

definition CommandPatterns :: "string list" where
  "CommandPatterns =
     [''sudo'', ''sudo *'', ''sudo su *'', ''sudo -i *'', ''sudo -s *'', ''sudo bash *'',
      ''sudo sh *'', ''sudo rm *'', ''sudo * rm *'', ''sudo -u * rm *'',
      ''(* sudo *'', ''{* sudo *'',
      ''* & sudo *'', ''* && sudo *'', ''* ; sudo *'', ''* | sudo *'',
      ''mkfs*'', ''mkfs.*'', ''fdisk*'', ''parted *'', ''shred *'', ''wipefs*'',
      ''mkswap *'', ''swapoff *'', ''swapon *'',
      ''pvcreate *'', ''pvremove *'', ''vgcreate *'', ''vgremove *'', ''vgextend *'',
      ''lvcreate *'', ''lvremove *'', ''lvreduce *'', ''lvextend *'',
      ''dd if=* of=/dev/*'', ''dd * of=/dev/*'', ''dd of=/dev/*'',
      ''* & dd *'', ''* && dd *'', ''* ; dd *'']"

definition Shimmed :: "string list" where
  "Shimmed = map Name (filter Shim Binaries)"

definition CasePattern :: string where
  "CasePattern = join_with ''|'' (map Name Binaries)"

definition DenyRules :: "string list" where
  "DenyRules = CommandPatterns"

lemma Shimmed_eq:
  "Shimmed = [''sudo'', ''dd'', ''mkfs'', ''mkfs.ext2'', ''mkfs.ext3'', ''mkfs.ext4'', ''mkfs.xfs'',
     ''mkfs.btrfs'', ''mkfs.fat'', ''mkfs.vfat'', ''mkswap'', ''fdisk'', ''parted'', ''shred'',
     ''wipefs'', ''pvcreate'', ''pvremove'', ''vgcreate'', ''vgremove'', ''lvcreate'', ''lvremove'']"
  by (simp add: Shimmed_def Binaries_def)

text \<open>The alternatives of the rendered \<open>case\<close> arm are the declared names, unmangled.\<close>

lemma split_CasePattern: "split_on CHR ''|'' CasePattern = map Name Binaries"
proof -
  have "\<forall>x \<in> set (map Name Binaries). CHR ''|'' \<notin> set x"
    by (simp add: Binaries_def)
  moreover have "map Name Binaries \<noteq> []" by (simp add: Binaries_def)
  ultimately show ?thesis unfolding CasePattern_def by (rule split_on_join [rotated])
qed

end
