(* ===== verification/Protected_Path.thy ===== *)
theory Protected_Path
  imports Rule_Scan
begin

text \<open>
  Package \<open>internal/protectedpath\<close>: the paths a destructive operation must never equal or contain.
  What the code asks of the operating system (the user's home directory, \<open>XDG_DATA_HOME\<close>) is an
  argument. \<open>DestroyedBy\<close> returns the root a target would destroy, or the empty string.
\<close>

text \<open>The closure \<open>add\<close> shared by \<open>Roots\<close> and \<open>ScopeRoots\<close>: trim, clean, skip empty, deduplicate.\<close>

definition add_root :: "string \<Rightarrow> string list \<Rightarrow> string list" where
  "add_root p out =
     (let p = TrimSpace p
      in if p = [] then out
         else (let p = Clean p
               in if p = [] \<or> p = ''.'' then out
                  else if List.member out p then out
                  else out @ [p]))"

definition Roots :: "string option \<Rightarrow> string \<Rightarrow> string \<Rightarrow> string list" where
  "Roots userHomeDir xdgDataHome home =
     (let home = (if TrimSpace home = [] then (case userHomeDir of Some h \<Rightarrow> h | None \<Rightarrow> home) else home);
          out = add_root home (add_root ''/'' [])
      in if TrimSpace home \<noteq> [] then
           (let data = TrimSpace xdgDataHome;
                data = (if data = [] then PathJoin [home, ''.local'', ''share''] else data)
            in add_root (PathJoin [home, ''.orchicon''])
                 (add_root (PathJoin [data, ''orchicon'']) out))
         else out)"

definition ScopeRoots :: "string \<Rightarrow> string list \<Rightarrow> string list" where
  "ScopeRoots projectDir grants = fold add_root grants (add_root projectDir [])"

definition below_prefix :: "string \<Rightarrow> string" where
  "below_prefix t = (if t = ''/'' then ''/'' else t @ ''/'')"

definition machine_hit :: "string \<Rightarrow> string \<Rightarrow> bool" where
  "machine_hit r t \<longleftrightarrow> r \<noteq> [] \<and> (t = r \<or> HasPrefix r (below_prefix t))"

definition scope_hit :: "string \<Rightarrow> string \<Rightarrow> bool" where
  "scope_hit r t \<longleftrightarrow> r \<noteq> [] \<and> HasPrefix r (below_prefix t)"

fun machine_scan :: "string list \<Rightarrow> string \<Rightarrow> string option" where
  "machine_scan [] t = None"
| "machine_scan (r # rs) t = (if machine_hit r t then Some r else machine_scan rs t)"

fun scope_scan :: "string list \<Rightarrow> string \<Rightarrow> string option" where
  "scope_scan [] t = None"
| "scope_scan (r # rs) t = (if scope_hit r t then Some r else scope_scan rs t)"

definition DestroyedBy :: "string \<Rightarrow> string list \<Rightarrow> string list \<Rightarrow> string" where
  "DestroyedBy target machineRoots scopeRoots =
     (let t = TrimSpace target
      in if t = [] then []
         else (let t = Clean t
               in if t = [] \<or> t = ''.'' \<or> t = ''..'' then []
                  else (case machine_scan machineRoots t of
                          Some r \<Rightarrow> r
                        | None \<Rightarrow> (case scope_scan scopeRoots t of Some r \<Rightarrow> r | None \<Rightarrow> []))))"

interpretation machine_rules: first_match machine_scan machine_hit
  by unfold_locales simp_all

interpretation scope_rules: first_match scope_scan scope_hit
  by unfold_locales simp_all

subsection \<open>Containment on elements\<close>

definition abs_clean :: "string \<Rightarrow> bool" where
  "abs_clean p \<longleftrightarrow> IsAbs p \<and> Clean p = p"

lemma abs_cleanD: "abs_clean p \<Longrightarrow> p = abs_path (segs_of p)"
  by (metis Clean_abs abs_clean_def)

lemma abs_clean_abs_path: "norm_segs segs \<Longrightarrow> abs_clean (abs_path segs)"
  by (simp add: abs_clean_def)

lemma abs_clean_Clean: "IsAbs p \<Longrightarrow> abs_clean (Clean p)"
  by (simp add: Clean_abs abs_clean_abs_path)

lemma segs_of_Clean: "IsAbs p \<Longrightarrow> segs_of (Clean p) = segs_of p"
  by (simp add: Clean_abs)

lemma abs_clean_neq_Nil: "abs_clean p \<Longrightarrow> p \<noteq> []"
  by (metis abs_cleanD abs_path_neq(1))

lemma below_prefix_iff:
  assumes "norm_segs a" and "norm_segs b"
  shows "HasPrefix (abs_path b) (below_prefix (abs_path a)) \<longleftrightarrow> a = [] \<or> strict_prefix a b"
  using abs_path_below [OF assms] abs_path_root [OF assms(1)] abs_path_below_root [of b]
  by (auto simp: below_prefix_def abs_path_def HasPrefix_Cons)

lemma machine_hit_segs:
  assumes "abs_clean r" and "abs_clean t"
  shows "machine_hit r t \<longleftrightarrow> prefix (segs_of t) (segs_of r)"
proof -
  let ?a = "segs_of t" and ?b = "segs_of r"
  have "machine_hit (abs_path ?b) (abs_path ?a) \<longleftrightarrow> prefix ?a ?b"
    by (auto simp: machine_hit_def below_prefix_iff abs_path_inject strict_prefix_def)
  then show ?thesis using assms by (simp add: abs_cleanD [symmetric])
qed

lemma scope_hit_segs:
  assumes "abs_clean r" and "abs_clean t"
  shows "scope_hit r t \<longleftrightarrow> segs_of t = [] \<or> strict_prefix (segs_of t) (segs_of r)"
proof -
  let ?a = "segs_of t" and ?b = "segs_of r"
  have "scope_hit (abs_path ?b) (abs_path ?a) \<longleftrightarrow> ?a = [] \<or> strict_prefix ?a ?b"
    by (simp add: scope_hit_def below_prefix_iff)
  then show ?thesis using assms by (simp add: abs_cleanD [symmetric])
qed

lemma DestroyedBy_abs:
  assumes "IsAbs target" and "TrimSpace target = target"
  shows "DestroyedBy target M S =
    (case machine_scan M (Clean target) of Some r \<Rightarrow> r
     | None \<Rightarrow> (case scope_scan S (Clean target) of Some r \<Rightarrow> r | None \<Rightarrow> []))"
proof -
  have "target \<noteq> []" using assms(1) by (auto simp: IsAbs_def HasPrefix_Cons)
  moreover have "Clean target \<noteq> []" "Clean target \<noteq> ''.''" "Clean target \<noteq> ''..''"
    using assms(1) by (simp_all add: Clean_abs)
  ultimately show ?thesis using assms(2) by (simp add: DestroyedBy_def Let_def)
qed

text \<open>
  C26. On absolute paths the refusal is containment of directories, not of strings: a target is refused
  iff its elements are a prefix of those of a machine root, or a proper prefix of those of a scope
  root (or it is the filesystem root). \<open>/home2\<close> never counts as containing \<open>/home\<close>.
\<close>

theorem DestroyedBy_iff_contains:
  assumes "IsAbs target" and "TrimSpace target = target"
    and "list_all abs_clean M" and "list_all abs_clean S"
  shows "DestroyedBy target M S \<noteq> [] \<longleftrightarrow>
    list_ex (\<lambda>r. prefix (segs_of target) (segs_of r)) M \<or>
    list_ex (\<lambda>r. segs_of target = [] \<or> strict_prefix (segs_of target) (segs_of r)) S"
proof -
  let ?t = "Clean target"
  have t: "abs_clean ?t" "segs_of ?t = segs_of target"
    using assms(1) by (simp_all add: abs_clean_Clean segs_of_Clean)
  have "machine_scan M ?t \<noteq> None \<longleftrightarrow> list_ex (\<lambda>r. prefix (segs_of target) (segs_of r)) M"
    using assms(3) t by (auto simp: machine_rules.scan_None list_ex_iff list_all_iff machine_hit_segs)
  moreover have "scope_scan S ?t \<noteq> None \<longleftrightarrow>
      list_ex (\<lambda>r. segs_of target = [] \<or> strict_prefix (segs_of target) (segs_of r)) S"
    using assms(4) t by (auto simp: scope_rules.scan_None list_ex_iff list_all_iff scope_hit_segs)
  moreover have "r \<noteq> []" if "machine_scan M ?t = Some r \<or> scope_scan S ?t = Some r" for r
    using that
    by (auto dest: machine_rules.scan_Some_hit scope_rules.scan_Some_hit simp: machine_hit_def scope_hit_def)
  ultimately show ?thesis
    unfolding DestroyedBy_abs [OF assms(1,2)] by (force split: option.splits)
qed


theorem DestroyedBy_iff_contains_witness:
  "DestroyedBy ''/home//me/../'' [''/home/me''] [''/srv/app''] \<noteq> [] \<and>
   DestroyedBy ''/home2'' [''/home/me''] [''/srv/app''] = []"
proof -
  have "IsAbs ''/home//me/../''" "TrimSpace ''/home//me/../'' = ''/home//me/../''"
    "IsAbs ''/home2''" "TrimSpace ''/home2'' = ''/home2''"
    "list_all abs_clean [''/home/me'']" "list_all abs_clean [''/srv/app'']"
    "segs_of ''/home//me/../'' = [''home'']" "segs_of ''/home2'' = [''home2'']"
    "segs_of ''/home/me'' = [''home'', ''me'']" "segs_of ''/srv/app'' = [''srv'', ''app'']"
    by code_simp+
  then show ?thesis
    using DestroyedBy_iff_contains [of "''/home//me/../''" "[''/home/me'']" "[''/srv/app'']"]
      DestroyedBy_iff_contains [of "''/home2''" "[''/home/me'']" "[''/srv/app'']"]
    by (simp add: strict_prefix_def)
qed

subsection \<open>The roots of a session\<close>

lemma add_root_mono: "set out \<subseteq> set (add_root p out)"
  by (auto simp: add_root_def Let_def)

lemma add_root_mem:
  assumes "IsAbs p" and "TrimSpace p = p"
  shows "Clean p \<in> set (add_root p out)"
proof -
  have "p \<noteq> []" and "Clean p \<noteq> []" and "Clean p \<noteq> ''.''"
    using assms(1) by (auto simp: IsAbs_def HasPrefix_Cons Clean_abs)
  then show ?thesis using assms(2) by (simp add: add_root_def Let_def)
qed

lemma add_roots_mono: "set out \<subseteq> set (fold add_root gs out)"
  by (induction gs arbitrary: out) (use add_root_mono in fastforce)+

lemma add_roots_mem:
  "g \<in> set gs \<Longrightarrow> IsAbs g \<Longrightarrow> TrimSpace g = g \<Longrightarrow> Clean g \<in> set (fold add_root gs out)"
proof (induction gs arbitrary: out)
  case (Cons x gs)
  show ?case
  proof (cases "g = x")
    case True
    then show ?thesis
      using Cons.prems add_root_mem [of x out] add_roots_mono [of "add_root x out" gs] by auto
  next
    case False
    then show ?thesis using Cons by simp
  qed
qed simp

lemma Roots_home:
  assumes "IsAbs home" and "TrimSpace home = home"
  shows "Clean home \<in> set (Roots uh xdg home)"
proof -
  have "home \<noteq> []" using assms(1) by (auto simp: IsAbs_def HasPrefix_Cons)
  then have "set (add_root home (add_root ''/'' [])) \<subseteq> set (Roots uh xdg home)"
    using assms(2) add_root_mono by (simp add: Roots_def Let_def) (blast intro: subset_trans)
  then show ?thesis using add_root_mem [OF assms] by blast
qed

lemma DestroyedBy_machine:
  assumes "IsAbs target" "TrimSpace target = target" "r \<in> set M" "machine_hit r (Clean target)"
  shows "DestroyedBy target M S \<noteq> []"
proof -
  obtain r' where "machine_scan M (Clean target) = Some r'" "r' \<noteq> []"
    using assms(3,4) machine_rules.scan_None machine_rules.scan_Some_hit
    by (metis machine_hit_def not_None_eq)
  then show ?thesis unfolding DestroyedBy_abs [OF assms(1,2)] by simp
qed

lemma DestroyedBy_scope:
  assumes "IsAbs target" "TrimSpace target = target" "r \<in> set S" "scope_hit r (Clean target)"
  shows "DestroyedBy target M S \<noteq> []"
proof -
  obtain r' where "scope_scan S (Clean target) = Some r'" "r' \<noteq> []"
    using assms(3,4) scope_rules.scan_None scope_rules.scan_Some_hit
    by (metis scope_hit_def not_None_eq)
  moreover have "r'' \<noteq> []" if "machine_scan M (Clean target) = Some r''" for r''
    using machine_rules.scan_Some_hit [OF that] by (simp add: machine_hit_def)
  ultimately show ?thesis
    unfolding DestroyedBy_abs [OF assms(1,2)] by (simp split: option.splits)
qed

text \<open>
  With the roots the session computes for itself, no spelling of a path gets through: whatever
  absolute target cleans to the home directory or an ancestor of it, or to a proper ancestor of the
  project or of a granted directory, is refused.
\<close>

theorem session_roots_protected:
  assumes "IsAbs target" "TrimSpace target = target"
    and "IsAbs home" "TrimSpace home = home"
    and "list_all (\<lambda>d. IsAbs d \<and> TrimSpace d = d) (project # grants)"
    and "prefix (segs_of target) (segs_of home) \<or>
      list_ex (\<lambda>d. strict_prefix (segs_of target) (segs_of d)) (project # grants)"
  shows "DestroyedBy target (Roots uh xdg home) (ScopeRoots project grants) \<noteq> []"
proof -
  have t: "abs_clean (Clean target)" "segs_of (Clean target) = segs_of target"
    using assms(1) by (simp_all add: abs_clean_Clean segs_of_Clean)
  consider (home) "prefix (segs_of target) (segs_of home)"
    | (scope) d where "d \<in> set (project # grants)" "strict_prefix (segs_of target) (segs_of d)"
    using assms(6) by (auto simp: list_ex_iff)
  then show ?thesis
  proof cases
    case home
    then have "machine_hit (Clean home) (Clean target)"
      using t assms(3) by (simp add: machine_hit_segs abs_clean_Clean segs_of_Clean)
    then show ?thesis using DestroyedBy_machine assms(1,2) Roots_home [OF assms(3,4)] by blast
  next
    case scope
    then have d: "IsAbs d" "TrimSpace d = d" using assms(5) by (auto simp: list_all_iff)
    then have "scope_hit (Clean d) (Clean target)"
      using t scope(2) by (simp add: scope_hit_segs abs_clean_Clean segs_of_Clean)
    moreover have "Clean d \<in> set (ScopeRoots project grants)"
      using scope(1) d add_roots_mem [of d grants] add_root_mem [OF d] add_roots_mono
      unfolding ScopeRoots_def by fastforce
    ultimately show ?thesis using DestroyedBy_scope assms(1,2) by blast
  qed
qed

theorem session_roots_protected_witness:
  "DestroyedBy ''/home/'' (Roots None [] ''/home/me'') (ScopeRoots ''/srv/app'' []) \<noteq> []"
proof (rule session_roots_protected)
  show "prefix (segs_of ''/home/'') (segs_of ''/home/me'') \<or>
    list_ex (\<lambda>d. strict_prefix (segs_of ''/home/'') (segs_of d)) [''/srv/app'']"
    by code_simp
qed code_simp+

end
