(* ===== verification/Worker_Restrict.thy ===== *)
theory Worker_Restrict
  imports Never_Allow Protected_Path
begin

text \<open>
  Package \<open>internal/workerrestrict\<close>: the rules that sandbox a worker. The command matcher is the
  backtracking loop of the source, with its indices and its saved star; it is proved against the
  declarative meaning of a wildcard pattern.
\<close>

definition ScratchDir :: string where "ScratchDir = ''/tmp/orchicon''"
definition RunDirSegment :: string where "RunDirSegment = ''.orchicon''"
definition TaskToolDeny :: string where "TaskToolDeny = ''task''"
definition SubagentToolNames :: "string list" where "SubagentToolNames = [''Task'', ''Agent'']"

definition IsSubagentTool :: "string \<Rightarrow> bool" where
  "IsSubagentTool toolName \<longleftrightarrow> List.member SubagentToolNames toolName \<or> toolName = TaskToolDeny"

definition ProjectBoundaryDenyPatterns :: "string list" where
  "ProjectBoundaryDenyPatterns =
     [''rm -rf /'', ''rm -r /'', ''rm -R /'', ''rm -f /'', ''rm -fr /'', ''rm -Rf /'',
      ''rm -rf /*'', ''rm -fr /*'', ''rm -r /*'', ''rm -R /*'', ''rm -f /*'',
      ''rm -rf /home/*'', ''rm -rf /root/*'', ''rm -rf /etc/*'', ''rm -rf /usr/*'',
      ''rm -rf /var/*'', ''rm -rf /bin/*'', ''rm -rf /boot/*'',
      ''rm -rf ~'', ''rm -rf ~/*'', ''rm -rf $HOME'', ''rm -rf $HOME/*'',
      ''rm -rf ${HOME}/*'', ''rm -rf ${HOME}*'',
      ''rm --no-preserve-root *'', ''rm -rf --no-preserve-root *'',
      ''/bin/rm *'', ''/usr/bin/rm *'', ''/bin/rm -rf *'', ''/usr/bin/rm -rf *'',
      ''rm -rf . /'', ''rm -rf . ..'',
      ''(*rm*'', ''{*rm*'',
      ''* & rm *'', ''* && rm *'', ''* ; rm *'', ''* || rm *'', ''* | rm *'',
      ''* > /dev/sd*'', ''* >> /dev/sd*'', '': > /dev/sd*'',
      ''echo * > /dev/sd*'', ''echo * >> /dev/sd*'',
      ''cat * > /dev/sd*'', ''cat * >> /dev/sd*'', ''cp * /dev/sd*'',
      ''mv * /dev/null'', ''cp -r * /dev/null'', ''cp -a * /dev/null'',
      ''chmod -R 777 /*'', ''chmod -R 777 /'', ''chmod -R 000 /*'', ''chmod -R 000 /'',
      ''chown -R * /*'', ''chown -R * /'', ''chmod -R 777 * /'',
      ''curl * | sh'', ''curl * | bash'', ''curl * | sh -'', ''curl * | bash -'',
      ''curl * | zsh'', ''wget * | sh'', ''wget * | bash'', ''wget * | zsh'']"

definition WorkerDenyPatterns :: "string list" where
  "WorkerDenyPatterns = DenyRules @ ProjectBoundaryDenyPatterns"

text \<open>
  The loop of \<open>matchGlob\<close>. \<open>None\<close> is a loop that never returns; \<open>star = -1\<close> is no saved star. The
  trailing loop that skips stars is the test that only stars remain.
\<close>

partial_function (option) matchGlob_loop ::
    "string \<Rightarrow> string \<Rightarrow> nat \<Rightarrow> nat \<Rightarrow> int \<Rightarrow> nat \<Rightarrow> bool option" where
  "matchGlob_loop p s pi si star mark =
     (if si < length s then
        (if pi < length p \<and> p ! pi = CHR ''*'' then
           matchGlob_loop p s (pi + 1) si (int pi) si
         else if pi < length p \<and> p ! pi = s ! si then
           matchGlob_loop p s (pi + 1) (si + 1) star mark
         else if 0 \<le> star then
           matchGlob_loop p s (nat star + 1) (mark + 1) star (mark + 1)
         else Some False)
      else Some (pi + length (takeWhile (\<lambda>c. c = CHR ''*'') (drop pi p)) = length p))"

definition matchGlob :: "string \<Rightarrow> string \<Rightarrow> bool" where
  "matchGlob pattern s \<longleftrightarrow> matchGlob_loop pattern s 0 0 (-1) 0 = Some True"

fun MatchCommandAgainst :: "string list \<Rightarrow> string \<Rightarrow> string option" where
  "MatchCommandAgainst [] cmd = None"
| "MatchCommandAgainst (p # rules) cmd =
     (if matchGlob p cmd then Some p else MatchCommandAgainst rules cmd)"

definition MatchCommand :: "string \<Rightarrow> string option" where
  "MatchCommand cmd = MatchCommandAgainst WorkerDenyPatterns cmd"

definition insideDir :: "string \<Rightarrow> string \<Rightarrow> bool" where
  "insideDir child root =
     (let root = TrimSpace root
      in if root = [] then False
         else (let root = Clean root; child = Clean child
               in child = root \<or> HasPrefix child (root @ ''/'')))"

fun has_segment :: "string list \<Rightarrow> bool" where
  "has_segment [] = False"
| "has_segment (x # xs) = (x = RunDirSegment \<and> xs \<noteq> [] \<or> has_segment xs)"

definition hasRunDirSegment :: "string \<Rightarrow> bool" where
  "hasRunDirSegment p = has_segment (split_on slash (Clean p))"

text \<open>\<open>OutsideProject\<close> returns whether the target is allowed, and the rule that refuses it.\<close>

definition OutsideProject :: "string \<Rightarrow> string \<Rightarrow> bool \<times> string" where
  "OutsideProject target projectDir =
     (let t = TrimSpace target
      in if t = [] then (True, [])
         else (let t = TrimSuffix t ''/**''
               in if \<not> IsAbs t \<and> TrimSpace projectDir = [] then (False, ''*'')
                  else (let p = Clean (if IsAbs t then t else PathJoin [projectDir, t])
                        in if insideDir p projectDir then (True, [])
                           else if p = ScratchDir \<or> insideDir p ScratchDir then (True, [])
                           else if hasRunDirSegment p then (True, [])
                           else (False, ''*''))))"

definition CarveOutDirs :: "string \<Rightarrow> string list" where
  "CarveOutDirs projectDir =
     ScratchDir # (if TrimSpace projectDir \<noteq> [] then [PathJoin [projectDir, RunDirSegment]] else [])"

definition ProtectedRoots ::
    "string option \<Rightarrow> string \<Rightarrow> string \<Rightarrow> string list \<Rightarrow> string list \<times> string list" where
  "ProtectedRoots userHomeDir xdgDataHome projectDir grants =
     (Roots userHomeDir xdgDataHome [], ScopeRoots projectDir grants)"

interpretation command_rules: first_match MatchCommandAgainst matchGlob
  by unfold_locales simp_all

subsection \<open>The meaning of a wildcard pattern\<close>

fun glob :: "string \<Rightarrow> string \<Rightarrow> bool" where
  "glob [] s = (s = [])"
| "glob (c # p) s =
     (if c = CHR ''*'' then glob p s \<or> (case s of [] \<Rightarrow> False | _ # s' \<Rightarrow> glob (c # p) s')
      else (case s of [] \<Rightarrow> False | x # s' \<Rightarrow> x = c \<and> glob p s'))"

declare glob.simps [simp del]

lemmas glob_Nil [simp] = glob.simps(1)

lemma glob_lit: "c \<noteq> CHR ''*'' \<Longrightarrow> glob (c # p) s \<longleftrightarrow> (\<exists>s'. s = c # s' \<and> glob p s')"
  by (auto simp: glob.simps(2) split: list.splits)

lemma glob_star: "glob (CHR ''*'' # p) s \<longleftrightarrow> (\<exists>k \<le> length s. glob p (drop k s))"
proof (induction s)
  case Nil
  then show ?case by (simp add: glob.simps(2))
next
  case (Cons x s)
  have "glob (CHR ''*'' # p) (x # s) \<longleftrightarrow> glob p (x # s) \<or> glob (CHR ''*'' # p) s"
    by (subst glob.simps) simp
  also have "\<dots> \<longleftrightarrow> glob p (drop 0 (x # s)) \<or> (\<exists>k \<le> length s. glob p (drop (Suc k) (x # s)))"
    using Cons by simp
  also have "\<dots> \<longleftrightarrow> (\<exists>k \<le> length (x # s). glob p (drop k (x # s)))"
    by (metis Suc_le_mono le0 length_Cons not0_implies_Suc)
  finally show ?case .
qed

lemma glob_star_from:
  assumes "i \<le> length s"
  shows "glob (CHR ''*'' # p) (drop i s) \<longleftrightarrow> (\<exists>k \<ge> i. k \<le> length s \<and> glob p (drop k s))"
  unfolding glob_star
proof safe
  fix k assume "k \<le> length (drop i s)" "glob p (drop k (drop i s))"
  then show "\<exists>k \<ge> i. k \<le> length s \<and> glob p (drop k s)"
    using assms by (intro exI [of _ "k + i"]) auto
next
  fix k assume "i \<le> k" "k \<le> length s" "glob p (drop k s)"
  then show "\<exists>k \<le> length (drop i s). glob p (drop k (drop i s))"
    by (intro exI [of _ "k - i"]) auto
qed

lemma glob_only_stars: "glob p [] \<longleftrightarrow> length (takeWhile (\<lambda>c. c = CHR ''*'') p) = length p"
  by (induction p) (auto simp: glob.simps(2))

lemma glob_literals:
  "CHR ''*'' \<notin> set q \<Longrightarrow> glob (q @ r) s \<longleftrightarrow> (\<exists>t. s = q @ t \<and> glob r t)"
  by (induction q arbitrary: s) (auto simp: glob_lit)


subsection \<open>The backtracking loop decides the pattern\<close>

text \<open>
  What the loop still has to decide in a state: the rest of the pattern against the rest of the
  command, or, when a star is saved, the pattern after it at some later position. The invariant says
  that everything between the saved star and the cursor is literal and has been matched.
\<close>

definition glob_left :: "string \<Rightarrow> string \<Rightarrow> nat \<Rightarrow> nat \<Rightarrow> int \<Rightarrow> nat \<Rightarrow> bool" where
  "glob_left p s pi si star mark \<longleftrightarrow>
     glob (drop pi p) (drop si s) \<or>
     0 \<le> star \<and> (\<exists>k > mark. k \<le> length s \<and> glob (drop (Suc (nat star)) p) (drop k s))"

definition glob_inv :: "string \<Rightarrow> string \<Rightarrow> nat \<Rightarrow> nat \<Rightarrow> int \<Rightarrow> nat \<Rightarrow> bool" where
  "glob_inv p s pi si star mark \<longleftrightarrow>
     pi \<le> length p \<and> si \<le> length s \<and> -1 \<le> star \<and>
     (0 \<le> star \<longrightarrow> mark \<le> si \<and>
        (\<exists>q. drop (Suc (nat star)) p = q @ drop pi p \<and> drop mark s = q @ drop si s \<and>
             CHR ''*'' \<notin> set q \<and> pi = Suc (nat star) + length q \<and> si = mark + length q))"

lemma glob_left_older_star:
  assumes inv: "glob_inv p s pi si star mark" and star: "0 \<le> star"
    and k: "mark < k" "k \<le> length s" "glob (drop (Suc (nat star)) p) (drop k s)"
  shows "\<exists>k' > si. k' \<le> length s \<and> glob (drop pi p) (drop k' s)"
proof -
  obtain q where q: "drop (Suc (nat star)) p = q @ drop pi p" "CHR ''*'' \<notin> set q"
    "si = mark + length q"
    using inv star by (auto simp: glob_inv_def)
  obtain t where t: "drop k s = q @ t" "glob (drop pi p) t"
    using k(3) q(1,2) glob_literals by auto
  have "t = drop (k + length q) s" using t(1) by (metis add.commute append_eq_conv_conj drop_drop)
  moreover have "k + length q \<le> length s"
    using arg_cong [OF t(1), of length] k(2) by simp
  ultimately show ?thesis using t(2) q(3) k(1) by (intro exI [of _ "k + length q"]) simp
qed

lemma glob_left_save:
  assumes inv: "glob_inv p s pi si star mark" and c: "pi < length p" "p ! pi = CHR ''*''"
  shows "glob_left p s pi si star mark = glob_left p s (pi + 1) si (int pi) si"
proof -
  have p: "drop pi p = CHR ''*'' # drop (Suc pi) p" using c by (metis Cons_nth_drop_Suc)
  have si: "si \<le> length s" using inv by (simp add: glob_inv_def)
  have here: "glob (drop pi p) (drop si s) \<longleftrightarrow> glob_left p s (pi + 1) si (int pi) si"
    unfolding p glob_star_from [OF si] glob_left_def using si by (auto simp: le_less)
  have "glob (drop pi p) (drop si s)"
    if "0 \<le> star" "mark < k" "k \<le> length s" "glob (drop (Suc (nat star)) p) (drop k s)" for k
  proof -
    note older = glob_left_older_star [OF inv that]
    obtain k' where k': "k' > si" "k' \<le> length s" "glob (drop pi p) (drop k' s)"
      using older by blast
    then show ?thesis unfolding p glob_star_from [OF si] glob_star_from [OF k'(2)]
      by (meson less_or_eq_imp_le order_trans)
  qed
  then show ?thesis using here by (auto simp: glob_left_def)
qed

lemma drop_at: "i < length xs \<Longrightarrow> drop i xs = xs ! i # drop (Suc i) xs"
  by (rule Cons_nth_drop_Suc [symmetric])

lemma glob_left_advance:
  assumes "pi < length p" "p ! pi \<noteq> CHR ''*''" "si < length s" "p ! pi = s ! si"
  shows "glob_left p s pi si star mark = glob_left p s (pi + 1) (si + 1) star mark"
proof -
  have "drop pi p = p ! pi # drop (Suc pi) p" "drop si s = s ! si # drop (Suc si) s"
    using assms by (blast intro: drop_at)+
  then have "glob (drop pi p) (drop si s) = glob (drop (Suc pi) p) (drop (Suc si) s)"
    using assms by (simp add: glob_lit)
  then show ?thesis by (simp add: glob_left_def)
qed

lemma glob_left_mismatch:
  assumes "si < length s" and "\<not> (pi < length p \<and> (p ! pi = CHR ''*'' \<or> p ! pi = s ! si))"
    and "pi \<le> length p"
  shows "\<not> glob (drop pi p) (drop si s)"
proof (cases "pi < length p")
  case True
  then have "drop pi p = p ! pi # drop (Suc pi) p" "drop si s = s ! si # drop (Suc si) s"
    using assms by (blast intro: drop_at)+
  then show ?thesis using assms True by (auto simp: glob_lit)
next
  case False
  then show ?thesis using assms by simp
qed

lemma glob_left_retry:
  assumes "\<not> glob (drop pi p) (drop si s)" and "0 \<le> star" and "mark < length s"
  shows "glob_left p s pi si star mark = glob_left p s (nat star + 1) (mark + 1) star (mark + 1)"
proof -
  have "(\<exists>k > m. k \<le> n \<and> Q k) \<longleftrightarrow> Q (Suc m) \<or> (\<exists>k > Suc m. k \<le> n \<and> Q k)" if "m < n"
    for m n :: nat and Q
    using that by (metis Suc_leI Suc_lessD Suc_lessI lessI)
  then show ?thesis using assms by (simp add: glob_left_def)
qed

lemma glob_left_end:
  assumes "glob_inv p s pi (length s) star mark"
  shows "glob_left p s pi (length s) star mark \<longleftrightarrow> glob (drop pi p) []"
  using glob_left_older_star [OF assms] by (auto simp: glob_left_def dest: leD)

lemma glob_inv_save:
  "glob_inv p s pi si star mark \<Longrightarrow> pi < length p \<Longrightarrow> glob_inv p s (pi + 1) si (int pi) si"
  by (simp add: glob_inv_def)

lemma glob_inv_advance:
  assumes inv: "glob_inv p s pi si star mark"
    and "pi < length p" "p ! pi \<noteq> CHR ''*''" "si < length s" "p ! pi = s ! si"
  shows "glob_inv p s (pi + 1) (si + 1) star mark"
proof (cases "0 \<le> star")
  case True
  then obtain q where q: "drop (Suc (nat star)) p = q @ drop pi p" "drop mark s = q @ drop si s"
    "CHR ''*'' \<notin> set q" "pi = Suc (nat star) + length q" "si = mark + length q" "mark \<le> si" "-1 \<le> star"
    using inv by (auto simp: glob_inv_def)
  have "drop pi p = p ! pi # drop (Suc pi) p" "drop si s = s ! si # drop (Suc si) s"
    using assms by (blast intro: drop_at)+
  then have "\<exists>q'. drop (Suc (nat star)) p = q' @ drop (pi + 1) p \<and> drop mark s = q' @ drop (si + 1) s \<and>
      CHR ''*'' \<notin> set q' \<and> pi + 1 = Suc (nat star) + length q' \<and> si + 1 = mark + length q'"
    using q assms by (intro exI [of _ "q @ [p ! pi]"]) simp
  then show ?thesis unfolding glob_inv_def using assms q by auto
next
  case False
  then show ?thesis using assms by (simp add: glob_inv_def)
qed

lemma glob_inv_retry:
  assumes "glob_inv p s pi si star mark" "0 \<le> star" "si < length s"
  shows "glob_inv p s (nat star + 1) (mark + 1) star (mark + 1)"
  using assms by (auto simp: glob_inv_def)

lemma matchGlob_loop_decides:
  "glob_inv p s pi si star mark \<Longrightarrow>
   matchGlob_loop p s pi si star mark = Some (glob_left p s pi si star mark)"
proof (induction "(pi, si, star, mark)" arbitrary: pi si star mark
    rule: wf_induct_rule [OF wf_measures [of "[\<lambda>(pi, si, star, mark). length p - nat (star + 1),
      \<lambda>(pi, si, star, mark). length s - mark, \<lambda>(pi, si, star, mark). length s - si]"]])
  case (1 pi si star mark)
  note inv = 1(2) and unfold = matchGlob_loop.simps [of p s pi si star mark]
  have bounds: "pi \<le> length p" "si \<le> length s" "-1 \<le> star" "0 \<le> star \<Longrightarrow> mark \<le> si \<and> nat star < pi"
    using inv by (auto simp: glob_inv_def)
  consider (over) "si = length s"
    | (star) "si < length s" "pi < length p" "p ! pi = CHR ''*''"
    | (lit) "si < length s" "pi < length p" "p ! pi \<noteq> CHR ''*''" "p ! pi = s ! si"
    | (retry) "si < length s" "\<not> (pi < length p \<and> (p ! pi = CHR ''*'' \<or> p ! pi = s ! si))" "0 \<le> star"
    | (fail) "si < length s" "\<not> (pi < length p \<and> (p ! pi = CHR ''*'' \<or> p ! pi = s ! si))" "star < 0"
    using bounds by linarith
  then show ?case
  proof cases
    case over
    then show ?thesis
      using unfold glob_left_end inv glob_only_stars [of "drop pi p"] bounds by auto
  next
    case star
    have "nat (star + 1) \<le> pi" using bounds(3,4) by (cases "0 \<le> star") auto
    then have "length p - nat (int pi + 1) < length p - nat (star + 1)" using star(2) by simp
    then have "matchGlob_loop p s (pi + 1) si (int pi) si = Some (glob_left p s (pi + 1) si (int pi) si)"
      using star by (intro 1(1) glob_inv_save [OF inv]) auto
    then show ?thesis using star unfold glob_left_save [OF inv star(2,3)] by simp
  next
    case lit
    then have "matchGlob_loop p s (pi + 1) (si + 1) star mark =
        Some (glob_left p s (pi + 1) (si + 1) star mark)"
      by (intro 1(1) glob_inv_advance [OF inv]) auto
    then show ?thesis using lit unfold glob_left_advance by simp
  next
    case retry
    then have "matchGlob_loop p s (nat star + 1) (mark + 1) star (mark + 1) =
        Some (glob_left p s (nat star + 1) (mark + 1) star (mark + 1))"
      using bounds by (intro 1(1) glob_inv_retry [OF inv]) auto
    moreover have "\<not> glob (drop pi p) (drop si s)" using retry bounds glob_left_mismatch by blast
    ultimately show ?thesis
      using retry bounds unfold glob_left_retry [of pi p si s star mark] by auto
  next
    case fail
    moreover have "\<not> glob (drop pi p) (drop si s)" using fail bounds glob_left_mismatch by blast
    ultimately show ?thesis using unfold by (auto simp: glob_left_def)
  qed
qed

text \<open>
  C25. The command matcher always returns, and it returns whether the pattern matches: the loop with one
  saved star, started as \<open>matchGlob\<close> starts it, yields \<open>Some\<close> of the declarative meaning of the
  pattern, in which \<open>*\<close> is any run of characters and everything else is literal.
\<close>

theorem matchGlob_total_correct:
  "matchGlob_loop pattern s 0 0 (-1) 0 = Some (glob pattern s)"
proof -
  have "glob_inv pattern s 0 0 (-1) 0" by (simp add: glob_inv_def)
  then show ?thesis using matchGlob_loop_decides by (simp add: glob_left_def)
qed

lemma matchGlob_glob: "matchGlob pattern s = glob pattern s"
  using matchGlob_loop_decides [of pattern s 0 0 "-1" 0]
  by (simp add: matchGlob_def glob_left_def glob_inv_def)


subsection \<open>Denied commands\<close>

lemma glob_star_append: "glob p t \<Longrightarrow> glob (CHR ''*'' # p) (x @ t)"
  unfolding glob_star by (intro exI [of _ "length x"]) simp

lemma glob_star_end [simp]: "glob ''*'' s"
  unfolding glob_star by (intro exI [of _ "length s"]) simp

lemma MatchCommand_denies:
  "p \<in> set WorkerDenyPatterns \<Longrightarrow> glob p cmd \<Longrightarrow> MatchCommand cmd \<noteq> None"
  by (auto simp: MatchCommand_def command_rules.scan_None matchGlob_glob)

text \<open>
  Escalation cannot be smuggled past the worker's deny list: whatever precedes and follows it, a
  command that starts with \<open>sudo\<close>, or reaches it behind \<open>&&\<close>, \<open>;\<close>, \<open>|\<close> or \<open>&\<close>, is denied.
\<close>

theorem sudo_smuggling_denied:
  "MatchCommand (''sudo '' @ y) \<noteq> None \<and>
   MatchCommand (x @ '' && sudo '' @ y) \<noteq> None \<and>
   MatchCommand (x @ '' ; sudo '' @ y) \<noteq> None \<and>
   MatchCommand (x @ '' | sudo '' @ y) \<noteq> None \<and>
   MatchCommand (x @ '' & sudo '' @ y) \<noteq> None"
proof (intro conjI)
  have mem: "set [''sudo *'', ''* && sudo *'', ''* ; sudo *'', ''* | sudo *'', ''* & sudo *''] \<subseteq> set WorkerDenyPatterns"
    by (simp add: WorkerDenyPatterns_def DenyRules_def CommandPatterns_def)
  have lit: "glob (q @ ''*'') (q @ y)" if "CHR ''*'' \<notin> set q" for q
    using that by (simp add: glob_literals)
  have sudo: "glob ''sudo *'' (''sudo '' @ y)" using lit [of "''sudo ''"] by simp
  show "MatchCommand (''sudo '' @ y) \<noteq> None" using mem sudo by (intro MatchCommand_denies) auto
  have star: "glob (CHR ''*'' # q @ ''*'') (x @ q @ y)" if "CHR ''*'' \<notin> set q" for q
    using lit [OF that] by (rule glob_star_append)
  show "MatchCommand (x @ '' && sudo '' @ y) \<noteq> None"
    using mem star [of "'' && sudo ''"] by (intro MatchCommand_denies [of "''* && sudo *''"]) auto
  show "MatchCommand (x @ '' ; sudo '' @ y) \<noteq> None"
    using mem star [of "'' ; sudo ''"] by (intro MatchCommand_denies [of "''* ; sudo *''"]) auto
  show "MatchCommand (x @ '' | sudo '' @ y) \<noteq> None"
    using mem star [of "'' | sudo ''"] by (intro MatchCommand_denies [of "''* | sudo *''"]) auto
  show "MatchCommand (x @ '' & sudo '' @ y) \<noteq> None"
    using mem star [of "'' & sudo ''"] by (intro MatchCommand_denies [of "''* & sudo *''"]) auto
qed

text \<open>
  The never-allow class decides before the project boundary: a command any rule of the class
  matches is refused with the first such rule of the class, and the boundary rules are consulted
  only where the class is silent.
\<close>

theorem never_allow_decides_first:
  "MatchCommand cmd =
     (case MatchCommandAgainst DenyRules cmd of
        Some r \<Rightarrow> Some r
      | None \<Rightarrow> MatchCommandAgainst ProjectBoundaryDenyPatterns cmd)"
  unfolding MatchCommand_def WorkerDenyPatterns_def by (rule command_rules.scan_append)

subsection \<open>The project boundary\<close>

lemma insideDir_segs:
  assumes "IsAbs child" and "IsAbs root" "TrimSpace root = root" and "segs_of root \<noteq> []"
  shows "insideDir child root \<longleftrightarrow> prefix (segs_of root) (segs_of child)"
proof -
  have "root \<noteq> []" using assms(2) by (auto simp: IsAbs_def HasPrefix_Cons)
  then have "insideDir child root \<longleftrightarrow>
      abs_path (segs_of child) = abs_path (segs_of root) \<or>
      HasPrefix (abs_path (segs_of child)) (abs_path (segs_of root) @ ''/'')"
    using assms by (simp add: insideDir_def Let_def Clean_abs)
  then show ?thesis
    using assms(4) by (auto simp: abs_path_inject abs_path_below strict_prefix_def)
qed

text \<open>The root directory is the exception: nothing but itself counts as inside it.\<close>

lemma insideDir_root: "IsAbs child \<Longrightarrow> insideDir child ''/'' \<longleftrightarrow> segs_of child = []"
proof -
  assume "IsAbs child"
  have "TrimSpace ''/'' = ''/''" "Clean ''/'' = ''/''" by code_simp+
  then have "insideDir child ''/'' \<longleftrightarrow> abs_path (segs_of child) = ''/'' \<or> HasPrefix (abs_path (segs_of child)) ''//''"
    using \<open>IsAbs child\<close> by (simp add: insideDir_def Let_def Clean_abs)
  moreover have "\<not> HasPrefix (abs_path a) ''//''" if "norm_segs a" for a
  proof (cases a)
    case (Cons x xs)
    then have "norm_seg x" using that by simp
    then show ?thesis
      using Cons by (cases x; cases xs) (auto simp: abs_path_def HasPrefix_Cons norm_seg_def slash_def)
  qed (simp add: abs_path_def HasPrefix_Cons)
  ultimately show ?thesis by (simp add: abs_path_root)
qed

lemma has_segment_iff:
  "has_segment segs \<longleftrightarrow> (\<exists>us vs. segs = us @ RunDirSegment # vs \<and> vs \<noteq> [])"
proof (induction segs)
  case (Cons x xs)
  then show ?case by (auto simp: Cons_eq_append_conv)
qed simp

lemma hasRunDirSegment_segs:
  assumes "IsAbs p"
  shows "hasRunDirSegment p = has_segment (segs_of p)"
  using assms by (auto simp: hasRunDirSegment_def Clean_abs split_abs_path RunDirSegment_def)

definition run_metadata :: "string list \<Rightarrow> bool" where
  "run_metadata segs \<longleftrightarrow> (\<exists>us vs. segs = us @ RunDirSegment # vs \<and> vs \<noteq> [])"

definition resolve_target :: "string \<Rightarrow> string \<Rightarrow> string" where
  "resolve_target target projectDir = (if IsAbs target then target else projectDir @ ''/'' @ target)"

lemma IsAbs_append: "IsAbs a \<Longrightarrow> IsAbs (a @ b)"
  by (auto simp: IsAbs_def HasPrefix_iff)

lemma segs_of_slash: "segs_of (p @ ''/'') = segs_of p"
  by (simp add: segs_of_def slash_string split_on_append_sep [where y = "[]", simplified] clean_segs_snoc_Nil)

lemma resolve_target_Clean:
  assumes "IsAbs projectDir"
  shows "Clean (if IsAbs target then target else PathJoin [projectDir, target]) =
    abs_path (segs_of (resolve_target target projectDir))"
proof -
  have "projectDir \<noteq> []" using assms(1) by (auto simp: IsAbs_def HasPrefix_Cons)
  moreover have "IsAbs (projectDir @ ''/'' @ target)" using assms(1) by (rule IsAbs_append)
  ultimately show ?thesis
    using assms segs_of_slash [of projectDir]
    by (cases "target = []") (auto simp: PathJoin_def resolve_target_def Clean_abs IsAbs_def)
qed

text \<open>
  C27. The worker's boundary is exact. Take a project given by a trimmed absolute path other than the root directory,
  and any target that is not blank: trim it, drop one trailing \<open>/**\<close>, resolve it against the project when it is
  relative, and all \<open>.\<close> and \<open>..\<close> elements. It is allowed iff the result lies in the project, in the scratch
  directory, or below a \<open>.orchicon\<close> directory. A blank target is always allowed.
\<close>

theorem OutsideProject_exact:
  assumes "IsAbs projectDir" "TrimSpace projectDir = projectDir" "segs_of projectDir \<noteq> []"
  shows "fst (OutsideProject target projectDir) \<longleftrightarrow> TrimSpace target = [] \<or>
    (let segs = segs_of (resolve_target (TrimSuffix (TrimSpace target) ''/**'') projectDir)
     in prefix (segs_of projectDir) segs \<or> prefix [''tmp'', ''orchicon''] segs \<or> run_metadata segs)"
proof (cases "TrimSpace target = []")
  case True
  then show ?thesis by (simp add: OutsideProject_def)
next
  case blank: False
  let ?t = "TrimSuffix (TrimSpace target) ''/**''"
  let ?segs = "segs_of (resolve_target ?t projectDir)"
  have scratch: "IsAbs ScratchDir" "TrimSpace ScratchDir = ScratchDir"
    "segs_of ScratchDir = [''tmp'', ''orchicon'']" "ScratchDir = abs_path [''tmp'', ''orchicon'']"
    by code_simp+
  have ne: "projectDir \<noteq> []" using assms(1) by (auto simp: IsAbs_def HasPrefix_Cons)
  have "insideDir (abs_path ?segs) projectDir \<longleftrightarrow> prefix (segs_of projectDir) ?segs"
    using assms(1-3) by (simp add: insideDir_segs)
  moreover have "abs_path ?segs = ScratchDir \<or> insideDir (abs_path ?segs) ScratchDir \<longleftrightarrow>
      prefix [''tmp'', ''orchicon''] ?segs"
  proof -
    have "abs_path ?segs = ScratchDir \<longleftrightarrow> ?segs = [''tmp'', ''orchicon'']"
      unfolding scratch(4) by (rule abs_path_inject) (simp, code_simp)
    then show ?thesis using scratch(1-3) by (auto simp: insideDir_segs)
  qed
  moreover have "hasRunDirSegment (abs_path ?segs) \<longleftrightarrow> run_metadata ?segs"
    by (simp add: hasRunDirSegment_segs has_segment_iff run_metadata_def)
  ultimately show ?thesis
    using assms ne blank resolve_target_Clean [OF assms(1), of ?t] unfolding OutsideProject_def
    by (simp add: Let_def)
qed

theorem OutsideProject_exact_witness:
  "\<not> fst (OutsideProject ''src/../../other/x'' ''/srv/app'')"
proof -
  have "IsAbs ''/srv/app''" "TrimSpace ''/srv/app'' = ''/srv/app''" "segs_of ''/srv/app'' = [''srv'', ''app'']"
    "TrimSpace ''src/../../other/x'' = ''src/../../other/x''" "TrimSuffix ''src/../../other/x'' ''/**'' = ''src/../../other/x''"
    "segs_of (resolve_target ''src/../../other/x'' ''/srv/app'') = [''srv'', ''other'', ''x'']"
    by code_simp+
  then show ?thesis
    using OutsideProject_exact [of "''/srv/app''" "''src/../../other/x''"]
    by (auto simp: run_metadata_def RunDirSegment_def Cons_eq_append_conv)
qed

text \<open>The pattern for the whole file system loses its slash with the suffix and is judged as the project itself.\<close>

lemma whole_disk_is_inside: "OutsideProject ''/**'' ''/srv/app'' = (True, []) \<and> \<not> fst (OutsideProject ''/etc/**'' ''/srv/app'')"
  by code_simp

end
