(* ===== verification/Rbac.thy ===== *)
theory Rbac
  imports Go_Prelude
begin

text \<open>
  Package \<open>internal/rbac\<close>: the entitlement a procedure requires, and whether a granted set covers
  it. The empty string is the entitlement of a procedure that requires nothing.
\<close>

definition serviceToResource :: "string \<Rightarrow> string" where
  "serviceToResource service =
     (if service = ''ProviderService'' then ''provider''
      else if service = ''MCPService'' then ''mcp''
      else if service = ''ProjectService'' then ''project''
      else if service = ''WorkItemService'' then ''workitem''
      else if service = ''WorkerService'' then ''worker''
      else if service = ''WorkflowService'' then ''workflow''
      else if service = ''PolicyService'' then ''policy''
      else if service = ''RecoveryService'' then ''recovery''
      else if service = ''ExecutionService'' then ''execution''
      else if service = ''RuntimeAdapterService'' then ''adapter''
      else if service = ''TelemetryService'' then ''telemetry''
      else if service = ''AIGatewayService'' then ''aigateway''
      else if service = ''AuthService'' then ''auth''
      else if service = ''WebhookService'' then ''webhook''
      else if service = ''RuntimeImageService'' then ''runtimeimage''
      else [])"

definition isRead :: "string \<Rightarrow> bool" where
  "isRead m \<longleftrightarrow> HasPrefix m ''Get'' \<or> HasPrefix m ''List'' \<or> HasPrefix m ''Stream''"

definition specificAction :: "string \<Rightarrow> string \<Rightarrow> string" where
  "specificAction resource m =
     (if resource = ''policy'' \<and> m = ''SupersedePolicy'' then ''policy:supersede''
      else if resource = ''worker'' \<and> m = ''PublishWorkerVersion'' then ''worker:publish''
      else if resource = ''workflow'' \<and> m = ''PublishWorkflow'' then ''workflow:publish''
      else if resource = ''policy'' \<and> m = ''PublishPolicy'' then ''policy:publish''
      else [])"

text \<open>\<open>strings.SplitN(s, "/", 2)\<close>: the text before and after the first slash, if there is one.\<close>

fun cut_slash :: "string \<Rightarrow> (string \<times> string) option" where
  "cut_slash [] = None"
| "cut_slash (c # cs) =
     (if c = slash then Some ([], cs)
      else map_option (\<lambda>(a, b). (c # a, b)) (cut_slash cs))"

definition EntitlementFor :: "string \<Rightarrow> string" where
  "EntitlementFor procedure =
     (if \<not> HasPrefix procedure ''/orchicon.api.v1.'' then []
      else (case cut_slash (TrimPrefix procedure ''/orchicon.api.v1.'') of
              None \<Rightarrow> []
            | Some (service, m) \<Rightarrow>
                (let resource = serviceToResource service
                 in if resource = [] then []
                    else if isRead m then resource @ '':read''
                    else (let action = specificAction resource m
                          in if action \<noteq> [] then action else resource @ '':write''))))"

fun Has :: "string list \<Rightarrow> string \<Rightarrow> bool" where
  "Has granted required =
     (if required = [] then True
      else (case granted of
              [] \<Rightarrow> False
            | g # gs \<Rightarrow>
                if g = ''*'' \<or> g = ''*:*'' then True
                else if g = required then True
                else if HasSuffix g '':*'' \<and> HasPrefix required (TrimSuffix g ''*'') then True
                else if HasPrefix g ''*:'' \<and> HasSuffix required (TrimPrefix g ''*'') then True
                else Has gs required))"


declare Has.simps [simp del]

text \<open>Whether one granted entry covers a required entitlement: the body of the loop of \<open>Has\<close>.\<close>

definition covers :: "string \<Rightarrow> string \<Rightarrow> bool" where
  "covers g required \<longleftrightarrow>
     g = ''*'' \<or> g = ''*:*'' \<or> g = required \<or>
     HasSuffix g '':*'' \<and> HasPrefix required (TrimSuffix g ''*'') \<or>
     HasPrefix g ''*:'' \<and> HasSuffix required (TrimPrefix g ''*'')"

lemma Has_iff: "Has granted required \<longleftrightarrow> required = [] \<or> (\<exists>g \<in> set granted. covers g required)"
  by (induction granted) (subst Has.simps; auto simp: covers_def)+

text \<open>
  Granting more never takes an RPC away: a set that covers an entitlement still covers it after any
  entries are added or reordered.
\<close>

theorem Has_mono:
  assumes "set granted \<subseteq> set more" and "Has granted required"
  shows "Has more required"
  using assms by (auto simp: Has_iff)

theorem Has_mono_witness: "Has [''worker:read'', ''project:*''] ''project:write''"
proof -
  have "Has [''project:*''] ''project:write''" by code_simp
  then show ?thesis by (rule Has_mono [rotated]) simp
qed

lemma cut_slash_append: "slash \<notin> set a \<Longrightarrow> cut_slash (a @ slash # b) = Some (a, b)"
  by (induction a) auto

definition procedure_of :: "string \<Rightarrow> string \<Rightarrow> string" where
  "procedure_of service m = ''/orchicon.api.v1.'' @ service @ ''/'' @ m"

lemma resource_no_colon: "CHR '':'' \<notin> set (serviceToResource service)"
  by (simp add: serviceToResource_def)

lemma service_no_slash: "serviceToResource service \<noteq> [] \<Longrightarrow> slash \<notin> set service"
  by (auto simp: serviceToResource_def slash_def split: if_splits)

lemma EntitlementFor_procedure:
  assumes "serviceToResource service \<noteq> []"
  shows "EntitlementFor (procedure_of service m) =
    (let resource = serviceToResource service
     in if isRead m then resource @ '':read''
        else (let action = specificAction resource m
              in if action \<noteq> [] then action else resource @ '':write''))"
proof -
  let ?rest = "service @ slash # m"
  have p: "procedure_of service m = ''/orchicon.api.v1.'' @ ?rest"
    by (simp add: procedure_of_def slash_def)
  have "cut_slash ?rest = Some (service, m)"
    using service_no_slash [OF assms] by (rule cut_slash_append)
  then show ?thesis
    using assms unfolding EntitlementFor_def p HasPrefix_append TrimPrefix_append
    by (simp add: Let_def HasPrefix_Cons)
qed

text \<open>The shape of every entitlement of a known service: its resource, a colon and an action.\<close>

lemma specificAction_shape:
  "specificAction r m = [] \<or> (\<exists>act. specificAction r m = r @ '':'' @ act \<and> act \<in> {''supersede'', ''publish''})"
  by (simp add: specificAction_def)

lemma EntitlementFor_shape:
  assumes "serviceToResource service \<noteq> []"
  obtains act where "EntitlementFor (procedure_of service m) = serviceToResource service @ '':'' @ act"
    and "act \<in> {''read'', ''write'', ''supersede'', ''publish''}" and "act = ''read'' \<longleftrightarrow> isRead m"
proof (cases "isRead m")
  case True
  then show thesis using EntitlementFor_procedure [OF assms] that [of "''read''"] by simp
next
  case False
  then show thesis
    using specificAction_shape [of "serviceToResource service" m]
      EntitlementFor_procedure [OF assms] that
    by (auto simp: Let_def)
qed

lemma colon_split:
  assumes "CHR '':'' \<notin> set a" and "CHR '':'' \<notin> set b" and "a @ CHR '':'' # x = b @ CHR '':'' # y"
  shows "a = b \<and> x = y"
  using assms by (induction a arbitrary: b) (auto simp: Cons_eq_append_conv append_eq_Cons_conv)

lemma covers_resource_wildcard:
  assumes "CHR '':'' \<notin> set r" "r \<noteq> ''*''" "CHR '':'' \<notin> set r'" "CHR '':'' \<notin> set act" "act \<noteq> ''*''"
  shows "covers (r @ '':*'') (r' @ '':'' @ act) \<longleftrightarrow> r = r'"
proof
  assume c: "covers (r @ '':*'') (r' @ '':'' @ act)"
  have "TrimSuffix (r @ '':*'') ''*'' = r @ '':''"
    using TrimSuffix_append [of "r @ '':''" "''*''"] by simp
  moreover have "\<not> HasPrefix (r @ '':*'') ''*:''"
    using assms(1,2) by (cases r; cases "tl r") (auto simp: HasPrefix_Cons)
  moreover have "r @ '':*'' \<noteq> ''*''" "r @ '':*'' \<noteq> ''*:*''" "r @ '':*'' \<noteq> r' @ '':'' @ act"
    using assms colon_split [of r r' "''*''" act] by (auto simp: append_eq_Cons_conv)
  ultimately have "HasPrefix (r' @ '':'' @ act) (r @ '':'')" using c by (simp add: covers_def)
  then show "r = r'" using assms colon_split [of r' r act] by (auto simp: HasPrefix_iff)
next
  assume "r = r'"
  then show "covers (r @ '':*'') (r' @ '':'' @ act)"
    using TrimSuffix_append [of "r @ '':''" "''*''"] HasSuffix_append [of r "'':*''"]
      HasPrefix_append [of "r @ '':''" act]
    by (simp add: covers_def)
qed

text \<open>
  A resource wildcard is exact: \<open>r:*\<close> opens every RPC of the services of resource \<open>r\<close> and none of
  any other known service.
\<close>

theorem resource_wildcard_exact:
  assumes "serviceToResource service \<noteq> []" and "CHR '':'' \<notin> set r" and "r \<noteq> ''*''"
  shows "Has [r @ '':*''] (EntitlementFor (procedure_of service m)) \<longleftrightarrow> serviceToResource service = r"
proof -
  obtain act where e: "EntitlementFor (procedure_of service m) = serviceToResource service @ '':'' @ act"
    and act: "act \<in> {''read'', ''write'', ''supersede'', ''publish''}"
    by (rule EntitlementFor_shape [OF assms(1)])
  then have "CHR '':'' \<notin> set act" and "act \<noteq> ''*''" by auto
  then show ?thesis
    using covers_resource_wildcard [OF assms(2,3) resource_no_colon] e by (auto simp: Has_iff)
qed

theorem resource_wildcard_exact_witness:
  "Has [''worker'' @ '':*''] (EntitlementFor (procedure_of ''WorkerService'' ''PublishWorkerVersion'')) \<and>
   \<not> Has [''work'' @ '':*''] (EntitlementFor (procedure_of ''WorkerService'' ''PublishWorkerVersion''))"
  using resource_wildcard_exact [of "''WorkerService''" "''worker''" "''PublishWorkerVersion''"]
    resource_wildcard_exact [of "''WorkerService''" "''work''" "''PublishWorkerVersion''"]
  by (simp add: serviceToResource_def)

lemma colon_split_last:
  assumes "CHR '':'' \<notin> set a" and "CHR '':'' \<notin> set b" and "x @ CHR '':'' # a = y @ CHR '':'' # b"
  shows "a = b"
proof -
  have "rev (x @ CHR '':'' # a) = rev (y @ CHR '':'' # b)" using assms(3) by (rule arg_cong)
  then have "rev a = rev b" using assms(1,2) colon_split [of "rev a" "rev b" "rev x" "rev y"] by simp
  then show ?thesis by simp
qed

lemma covers_read_wildcard:
  assumes "CHR '':'' \<notin> set r" "CHR '':'' \<notin> set act" "r \<noteq> ''*''"
  shows "covers ''*:read'' (r @ '':'' @ act) \<longleftrightarrow> act = ''read''"
proof -
  have "HasSuffix (r @ '':'' @ act) '':read'' \<longleftrightarrow> act = ''read''"
    using colon_split_last [of act "''read''" r] assms(2) by (auto simp: HasSuffix_iff)
  moreover have "TrimPrefix ''*:read'' ''*'' = '':read''" and "\<not> HasSuffix ''*:read'' '':*''"
    by code_simp+
  moreover have "''*:read'' \<noteq> r @ '':'' @ act"
    using assms colon_split [of "''*''" r "''read''" act] by auto
  ultimately show ?thesis unfolding covers_def by (simp add: HasPrefix_Cons)
qed

text \<open>
  A viewer holding only \<open>*:read\<close> can call, among the known services, exactly the methods that are
  read-only by name (\<open>Get\<close>, \<open>List\<close>, \<open>Stream\<close>); every mutating method is refused.
\<close>

theorem viewer_reads_only:
  assumes "serviceToResource service \<noteq> []"
  shows "Has [''*:read''] (EntitlementFor (procedure_of service m)) \<longleftrightarrow> isRead m"
proof -
  obtain act where e: "EntitlementFor (procedure_of service m) = serviceToResource service @ '':'' @ act"
    and act: "act \<in> {''read'', ''write'', ''supersede'', ''publish''}" "act = ''read'' \<longleftrightarrow> isRead m"
    by (rule EntitlementFor_shape [OF assms])
  have "serviceToResource service \<noteq> ''*''" by (simp add: serviceToResource_def)
  moreover have "CHR '':'' \<notin> set act" using act(1) by auto
  ultimately have "covers ''*:read'' (serviceToResource service @ '':'' @ act) \<longleftrightarrow> isRead m"
    using covers_read_wildcard [OF resource_no_colon] act(2) by simp
  then show ?thesis by (simp add: Has_iff e)
qed

theorem viewer_reads_only_witness:
  "\<not> Has [''*:read''] (EntitlementFor (procedure_of ''PolicyService'' ''PublishPolicy''))"
  using viewer_reads_only [of "''PolicyService''" "''PublishPolicy''"]
  by (simp add: serviceToResource_def isRead_def HasPrefix_Cons)

end
