(* ===== verification/Go_Numbers.thy ===== *)
theory Go_Numbers
  imports Go_Prelude "HOL-Library.Word"
begin

text \<open>
  Go's \<open>int64\<close> arithmetic (also the carrier of \<open>time.Duration\<close>) as integers with the wrap-around
  written out, and the decimal rendering of \<open>fmt.Sprintf("%d")\<close>.
\<close>

definition i64 :: "int \<Rightarrow> int" where
  "i64 x = (x + 2 ^ 63) mod 2 ^ 64 - 2 ^ 63"

definition in_i64 :: "int \<Rightarrow> bool" where
  "in_i64 x \<longleftrightarrow> - (2 ^ 63) \<le> x \<and> x < 2 ^ 63"

lemma i64_id [simp]: "in_i64 x \<Longrightarrow> i64 x = x"
  by (simp add: i64_def in_i64_def)

lemma i64_range [simp]: "in_i64 (i64 x)"
  by (simp add: i64_def in_i64_def)

text \<open>\<open>i64\<close> is the value of a 64-bit word read as two's complement.\<close>

lemma i64_word: "i64 x = sint (word_of_int x :: 64 word)"
  by (simp add: i64_def sint_word_ariths sint_sbintrunc' signed_take_bit_eq_take_bit_shift take_bit_eq_mod
      flip: signed_take_bit_eq_take_bit_minus)

lemma i64_cong: "a mod 2 ^ 64 = b mod 2 ^ 64 \<Longrightarrow> i64 a = i64 b"
  unfolding i64_def by (metis mod_add_left_eq)

lemma i64_mod: "i64 a mod 2 ^ 64 = a mod 2 ^ 64"
  by (simp add: i64_def mod_diff_left_eq)

lemma i64_mult: "i64 (i64 a * b) = i64 (a * b)"
  by (rule i64_cong) (metis i64_mod mod_mult_left_eq)

lemma i64_multiple: "i64 (2 ^ 64 * k) = 0"
  using i64_cong [of "2 ^ 64 * k" 0] by (simp add: in_i64_def)

text \<open>Division and remainder of Go truncate towards zero.\<close>

definition go_quot :: "int \<Rightarrow> int \<Rightarrow> int" where
  "go_quot a b = sgn a * sgn b * (\<bar>a\<bar> div \<bar>b\<bar>)"

definition go_rem :: "int \<Rightarrow> int \<Rightarrow> int" where
  "go_rem a b = a - b * go_quot a b"

definition Millisecond :: int where "Millisecond = 1000000"
definition Second :: int where "Second = 1000000000"
definition Minute :: int where "Minute = 60 * Second"

text \<open>\<open>Duration.Round\<close>: to the nearest multiple, halves away from zero, saturating on overflow.\<close>

definition Round :: "int \<Rightarrow> int \<Rightarrow> int" where
  "Round d m =
     (if m \<le> 0 then d
      else (let r = go_rem d m
            in if d < 0 then
                 (let r' = - r
                  in if r' + r' < m then d + r'
                     else (let d1 = i64 (d - m + r') in if d1 < d then d1 else - (2 ^ 63)))
               else if r + r < m then d - r
               else (let d1 = i64 (d + m - r) in if d1 > d then d1 else 2 ^ 63 - 1)))"

fun fmt_nat :: "nat \<Rightarrow> string" where
  "fmt_nat n =
     (if n < 10 then [char_of (48 + n)] else fmt_nat (n div 10) @ [char_of (48 + n mod 10)])"

declare fmt_nat.simps [simp del]

definition fmt_d :: "int \<Rightarrow> string" where
  "fmt_d i = (if i < 0 then ''-'' @ fmt_nat (nat (- i)) else fmt_nat (nat i))"

lemma fmt_nat_neq_Nil [simp]: "fmt_nat n \<noteq> []"
  by (subst fmt_nat.simps) simp

lemma Second_pos [simp]: "0 < Second" "\<not> Second \<le> 0" "Second \<noteq> 0"
  by (simp_all add: Second_def)

lemma go_rem_nonneg: "0 \<le> d \<Longrightarrow> 0 < m \<Longrightarrow> go_rem d m = d mod m"
  by (auto simp: go_rem_def go_quot_def sgn_if minus_mult_div_eq_mod)

lemma go_quot_mult: "0 \<le> k \<Longrightarrow> 0 < m \<Longrightarrow> go_quot (m * k) m = k"
  by (cases "k = 0") (simp_all add: go_quot_def sgn_mult)

lemma Round_nonneg:
  assumes "0 \<le> d" and "0 < m" and "d + m < 2 ^ 63"
  shows "Round d m = m * (if d mod m + d mod m < m then d div m else d div m + 1)"
proof -
  have b: "0 \<le> d mod m" "d mod m < m" using assms by simp_all
  have "in_i64 (d + m - d mod m)" unfolding in_i64_def using b assms by linarith
  then have wrap: "i64 (d + m - d mod m) = d + m - d mod m" by (rule i64_id)
  have up: "d < d + m - d mod m" using b by linarith
  have "Round d m = (if d mod m + d mod m < m then d - d mod m else d + m - d mod m)"
    unfolding Round_def go_rem_nonneg [OF assms(1,2)] using assms up by (simp add: Let_def wrap)
  also have "\<dots> = m * (if d mod m + d mod m < m then d div m else d div m + 1)"
    using minus_mod_eq_mult_div [of d m] by (simp add: distrib_left)
  finally show ?thesis .
qed

lemma Round_seconds:
  assumes "0 \<le> d" and "d + Second < 2 ^ 63"
  shows "go_quot (Round d Second) Second =
    (if d mod Second + d mod Second < Second then d div Second else d div Second + 1)"
  using assms Round_nonneg [of d Second] go_quot_mult [of _ Second]
  by (simp add: pos_imp_zdiv_nonneg_iff)

end
