(* ===== verification/Tool_Class.thy ===== *)
theory Tool_Class
  imports Go_Numbers
begin

text \<open>
  Package \<open>internal/toolclass\<close>: the class of a tool call and the activity line that counts the
  calls of a rolling window. \<open>Summarize\<close> decodes a JSON column into calls; the decoder is an
  argument here, and everything after it is modelled.
\<close>

datatype tool_class = Modify | Read | Bash | Other | Ignore

definition modifyTools :: "string list" where
  "modifyTools = [''write'', ''edit'', ''batch_write'']"

definition readTools :: "string list" where
  "readTools = [''read'', ''batch_read'', ''grep'', ''batch_grep'', ''list'', ''glob'', ''todoread'']"

definition bashTools :: "string list" where
  "bashTools = [''bash'', ''shell'']"

definition Classify :: "string \<Rightarrow> tool_class" where
  "Classify toolName =
     (let n = ToLower (TrimSpace toolName)
      in if HasPrefix n ''permission.'' then Ignore
         else (let n = TrimPrefix n ''orchicon_''
               in if n = ''ask_user'' \<or> n = ''askuser'' \<or> n = ''ask_user_question'' then Ignore
                  else if n = ''todowrite'' then Ignore
                  else if List.member modifyTools n then Modify
                  else if List.member readTools n then Read
                  else if List.member bashTools n then Bash
                  else if n = [] then Ignore
                  else Other))"

record call =
  ToolName :: string
  AtMs :: int

definition DefaultWindow :: int where
  "DefaultWindow = 30 * Second"

record tally =
  modifies :: nat
  reads :: nat
  bashes :: nat
  others :: nat
  newest :: int
  counted :: bool

definition age_ms :: "int \<Rightarrow> int \<Rightarrow> int" where
  "age_ms nowMs at = (let a = i64 (nowMs - at) in if a < 0 then 0 else a)"

definition bump_class :: "tool_class \<Rightarrow> tally \<Rightarrow> tally" where
  "bump_class k t =
     (case k of Modify \<Rightarrow> t\<lparr>modifies := modifies t + 1\<rparr> | Read \<Rightarrow> t\<lparr>reads := reads t + 1\<rparr>
      | Bash \<Rightarrow> t\<lparr>bashes := bashes t + 1\<rparr> | Other \<Rightarrow> t\<lparr>others := others t + 1\<rparr> | Ignore \<Rightarrow> t)"

text \<open>One iteration of the counting loop of \<open>SummarizeCalls\<close>; each \<open>continue\<close> leaves the tally.\<close>

definition count_call :: "int \<Rightarrow> int \<Rightarrow> call \<Rightarrow> tally \<Rightarrow> tally" where
  "count_call nowMs window c t =
     (if AtMs c = 0 then t
      else if i64 (age_ms nowMs (AtMs c) * Millisecond) > window then t
      else if Classify (ToolName c) = Ignore then t
      else (let t' = bump_class (Classify (ToolName c)) t
            in t'\<lparr>newest := (if \<not> counted t \<or> AtMs c > newest t then AtMs c else newest t),
                  counted := True\<rparr>))"

definition countLabel :: "nat \<Rightarrow> string \<Rightarrow> string \<Rightarrow> string" where
  "countLabel n singular plural =
     (if n = 1 then ''1 '' @ singular else fmt_nat n @ '' '' @ plural)"

text \<open>The separator \<open>" \<cdot> "\<close> is a middle dot, two bytes in UTF-8.\<close>

definition dot_sep :: string where
  "dot_sep = [CHR '' '', CHR 0xC2, CHR 0xB7, CHR '' '']"

definition render_tally :: "int \<Rightarrow> tally \<Rightarrow> string" where
  "render_tally nowMs t =
     (if \<not> counted t then []
      else join_with dot_sep
        ((if modifies t > 0 then [countLabel (modifies t) ''modify'' ''modifies''] else []) @
         (if reads t > 0 then [countLabel (reads t) ''read'' ''reads''] else []) @
         (if bashes t > 0 then [countLabel (bashes t) ''bash'' ''bash''] else []) @
         (if others t > 0 then [countLabel (others t) ''other tool'' ''other tools''] else []) @
         [''newest call '' @
          fmt_d (go_quot (Round (i64 (age_ms nowMs (newest t) * Millisecond)) Second) Second) @
          ''s ago'']))"

definition empty_tally :: tally where
  "empty_tally = \<lparr>modifies = 0, reads = 0, bashes = 0, others = 0, newest = 0, counted = False\<rparr>"

definition SummarizeCalls :: "call list \<Rightarrow> int \<Rightarrow> int \<Rightarrow> string" where
  "SummarizeCalls calls nowMs window =
     (let w = (if window \<le> 0 then DefaultWindow else window)
      in render_tally nowMs (fold (count_call nowMs w) calls empty_tally))"

definition Summarize ::
    "(string \<Rightarrow> (string \<times> int) list option) \<Rightarrow> string \<Rightarrow> int \<Rightarrow> int \<Rightarrow> string" where
  "Summarize unmarshal callsJSON nowMs window =
     (case unmarshal callsJSON of
        None \<Rightarrow> []
      | Some cs \<Rightarrow> SummarizeCalls (map (\<lambda>(f, ms). \<lparr>ToolName = f, AtMs = ms\<rparr>) cs) nowMs window)"


subsection \<open>The counting loop against its specification\<close>

definition in_line :: "int \<Rightarrow> int \<Rightarrow> call \<Rightarrow> bool" where
  "in_line nowMs w c \<longleftrightarrow>
     AtMs c \<noteq> 0 \<and> i64 (age_ms nowMs (AtMs c) * Millisecond) \<le> w \<and> Classify (ToolName c) \<noteq> Ignore"

definition class_count :: "int \<Rightarrow> int \<Rightarrow> call list \<Rightarrow> tool_class \<Rightarrow> nat" where
  "class_count nowMs w calls k =
     length (filter (\<lambda>c. in_line nowMs w c \<and> Classify (ToolName c) = k) calls)"

definition tally_spec :: "int \<Rightarrow> int \<Rightarrow> call list \<Rightarrow> tally" where
  "tally_spec nowMs w calls =
     (let cs = filter (in_line nowMs w) calls
      in \<lparr>modifies = class_count nowMs w calls Modify, reads = class_count nowMs w calls Read,
          bashes = class_count nowMs w calls Bash, others = class_count nowMs w calls Other,
          newest = (if cs = [] then 0 else Max (AtMs ` set cs)), counted = (cs \<noteq> [])\<rparr>)"

lemma class_count_snoc:
  "class_count nowMs w (xs @ [c]) k =
     class_count nowMs w xs k + (if in_line nowMs w c \<and> Classify (ToolName c) = k then 1 else 0)"
  by (simp add: class_count_def)

lemma count_call_skip: "\<not> in_line nowMs w c \<Longrightarrow> count_call nowMs w c t = t"
  by (auto simp: count_call_def in_line_def)

lemma count_call_take:
  "in_line nowMs w c \<Longrightarrow> count_call nowMs w c t =
     (bump_class (Classify (ToolName c)) t)
       \<lparr>newest := (if \<not> counted t \<or> AtMs c > newest t then AtMs c else newest t), counted := True\<rparr>"
  by (auto simp: count_call_def in_line_def Let_def)

lemma newest_step:
  "(if cs = [] \<or> a > Max (f ` set cs) then a else Max (f ` set cs)) = Max (insert a (f ` set cs))"
  for a :: int
  by (cases "cs = []") (simp_all add: max_def not_less del: Max_less_iff)

lemma tally_spec_snoc:
  "count_call nowMs w c (tally_spec nowMs w xs) = tally_spec nowMs w (xs @ [c])"
proof (cases "in_line nowMs w c")
  case False
  then show ?thesis by (simp add: count_call_skip tally_spec_def class_count_snoc Let_def)
next
  case True
  let ?cs = "filter (in_line nowMs w) xs"
  have "(if ?cs = [] \<or> AtMs c > Max (AtMs ` set ?cs) then AtMs c else Max (AtMs ` set ?cs)) =
      Max (insert (AtMs c) (AtMs ` set ?cs))"
    by (rule newest_step)
  then show ?thesis
    using True
    by (cases "Classify (ToolName c)")
      (auto simp: count_call_take tally_spec_def class_count_snoc bump_class_def Let_def in_line_def)
qed

lemma count_loop: "fold (count_call nowMs w) calls empty_tally = tally_spec nowMs w calls"
proof (induction calls rule: rev_induct)
  case Nil
  show ?case by (simp add: empty_tally_def tally_spec_def class_count_def)
next
  case (snoc c calls)
  then show ?case by (simp add: tally_spec_snoc)
qed

lemma render_tally_Nil: "render_tally nowMs t = [] \<longleftrightarrow> \<not> counted t"
  by (simp add: render_tally_def dot_sep_def countLabel_def)

text \<open>
  The one-pass loop over a turn's calls renders exactly the declared summary: per class the number
  of calls that carry a stamp, lie in the window (the default one for a non-positive request) and
  are not ignored, and the age of the newest of those calls.
\<close>

theorem SummarizeCalls_counts:
  "SummarizeCalls calls nowMs window =
     render_tally nowMs (tally_spec nowMs (if window \<le> 0 then DefaultWindow else window) calls)"
  by (simp add: SummarizeCalls_def count_loop)

text \<open>
  The line is blank exactly when no call is counted, so a blank line never hides counted work and a
  line is never drawn over a turn in which nothing counts.
\<close>

theorem SummarizeCalls_blank:
  "SummarizeCalls calls nowMs window = [] \<longleftrightarrow>
     filter (in_line nowMs (if window \<le> 0 then DefaultWindow else window)) calls = []"
  by (simp add: SummarizeCalls_def count_loop render_tally_Nil tally_spec_def Let_def)

end
