(* ===== verification/Ask_Mode.thy ===== *)
theory Ask_Mode
  imports Go_Prelude "HOL-Library.List_Lexorder" "HOL-Library.Char_ord" "HOL-Library.Multiset"
begin

text \<open>
  Package \<open>internal/askmode\<close>: which tools a conversation mode may run, and the turn's mode and
  conversation scope carried as context values. The refusal sentence of a mode (\<open>Why\<close>) is prose
  and is not modelled.
\<close>

definition Brainstorm :: string where "Brainstorm = ''brainstorm''"
definition Iteration :: string where "Iteration = ''iteration''"
definition QuickWork :: string where "QuickWork = ''quick_work''"

lemmas mode_names = Brainstorm_def Iteration_def QuickWork_def

lemma mode_distinct [simp]:
  "Brainstorm \<noteq> Iteration" "Iteration \<noteq> Brainstorm" "Brainstorm \<noteq> QuickWork"
  "QuickWork \<noteq> Brainstorm" "Iteration \<noteq> QuickWork" "QuickWork \<noteq> Iteration"
  by (simp_all add: mode_names)

record conversation_scope =
  ConversationID :: string
  ProjectID :: string

text \<open>A turn's context: the two values this package stamps, each absent until stamped.\<close>

record turn_context =
  ctx_mode :: "string option"
  ctx_scope :: "conversation_scope option"

definition WithMode :: "turn_context \<Rightarrow> string \<Rightarrow> turn_context" where
  "WithMode ctx mode = ctx\<lparr>ctx_mode := Some mode\<rparr>"

definition ModeFromContext :: "turn_context option \<Rightarrow> string" where
  "ModeFromContext ctx =
     (case ctx of None \<Rightarrow> [] | Some c \<Rightarrow> (case ctx_mode c of None \<Rightarrow> [] | Some m \<Rightarrow> m))"

definition WithConversationScope :: "turn_context \<Rightarrow> conversation_scope \<Rightarrow> turn_context" where
  "WithConversationScope ctx scope = ctx\<lparr>ctx_scope := Some scope\<rparr>"

definition ConversationScopeFromContext :: "turn_context option \<Rightarrow> conversation_scope" where
  "ConversationScopeFromContext ctx =
     (case ctx of None \<Rightarrow> \<lparr>ConversationID = [], ProjectID = []\<rparr>
      | Some c \<Rightarrow> (case ctx_scope c of None \<Rightarrow> \<lparr>ConversationID = [], ProjectID = []\<rparr> | Some s \<Rightarrow> s))"

record mode_policy =
  Mode :: string
  Denied :: "string list"
  SwitchTo :: string
  PolicyMayAct :: bool

definition theWorkTools :: "string list" where
  "theWorkTools = [''write'', ''edit'', ''batch_write'', ''bash'']"

definition thePlanTools :: "string list" where
  "thePlanTools =
     [''create_work_item'', ''update_work_item'', ''schedule_work_item'', ''reorder_work_items'',
      ''control_sequence'', ''force_progress_workflow_run'', ''retry_failed_workflow_run'']"

definition policies :: "string \<Rightarrow> mode_policy option" where
  "policies mode =
     (if mode = Brainstorm then
        Some \<lparr>Mode = Brainstorm, Denied = theWorkTools, SwitchTo = Iteration, PolicyMayAct = False\<rparr>
      else if mode = QuickWork then
        Some \<lparr>Mode = QuickWork, Denied = theWorkTools, SwitchTo = Iteration, PolicyMayAct = False\<rparr>
      else if mode = Iteration then
        Some \<lparr>Mode = Iteration, Denied = thePlanTools, SwitchTo = Brainstorm, PolicyMayAct = True\<rparr>
      else None)"

definition orchiconMCPServer :: string where
  "orchiconMCPServer = ''orchicon''"

definition IsOpaqueMCPTool :: "string \<Rightarrow> bool" where
  "IsOpaqueMCPTool name =
     (let n = ToLower (TrimSpace name)
      in if \<not> HasPrefix n ''mcp__'' then False
         else (let rest = drop (length ''mcp__'') n
               in case Index rest ''__'' of
                    None \<Rightarrow> False
                  | Some i \<Rightarrow>
                      if i = 0 then False
                      else (let server = take i rest; tool = drop (i + 2) rest
                            in if server = [] \<or> tool = [] then False
                               else server \<noteq> orchiconMCPServer)))"

definition NormalizeToolName :: "string \<Rightarrow> string" where
  "NormalizeToolName name =
     (let trimmed = TrimSpace name; p = ''mcp__'' @ orchiconMCPServer @ ''__''
      in if HasPrefix (ToLower trimmed) p then drop (length p) trimmed
         else TrimPrefix trimmed ''orchicon_'')"

definition MayAct :: "string \<Rightarrow> bool" where
  "MayAct mode = (case policies mode of None \<Rightarrow> True | Some p \<Rightarrow> PolicyMayAct p)"

definition PolicyFor :: "string \<Rightarrow> mode_policy option" where
  "PolicyFor mode = policies mode"

definition Allows :: "string \<Rightarrow> string \<Rightarrow> bool" where
  "Allows mode tool =
     (case policies mode of
        None \<Rightarrow> True
      | Some p \<Rightarrow> if IsOpaqueMCPTool tool then PolicyMayAct p
                 else \<not> List.member (Denied p) (NormalizeToolName tool))"

text \<open>
  The insertion sort of \<open>sortStrings\<close>: the inner loop swaps \<open>s[j]\<close> down while it is smaller than
  its left neighbour, the outer loop runs it for every index from 1 on.
\<close>

fun sift_down :: "'a::linorder list \<Rightarrow> nat \<Rightarrow> 'a list" where
  "sift_down s 0 = s"
| "sift_down s (Suc j) =
     (if s ! Suc j < s ! j then sift_down (s[Suc j := s ! j, j := s ! Suc j]) j else s)"

definition sortStrings :: "'a::linorder list \<Rightarrow> 'a list" where
  "sortStrings s = fold (\<lambda>i s. sift_down s i) [1..<length s] s"

text \<open>
  \<open>DeniedNames\<close> collects the keys of a Go map, whose iteration order is unspecified: \<open>order\<close> is
  that order, a rearrangement of the key list.
\<close>

definition DeniedNames :: "(string list \<Rightarrow> string list) \<Rightarrow> string \<Rightarrow> string list" where
  "DeniedNames order mode =
     (case policies mode of None \<Rightarrow> [] | Some p \<Rightarrow> sortStrings (order (Denied p)))"


subsection \<open>The insertion sort is a sort\<close>

lemma insort_snoc_less: "x < z \<Longrightarrow> insort x (xs @ [z]) = insort x xs @ [z]" for x :: "'a::linorder"
  by (induction xs) auto

lemma insort_snoc_sorted: "sorted (xs @ [x]) \<Longrightarrow> insort x xs = xs @ [x]" for x :: "'a::linorder"
  using properties_for_sort [of "xs @ [x]" "x # xs"] by (simp add: sorted_append sorted_sort_id)

lemma sort_snoc: "sort (xs @ [x]) = insort x (sort xs)" for x :: "'a::linorder"
  by (rule properties_for_sort) (simp_all add: sorted_insort)

lemma sift_down_insort:
  "sorted xs \<Longrightarrow> sift_down (xs @ y # zs) (length xs) = insort y xs @ zs"
proof (induction xs arbitrary: zs rule: rev_induct)
  case (snoc z xs)
  show ?case
  proof (cases "y < z")
    case True
    with snoc show ?thesis
      by (simp add: nth_append list_update_append insort_snoc_less sorted_append)
  next
    case False
    with snoc.prems have "sorted ((xs @ [z]) @ [y])" by (auto simp: sorted_append)
    with False show ?thesis by (simp add: nth_append insort_snoc_sorted)
  qed
qed simp

lemma sortStrings_prefix:
  assumes "k \<le> length s"
  shows "fold (\<lambda>i s. sift_down s i) [1..<k] s = sort (take k s) @ drop k s"
  using assms
proof (induction k)
  case (Suc k)
  show ?case
  proof (cases k)
    case 0
    then show ?thesis using Suc.prems by (cases s) auto
  next
    case k: (Suc j)
    let ?xs = "sort (take k s)"
    have len: "length ?xs = k" and drop: "drop k s = s ! k # drop (Suc k) s"
      using Suc.prems by (simp_all add: Cons_nth_drop_Suc)
    have "[1..<Suc k] = [1..<k] @ [k]" using k by (simp add: upt_Suc_append)
    then have "fold (\<lambda>i s. sift_down s i) [1..<Suc k] s = sift_down (?xs @ s ! k # drop (Suc k) s) k"
      using Suc drop by (simp del: upt_Suc)
    also have "\<dots> = insort (s ! k) ?xs @ drop (Suc k) s"
      using sift_down_insort [of ?xs "s ! k"] len by simp
    finally show ?thesis
      using Suc.prems by (simp add: take_Suc_conv_app_nth sort_snoc)
  qed
qed simp

lemma sortStrings_sort: "sortStrings s = sort s"
  using sortStrings_prefix [of "length s" s] by (simp add: sortStrings_def)


subsection \<open>The boundary between the modes\<close>

text \<open>
  The three spellings a tool name arrives in: bare, with the prefix the prompt advertises, and with
  the prefix of the platform's own MCP sidecar.
\<close>

definition spellings :: "string \<Rightarrow> string list" where
  "spellings t = [t, ''orchicon_'' @ t, ''mcp__orchicon__'' @ t]"

lemma policies_cases:
  "policies mode = Some p \<Longrightarrow> mode = Brainstorm \<or> mode = QuickWork \<or> mode = Iteration"
  by (auto simp: policies_def split: if_splits)

lemma policies_simps [simp]:
  "policies Brainstorm = Some \<lparr>Mode = Brainstorm, Denied = theWorkTools, SwitchTo = Iteration, PolicyMayAct = False\<rparr>"
  "policies QuickWork = Some \<lparr>Mode = QuickWork, Denied = theWorkTools, SwitchTo = Iteration, PolicyMayAct = False\<rparr>"
  "policies Iteration = Some \<lparr>Mode = Iteration, Denied = thePlanTools, SwitchTo = Brainstorm, PolicyMayAct = True\<rparr>"
  by (simp_all add: policies_def mode_names)

lemma Allows_pad:
  assumes "list_all is_space a" and "list_all is_space b"
  shows "Allows mode (a @ tool @ b) = Allows mode tool"
  unfolding Allows_def IsOpaqueMCPTool_def NormalizeToolName_def TrimSpace_pad [OF assms] ..

lemma denied_spellings:
  "list_all (\<lambda>m. list_all (\<lambda>t. list_all (\<lambda>n. \<not> Allows m n) (spellings t))
     (case policies m of None \<Rightarrow> [] | Some p \<Rightarrow> Denied p)) [Brainstorm, QuickWork, Iteration]"
  by code_simp

lemma Allows_denied_spelling:
  assumes "policies mode = Some p" and "t \<in> set (Denied p)" and "n \<in> set (spellings t)"
  shows "\<not> Allows mode n"
  using denied_spellings assms policies_cases [OF assms(1)] by (auto simp: list_all_iff)


text \<open>
  A mode refuses every tool its table denies, however the name is spelled: bare, with the
  \<open>orchicon_\<close> prefix or as \<open>mcp__orchicon__\<close>, and with any whitespace around it.
\<close>

theorem denied_tools_refused:
  assumes "policies mode = Some p" and "t \<in> set (Denied p)" and "n \<in> set (spellings t)"
    and "list_all is_space a" and "list_all is_space b"
  shows "\<not> Allows mode (a @ n @ b)"
  using Allows_denied_spelling [OF assms(1-3)] Allows_pad [OF assms(4,5)] by simp

theorem denied_tools_refused_witness:
  "\<not> Allows Brainstorm ('' '' @ ''mcp__orchicon__bash'' @ ''  '')"
  by (rule denied_tools_refused [OF policies_simps(1), where t = "''bash''"])
    (simp_all add: theWorkTools_def spellings_def is_space_def)

lemma ToLower_append [simp]: "ToLower (a @ b) = ToLower a @ ToLower b"
  by (simp add: ToLower_def)

lemma ToLower_Nil [simp]: "ToLower [] = []"
  by (simp add: ToLower_def)

lemma ToLower_eq_Nil [simp]: "ToLower s = [] \<longleftrightarrow> s = []"
  by (simp add: ToLower_def)

lemma length_ToLower [simp]: "length (ToLower s) = length s"
  by (simp add: ToLower_def)

lemma ToLower_mcp: "ToLower ''mcp__'' = ''mcp__''" "ToLower ''__'' = ''__''"
  by code_simp+

lemma opaque_mcp_name:
  assumes server: "server \<noteq> []" "ToLower server \<noteq> ''orchicon''"
    and tool: "tool \<noteq> []" "\<not> is_space (last tool)"
    and idx: "Index (ToLower server @ ''__'' @ ToLower tool) ''__'' = Some (length server)"
  shows "IsOpaqueMCPTool (''mcp__'' @ server @ ''__'' @ tool)"
proof -
  let ?n = "''mcp__'' @ server @ ''__'' @ tool"
  have "TrimSpace ?n = ?n"
    using tool by (intro TrimSpace_id) (simp add: is_space_def)
  then have "ToLower (TrimSpace ?n) = ''mcp__'' @ ToLower server @ ''__'' @ ToLower tool"
    by (simp only: ToLower_append ToLower_mcp)
  moreover define rest where "rest = ToLower server @ ''__'' @ ToLower tool"
  moreover have "take (length server) rest = ToLower server"
    and "drop (length server + 2) rest = ToLower tool"
    by (simp_all add: rest_def)
  ultimately show ?thesis
    using idx server tool
    by (simp add: IsOpaqueMCPTool_def Let_def orchiconMCPServer_def HasPrefix_Cons)
qed

text \<open>
  A third-party MCP tool is an action: whatever the server and the tool are called, it runs in
  Brainstorm and in Quick Work never, and in every other mode always.
\<close>

theorem opaque_mcp_only_for_hands:
  assumes "server \<noteq> []" and "ToLower server \<noteq> ''orchicon''"
    and "tool \<noteq> []" and "\<not> is_space (last tool)"
    and "Index (ToLower server @ ''__'' @ ToLower tool) ''__'' = Some (length server)"
  shows "Allows mode (''mcp__'' @ server @ ''__'' @ tool) \<longleftrightarrow> mode \<noteq> Brainstorm \<and> mode \<noteq> QuickWork"
proof (cases "policies mode")
  case None
  then show ?thesis by (auto simp: Allows_def)
next
  case (Some p)
  have "Allows mode (''mcp__'' @ server @ ''__'' @ tool) = PolicyMayAct p"
    unfolding Allows_def Some option.case using opaque_mcp_name [OF assms] by (simp only: if_True)
  then show ?thesis using policies_cases [OF Some] Some by auto
qed

theorem opaque_mcp_only_for_hands_witness:
  "\<not> Allows QuickWork (''mcp__'' @ ''GitHub'' @ ''__'' @ ''create_issue'')"
proof -
  have "ToLower ''GitHub'' \<noteq> ''orchicon''"
    and "Index (ToLower ''GitHub'' @ ''__'' @ ToLower ''create_issue'') ''__'' = Some (length ''GitHub'')"
    by code_simp+
  then show ?thesis
    using opaque_mcp_only_for_hands [of "''GitHub''" "''create_issue''" QuickWork]
    by (simp add: is_space_def)
qed

text \<open>
  The field \<open>MayAct\<close> is not a second list: a mode may act exactly when its own table refuses
  none of the work tools.
\<close>

theorem MayAct_derived: "MayAct mode = list_all (Allows mode) theWorkTools"
proof (cases "policies mode")
  case None
  then show ?thesis by (simp add: MayAct_def Allows_def theWorkTools_def)
next
  case (Some p)
  have "list_all (Allows Iteration) theWorkTools" and "\<not> Allows Brainstorm ''bash''"
    and "\<not> Allows QuickWork ''bash''"
    by code_simp+
  then show ?thesis
    using policies_cases [OF Some] by (auto simp: MayAct_def list_all_iff theWorkTools_def)
qed

text \<open>
  The denied names handed to an adapter do not depend on the order in which Go iterates over the
  map: whatever that order is, the result is the sorted list of the mode's denied tools.
\<close>

theorem DeniedNames_deterministic:
  assumes "\<And>xs. mset (order xs) = mset xs"
  shows "DeniedNames order mode =
    (case policies mode of None \<Rightarrow> [] | Some p \<Rightarrow> sort (Denied p))"
  using assms by (auto simp: DeniedNames_def sortStrings_sort split: option.splits
      intro!: properties_for_sort)

theorem DeniedNames_deterministic_witness:
  "DeniedNames rev Brainstorm = [''bash'', ''batch_write'', ''edit'', ''write'']"
proof -
  have "sort theWorkTools = [''bash'', ''batch_write'', ''edit'', ''write'']" by code_simp
  then show ?thesis using DeniedNames_deterministic [of rev Brainstorm] by simp
qed

end
