(* ===== verification/Bash_Match.thy ===== *)
theory Bash_Match
  imports Go_Prelude
begin

text \<open>
  The part of bash the guard shim relies on: \<open>case\<close> pattern matching with \<open>extglob\<close>, word splitting and
  command substitution. A pattern is parsed into items; matching returns all the rests a pattern can
  leave of a string. Named classes such as \<open>[:alpha:]\<close> inside brackets are not distinguished.
\<close>

datatype bpat =
  Lit char
| AnyStr
| AnyChar
| Class bool "(char \<times> char) list"
| Many "bpat list list"
| OneOf "bpat list list"
| Except "bpat list list"

fun class_items :: "string \<Rightarrow> ((char \<times> char) list \<times> string) option" where
  "class_items [] = None"
| "class_items (c # t) =
     (if c = CHR '']'' then Some ([], t)
      else case t of
        m # d # t' \<Rightarrow>
          if m = CHR ''-'' \<and> d \<noteq> CHR '']'' then map_option (\<lambda>(rs, r). ((c, d) # rs, r)) (class_items t')
          else map_option (\<lambda>(rs, r). ((c, c) # rs, r)) (class_items t)
      | _ \<Rightarrow> map_option (\<lambda>(rs, r). ((c, c) # rs, r)) (class_items t))"

definition class_body :: "string \<Rightarrow> ((char \<times> char) list \<times> string) option" where
  "class_body s =
     (case s of
        c # t \<Rightarrow> if c = CHR '']'' then map_option (\<lambda>(rs, r). ((c, c) # rs, r)) (class_items t) else class_items s
      | [] \<Rightarrow> None)"

definition parse_class :: "string \<Rightarrow> (bpat \<times> string) option" where
  "parse_class s =
     (case s of
        c # t \<Rightarrow> if c = CHR ''!'' \<or> c = CHR ''^'' then map_option (\<lambda>(rs, r). (Class True rs, r)) (class_body t)
                 else map_option (\<lambda>(rs, r). (Class False rs, r)) (class_body s)
      | [] \<Rightarrow> None)"

definition group_char :: "char \<Rightarrow> bool" where
  "group_char c \<longleftrightarrow> c \<in> {CHR ''*'', CHR ''?'', CHR ''@'', CHR ''+'', CHR ''!''}"

definition group_items :: "char \<Rightarrow> bpat list list \<Rightarrow> bpat list" where
  "group_items c as =
     (if c = CHR ''*'' then [Many as] else if c = CHR ''?'' then [OneOf ([] # as)]
      else if c = CHR ''@'' then [OneOf as] else if c = CHR ''+'' then [OneOf as, Many as] else [Except as])"

text \<open>\<open>parse_pat n g s cur alts\<close>: \<open>g\<close> says whether a group is open, \<open>cur\<close> is the alternative being read.\<close>

fun parse_pat :: "nat \<Rightarrow> bool \<Rightarrow> string \<Rightarrow> bpat list \<Rightarrow> bpat list list \<Rightarrow> bpat list list \<times> string" where
  "parse_pat 0 g s cur alts = (alts @ [cur], s)"
| "parse_pat (Suc n) g [] cur alts = (alts @ [cur], [])"
| "parse_pat (Suc n) g (c # t) cur alts =
     (if g \<and> c = CHR ''|'' then parse_pat n g t [] (alts @ [cur])
      else if g \<and> c = CHR '')'' then (alts @ [cur], t)
      else if c = CHR 0x5C then
        (case t of [] \<Rightarrow> (alts @ [cur @ [Lit c]], []) | d # t' \<Rightarrow> parse_pat n g t' (cur @ [Lit d]) alts)
      else if group_char c \<and> t \<noteq> [] \<and> hd t = CHR ''('' then
        (let (as, r) = parse_pat n True (tl t) [] [] in parse_pat n g r (cur @ group_items c as) alts)
      else if c = CHR ''*'' then parse_pat n g t (cur @ [AnyStr]) alts
      else if c = CHR ''?'' then parse_pat n g t (cur @ [AnyChar]) alts
      else if c = CHR ''['' then
        (case parse_class t of
           None \<Rightarrow> parse_pat n g t (cur @ [Lit c]) alts
         | Some (p, r) \<Rightarrow> parse_pat n g r (cur @ [p]) alts)
      else parse_pat n g t (cur @ [Lit c]) alts)"

definition in_class :: "(char \<times> char) list \<Rightarrow> char \<Rightarrow> bool" where
  "in_class rs c \<longleftrightarrow> list_ex (\<lambda>(a, b). (of_char a :: nat) \<le> of_char c \<and> (of_char c :: nat) \<le> of_char b) rs"

fun many_rests :: "(string \<Rightarrow> string list) \<Rightarrow> nat \<Rightarrow> string \<Rightarrow> string list" where
  "many_rests f 0 s = [s]"
| "many_rests f (Suc n) s = s # concat (map (many_rests f n) (filter (\<lambda>r. length r < length s) (f s)))"

lemma many_rests_cong [fundef_cong]:
  "(\<And>s. f s = g s) \<Longrightarrow> n = m \<Longrightarrow> s = t \<Longrightarrow> many_rests f n s = many_rests g m t"
  by (metis ext)

definition tails :: "string \<Rightarrow> string list" where
  "tails s = map (\<lambda>i. drop i s) [0..<Suc (length s)]"

function (sequential) rests :: "bpat list \<Rightarrow> string \<Rightarrow> string list"
  and item_rests :: "bpat \<Rightarrow> string \<Rightarrow> string list" where
  "rests [] s = [s]"
| "rests (p # ps) s = concat (map (rests ps) (item_rests p s))"
| "item_rests (Lit c) s = (case s of [] \<Rightarrow> [] | d # t \<Rightarrow> if c = d then [t] else [])"
| "item_rests AnyStr s = tails s"
| "item_rests AnyChar s = (case s of [] \<Rightarrow> [] | _ # t \<Rightarrow> [t])"
| "item_rests (Class neg rs) s =
     (case s of [] \<Rightarrow> [] | d # t \<Rightarrow> if in_class rs d \<noteq> neg then [t] else [])"
| "item_rests (OneOf as) s = concat (map (\<lambda>a. rests a s) as)"
| "item_rests (Many as) s = many_rests (\<lambda>s. concat (map (\<lambda>a. rests a s) as)) (length s) s"
| "item_rests (Except as) s =
     map (\<lambda>i. drop i s)
       (filter (\<lambda>i. \<not> list_ex (\<lambda>a. [] \<in> set (rests a (take i s))) as) [0..<Suc (length s)])"
  by pat_completeness auto
termination
  by (relation "measure (\<lambda>x. case x of Inl (ps, s) \<Rightarrow> size_list size ps | Inr (p, s) \<Rightarrow> size p)")
     (auto simp: size_list_estimation' less_Suc_eq_le intro: size_list_estimation')

text \<open>\<open>case s in pat)\<close>.\<close>

definition bash_match :: "string \<Rightarrow> string \<Rightarrow> bool" where
  "bash_match pat s \<longleftrightarrow>
     list_ex (\<lambda>a. [] \<in> set (rests a s)) (fst (parse_pat (Suc (length pat)) False pat [] []))"

text \<open>An unquoted \<open>$s\<close>: split at the default \<open>IFS\<close>, then pathname expansion of each word, an argument.\<close>

definition ifs_char :: "char \<Rightarrow> bool" where
  "ifs_char c \<longleftrightarrow> c = CHR '' '' \<or> c = CHR 0x09 \<or> c = CHR 0x0A"

definition word_split :: "string \<Rightarrow> string list" where
  "word_split s = filter (\<lambda>w. w \<noteq> []) (split_on CHR 0x0A (map (\<lambda>c. if ifs_char c then CHR 0x0A else c) s))"

text \<open>\<open>$(printf '%s' s)\<close> drops the newlines at the end.\<close>

definition cmd_subst :: "string \<Rightarrow> string" where
  "cmd_subst s = rev (dropWhile (\<lambda>c. c = CHR 0x0A) (rev s))"

text \<open>\<open>${s//from/to}\<close> for a literal, non-empty \<open>from\<close>.\<close>

function replace_all :: "string \<Rightarrow> string \<Rightarrow> string \<Rightarrow> string" where
  "replace_all from to s =
     (if from \<noteq> [] \<and> s \<noteq> [] then
        (if HasPrefix s from then to @ replace_all from to (drop (length from) s)
         else hd s # replace_all from to (tl s))
      else s)"
  by pat_completeness auto
termination
  by (relation "measure (\<lambda>(from, to, s). length s)") auto

declare replace_all.simps [simp del]

section \<open>Literal patterns\<close>

text \<open>A string without the characters that can start an item or a group is matched as it is.\<close>

definition plain_char :: "char \<Rightarrow> bool" where
  "plain_char c \<longleftrightarrow> c \<notin> {CHR ''*'', CHR ''?'', CHR ''['', CHR '']'', CHR ''{'', CHR ''}'', CHR ''('', CHR 0x5C, CHR 0x01}"

abbreviation plain :: "string \<Rightarrow> bool" where
  "plain s \<equiv> list_all plain_char s"

lemma parse_pat_plain:
  assumes "plain l" and "r = [] \<or> hd r \<noteq> CHR ''(''" and "length l < n"
  shows "parse_pat n False (l @ r) cur alts = parse_pat (n - length l) False r (cur @ map Lit l) alts"
  using assms
proof (induction l arbitrary: n cur)
  case (Cons c l)
  obtain m where m: "n = Suc m" "length l < m" using Cons.prems(3) by (cases n) auto
  have c: "c \<noteq> CHR 0x5C" "c \<noteq> CHR ''*''" "c \<noteq> CHR ''?''" "c \<noteq> CHR ''[''"
    using Cons.prems(1) by (auto simp: plain_char_def)
  have next_open: "\<not> (l @ r \<noteq> [] \<and> hd (l @ r) = CHR ''('')"
    using Cons.prems(1,2) by (cases l) (auto simp: plain_char_def)
  have "parse_pat n False ((c # l) @ r) cur alts = parse_pat m False (l @ r) (cur @ [Lit c]) alts"
    using c next_open m(1) by (simp only: append_Cons parse_pat.simps if_False simp_thms)
  also have "\<dots> = parse_pat (m - length l) False r ((cur @ [Lit c]) @ map Lit l) alts"
    using Cons m(2) by simp
  finally show ?case using m(1) by simp
qed simp

lemma rests_Lits: "rests (map Lit l @ ps) s = (if HasPrefix s l then rests ps (drop (length l) s) else [])"
proof (induction l arbitrary: s)
  case (Cons c l)
  then show ?case by (cases s) (auto simp: HasPrefix_Cons)
qed simp

lemma Nil_in_tails: "[] \<in> set (tails s)"
  by (auto simp: tails_def intro!: image_eqI [of _ _ "length s"])

lemma bash_match_plain:
  assumes "plain l"
  shows "bash_match l s \<longleftrightarrow> s = l"
proof -
  have "parse_pat (Suc (length l)) False l [] [] = ([map Lit l], [])"
    using parse_pat_plain [OF assms, of "[]" "Suc (length l)" "[]" "[]"] by simp
  then show ?thesis using rests_Lits [of l "[]" s]
    by (auto simp: bash_match_def HasPrefix_iff)
qed

lemma bash_match_plain_star:
  assumes "plain l"
  shows "bash_match (l @ ''*'') s \<longleftrightarrow> HasPrefix s l"
proof -
  have "parse_pat (Suc (length (l @ ''*''))) False (l @ ''*'') [] [] = ([map Lit l @ [AnyStr]], [])"
    using parse_pat_plain [OF assms, of "''*''" "Suc (length (l @ ''*''))" "[]" "[]"]
    by (simp add: numeral_2_eq_2)
  then show ?thesis using rests_Lits [of l "[AnyStr]" s] Nil_in_tails
    by (auto simp: bash_match_def)
qed

lemma replace_all_id: "hd from \<notin> set s \<Longrightarrow> replace_all from to s = s"
proof (induction s)
  case Nil
  then show ?case by (simp add: replace_all.simps)
next
  case (Cons c s)
  then have "\<not> HasPrefix (c # s) from \<or> from = []" by (cases "from") (auto simp: HasPrefix_Cons)
  then show ?case using Cons by (subst replace_all.simps) auto
qed

lemma replace_all_suffix:
  assumes "hd from \<notin> set l" and "from \<noteq> []"
  shows "replace_all from to (l @ r) = l @ replace_all from to r"
  using assms
proof (induction l)
  case (Cons c l)
  then have "\<not> HasPrefix (c # l @ r) from" by (cases "from") (auto simp: HasPrefix_Cons)
  then show ?case using Cons by (subst replace_all.simps) simp
qed simp

end
