(* ===== verification/Guard_Shim.thy ===== *)
theory Guard_Shim
  imports Bash_Match Never_Allow Protected_Path Perm_Policy
begin

text \<open>
  Package \<open>internal/guard\<close>: the execution guard. The Go part builds a directory of shims and puts it
  first on \<open>PATH\<close>; the bash part, \<open>guardScriptTemplate\<close>, is the script every shimmed binary runs. Both
  are modelled, each bash function as a definition with the script's variables as arguments. The
  text of the refusals is left out; a refusal carries the values the text is built from.
\<close>

section \<open>The Go part\<close>

definition InteractiveEnviron :: "string \<Rightarrow> string \<Rightarrow> string list \<Rightarrow> string list \<Rightarrow> bool \<Rightarrow> string list" where
  "InteractiveEnviron policyPath projectDir grants once fullsend =
     (if TrimSpace policyPath = [] then []
      else [''ORCHICON_GUARD_POLICY='' @ policyPath,
            ''ORCHICON_GUARD_PROJECT='' @ projectDir,
            ''ORCHICON_GUARD_GRANTS='' @ join_with [CHR 0x0A] grants,
            ''ORCHICON_GUARD_ONCE='' @ join_with [CHR 0x0A] once] @
           (if fullsend then [''ORCHICON_GUARD_FULLSEND=1''] else []))"

record guardedBinary =
  guarded_name :: string
  scoped :: bool

definition scopedBinaryNames :: "string list" where
  "scopedBinaryNames = [''rm'', ''chmod'', ''chown'', ''mv'', ''cp'', ''ln'']"

definition scopedBinaries :: "guardedBinary list" where
  "scopedBinaries = map (\<lambda>n. \<lparr>guarded_name = n, scoped = True\<rparr>) scopedBinaryNames"

definition ScopedBinaryNames :: "string list" where
  "ScopedBinaryNames = scopedBinaryNames"

definition buildGuardedBinaries :: "guardedBinary list" where
  "buildGuardedBinaries = map (\<lambda>n. \<lparr>guarded_name = n, scoped = False\<rparr>) Shimmed @ scopedBinaries"

text \<open>\<open>filepath.SplitList\<close>.\<close>

definition SplitList :: "string \<Rightarrow> string list" where
  "SplitList p = (if p = [] then [] else split_on CHR '':'' p)"

text \<open>What \<open>resolveRealBin\<close> asks of the host: \<open>stat\<close> says whether a path exists and is a directory, \<open>lookPath\<close>
  is \<open>exec.LookPath\<close> under a given \<open>PATH\<close>.\<close>

record host =
  stat_dir :: "string \<Rightarrow> bool option"
  lookPath :: "string \<Rightarrow> string \<Rightarrow> string option"

definition is_shim_path :: "string \<Rightarrow> bool" where
  "is_shim_path p \<longleftrightarrow> Contains p ''orchicon-guard''"

fun first_real :: "host \<Rightarrow> string \<Rightarrow> string list \<Rightarrow> string option" where
  "first_real h name [] = None"
| "first_real h name (dir # dirs) =
     (if dir = [] then first_real h name dirs
      else if is_shim_path dir then first_real h name dirs
      else if stat_dir h (PathJoin [dir, name]) = Some False then Some (PathJoin [dir, name])
      else first_real h name dirs)"

definition resolveRealBin :: "host \<Rightarrow> string \<Rightarrow> string \<Rightarrow> string" where
  "resolveRealBin h pathEnv name =
     (case first_real h name (SplitList pathEnv) of
        Some p \<Rightarrow> p
      | None \<Rightarrow>
          (let cleaned = filter (\<lambda>d. \<not> is_shim_path d) (SplitList pathEnv);
               again = (if cleaned \<noteq> [] then lookPath h (join_with '':'' cleaned) name else None)
           in case again of
                Some p \<Rightarrow> p
              | None \<Rightarrow>
                  (case lookPath h pathEnv name of
                     None \<Rightarrow> []
                   | Some p \<Rightarrow>
                       if is_shim_path p then
                         (case find (\<lambda>a. stat_dir h a \<noteq> None)
                                 [''/bin/'' @ name, ''/usr/bin/'' @ name, ''/usr/local/bin/'' @ name] of
                            Some a \<Rightarrow> a
                          | None \<Rightarrow> [])
                       else p)))"

record guard =
  guard_dir :: string
  guard_real :: "string \<rightharpoonup> string"
  policyPath :: string
  baked_project :: string
  links :: "string list"

text \<open>\<open>buildGuardIn\<close> on a host where every write succeeds: the resolved binaries, the values baked into the
  script and the names linked to it. \<open>absolute\<close> is \<open>filepath.Abs\<close>.\<close>

definition buildGuardIn :: "host \<Rightarrow> string \<Rightarrow> (string \<Rightarrow> string option) \<Rightarrow> string \<Rightarrow> string \<Rightarrow> string \<Rightarrow> guard" where
  "buildGuardIn h pathEnv absolute dir projectDir policy =
     (let project = (if projectDir \<noteq> [] then (case absolute projectDir of Some a \<Rightarrow> a | None \<Rightarrow> projectDir) else projectDir);
          real = map_of (map (\<lambda>b. (guarded_name b, resolveRealBin h pathEnv (guarded_name b))) (filter scoped buildGuardedBinaries))
      in \<lparr>guard_dir = dir, guard_real = real, policyPath = policy, baked_project = project,
          links = map guarded_name
            (filter (\<lambda>b. \<not> (scoped b \<and> real (guarded_name b) = Some [])) buildGuardedBinaries)\<rparr>)"

fun Apply_loop :: "string \<Rightarrow> string list \<Rightarrow> string list \<times> bool" where
  "Apply_loop dir [] = ([], False)"
| "Apply_loop dir (kv # kvs) =
     (let (out, found) = Apply_loop dir kvs
      in if HasPrefix kv ''PATH='' then ((''PATH='' @ dir @ '':'' @ TrimPrefix kv ''PATH='') # out, True)
         else (kv # out, found))"

definition Apply :: "guard \<Rightarrow> string list \<Rightarrow> string list" where
  "Apply g env = (let (out, found) = Apply_loop (guard_dir g) env in if found then out else out @ [''PATH='' @ guard_dir g])"

section \<open>The script: state and helpers\<close>

text \<open>The script's variables: what is baked in and what it reads from its environment (an unset variable is
  empty). \<open>glob\<close> is pathname expansion and \<open>read_file\<close> the content of a readable regular file.\<close>

record shim =
  PROJECT_DIR :: string
  SCRATCH_DIR :: string
  BAKED_POLICY :: string
  REAL :: "string \<rightharpoonup> string"
  ENV_POLICY :: string
  ENV_PROJECT :: string
  ENV_GRANTS :: string
  ENV_ONCE :: string
  ENV_FULLSEND :: string
  HOME :: string
  glob :: "string \<Rightarrow> string list"
  read_file :: "string \<Rightarrow> string option"

definition INTERACTIVE :: "shim \<Rightarrow> bool" where
  "INTERACTIVE S \<longleftrightarrow> ENV_POLICY S \<noteq> []"

definition POLICY_FILE :: "shim \<Rightarrow> string" where
  "POLICY_FILE S = (if INTERACTIVE S then ENV_POLICY S else BAKED_POLICY S)"

datatype refusal =
  Never_allowed
| Failed_closed string string
| Policy_blocked string string
| Protected_blocked string string
| Interactive_blocked string
| Blocked
| Unexpected

definition inside_dir :: "string \<Rightarrow> string \<Rightarrow> bool" where
  "inside_dir d p \<longleftrightarrow> d \<noteq> [] \<and> (p = d \<or> HasPrefix p (d @ ''/''))"

definition inside_list :: "string \<Rightarrow> string \<Rightarrow> bool" where
  "inside_list roots p \<longleftrightarrow> roots \<noteq> [] \<and> list_ex (\<lambda>r. r \<noteq> [] \<and> inside_dir r p) (split_on CHR 0x0A roots)"

definition pem_expand_home :: "string \<Rightarrow> string \<Rightarrow> string" where
  "pem_expand_home hm p =
     (if p = ''~'' then hm
      else if HasPrefix p ''~/'' then hm @ ''/'' @ drop 2 p
      else if p = ''$HOME'' \<or> p = ''${HOME}'' then hm
      else if HasPrefix p ''$HOME/'' then hm @ ''/'' @ drop (length ''$HOME/'') p
      else if HasPrefix p ''${HOME}/'' then hm @ ''/'' @ drop (length ''${HOME}/'') p
      else p)"

definition is_flag :: "string \<Rightarrow> bool" where
  "is_flag a \<longleftrightarrow> HasPrefix a ''-''"

definition home_spelling :: "string \<Rightarrow> bool" where
  "home_spelling a \<longleftrightarrow> a = ''~'' \<or> HasPrefix a ''~/'' \<or> a = ''$HOME'' \<or> HasPrefix a ''$HOME/''
     \<or> a = ''${HOME}'' \<or> HasPrefix a ''${HOME}/''"

section \<open>The script: policy patterns\<close>

function pem_brace_to_extglob :: "string \<Rightarrow> string option" where
  "pem_brace_to_extglob tr =
     (if CHR ''{'' \<in> set tr then
        (let head = takeWhile (\<lambda>c. c \<noteq> CHR ''{'') tr;
             tail = drop (Suc (length head)) tr
         in if CHR ''}'' \<in> set tail then
              (let body = takeWhile (\<lambda>c. c \<noteq> CHR ''}'') tail;
                   rest = drop (Suc (length body)) tail
               in if CHR ''{'' \<in> set body then None
                  else pem_brace_to_extglob (head @ ''@('' @ map (\<lambda>c. if c = CHR '','' then CHR ''|'' else c) body @ '')'' @ rest))
            else None)
      else if CHR ''}'' \<in> set tr then None
      else Some tr)"
  by pat_completeness auto


lemma count_list_map_fresh:
  "c \<notin> set xs \<Longrightarrow> (\<And>x. f x = c \<Longrightarrow> x = c) \<Longrightarrow> count_list (map f xs) c = 0"
  by (force simp: count_list_0_iff)

termination pem_brace_to_extglob
proof (relation "measure (\<lambda>s. count_list s CHR ''{'')")
  fix tr head tail body rest :: string
  assume a: "CHR ''{'' \<in> set tr" and h: "head = takeWhile (\<lambda>c. c \<noteq> CHR ''{'') tr"
    and t: "tail = drop (Suc (length head)) tr" and c: "CHR ''}'' \<in> set tail"
    and b: "body = takeWhile (\<lambda>c. c \<noteq> CHR ''}'') tail" and r: "rest = drop (Suc (length body)) tail"
    and nb: "CHR ''{'' \<notin> set body"
  have tr: "tr = head @ CHR ''{'' # tail"
    using a unfolding t h by (induction tr) auto
  have tail: "tail = body @ CHR ''}'' # rest"
    using c unfolding r b by (induction tail) auto
  have "CHR ''{'' \<notin> set head" unfolding h by (auto dest: set_takeWhileD)
  then have "count_list head CHR ''{'' = 0" by (simp add: count_list_0_iff)
  moreover have "count_list (map (\<lambda>c. if c = CHR '','' then CHR ''|'' else c) body) CHR ''{'' = 0"
    using nb by (intro count_list_map_fresh) (auto split: if_splits)
  moreover have "count_list body CHR ''{'' = 0" using nb by (simp add: count_list_0_iff)
  ultimately show "(head @ ''@('' @ map (\<lambda>c. if c = CHR '','' then CHR ''|'' else c) body @ '')'' @ rest, tr)
      \<in> measure (\<lambda>s. count_list s CHR ''{'')"
    unfolding tr tail by simp
qed simp

declare pem_brace_to_extglob.simps [simp del]

definition count_char :: "char \<Rightarrow> string \<Rightarrow> nat" where
  "count_char c s = length (filter (\<lambda>x. x = c) s)"

definition pem_translate :: "string \<Rightarrow> string option" where
  "pem_translate p =
     (case pem_brace_to_extglob p of
        None \<Rightarrow> None
      | Some pat \<Rightarrow>
          if CHR 0x5C \<in> set pat then None
          else if count_char CHR ''['' pat \<noteq> count_char CHR '']'' pat then None
          else (let t1 = replace_all ''**'' [CHR 0x01] pat;
                    t2 = replace_all ''*'' ''*([!/])'' t1;
                    t3 = replace_all ''?'' ''[!/]'' t2
                in Some (replace_all [CHR 0x01] ''*'' t3)))"

text \<open>\<open>${1%%'**/'*}\<close> and \<open>${1#*'**/'}\<close>: what stands before and after the first \<open>**/\<close>.\<close>

function pem_variants :: "string \<Rightarrow> string list" where
  "pem_variants p =
     (if HasSuffix p ''/**'' then [TrimSuffix p ''/**''] else []) @
     (case Index p ''**/'' of
        None \<Rightarrow> [p]
      | Some i \<Rightarrow>
          (let pre = take i p; rest = drop (i + 3) p
           in pem_variants (pre @ rest) @ map (\<lambda>sub. pre @ ''**/'' @ sub) (pem_variants rest)))"
  by pat_completeness auto

lemma Index_Some_bound: "Index s sub = Some i \<Longrightarrow> i + length sub \<le> length s"
proof (induction s sub arbitrary: i rule: Index.induct)
  case (1 s sub)
  show ?case
  proof (cases "HasPrefix s sub")
    case True
    then show ?thesis using 1(2) HasPrefix_length by (subst (asm) Index.simps) auto
  next
    case False
    then show ?thesis using 1 by (subst (asm) Index.simps) (auto split: list.splits)
  qed
qed

termination pem_variants
proof (relation "measure length")
  fix p pre rest :: string and i
  assume i: "Index p ''**/'' = Some i" and pre: "pre = take i p" and rest: "rest = drop (i + 3) p"
  have "i + 3 \<le> length p" using Index_Some_bound [OF i] by simp
  then show "(pre @ rest, p) \<in> measure length" "(rest, p) \<in> measure length"
    unfolding pre rest by auto
qed simp

declare pem_variants.simps [simp del]

text \<open>The case patterns of an entry, \<open>None\<close> where the function returns 1.\<close>

fun translate_all :: "string list \<Rightarrow> string list option" where
  "translate_all [] = Some []"
| "translate_all (v # vs) =
     (case pem_translate v of
        None \<Rightarrow> None
      | Some t \<Rightarrow> (case translate_all vs of None \<Rightarrow> None | Some ts \<Rightarrow> Some (t # ts)))"

definition pem_entry_patterns :: "string \<Rightarrow> string \<Rightarrow> string list option" where
  "pem_entry_patterns hm e = translate_all (pem_variants (cmd_subst (pem_expand_home hm e)))"

definition pem_match :: "string list \<Rightarrow> string \<Rightarrow> bool" where
  "pem_match pats target \<longleftrightarrow> list_ex (\<lambda>p. p \<noteq> [] \<and> bash_match p target) pats"

definition pem_match_either :: "string \<Rightarrow> string list \<Rightarrow> string \<Rightarrow> bool" where
  "pem_match_either hm pats target \<longleftrightarrow>
     pem_match pats target
     \<or> (let alt = cmd_subst (pem_expand_home hm target) in alt \<noteq> target \<and> pem_match pats alt)"

section \<open>The script: reading the policy\<close>

datatype section_name = NoSection | InDeny | InAccept

type_synonym shim_entry = "string \<times> string list"

datatype scan_result =
  Scan_refused string
| Scan_stopped
| Scanned_policy "shim_entry list" "shim_entry list"

definition strip_quote :: "char \<Rightarrow> string \<Rightarrow> string" where
  "strip_quote c s = TrimPrefix (TrimSuffix s [c]) [c]"

definition trim_right :: "string \<Rightarrow> string" where
  "trim_right s = rev (dropWhile is_space (rev s))"

definition entry_text :: "string \<Rightarrow> string" where
  "entry_text line =
     strip_quote CHR 0x27 (strip_quote CHR 0x22
       (trim_right (takeWhile (\<lambda>c. c \<noteq> CHR ''#'') (TrimPrefix line ''- ''))))"

fun scan_lines ::
  "bool \<Rightarrow> string \<Rightarrow> section_name \<Rightarrow> shim_entry list \<Rightarrow> shim_entry list \<Rightarrow> string list \<Rightarrow> scan_result" where
  "scan_lines strict hm sec ds as [] = Scanned_policy ds as"
| "scan_lines strict hm sec ds as (raw # rest) =
     (if CHR 0x09 \<in> set raw then
        (if strict then Scan_refused ''malformed (tab in indentation)'' else Scan_stopped)
      else
        (let line = TrimSpace raw
         in if line = [] \<or> HasPrefix line ''#'' then scan_lines strict hm sec ds as rest
            else if line = ''deny:'' then scan_lines strict hm InDeny ds as rest
            else if line = ''accept:'' then scan_lines strict hm InAccept ds as rest
            else if line = ''deny: []'' \<or> line = ''accept: []'' then scan_lines strict hm NoSection ds as rest
            else if HasPrefix line ''deny:'' \<or> HasPrefix line ''accept:'' then
              (if strict then Scan_refused ''malformed (bad list header)'' else Scan_stopped)
            else if HasPrefix line ''- '' then
              (if sec = NoSection then
                 (if strict then Scan_refused ''malformed (entry outside a list)'' else scan_lines strict hm sec ds as rest)
               else
                 (let e = entry_text line
                  in if e = [] then scan_lines strict hm sec ds as rest
                     else case pem_entry_patterns hm e of
                       None \<Rightarrow> (if strict then Scan_refused e else scan_lines strict hm sec ds as rest)
                     | Some pats \<Rightarrow>
                         if sec = InDeny then scan_lines strict hm sec (ds @ [(e, pats)]) as rest
                         else scan_lines strict hm sec ds (as @ [(e, pats)]) rest))
            else
              (if strict then Scan_refused ''malformed (unrecognised line)'' else scan_lines strict hm sec ds as rest)))"

fun first_entry :: "string \<Rightarrow> shim_entry list \<Rightarrow> string \<Rightarrow> shim_entry option" where
  "first_entry hm [] target = None"
| "first_entry hm (e # es) target =
     (if pem_match_either hm (snd e) target then Some e else first_entry hm es target)"

datatype shim_verdict = Shim_deny string | Shim_accept string | Shim_none

definition policy_lookup :: "shim \<Rightarrow> string \<Rightarrow> refusal + shim_verdict" where
  "policy_lookup S target =
     (if POLICY_FILE S = [] then Inr Shim_none
      else case read_file S (POLICY_FILE S) of
        None \<Rightarrow>
          (if INTERACTIVE S then Inl (Failed_closed (POLICY_FILE S) ''missing, unreadable, or not a regular file'')
           else Inr Shim_none)
      | Some content \<Rightarrow>
          (case scan_lines (INTERACTIVE S) (HOME S) NoSection [] [] (split_on CHR 0x0A content) of
             Scan_refused why \<Rightarrow> Inl (Failed_closed (POLICY_FILE S) why)
           | Scan_stopped \<Rightarrow> Inr Shim_none
           | Scanned_policy ds as \<Rightarrow>
               (case first_entry (HOME S) ds target of
                  Some (e, _) \<Rightarrow> Inr (Shim_deny e)
                | None \<Rightarrow>
                    (case first_entry (HOME S) as target of
                       Some (e, _) \<Rightarrow> Inr (Shim_accept e)
                     | None \<Rightarrow> Inr Shim_none))))"

section \<open>The script: the checks and the dispatch\<close>

fun denied_target :: "shim \<Rightarrow> string list \<Rightarrow> refusal + (string \<times> string) option" where
  "denied_target S [] = Inr None"
| "denied_target S (a # args) =
     (if is_flag a then denied_target S args
      else case policy_lookup S a of
        Inl r \<Rightarrow> Inl r
      | Inr (Shim_deny e) \<Rightarrow> Inr (Some (a, e))
      | Inr _ \<Rightarrow> denied_target S args)"

definition shim_machine :: "shim \<Rightarrow> string list" where
  "shim_machine S =
     [''/''] @ (if HOME S \<noteq> [] then
        concat (map (split_on CHR 0x0A) [HOME S, HOME S @ ''/.local/share/orchicon'', HOME S @ ''/.orchicon'']) else [])"

definition shim_scope :: "shim \<Rightarrow> string list" where
  "shim_scope S =
     concat (map (split_on CHR 0x0A)
       ((if PROJECT_DIR S \<noteq> [] then [PROJECT_DIR S] else []) @ (if ENV_PROJECT S \<noteq> [] then [ENV_PROJECT S] else []) @
        concat (map (glob S) (word_split (ENV_GRANTS S)))))"

fun protected_target :: "shim \<Rightarrow> string list \<Rightarrow> (string \<times> string) option" where
  "protected_target S [] = None"
| "protected_target S (arg # args) =
     (if is_flag arg then protected_target S args
      else (let a = cmd_subst (pem_expand_home (HOME S) arg)
            in if a = [] then protected_target S args
               else case find (\<lambda>r. r \<noteq> [] \<and> inside_dir a r) (shim_machine S) of
                 Some r \<Rightarrow> Some (a, r)
               | None \<Rightarrow>
                   (case find (\<lambda>r. r \<noteq> [] \<and> a \<noteq> r \<and> inside_dir a r) (shim_scope S) of
                      Some r \<Rightarrow> Some (a, r)
                    | None \<Rightarrow> protected_target S args)))"

text \<open>The loop of \<open>blocked_path\<close>: \<open>Inr True\<close> is its return value 0, to block.\<close>

fun allow_args :: "shim \<Rightarrow> string list \<Rightarrow> refusal + bool" where
  "allow_args S [] = Inr False"
| "allow_args S (a # args) =
     (if is_flag a then allow_args S args
      else if HasPrefix a ''/'' then
        (if inside_dir (PROJECT_DIR S) a then allow_args S args
         else if inside_dir (SCRATCH_DIR S) a then allow_args S args
         else if INTERACTIVE S then
           (if ENV_FULLSEND S \<noteq> [] then allow_args S args
            else if inside_dir (ENV_PROJECT S) a then allow_args S args
            else if inside_list (ENV_GRANTS S) a then allow_args S args
            else if inside_list (ENV_ONCE S) a then allow_args S args
            else case policy_lookup S a of
              Inl r \<Rightarrow> Inl r
            | Inr (Shim_accept _) \<Rightarrow> allow_args S args
            | Inr _ \<Rightarrow> Inl (Interactive_blocked a))
         else Inr True)
      else if home_spelling a \<or> Contains a ''..'' then
        (if INTERACTIVE S then
           (if ENV_FULLSEND S \<noteq> [] then allow_args S args else Inl (Interactive_blocked a))
         else Inr True)
      else allow_args S args)"

definition blocked_path :: "shim \<Rightarrow> string list \<Rightarrow> refusal + bool" where
  "blocked_path S args =
     (case denied_target S args of
        Inl r \<Rightarrow> Inl r
      | Inr (Some (a, e)) \<Rightarrow> Inl (Policy_blocked a e)
      | Inr None \<Rightarrow>
          (case protected_target S args of
             Some (a, r) \<Rightarrow> Inl (Protected_blocked a r)
           | None \<Rightarrow> allow_args S args))"

text \<open>The final \<open>case\<close> on the name the shim was called by: a refusal, or the program and arguments it execs.\<close>

definition run_guard :: "shim \<Rightarrow> string \<Rightarrow> string list \<Rightarrow> refusal + (string \<times> string list)" where
  "run_guard S name args =
     (if list_ex (\<lambda>p. bash_match p name) (split_on CHR ''|'' CasePattern) then Inl Never_allowed
      else if List.member scopedBinaryNames name then
        (case blocked_path S args of
           Inl r \<Rightarrow> Inl r
         | Inr True \<Rightarrow> Inl Blocked
         | Inr False \<Rightarrow> Inr (case REAL S name of Some p \<Rightarrow> p | None \<Rightarrow> [], args))
      else Inl Unexpected)"

section \<open>What the guard refuses and what it lets run\<close>

text \<open>A worker's shim and an operator's interactive one, for witnesses.\<close>

definition worker_shim :: shim where
  "worker_shim = \<lparr>PROJECT_DIR = ''/home/me/proj'', SCRATCH_DIR = ''/tmp/orchicon'', BAKED_POLICY = [],
     REAL = [''rm'' \<mapsto> ''/bin/rm''], ENV_POLICY = [], ENV_PROJECT = [], ENV_GRANTS = [], ENV_ONCE = [],
     ENV_FULLSEND = [], HOME = ''/home/me'', glob = (\<lambda>w. [w]), read_file = (\<lambda>_. None)\<rparr>"

definition fullsend_shim :: shim where
  "fullsend_shim = worker_shim\<lparr>ENV_POLICY := ''/p'', ENV_FULLSEND := ''1'', read_file := (\<lambda>_. Some PresetYAML)\<rparr>"

definition never_allowed_name :: "string \<Rightarrow> bool" where
  "never_allowed_name n \<longleftrightarrow> List.member Shimmed n \<or> HasPrefix n ''mkfs.'' \<or> HasPrefix n ''fdisk'' \<or> HasPrefix n ''wipefs''"

lemma case_arm:
  "list_ex (\<lambda>p. bash_match p n) (split_on CHR ''|'' CasePattern) \<longleftrightarrow> never_allowed_name n"
proof -
  have star: "bash_match (l @ ''*'') n \<longleftrightarrow> HasPrefix n l" if "plain l" for l using that by (rule bash_match_plain_star)
  have eqs: "list_all (\<lambda>l. bash_match l n \<longleftrightarrow> n = l) Shimmed"
  proof -
    have "list_all (list_all plain_char) Shimmed" by (simp add: Shimmed_eq plain_char_def)
    then show ?thesis by (simp add: list_all_iff bash_match_plain)
  qed
  have stars: "bash_match ''mkfs.*'' n \<longleftrightarrow> HasPrefix n ''mkfs.''" "bash_match ''fdisk*'' n \<longleftrightarrow> HasPrefix n ''fdisk''"
      "bash_match ''wipefs*'' n \<longleftrightarrow> HasPrefix n ''wipefs''"
    using star [of "''mkfs.''"] star [of "''fdisk''"] star [of "''wipefs''"] by (simp_all add: plain_char_def)
  have "map Name Binaries = Shimmed @ [''mkfs.*'', ''fdisk*'', ''wipefs*'']"
    by (simp add: Binaries_def Shimmed_eq)
  then show ?thesis using eqs stars
    by (auto simp: split_CasePattern never_allowed_name_def list_ex_iff list_all_iff)
qed

text \<open>
  C39. The never-allow class is absolute and exact: a shim called by a name of the class (a shimmed name, or
  anything starting with \<open>mkfs.\<close>, \<open>fdisk\<close> or \<open>wipefs\<close>) refuses whatever the arguments, the policy, the
  grants and FULLSEND are, and no other name is refused as a member of the class.
\<close>

theorem never_allow_absolute:
  "run_guard S name args = Inl Never_allowed \<longleftrightarrow> never_allowed_name name"
proof -
  have "allow_args S args \<noteq> Inl Never_allowed" "denied_target S args \<noteq> Inl Never_allowed" for args
    by (induction args) (auto simp: policy_lookup_def split: sum.splits shim_verdict.splits scan_result.splits option.splits)
  then have "blocked_path S args \<noteq> Inl Never_allowed"
    by (auto simp: blocked_path_def split: sum.splits option.splits)
  then show ?thesis by (auto simp: run_guard_def case_arm split: sum.splits bool.splits)
qed

lemma denied_target_None:
  "denied_target S args = Inr None \<longleftrightarrow>
     (\<forall>a \<in> set args. \<not> is_flag a \<longrightarrow> (\<exists>v. policy_lookup S a = Inr v \<and> (\<forall>e. v \<noteq> Shim_deny e)))"
  by (induction args) (auto split: sum.splits shim_verdict.splits)

lemma protected_target_None:
  "protected_target S args = None \<longleftrightarrow> (\<forall>a \<in> set args. \<not> is_flag a \<longrightarrow> protected_target S [a] = None)"
  by (induction args) (auto simp: Let_def split: option.splits)

definition sanctioned :: "shim \<Rightarrow> string \<Rightarrow> bool" where
  "sanctioned S a \<longleftrightarrow>
     (if HasPrefix a ''/'' then
        inside_dir (PROJECT_DIR S) a \<or> inside_dir (SCRATCH_DIR S) a
        \<or> INTERACTIVE S \<and> (ENV_FULLSEND S \<noteq> [] \<or> inside_dir (ENV_PROJECT S) a \<or> inside_list (ENV_GRANTS S) a
            \<or> inside_list (ENV_ONCE S) a \<or> (\<exists>e. policy_lookup S a = Inr (Shim_accept e)))
      else if home_spelling a \<or> Contains a ''..'' then INTERACTIVE S \<and> ENV_FULLSEND S \<noteq> []
      else True)"

lemma allow_args_False:
  "allow_args S args = Inr False \<longleftrightarrow> (\<forall>a \<in> set args. \<not> is_flag a \<longrightarrow> sanctioned S a)"
  by (induction args) (auto simp: sanctioned_def split: sum.splits shim_verdict.splits)

lemma run_guard_iff:
  "run_guard S name args = Inr (prog, args') \<longleftrightarrow>
     args' = args \<and> prog = (case REAL S name of Some p \<Rightarrow> p | None \<Rightarrow> []) \<and> List.member scopedBinaryNames name
     \<and> (\<forall>a \<in> set args. is_flag a \<or>
          ((\<exists>v. policy_lookup S a = Inr v \<and> (\<forall>e. v \<noteq> Shim_deny e)) \<and> protected_target S [a] = None \<and> sanctioned S a))"
proof -
  have scoped_ok: "\<not> never_allowed_name name" if "List.member scopedBinaryNames name"
    using that by (auto simp: scopedBinaryNames_def never_allowed_name_def Shimmed_eq HasPrefix_Cons)
  have "run_guard S name args = Inr (prog, args') \<longleftrightarrow>
      args' = args \<and> prog = (case REAL S name of Some p \<Rightarrow> p | None \<Rightarrow> []) \<and> List.member scopedBinaryNames name
      \<and> denied_target S args = Inr None \<and> protected_target S args = None \<and> allow_args S args = Inr False"
    using scoped_ok
    by (auto simp: run_guard_def case_arm blocked_path_def split: sum.splits bool.splits option.splits)
  then show ?thesis
    using denied_target_None [of S args] protected_target_None [of S args] allow_args_False [of S args] by blast
qed

text \<open>
  C2. The guard runs the real binary, with the arguments unchanged, exactly when the name is path-scoped and
  every non-flag argument is undenied, unprotected and sanctioned: textually inside the project or
  the scratch directory, or, in the interactive profile, inside the conversation's project, a grant
  or a once-target, on the accept list, or waived by FULLSEND.
\<close>

theorem run_guard_exec:
  "run_guard S name args = Inr (prog, args') \<longleftrightarrow>
     args' = args \<and> prog = (case REAL S name of Some p \<Rightarrow> p | None \<Rightarrow> []) \<and> List.member scopedBinaryNames name
     \<and> (\<forall>a \<in> set args. is_flag a \<or>
          ((\<exists>v. policy_lookup S a = Inr v \<and> (\<forall>e. v \<noteq> Shim_deny e)) \<and> protected_target S [a] = None \<and> sanctioned S a))"
  by (rule run_guard_iff)

theorem run_guard_exec_witness:
  "run_guard worker_shim ''rm'' [''-rf'', ''/home/me/proj/dist''] = Inr (''/bin/rm'', [''-rf'', ''/home/me/proj/dist''])"
proof -
  have "policy_lookup worker_shim a = Inr Shim_none" for a
    by (simp add: policy_lookup_def POLICY_FILE_def INTERACTIVE_def worker_shim_def)
  moreover have "protected_target worker_shim [''/home/me/proj/dist''] = None \<and> is_flag ''-rf''" by code_simp
  moreover have "sanctioned worker_shim ''/home/me/proj/dist''"
    by (simp add: sanctioned_def inside_dir_def worker_shim_def HasPrefix_Cons)
  ultimately show ?thesis
    using run_guard_exec [of worker_shim "''rm''" "[''-rf'', ''/home/me/proj/dist'']"]
    by (simp add: worker_shim_def scopedBinaryNames_def)
qed

text \<open>
  The interactive profile fails closed: when the policy file cannot be read, or does not scan, no
  path-scoped command with a path argument runs, whatever is granted and even under FULLSEND.
\<close>

theorem interactive_fails_closed:
  assumes "INTERACTIVE S" and "a \<in> set args" and "\<not> is_flag a"
    and "case read_file S (ENV_POLICY S) of None \<Rightarrow> True
         | Some c \<Rightarrow> (\<exists>why. scan_lines True (HOME S) NoSection [] [] (split_on CHR 0x0A c) = Scan_refused why)"
  shows "\<exists>r. run_guard S name args = Inl r"
proof -
  have "POLICY_FILE S = ENV_POLICY S" "POLICY_FILE S \<noteq> []"
    using assms(1) by (simp_all add: POLICY_FILE_def INTERACTIVE_def)
  then have "\<exists>r. policy_lookup S a = Inl r"
    using assms(1,4) by (auto simp: policy_lookup_def split: option.splits)
  then have "run_guard S name args \<noteq> Inr (prog, args')" for prog args'
    using assms(2,3) by (auto simp: run_guard_iff)
  then show ?thesis by (metis sum.exhaust surj_pair)
qed

theorem interactive_fails_closed_witness:
  "\<exists>r. run_guard (fullsend_shim\<lparr>read_file := (\<lambda>_. None)\<rparr>) ''rm'' [''/home/me/proj/x''] = Inl r"
  by (rule interactive_fails_closed [where a = "''/home/me/proj/x''"])
     (simp_all add: INTERACTIVE_def fullsend_shim_def is_flag_def HasPrefix_Cons)

text \<open>
  The operator's deny list outranks grants, once-approvals and FULLSEND in the shim too: a command with a
  denied argument never runs, in either profile.
\<close>

theorem shim_deny_outranks_fullsend:
  assumes "a \<in> set args" and "\<not> is_flag a" and "policy_lookup S a = Inr (Shim_deny e)"
  shows "\<exists>r. run_guard S name args = Inl r"
proof -
  have "run_guard S name args \<noteq> Inr (prog, args')" for prog args'
    using assms by (auto simp: run_guard_iff)
  then show ?thesis by (metis sum.exhaust surj_pair)
qed

theorem shim_deny_outranks_fullsend_witness:
  "\<exists>r. run_guard fullsend_shim ''rm'' [''-f'', ''~/.netrc''] = Inl r"
proof (rule shim_deny_outranks_fullsend)
  show "policy_lookup fullsend_shim ''~/.netrc'' = Inr (Shim_deny ''~/.netrc'')" by code_simp
qed (simp_all add: is_flag_def HasPrefix_Cons)

section \<open>Where the guard and its promise part\<close>

text \<open>
  The project test of the shim is textual: in the worker profile an absolute target that starts with the
  project directory runs whatever follows, so \<open><project>/../..\<close> leaves the project, while the Go
  boundary, which cleans the path, sees it outside. (No policy is baked in and the target names
  no root literally.)
\<close>

theorem dotdot_leaves_project:
  assumes "List.member scopedBinaryNames name" and "PROJECT_DIR S \<noteq> []" and "HasPrefix (PROJECT_DIR S) ''/''"
    and "POLICY_FILE S = []"
    and "protected_target S [PROJECT_DIR S @ ''/../'' @ t] = None"
  shows "run_guard S name [PROJECT_DIR S @ ''/../'' @ t]
    = Inr (case REAL S name of Some p \<Rightarrow> p | None \<Rightarrow> [], [PROJECT_DIR S @ ''/../'' @ t])"
proof -
  have "policy_lookup S a = Inr Shim_none" for a using assms(4) by (simp add: policy_lookup_def)
  moreover have "sanctioned S (PROJECT_DIR S @ ''/../'' @ t)"
    using assms(2,3) by (auto simp: sanctioned_def inside_dir_def HasPrefix_iff)
  ultimately show ?thesis using assms(1,5) by (simp add: run_guard_iff)
qed

theorem dotdot_leaves_project_witness:
  "run_guard worker_shim ''rm'' [''/home/me/proj/../other''] = Inr (''/bin/rm'', [''/home/me/proj/../other''])
   \<and> Clean ''/home/me/proj/../other'' = ''/home/me/other''"
proof -
  have "protected_target worker_shim [''/home/me/proj/../other''] = None" by code_simp
  moreover have "POLICY_FILE worker_shim = []" by code_simp
  ultimately show ?thesis
    using dotdot_leaves_project [of "''rm''" worker_shim "''other''"]
    by (simp add: worker_shim_def scopedBinaryNames_def HasPrefix_Cons) code_simp
qed

text \<open>
  A relative target without \<open>..\<close> is never judged by the path rules: as the shim does not know its working
  directory, a command that has changed to \<open>/\<close> removes \<open>home\<close> like any project file.
\<close>

theorem relative_target_unjudged:
  assumes "List.member scopedBinaryNames name" and "POLICY_FILE S = []"
    and "\<not> HasPrefix a ''/''" and "\<not> home_spelling a" and "\<not> Contains a ''..''"
    and "protected_target S [a] = None"
  shows "run_guard S name [a] = Inr (case REAL S name of Some p \<Rightarrow> p | None \<Rightarrow> [], [a])"
proof -
  have "policy_lookup S a = Inr Shim_none" for a using assms(2) by (simp add: policy_lookup_def)
  then show ?thesis using assms by (simp add: run_guard_iff sanctioned_def)
qed

theorem relative_target_unjudged_witness:
  "run_guard worker_shim ''rm'' [''home''] = Inr (''/bin/rm'', [''home''])"
proof -
  have "POLICY_FILE worker_shim = [] \<and> \<not> Contains ''home'' ''..'' \<and> protected_target worker_shim [''home''] = None \<and> \<not> home_spelling ''home''"
    by code_simp
  then show ?thesis
    using relative_target_unjudged [of "''rm''" worker_shim "''home''"]
    by (simp add: worker_shim_def scopedBinaryNames_def HasPrefix_Cons)
qed

text \<open>
  Under FULLSEND the protected roots fall to a spelling: the consent layer's \<open>DestroyedBy\<close> cleans its target
  and refuses \<open>/home/\<close> and \<open>/home/./me\<close>, the shim compares the text and runs the command.
\<close>

theorem fullsend_trailing_slash_runs:
  "run_guard fullsend_shim ''rm'' [''-rf'', ''/home/''] = Inr (''/bin/rm'', [''-rf'', ''/home/''])
   \<and> run_guard fullsend_shim ''rm'' [''-rf'', ''/home/./me''] = Inr (''/bin/rm'', [''-rf'', ''/home/./me''])
   \<and> DestroyedBy ''/home/'' (Roots None [] ''/home/me'') (ScopeRoots ''/home/me/proj'' []) = ''/home/me''
   \<and> DestroyedBy ''/home/./me'' (Roots None [] ''/home/me'') (ScopeRoots ''/home/me/proj'' []) = ''/home/me''
   \<and> run_guard fullsend_shim ''rm'' [''-rf'', ''/home''] = Inl (Protected_blocked ''/home'' ''/home/me'')"
  by (intro conjI) code_simp+

end
