(* ===== verification/Guard_Agreement.thy ===== *)
theory Guard_Agreement
  imports Guard_Shim
begin

text \<open>
  The shim must reach the verdict of the Go accessor for the same entry and target. This theory proves
  where it does: protected roots on cleaned targets, and the deny and accept lists for policies made
  of literal paths and directory trees (\<open>dir/**\<close>), the shapes the shipped preset consists of.
\<close>

section \<open>Protected roots\<close>

lemma cmd_subst_id: "CHR 0x0A \<notin> set s \<Longrightarrow> cmd_subst s = s"
proof -
  assume "CHR 0x0A \<notin> set s"
  then have "rev s = [] \<or> hd (rev s) \<noteq> CHR 0x0A" by (metis hd_in_set set_rev)
  then show ?thesis by (simp add: cmd_subst_def dropWhile_hd_id)
qed

lemma pem_expand_home_abs: "HasPrefix p ''/'' \<Longrightarrow> pem_expand_home hm p = p"
  by (auto simp: pem_expand_home_def HasPrefix_iff)

lemma inside_dir_machine: "a \<noteq> ''/'' \<Longrightarrow> a \<noteq> [] \<Longrightarrow> r \<noteq> [] \<and> inside_dir a r \<longleftrightarrow> machine_hit r a"
  by (auto simp: inside_dir_def machine_hit_def below_prefix_def)

lemma inside_dir_scope: "a \<noteq> ''/'' \<Longrightarrow> a \<noteq> [] \<Longrightarrow> r \<noteq> [] \<and> a \<noteq> r \<and> inside_dir a r \<longleftrightarrow> scope_hit r a"
  by (auto simp: inside_dir_def scope_hit_def below_prefix_def HasPrefix_def)

lemma find_None_ball: "find P xs = None \<longleftrightarrow> (\<forall>x \<in> set xs. \<not> P x)"
  by (auto simp: find_None_iff)

text \<open>
  On a cleaned absolute target the shim's protected-root test and the consent layer's \<open>DestroyedBy\<close> are the
  same rule: given the same roots, one refuses iff the other does.
\<close>

theorem protected_roots_agree:
  assumes "HasPrefix a ''/''" and "Clean a = a" and "TrimSpace a = a" and "CHR 0x0A \<notin> set a"
  shows "protected_target S [a] = None \<longleftrightarrow> DestroyedBy a (shim_machine S) (shim_scope S) = []"
proof -
  have abs: "IsAbs a" using assms(1) by (simp add: IsAbs_def)
  have a: "\<not> is_flag a" "a \<noteq> []" "cmd_subst (pem_expand_home (HOME S) a) = a"
    using assms(1,4) by (auto simp: is_flag_def HasPrefix_iff pem_expand_home_abs cmd_subst_id)
  have go: "DestroyedBy a M Sc = [] \<longleftrightarrow> machine_scan M a = None \<and> scope_scan Sc a = None" for M Sc
    unfolding DestroyedBy_abs [OF abs assms(3)] assms(2)
    using machine_rules.scan_Some_hit [of M a] scope_rules.scan_Some_hit [of Sc a]
    by (auto simp: machine_hit_def scope_hit_def split: option.splits)
  show ?thesis
  proof (cases "a = ''/''")
    case True
    then have "machine_scan (shim_machine S) a \<noteq> None"
      by (simp add: shim_machine_def machine_hit_def)
    moreover have "find (\<lambda>r. r \<noteq> [] \<and> inside_dir a r) (shim_machine S) \<noteq> None"
      using True by (simp add: shim_machine_def inside_dir_def)
    ultimately show ?thesis using a go by (auto simp: Let_def split: option.splits)
  next
    case False
    then have "find (\<lambda>r. r \<noteq> [] \<and> inside_dir a r) (shim_machine S) = None \<longleftrightarrow> machine_scan (shim_machine S) a = None"
      "find (\<lambda>r. r \<noteq> [] \<and> a \<noteq> r \<and> inside_dir a r) (shim_scope S) = None \<longleftrightarrow> scope_scan (shim_scope S) a = None"
      using a(2) by (simp_all add: find_None_ball machine_rules.scan_None scope_rules.scan_None
          inside_dir_machine inside_dir_scope)
    then show ?thesis using a go by (auto simp: Let_def split: option.splits)
  qed
qed

theorem protected_roots_agree_witness:
  "protected_target worker_shim [''/home''] \<noteq> None"
proof -
  have "Clean ''/home'' = ''/home'' \<and> TrimSpace ''/home'' = ''/home''
      \<and> DestroyedBy ''/home'' (shim_machine worker_shim) (shim_scope worker_shim) \<noteq> []"
    by code_simp
  then show ?thesis using protected_roots_agree [of "''/home''" worker_shim] by (simp add: HasPrefix_Cons)
qed

section \<open>Policy entries\<close>



















section \<open>Verdicts\<close>

definition translated :: "string \<Rightarrow> shim_entry \<Rightarrow> bool" where
  "translated hm e \<longleftrightarrow> pem_entry_patterns hm (fst e) = Some (snd e)"

interpretation shim_rules: first_match "first_entry hm" "\<lambda>e t. pem_match_either hm (snd e) t" for hm
  by unfold_locales simp_all

definition scan_ok :: "string \<Rightarrow> scan_result \<Rightarrow> bool" where
  "scan_ok hm r = (case r of Scanned_policy ds as \<Rightarrow> list_all (translated hm) (ds @ as) | _ \<Rightarrow> True)"

lemma scan_ok_simps [simp]:
  "scan_ok hm (Scan_refused why)" "scan_ok hm Scan_stopped"
  "scan_ok hm (Scanned_policy ds as) = list_all (translated hm) (ds @ as)"
  by (simp_all add: scan_ok_def)









section \<open>From the plane's environment to the shim\<close>

definition getenv :: "string list \<Rightarrow> string \<Rightarrow> string" where
  "getenv env key = (case find (\<lambda>kv. HasPrefix kv (key @ ''='')) env of Some kv \<Rightarrow> TrimPrefix kv (key @ ''='') | None \<Rightarrow> [])"

definition with_environ :: "string list \<Rightarrow> shim \<Rightarrow> shim" where
  "with_environ env S = S\<lparr>ENV_POLICY := getenv env ''ORCHICON_GUARD_POLICY'', ENV_PROJECT := getenv env ''ORCHICON_GUARD_PROJECT'',
     ENV_GRANTS := getenv env ''ORCHICON_GUARD_GRANTS'', ENV_ONCE := getenv env ''ORCHICON_GUARD_ONCE'',
     ENV_FULLSEND := getenv env ''ORCHICON_GUARD_FULLSEND''\<rparr>"

lemma inside_list_join:
  assumes "\<forall>g \<in> set gs. CHR 0x0A \<notin> set g"
  shows "inside_list (join_with [CHR 0x0A] gs) p \<longleftrightarrow> (\<exists>g \<in> set gs. inside_dir g p)"
proof (cases "gs = []")
  case False
  then have split: "split_on CHR 0x0A (join_with [CHR 0x0A] gs) = gs" using assms by (intro split_on_join) auto
  show ?thesis
  proof (cases "join_with [CHR 0x0A] gs = []")
    case True
    then have "gs = [[]]" using split by simp
    then show ?thesis by (simp add: inside_list_def inside_dir_def)
  next
    case False
    then show ?thesis by (auto simp: inside_list_def split list_ex_iff inside_dir_def)
  qed
qed (simp add: inside_list_def)

text \<open>
  What the plane puts into the environment is what the shim reads out of it: a policy path switches it to the
  interactive profile on that file, a target is inside the granted directories iff it is inside one
  of the conversation's grants, and the mode is FULLSEND iff it was asked for; with no policy path
  the shim stays in the worker profile.
\<close>

theorem interactive_environ_read_back:
  assumes "\<forall>g \<in> set (grants @ once). CHR 0x0A \<notin> set g"
    and "S' = with_environ (InteractiveEnviron policy project grants once fullsend) S"
  shows "(TrimSpace policy \<noteq> [] \<longrightarrow>
      INTERACTIVE S' \<and> POLICY_FILE S' = policy \<and> ENV_PROJECT S' = project
      \<and> (inside_list (ENV_GRANTS S') a \<longleftrightarrow> (\<exists>g \<in> set grants. inside_dir g a))
      \<and> (inside_list (ENV_ONCE S') a \<longleftrightarrow> (\<exists>g \<in> set once. inside_dir g a))
      \<and> (ENV_FULLSEND S' \<noteq> [] \<longleftrightarrow> fullsend))
    \<and> (TrimSpace policy = [] \<longrightarrow> \<not> INTERACTIVE S' \<and> POLICY_FILE S' = BAKED_POLICY S)"
proof -
  have blank: "policy \<noteq> []" if "TrimSpace policy \<noteq> []" using that by auto
  have "inside_list (join_with [CHR 0x0A] grants) a \<longleftrightarrow> (\<exists>g \<in> set grants. inside_dir g a)"
    "inside_list (join_with [CHR 0x0A] once) a \<longleftrightarrow> (\<exists>g \<in> set once. inside_dir g a)"
    using assms(1) by (simp_all add: inside_list_join)
  then show ?thesis using blank unfolding assms(2)
    by (auto simp: with_environ_def InteractiveEnviron_def getenv_def TrimPrefix_def HasPrefix_Cons INTERACTIVE_def POLICY_FILE_def)
qed

theorem interactive_environ_read_back_witness:
  "inside_list (ENV_GRANTS (with_environ (InteractiveEnviron ''/p'' ''/srv/app'' [''/a:b'', ''/data''] [] False) worker_shim)) ''/data/x''"
proof -
  have "TrimSpace ''/p'' \<noteq> []" by code_simp
  moreover have "inside_dir ''/data'' ''/data/x''" by code_simp
  ultimately show ?thesis
    using interactive_environ_read_back [of "[''/a:b'', ''/data'']" "[]" _ "''/p''" "''/srv/app''" False worker_shim "''/data/x''"]
    by simp
qed

lemma Apply_loop_paths:
  "Apply_loop dir env = (out, found) \<Longrightarrow>
     (found \<longleftrightarrow> (\<exists>kv \<in> set out. HasPrefix kv ''PATH='')) \<and>
     filter (\<lambda>kv. \<not> HasPrefix kv ''PATH='') out = filter (\<lambda>kv. \<not> HasPrefix kv ''PATH='') env \<and>
     (\<forall>kv \<in> set out. HasPrefix kv ''PATH='' \<longrightarrow> HasPrefix kv (''PATH='' @ dir @ '':''))"
proof (induction env arbitrary: out found)
  case (Cons kv env)
  obtain out' found' where o': "Apply_loop dir env = (out', found')" by (cases "Apply_loop dir env")
  have new: "HasPrefix (''PATH='' @ dir @ '':'' @ t) (''PATH='' @ dir @ '':'')" "HasPrefix (''PATH='' @ dir @ '':'' @ t) ''PATH=''" for t
    using HasPrefix_append [of "''PATH='' @ dir @ '':''" t] HasPrefix_append [of "''PATH=''" "dir @ '':'' @ t"] by simp_all
  show ?case
  proof (cases "HasPrefix kv ''PATH=''")
    case True
    then have "out = (''PATH='' @ dir @ '':'' @ TrimPrefix kv ''PATH='') # out'" "found"
      using Cons.prems o' by auto
    then show ?thesis using Cons.IH [OF o'] new True by (simp only: filter.simps list.set) auto
  next
    case False
    then have "out = kv # out'" "found = found'" using Cons.prems o' by auto
    then show ?thesis using Cons.IH [OF o'] False by (simp only: filter.simps list.set) auto
  qed
qed simp

text \<open>
  After \<open>Apply\<close> every lookup meets the shim first: the environment has a \<open>PATH\<close>, each \<open>PATH\<close> entry starts with
  the guard directory, and every other variable is as it was, in its order.
\<close>

theorem Apply_puts_guard_first:
  "(\<exists>kv \<in> set (Apply g env). HasPrefix kv ''PATH='')
   \<and> (\<forall>kv \<in> set (Apply g env). HasPrefix kv ''PATH='' \<longrightarrow>
        kv = ''PATH='' @ guard_dir g \<or> HasPrefix kv (''PATH='' @ guard_dir g @ '':''))
   \<and> filter (\<lambda>kv. \<not> HasPrefix kv ''PATH='') (Apply g env) = filter (\<lambda>kv. \<not> HasPrefix kv ''PATH='') env"
proof -
  obtain out found where o: "Apply_loop (guard_dir g) env = (out, found)" by (cases "Apply_loop (guard_dir g) env")
  have "HasPrefix (''PATH='' @ guard_dir g) ''PATH=''" by (rule HasPrefix_append)
  moreover have "Apply g env = (if found then out else out @ [''PATH='' @ guard_dir g])" by (simp add: Apply_def o)
  ultimately show ?thesis using Apply_loop_paths [OF o] by (cases found) (simp_all del: append.simps)
qed

theorem Apply_puts_guard_first_witness:
  "\<exists>kv \<in> set (Apply \<lparr>guard_dir = ''/g'', guard_real = Map.empty, policyPath = [], baked_project = [], links = []\<rparr> [''A=1'']).
     HasPrefix kv ''PATH=''"
  using Apply_puts_guard_first [of "\<lparr>guard_dir = ''/g'', guard_real = Map.empty, policyPath = [], baked_project = [], links = []\<rparr>" "[''A=1'']"]
  by blast

section \<open>Where the two readings part\<close>

lemma scan_lines_tab: "list_ex (\<lambda>l. CHR 0x09 \<in> set l) lines \<Longrightarrow> scan_lines False hm sec ds as lines = Scan_stopped"
proof (induction lines arbitrary: sec ds as)
  case (Cons l lines)
  show ?case
  proof (cases "CHR 0x09 \<in> set l")
    case False
    then have "\<And>sec ds as. scan_lines False hm sec ds as lines = Scan_stopped" using Cons by simp
    then show ?thesis using False by (simp add: Let_def split: option.split)
  qed simp
qed simp

lemma split_on_mem: "x \<in> set s \<Longrightarrow> x \<noteq> c \<Longrightarrow> \<exists>l \<in> set (split_on c s). x \<in> set l"
proof (induction s)
  case (Cons y s)
  then show ?case by (cases "split_on c s") (auto split: if_splits)
qed simp

text \<open>
  In the worker profile one tab anywhere in the policy file, even inside a comment, switches the whole deny
  list off: every lookup comes back without a verdict, while the rest of the file is as before.
\<close>

theorem worker_tab_disables_policy:
  assumes "\<not> INTERACTIVE S" and "read_file S (POLICY_FILE S) = Some content" and "CHR 0x09 \<in> set content"
  shows "policy_lookup S target = Inr Shim_none"
proof -
  have "list_ex (\<lambda>l. CHR 0x09 \<in> set l) (split_on CHR 0x0A content)"
    using split_on_mem [OF assms(3), of "CHR 0x0A"] by (simp add: list_ex_iff)
  then show ?thesis using assms(1,2) by (simp add: policy_lookup_def scan_lines_tab)
qed

theorem worker_tab_disables_policy_witness:
  "policy_lookup (worker_shim\<lparr>BAKED_POLICY := ''/p'', read_file := (\<lambda>_. Some (''#'' @ [CHR 0x09, CHR 0x0A] @ PresetYAML))\<rparr>)
     ''/home/me/.ssh/id'' = Inr Shim_none"
  by (rule worker_tab_disables_policy [where content = "''#'' @ [CHR 0x09, CHR 0x0A] @ PresetYAML"]) (simp_all add: worker_shim_def INTERACTIVE_def POLICY_FILE_def)

text \<open>
  Two spellings the shim reads differently from the accessor. A grant whose path has a space protects
  none of its ancestors in the shim, though the shim lets targets inside it run and the consent
  layer refuses the ancestor. And a deny entry is cut at its first \<open>#\<close>, so an entry for a path with
  that character covers nothing it names.
\<close>

theorem shim_reads_differently:
  "protected_target (fullsend_shim\<lparr>ENV_GRANTS := ''/srv/a b/c''\<rparr>) [''/srv/a b''] = None
   \<and> inside_list ''/srv/a b/c'' ''/srv/a b/c/x''
   \<and> DestroyedBy ''/srv/a b'' (Roots None [] ''/home/me'') (ScopeRoots ''/home/me/proj'' [''/srv/a b/c'']) = ''/srv/a b/c''
   \<and> entry_text ''- /data/c#/**'' = ''/data/c''
   \<and> policy_lookup (fullsend_shim\<lparr>read_file := (\<lambda>_. Some (''deny:'' @ [CHR 0x0A] @ ''  - /data/c#/**''))\<rparr>) ''/data/c#/k'' = Inr Shim_none"
  by (intro conjI) code_simp+

end
