(* ===== verification/Fuel_Loop.thy ===== *)
theory Fuel_Loop
  imports Go_Prelude
begin

text \<open>
  The contract of an unbounded \<open>for\<close> loop of the source, modelled with fuel: a step either continues
  with a new state (\<open>Inl\<close>) or leaves the loop with a result (\<open>Inr\<close>), and \<open>None\<close> means that the fuel
  ran out. The lemmas say when a loop returns, what it returns, and when it provably never does.
\<close>

locale fuel_loop =
  fixes step :: "'s \<Rightarrow> 's + 'r"
    and loop :: "nat \<Rightarrow> 's \<Rightarrow> 'r option"
  assumes loop_0: "loop 0 s = None"
    and loop_Suc: "loop (Suc n) s = (case step s of Inl s' \<Rightarrow> loop n s' | Inr r \<Rightarrow> Some r)"
begin

lemma more_fuel: "loop n s = Some r \<Longrightarrow> n \<le> m \<Longrightarrow> loop m s = Some r"
proof (induction n arbitrary: s m)
  case (Suc n)
  then obtain m' where "m = Suc m'" "n \<le> m'" by (cases m) auto
  then show ?case using Suc by (auto simp: loop_Suc split: sum.splits)
qed (simp add: loop_0)

text \<open>An invariant and a measure that every continuing step lowers: the loop returns, and the invariant
  holds in the state it leaves from.\<close>

lemma returns:
  assumes inv: "\<And>s s'. I s \<Longrightarrow> step s = Inl s' \<Longrightarrow> I s' \<and> m s' < (m s :: nat)"
  shows "I s \<Longrightarrow> m s < n \<Longrightarrow> \<exists>r s'. loop n s = Some r \<and> I s' \<and> step s' = Inr r"
proof (induction n arbitrary: s)
  case (Suc n)
  show ?case
  proof (cases "step s")
    case (Inl s')
    then have "I s'" "m s' < n" using inv Suc.prems by fastforce+
    then show ?thesis using Suc.IH by (simp add: loop_Suc Inl)
  next
    case (Inr r)
    then show ?thesis using Suc.prems by (auto simp: loop_Suc)
  qed
qed simp

lemma result_inv:
  assumes inv: "\<And>s s'. I s \<Longrightarrow> step s = Inl s' \<Longrightarrow> I s'"
  shows "I s \<Longrightarrow> loop n s = Some r \<Longrightarrow> \<exists>s'. I s' \<and> step s' = Inr r"
proof (induction n arbitrary: s)
  case (Suc n)
  then show ?case using inv by (cases "step s") (auto simp: loop_Suc)
qed (simp add: loop_0)

text \<open>A property that lets the loop go on for another step at a time keeps it from returning.\<close>

lemma starves:
  assumes "\<And>n s. P (Suc n) s \<Longrightarrow> \<exists>s'. step s = Inl s' \<and> P n s'"
  shows "P n s \<Longrightarrow> loop n s = None"
proof (induction n arbitrary: s)
  case (Suc n)
  then obtain s' where "step s = Inl s'" "P n s'" using assms by blast
  then show ?case using Suc.IH by (simp add: loop_Suc)
qed (simp add: loop_0)

end

end
