(* ===== verification/Work_Queue.thy ===== *)
theory Work_Queue
  imports Go_Numbers Fuel_Loop
begin

text \<open>
  The reconciler framework of \<open>internal/reconciler\<close>: the de-duplicating, delaying work queue, the
  loop that drains it, the manager that owns one queue per kind and the leader election over
  Postgres advisory locks. A \<open>time.Time\<close> is a number of nanoseconds; every operation that reads the
  clock takes the instants it reads as arguments, in the order the code reads them.
\<close>

section \<open>The queue\<close>

record queueEntry =
  entry_key :: string
  enqueuedAt :: int
  readyAt :: int
  entry_failures :: int

record workQueue =
  queue_kind :: string
  pending :: "string \<rightharpoonup> queueEntry"
  ordered :: "string list"
  failed :: "string \<rightharpoonup> int"

definition newWorkQueue :: "string \<Rightarrow> workQueue" where
  "newWorkQueue kind = \<lparr>queue_kind = kind, pending = Map.empty, ordered = [], failed = Map.empty\<rparr>"

definition enqueue :: "int \<Rightarrow> string \<Rightarrow> workQueue \<Rightarrow> workQueue" where
  "enqueue now k q =
     (case pending q k of
        Some _ \<Rightarrow> q
      | None \<Rightarrow> q\<lparr>pending := (pending q)(k \<mapsto> \<lparr>entry_key = k, enqueuedAt = now, readyAt = now, entry_failures = 0\<rparr>),
                  ordered := ordered q @ [k]\<rparr>)"

function dequeue_loop :: "int \<Rightarrow> (string \<rightharpoonup> queueEntry) \<Rightarrow> nat \<Rightarrow> string list \<Rightarrow> string option \<times> string list" where
  "dequeue_loop now p visited ord =
     (if visited < length ord then
        (let k = hd ord; rest = tl ord
         in case p k of
              None \<Rightarrow> dequeue_loop now p visited rest
            | Some e \<Rightarrow>
                if now < readyAt e then dequeue_loop now p (Suc visited) (rest @ [k])
                else (Some k, rest))
      else (None, ord))"
  by pat_completeness auto
termination
  by (relation "measure (\<lambda>(now, p, visited, ord). length ord - visited)") auto

declare dequeue_loop.simps [simp del]

definition dequeue :: "int \<Rightarrow> workQueue \<Rightarrow> string option \<times> workQueue" where
  "dequeue now q = (let (r, ord) = dequeue_loop now (pending q) 0 (ordered q) in (r, q\<lparr>ordered := ord\<rparr>))"

definition markDone :: "string \<Rightarrow> workQueue \<Rightarrow> workQueue" where
  "markDone k q = q\<lparr>pending := (pending q)(k := None), failed := (failed q)(k := None)\<rparr>"

text \<open>\<open>time.Duration(1<<uint(n))\<close>: the untyped constant takes the type \<open>int64\<close>, a count of 64 or more
  shifts everything out, and \<open>uint\<close> makes a negative count a huge one.\<close>

definition shl_one :: "int \<Rightarrow> int" where
  "shl_one n = (if n < 0 \<or> 64 \<le> n then 0 else i64 (2 ^ nat n))"

definition fail_backoff :: "int \<Rightarrow> int" where
  "fail_backoff n =
     (let backoff = i64 (shl_one n * Second)
      in if 5 * Minute < backoff then 5 * Minute else backoff)"

definition markFailed :: "int \<Rightarrow> string \<Rightarrow> workQueue \<Rightarrow> workQueue" where
  "markFailed now k q =
     (case pending q k of
        None \<Rightarrow> q
      | Some e \<Rightarrow>
          (let n = i64 (entry_failures e + 1)
           in q\<lparr>pending := (pending q)(k \<mapsto> e\<lparr>entry_failures := n, readyAt := now + fail_backoff n\<rparr>),
                failed := (failed q)(k \<mapsto> n),
                ordered := ordered q @ [k]\<rparr>))"

definition requeueAfter :: "int \<Rightarrow> int \<Rightarrow> string \<Rightarrow> int \<Rightarrow> workQueue \<Rightarrow> workQueue" where
  "requeueAfter now now' k after q =
     (case pending q k of
        Some e \<Rightarrow> q\<lparr>pending := (pending q)(k \<mapsto> e\<lparr>readyAt := now + after\<rparr>), ordered := ordered q @ [k]\<rparr>
      | None \<Rightarrow>
          q\<lparr>pending := (pending q)(k \<mapsto> \<lparr>entry_key = k, enqueuedAt = now', readyAt = now + after, entry_failures = 0\<rparr>),
            ordered := ordered q @ [k]\<rparr>)"

definition failures :: "string \<Rightarrow> workQueue \<Rightarrow> int" where
  "failures k q = (case failed q k of Some n \<Rightarrow> n | None \<Rightarrow> 0)"

section \<open>The drain loop\<close>

record reconcile_result =
  RequeueAfter :: int
  result_error :: "string option"

text \<open>What the loop meets from outside: the clock, the reconciler and the cancellation of its context.
  The index counts the readings of the clock, three in an iteration of the loop.\<close>

record world =
  clock :: "nat \<Rightarrow> int"
  Reconcile :: "nat \<Rightarrow> string \<Rightarrow> reconcile_result"
  cancelled :: "nat \<Rightarrow> bool"

datatype pass_event = Reconciled string | Failed string bool | Scanned bool

datatype pass = Cancelled workQueue "pass_event list" | Drained bool nat workQueue "pass_event list"

definition settle :: "world \<Rightarrow> nat \<Rightarrow> int \<Rightarrow> string \<Rightarrow> workQueue \<Rightarrow> workQueue \<times> pass_event" where
  "settle w t maxRetry k q =
     (let r = Reconcile w t k
      in if result_error r \<noteq> None then
           (let q' = markFailed (clock w (t + 1)) k q
            in (q', Failed k (maxRetry \<le> failures k q')))
         else
           (let q' = markDone k q
            in (if 0 < RequeueAfter r then requeueAfter (clock w (t + 1)) (clock w (t + 2)) k (RequeueAfter r) q' else q',
                Reconciled k)))"

fun processQueue_loop :: "nat \<Rightarrow> world \<Rightarrow> int \<Rightarrow> nat \<Rightarrow> bool \<Rightarrow> workQueue \<Rightarrow> pass_event list \<Rightarrow> pass option" where
  "processQueue_loop 0 w maxRetry t didWork q evs = None"
| "processQueue_loop (Suc n) w maxRetry t didWork q evs =
     (if cancelled w t then Some (Cancelled q evs)
      else case dequeue (clock w t) q of
        (None, q') \<Rightarrow> Some (Drained didWork t q' evs)
      | (Some k, q') \<Rightarrow>
          (let (q'', ev) = settle w t maxRetry k q'
           in processQueue_loop n w maxRetry (t + 3) True q'' (evs @ [ev])))"

definition processQueue :: "nat \<Rightarrow> world \<Rightarrow> int \<Rightarrow> workQueue \<Rightarrow> pass option" where
  "processQueue n w maxRetry q =
     (case processQueue_loop n w maxRetry 0 False q [] of
        Some (Drained False t q' evs) \<Rightarrow>
          Some (Drained False t q' (evs @ [Scanned (result_error (Reconcile w t []) \<noteq> None)]))
      | r \<Rightarrow> r)"

section \<open>The manager\<close>

text \<open>FNV-1a over the characters of the kind, with 32-bit wrap-around.\<close>

definition hashKind :: "string \<Rightarrow> int" where
  "hashKind kind = uint (fold (\<lambda>c h. (xor h (of_char c)) * 16777619) kind (2166136261 :: 32 word))"

record 'conn leaderElection =
  leader_kind :: string
  lockKey :: int
  heldConn :: "'conn option"

definition newLeaderElection :: "string \<Rightarrow> 'conn leaderElection" where
  "newLeaderElection kind = \<lparr>leader_kind = kind, lockKey = hashKind kind, heldConn = None\<rparr>"

record 'conn job =
  rec_kind :: string
  queue :: workQueue
  leader :: "'conn leaderElection"
  backoff :: int
  maxRetry :: int

definition Register :: "string \<Rightarrow> 'conn job list \<Rightarrow> 'conn job list" where
  "Register kind jobs =
     jobs @ [\<lparr>rec_kind = kind, queue = newWorkQueue kind, leader = newLeaderElection kind,
              backoff = 5 * Second, maxRetry = 5\<rparr>]"

fun Enqueue :: "int \<Rightarrow> string \<Rightarrow> string \<Rightarrow> 'conn job list \<Rightarrow> 'conn job list" where
  "Enqueue now kind k [] = []"
| "Enqueue now kind k (j # js) =
     (if rec_kind j = kind then j\<lparr>queue := enqueue now k (queue j)\<rparr> # js else j # Enqueue now kind k js)"

text \<open>The database as the election uses it: \<open>pool.Acquire\<close>, the two advisory lock queries on a session
  and the return of a connection to the pool, over an unknown database state.\<close>

record ('d, 'conn) postgres =
  pool_acquire :: "'d \<Rightarrow> 'conn option \<times> 'd"
  try_lock :: "int \<Rightarrow> 'conn \<Rightarrow> 'd \<Rightarrow> bool option \<times> 'd"
  unlock :: "int \<Rightarrow> 'conn \<Rightarrow> 'd \<Rightarrow> 'd"
  put_back :: "'conn \<Rightarrow> 'd \<Rightarrow> 'd"

datatype leader_error = Renew_failed | Acquire_failed | Lock_failed

definition tryAcquireOrRenew ::
  "('d, 'conn) postgres \<Rightarrow> 'd \<Rightarrow> 'conn leaderElection \<Rightarrow> (leader_error + bool) \<times> 'd \<times> 'conn leaderElection" where
  "tryAcquireOrRenew pg d l =
     (case heldConn l of
        Some c \<Rightarrow>
          (case try_lock pg (lockKey l) c d of
             (None, d') \<Rightarrow> (Inl Renew_failed, put_back pg c d', l\<lparr>heldConn := None\<rparr>)
           | (Some _, d') \<Rightarrow> (Inr True, d', l))
      | None \<Rightarrow>
          (case pool_acquire pg d of
             (None, d') \<Rightarrow> (Inl Acquire_failed, d', l)
           | (Some c, d') \<Rightarrow>
               (case try_lock pg (lockKey l) c d' of
                  (None, d'') \<Rightarrow> (Inl Lock_failed, put_back pg c d'', l)
                | (Some False, d'') \<Rightarrow> (Inr False, put_back pg c d'', l)
                | (Some True, d'') \<Rightarrow> (Inr True, d'', l\<lparr>heldConn := Some c\<rparr>))))"

definition release :: "('d, 'conn) postgres \<Rightarrow> 'd \<Rightarrow> 'conn leaderElection \<Rightarrow> 'd \<times> 'conn leaderElection" where
  "release pg d l =
     (case heldConn l of
        None \<Rightarrow> (d, l)
      | Some c \<Rightarrow> (put_back pg c (unlock pg (lockKey l) c d), l\<lparr>heldConn := None\<rparr>))"

text \<open>One turn of the \<open>select\<close> in \<open>runReconciler\<close>. A heartbeat works the queue only as the leader; the
  drained queue is kept in the job. \<open>None\<close> is a pass that does not return within the fuel.\<close>

datatype signal = Heartbeat world | Ctx_done

fun run_turn ::
  "nat \<Rightarrow> ('d, 'conn) postgres \<Rightarrow> signal \<Rightarrow> 'd \<times> 'conn job \<Rightarrow> (('d \<times> 'conn job) \<times> pass_event list \<times> bool) option" where
  "run_turn n pg Ctx_done (d, j) =
     (let (d', l') = release pg d (leader j) in Some ((d', j\<lparr>leader := l'\<rparr>), [], True))"
| "run_turn n pg (Heartbeat w) (d, j) =
     (case tryAcquireOrRenew pg d (leader j) of
        (Inr True, d', l') \<Rightarrow>
          (case processQueue n w (maxRetry j) (queue j) of
             None \<Rightarrow> None
           | Some (Cancelled q evs) \<Rightarrow> Some ((d', j\<lparr>leader := l', queue := q\<rparr>), evs, False)
           | Some (Drained _ _ q evs) \<Rightarrow> Some ((d', j\<lparr>leader := l', queue := q\<rparr>), evs, False))
      | (_, d', l') \<Rightarrow> Some ((d', j\<lparr>leader := l'\<rparr>), [], False))"

fun runReconciler ::
  "nat \<Rightarrow> ('d, 'conn) postgres \<Rightarrow> signal list \<Rightarrow> 'd \<times> 'conn job \<Rightarrow> (('d \<times> 'conn job) \<times> pass_event list) option" where
  "runReconciler n pg [] s = Some (s, [])"
| "runReconciler n pg (sg # sgs) s =
     (case run_turn n pg sg s of
        None \<Rightarrow> None
      | Some (s', evs, True) \<Rightarrow> Some (s', evs)
      | Some (s', evs, False) \<Rightarrow>
          (case runReconciler n pg sgs s' of None \<Rightarrow> None | Some (s'', evs') \<Rightarrow> Some (s'', evs @ evs')))"

section \<open>Taking a key\<close>

definition live :: "workQueue \<Rightarrow> string \<Rightarrow> bool" where
  "live q k \<longleftrightarrow> pending q k \<noteq> None"

definition due :: "int \<Rightarrow> workQueue \<Rightarrow> string \<Rightarrow> bool" where
  "due now q k \<longleftrightarrow> (case pending q k of Some e \<Rightarrow> readyAt e \<le> now | None \<Rightarrow> False)"

lemma due_live: "due now q k \<Longrightarrow> live q k"
  by (simp add: due_def live_def split: option.splits)

lemma dequeue_loop_None:
  assumes "\<forall>k \<in> set todo. case p k of Some e \<Rightarrow> now < readyAt e | None \<Rightarrow> True"
  shows "dequeue_loop now p (length seen) (todo @ seen) = (None, seen @ filter (\<lambda>k. p k \<noteq> None) todo)"
  using assms
proof (induction todo arbitrary: seen)
  case (Cons k todo)
  then show ?case
  proof (cases "p k")
    case None
    then show ?thesis using Cons by (subst dequeue_loop.simps) simp
  next
    case (Some e)
    then show ?thesis using Cons Cons.IH [of "seen @ [k]"] by (subst dequeue_loop.simps) simp
  qed
qed (simp add: dequeue_loop.simps)

lemma dequeue_loop_Some:
  assumes "\<forall>k \<in> set us. case p k of Some e \<Rightarrow> now < readyAt e | None \<Rightarrow> True"
    and "p k = Some e" and "readyAt e \<le> now"
  shows "dequeue_loop now p (length seen) (us @ k # vs @ seen)
    = (Some k, vs @ seen @ filter (\<lambda>k. p k \<noteq> None) us)"
  using assms
proof (induction us arbitrary: seen)
  case Nil
  then show ?case by (subst dequeue_loop.simps) simp
next
  case (Cons u us)
  then show ?case
  proof (cases "p u")
    case None
    then show ?thesis using Cons by (subst dequeue_loop.simps) simp
  next
    case (Some e')
    then show ?thesis using Cons Cons.IH [of "seen @ [u]"] by (subst dequeue_loop.simps) simp
  qed
qed

lemma dequeue_None:
  assumes "\<forall>k \<in> set (ordered q). \<not> due now q k"
  shows "dequeue now q = (None, q\<lparr>ordered := filter (live q) (ordered q)\<rparr>)"
proof -
  have "\<forall>k \<in> set (ordered q). case pending q k of Some e \<Rightarrow> now < readyAt e | None \<Rightarrow> True"
    using assms by (auto simp: due_def split: option.splits)
  from dequeue_loop_None [OF this, of "[]"] show ?thesis
    by (simp add: dequeue_def live_def [abs_def])
qed

lemma dequeue_Some:
  assumes "ordered q = us @ k # vs" and "due now q k" and "\<forall>u \<in> set us. \<not> due now q u"
  shows "dequeue now q = (Some k, q\<lparr>ordered := vs @ filter (live q) us\<rparr>)"
proof -
  obtain e where e: "pending q k = Some e" "readyAt e \<le> now"
    using assms(2) by (auto simp: due_def split: option.splits)
  have "\<forall>k \<in> set us. case pending q k of Some e \<Rightarrow> now < readyAt e | None \<Rightarrow> True"
    using assms(3) by (auto simp: due_def split: option.splits)
  from dequeue_loop_Some [OF this e, of "[]"] show ?thesis
    by (simp add: dequeue_def live_def [abs_def] assms(1))
qed

lemma dequeue_cases [consumes 1, case_names taken idle]:
  assumes "dequeue now q = (r, q')"
  obtains (taken) us k vs where "r = Some k" "ordered q = us @ k # vs" "due now q k"
      "\<forall>u \<in> set us. \<not> due now q u" "q' = q\<lparr>ordered := vs @ filter (live q) us\<rparr>"
    | (idle) "r = None" "\<forall>k \<in> set (ordered q). \<not> due now q k" "q' = q\<lparr>ordered := filter (live q) (ordered q)\<rparr>"
proof (cases "\<forall>k \<in> set (ordered q). \<not> due now q k")
  case True
  then show ?thesis using assms idle dequeue_None by simp
next
  case False
  then obtain us k vs where uv: "ordered q = us @ k # vs" "due now q k" "\<forall>u \<in> set us. \<not> due now q u"
    using split_list_first_prop [of "ordered q" "due now q"] by blast
  show ?thesis using assms dequeue_Some [OF uv] by (intro taken [OF _ uv]) simp_all
qed

text \<open>
  \<open>dequeue\<close> is a fair first-in first-out take: it always returns, the key it gives is the first
  due one in queue order, the keys in front of it are rotated to the back in their order, stale
  keys alone are dropped, and it gives nothing only if nothing queued is due.
\<close>

theorem dequeue_fifo:
  "case dequeue now q of
     (Some k, q') \<Rightarrow> (\<exists>us vs. ordered q = us @ k # vs \<and> due now q k \<and> (\<forall>u \<in> set us. \<not> due now q u)
                       \<and> q' = q\<lparr>ordered := vs @ filter (live q) us\<rparr>)
   | (None, q') \<Rightarrow> (\<forall>k \<in> set (ordered q). \<not> due now q k) \<and> q' = q\<lparr>ordered := filter (live q) (ordered q)\<rparr>"
proof -
  obtain r q' where rq: "dequeue now q = (r, q')" by (cases "dequeue now q")
  then show ?thesis by (cases rule: dequeue_cases) (auto simp: rq)
qed

definition demo_queue :: workQueue where
  "demo_queue = \<lparr>queue_kind = ''task'',
     pending = [''a'' \<mapsto> \<lparr>entry_key = ''a'', enqueuedAt = 0, readyAt = 9, entry_failures = 1\<rparr>,
                ''b'' \<mapsto> \<lparr>entry_key = ''b'', enqueuedAt = 1, readyAt = 1, entry_failures = 0\<rparr>],
     ordered = [''a'', ''z'', ''b''], failed = [''a'' \<mapsto> 1]\<rparr>"

theorem dequeue_fifo_witness:
  "dequeue 5 demo_queue = (Some ''b'', demo_queue\<lparr>ordered := [''a'']\<rparr>) \<and> due 5 demo_queue ''b''"
proof -
  have "dequeue 5 demo_queue = (Some ''b'', demo_queue\<lparr>ordered := [''a'']\<rparr>)"
    using dequeue_Some [of demo_queue "[''a'', ''z'']" "''b''" "[]" 5]
    by (simp add: demo_queue_def due_def live_def)
  then show ?thesis using dequeue_fifo [where now = 5 and q = demo_queue] by auto
qed

section \<open>No key is lost under any interleaving\<close>

text \<open>The consumer between two of its calls: about to take a key, reconciling one, or past \<open>markDone\<close> with
  a requeue to come. \<open>Enqueue\<close> runs in other goroutines and may fall between any two calls.\<close>

datatype phase = Idle | Working string | Settled string int

primrec in_flight :: "phase \<Rightarrow> string set" where
  "in_flight Idle = {}"
| "in_flight (Working k) = {k}"
| "in_flight (Settled k a) = {}"

inductive queue_step :: "phase \<times> workQueue \<Rightarrow> phase \<times> workQueue \<Rightarrow> bool" where
  arrive: "queue_step (ph, q) (ph, enqueue now k q)"
| take: "dequeue now q = (Some k, q') \<Longrightarrow> queue_step (Idle, q) (Working k, q')"
| pause: "dequeue now q = (None, q') \<Longrightarrow> queue_step (Idle, q) (Idle, q')"
| failure: "queue_step (Working k, q) (Idle, markFailed now k q)"
| success: "queue_step (Working k, q) (Idle, markDone k q)"
| success_requeue: "0 < a \<Longrightarrow> queue_step (Working k, q) (Settled k a, markDone k q)"
| requeue: "queue_step (Settled k a, q) (Idle, requeueAfter now now' k a q)"

inductive_cases queue_stepE: "queue_step s s'"

inductive queue_reachable :: "string \<Rightarrow> phase \<times> workQueue \<Rightarrow> bool" for kind where
  start: "queue_reachable kind (Idle, newWorkQueue kind)"
| step: "queue_reachable kind s \<Longrightarrow> queue_step s s' \<Longrightarrow> queue_reachable kind s'"

definition queue_inv :: "phase \<times> workQueue \<Rightarrow> bool" where
  "queue_inv = (\<lambda>(ph, q). dom (pending q) \<subseteq> set (ordered q) \<union> in_flight ph
     \<and> in_flight ph \<subseteq> dom (pending q)
     \<and> (\<forall>k e. pending q k = Some e \<longrightarrow> entry_key e = k)
     \<and> (\<forall>k n. failed q k = Some n \<longrightarrow> (\<exists>e. pending q k = Some e \<and> entry_failures e = n)))"

lemma dequeue_inv:
  assumes "dequeue now q = (r, q')" and "queue_inv (Idle, q)"
  shows "queue_inv (case r of Some k \<Rightarrow> Working k | None \<Rightarrow> Idle, q')"
  using assms by (cases rule: dequeue_cases) (auto simp: queue_inv_def live_def due_def split: option.splits)

lemma enqueue_inv: "queue_inv (ph, q) \<Longrightarrow> queue_inv (ph, enqueue now k q)"
  by (fastforce simp: queue_inv_def enqueue_def split: option.splits)

lemma markFailed_inv: "queue_inv (Working k, q) \<Longrightarrow> queue_inv (Idle, markFailed now k q)"
  by (auto simp: queue_inv_def markFailed_def Let_def split: option.splits)

lemma markDone_inv: "queue_inv (Working k, q) \<Longrightarrow> in_flight ph = {} \<Longrightarrow> queue_inv (ph, markDone k q)"
  by (auto simp: queue_inv_def markDone_def)

lemma requeueAfter_inv: "queue_inv (Settled k a, q) \<Longrightarrow> queue_inv (Idle, requeueAfter now now' k a q)"
  by (fastforce simp: queue_inv_def requeueAfter_def split: option.splits)

lemma queue_step_inv: "queue_step s s' \<Longrightarrow> queue_inv s \<Longrightarrow> queue_inv s'"
proof (induction rule: queue_step.induct)
  case (take now q k q')
  then show ?case using dequeue_inv by fastforce
next
  case (pause now q q')
  then show ?case using dequeue_inv by fastforce
qed (simp_all add: enqueue_inv markFailed_inv markDone_inv requeueAfter_inv)

lemma queue_reachable_inv: "queue_reachable kind s \<Longrightarrow> queue_inv s"
proof (induction rule: queue_reachable.induct)
  case start
  then show ?case by (simp add: queue_inv_def newWorkQueue_def)
next
  case (step s s')
  then show ?case using queue_step_inv by blast
qed

text \<open>
  C4. Whatever the interleaving of arrivals and of the consumer's calls, no pending key is stranded: a key
  that \<open>enqueue\<close> would ignore as already pending is in the line or in the consumer's hands, so once
  it is due an idle consumer does get a key, and the recorded failure count is that of the entry.
\<close>

theorem pending_never_stranded:
  assumes "queue_reachable kind (ph, q)"
    and "pending q k = Some e"
  shows "(k \<in> set (ordered q) \<or> ph = Working k) \<and> entry_key e = k
    \<and> (failed q k \<noteq> None \<longrightarrow> failures k q = entry_failures e)
    \<and> (ph = Idle \<and> readyAt e \<le> now \<longrightarrow> fst (dequeue now q) \<noteq> None)"
proof -
  have inv: "queue_inv (ph, q)" using assms(1) by (rule queue_reachable_inv)
  have line: "k \<in> set (ordered q) \<or> ph = Working k"
    using inv assms(2) by (cases ph) (auto simp: queue_inv_def)
  have served: "fst (dequeue now q) \<noteq> None" if "ph = Idle" "readyAt e \<le> now"
  proof -
    obtain r q' where rq: "dequeue now q = (r, q')" by (cases "dequeue now q")
    have "due now q k" "k \<in> set (ordered q)" using that assms(2) line by (auto simp: due_def)
    with rq show ?thesis by (cases rule: dequeue_cases) (auto simp: rq)
  qed
  show ?thesis using inv line served assms(2) by (fastforce simp: queue_inv_def failures_def)
qed

theorem pending_never_stranded_witness:
  "''k'' \<in> set (ordered (enqueue 3 ''k'' (newWorkQueue ''task'')))
   \<and> fst (dequeue 4 (enqueue 3 ''k'' (newWorkQueue ''task''))) \<noteq> None"
proof -
  let ?q = "enqueue 3 ''k'' (newWorkQueue ''task'')"
  have "queue_reachable ''task'' (Idle, ?q)"
    by (rule queue_reachable.step [OF queue_reachable.start queue_step.arrive])
  moreover have "pending ?q ''k'' = Some \<lparr>entry_key = ''k'', enqueuedAt = 3, readyAt = 3, entry_failures = 0\<rparr>"
    by (simp add: enqueue_def newWorkQueue_def)
  ultimately show ?thesis using pending_never_stranded [of "''task''" Idle ?q "''k''" _ 4] by force
qed

text \<open>
  A wake-up that arrives while its key is being reconciled leaves no trace: the queue after the
  reconcile is the one without the arrival, so the event is handled only if the pass that was
  already running saw it.
\<close>

theorem wakeup_while_working_dropped:
  assumes "queue_reachable kind (Working k, q)"
  shows "enqueue now k q = q
    \<and> pending (markDone k (enqueue now k q)) k = None"
proof -
  have "queue_inv (Working k, q)" using assms by (rule queue_reachable_inv)
  then obtain e where "pending q k = Some e" by (auto simp: queue_inv_def)
  then show ?thesis by (simp add: enqueue_def markDone_def)
qed

theorem wakeup_while_working_dropped_witness:
  "pending (markDone ''k'' (enqueue 9 ''k'' (snd (dequeue 4 (enqueue 3 ''k'' (newWorkQueue ''task'')))))) ''k'' = None"
proof -
  let ?q = "enqueue 3 ''k'' (newWorkQueue ''task'')"
  have "dequeue 4 ?q = (Some ''k'', ?q\<lparr>ordered := []\<rparr>)"
    using dequeue_Some [of ?q "[]" "''k''" "[]" 4] by (simp add: enqueue_def newWorkQueue_def due_def)
  moreover from this have "queue_reachable ''task'' (Working ''k'', ?q\<lparr>ordered := []\<rparr>)"
    by (meson queue_reachable.intros queue_step.arrive queue_step.take)
  ultimately show ?thesis using wakeup_while_working_dropped [of "''task''" "''k''" "?q\<lparr>ordered := []\<rparr>" 9] by auto
qed

section \<open>The backoff\<close>

lemma backoff_table: "\<forall>n \<in> {1..33}. fail_backoff n = min (2 ^ nat n * Second) (5 * Minute)"
  by code_simp

lemma backoff_wrapped: "fail_backoff 34 < 0 \<and> fail_backoff 35 < 0 \<and> fail_backoff 36 < 0"
  by code_simp

lemma backoff_zero: "55 \<le> n \<Longrightarrow> fail_backoff n = 0"
proof -
  assume n: "55 \<le> n"
  have "i64 (shl_one n * Second) = 0"
  proof (cases "n < 64")
    case True
    have "(2::int) ^ nat n * Second = 2 ^ 64 * (2 ^ (nat n - 55) * 1953125)"
    proof -
      have "(2::int) ^ nat n = 2 ^ 55 * 2 ^ (nat n - 55)" using n power_add [of "2::int" 55 "nat n - 55"] by simp
      then show ?thesis by (simp add: Second_def)
    qed
    then show ?thesis using n True i64_multiple [of "2 ^ (nat n - 55) * 1953125"]
      by (simp add: shl_one_def i64_mult del: power_numeral)
  next
    case False
    then show ?thesis by (simp add: shl_one_def in_i64_def)
  qed
  then show ?thesis by (simp add: fail_backoff_def Minute_def Second_def)
qed

lemma backoff_at_least: "1 \<le> n \<Longrightarrow> n \<le> 33 \<Longrightarrow> 2 * Second \<le> fail_backoff n"
proof -
  assume n: "1 \<le> n" "n \<le> 33"
  have "(2::int) ^ 1 \<le> 2 ^ nat n" using n by (intro power_increasing) auto
  then have "2 * Second \<le> 2 ^ nat n * Second" by (intro mult_right_mono) (simp_all add: Second_def)
  then show ?thesis using n backoff_table by (simp add: Minute_def Second_def)
qed

text \<open>C37. The retry delay doubles from two seconds and is capped at five minutes for the first 33 failures.
  From the 34th on the shift overflows \<open>int64\<close> before the cap is applied: failures 34 to 36 give a
  delay in the past, and from the 55th on the delay is zero.\<close>

theorem backoff_profile:
  "(1 \<le> n \<and> n \<le> 33 \<longrightarrow> fail_backoff n = min (2 ^ nat n * Second) (5 * Minute))
   \<and> (34 \<le> n \<and> n \<le> 36 \<longrightarrow> fail_backoff n < 0)
   \<and> (55 \<le> n \<longrightarrow> fail_backoff n = 0)"
proof -
  have "34 \<le> n \<and> n \<le> 36 \<Longrightarrow> n = 34 \<or> n = 35 \<or> n = 36" by arith
  then show ?thesis using backoff_table backoff_wrapped backoff_zero by auto
qed

theorem backoff_profile_witness:
  "fail_backoff 3 = 8 * Second \<and> fail_backoff 12 = 5 * Minute \<and> fail_backoff 35 < 0 \<and> fail_backoff 60 = 0"
  using backoff_profile [of 3] backoff_profile [of 12] backoff_profile [of 35] backoff_profile [of 60]
  by (simp add: Minute_def Second_def)

section \<open>The drain loop returns, or livelocks\<close>

definition pass_step ::
  "world \<Rightarrow> int \<Rightarrow> nat \<times> bool \<times> workQueue \<times> pass_event list \<Rightarrow> (nat \<times> bool \<times> workQueue \<times> pass_event list) + pass" where
  "pass_step w m = (\<lambda>(t, didWork, q, evs).
     if cancelled w t then Inr (Cancelled q evs)
     else case dequeue (clock w t) q of
       (None, q') \<Rightarrow> Inr (Drained didWork t q' evs)
     | (Some k, q') \<Rightarrow> (let (q'', ev) = settle w t m k q' in Inl (t + 3, True, q'', evs @ [ev])))"

definition pass_run where
  "pass_run w m n = (\<lambda>(t, didWork, q, evs). processQueue_loop n w m t didWork q evs)"

interpretation drain: fuel_loop "pass_step w m" "pass_run w m" for w m
  by unfold_locales
     (auto simp: pass_run_def pass_step_def Let_def split: prod.splits option.splits sum.splits)

definition queued_due :: "int \<Rightarrow> workQueue \<Rightarrow> nat" where
  "queued_due h q = length (filter (due h q) (ordered q))"

text \<open>Entries that may come up before the horizon have failed at most 32 times so far.\<close>

definition few_failures :: "int \<Rightarrow> workQueue \<Rightarrow> bool" where
  "few_failures h q \<longleftrightarrow> (\<forall>k e. pending q k = Some e \<and> readyAt e \<le> h \<longrightarrow> 0 \<le> entry_failures e \<and> entry_failures e \<le> 32)"

lemma length_filter_imp:
  "(\<And>x. x \<in> set xs \<Longrightarrow> P x \<Longrightarrow> Q x) \<Longrightarrow> length (filter P xs) \<le> length (filter Q xs)"
  by (induction xs) (auto simp: le_Suc_eq)

lemma filter_due_live: "filter (due h q) (filter (live q) xs) = filter (due h q) xs"
  by (induction xs) (auto dest: due_live)

lemma dequeue_queued_due:
  assumes "dequeue now q = (Some k, q')" and "now \<le> h"
  shows "queued_due h q = Suc (queued_due h q') \<and> due h q' k \<and> pending q' = pending q"
  using assms(1)
proof (cases rule: dequeue_cases)
  case (taken us k' vs)
  have same: "due h q' = due h q" by (simp add: taken(5) due_def [abs_def])
  have "due h q k" using taken(1,3) assms(2) by (auto simp: due_def split: option.splits)
  then show ?thesis using taken same by (simp add: queued_due_def filter_due_live del: filter_filter)
qed simp

lemma queued_due_later:
  assumes "\<And>x. due h q' x \<Longrightarrow> due h q x" and "\<not> due h q' k" and "ordered q' = ordered q @ [k] \<or> ordered q' = ordered q"
  shows "queued_due h q' \<le> queued_due h q"
  using assms length_filter_imp [of "ordered q" "due h q'" "due h q"] by (auto simp: queued_due_def)

lemma markFailed_later:
  assumes "few_failures h q" and "due h q k" and "h < now + 2 * Second"
  shows "queued_due h (markFailed now k q) \<le> queued_due h q \<and> few_failures h (markFailed now k q)"
proof -
  obtain e where e: "pending q k = Some e" "readyAt e \<le> h"
    using assms(2) by (auto simp: due_def split: option.splits)
  then have n: "0 \<le> entry_failures e" "entry_failures e \<le> 32" using assms(1) by (auto simp: few_failures_def)
  then have wrap: "i64 (entry_failures e + 1) = entry_failures e + 1" by (simp add: in_i64_def)
  have "h < now + fail_backoff (entry_failures e + 1)"
    using backoff_at_least [of "entry_failures e + 1"] n assms(3) by simp
  then show ?thesis using e assms(1)
    by (intro conjI queued_due_later [where k = k])
       (auto simp: markFailed_def wrap Let_def due_def few_failures_def split: option.splits if_splits)
qed

lemma markDone_later:
  assumes "few_failures h q"
  shows "queued_due h (markDone k q) \<le> queued_due h q \<and> few_failures h (markDone k q)"
  using assms
  by (intro conjI queued_due_later [where k = k])
     (auto simp: markDone_def due_def few_failures_def split: option.splits if_splits)

lemma requeueAfter_later:
  assumes "few_failures h q" and "h < now + a" and "pending q k = None"
  shows "queued_due h (requeueAfter now now' k a q) \<le> queued_due h q \<and> few_failures h (requeueAfter now now' k a q)"
  using assms
  by (intro conjI queued_due_later [where k = k])
     (auto simp: requeueAfter_def due_def few_failures_def split: option.splits if_splits)

definition short_pass :: "int \<Rightarrow> world \<Rightarrow> bool" where
  "short_pass h w \<longleftrightarrow> (\<forall>t. clock w t \<le> h \<and> h < clock w t + 2 * Second)
     \<and> (\<forall>t k. RequeueAfter (Reconcile w t k) \<le> 0 \<or> 2 * Second \<le> RequeueAfter (Reconcile w t k))"

lemma settle_later:
  assumes w: "short_pass h w" and few: "few_failures h q" and k: "due h q k"
  shows "queued_due h (fst (settle w t m k q)) \<le> queued_due h q \<and> few_failures h (fst (settle w t m k q))"
proof (cases "result_error (Reconcile w t k)")
  case (Some err)
  then show ?thesis using markFailed_later [OF few k] w by (simp add: settle_def Let_def short_pass_def)
next
  case None
  have d: "queued_due h (markDone k q) \<le> queued_due h q" "few_failures h (markDone k q)"
    using markDone_later [OF few] by simp_all
  show ?thesis
  proof (cases "0 < RequeueAfter (Reconcile w t k)")
    case True
    then have "h < clock w (t + 1) + RequeueAfter (Reconcile w t k)"
      using w by (simp add: short_pass_def) (smt (verit))
    then have "queued_due h (requeueAfter (clock w (t + 1)) (clock w (t + 2)) k (RequeueAfter (Reconcile w t k)) (markDone k q))
        \<le> queued_due h (markDone k q)
      \<and> few_failures h (requeueAfter (clock w (t + 1)) (clock w (t + 2)) k (RequeueAfter (Reconcile w t k)) (markDone k q))"
      using d by (intro requeueAfter_later) (simp_all add: markDone_def)
    then show ?thesis using d None True by (simp add: settle_def Let_def)
  next
    case False
    then show ?thesis using d None by (simp add: settle_def Let_def)
  qed
qed

lemma pass_step_later:
  assumes "short_pass h w" and "few_failures h q" and "pass_step w m (t, dw, q, evs) = Inl (t', dw', q', evs')"
  shows "few_failures h q' \<and> queued_due h q' < queued_due h q"
proof -
  obtain k q1 where k: "dequeue (clock w t) q = (Some k, q1)" "q' = fst (settle w t m k q1)"
    using assms(3) by (auto simp: pass_step_def Let_def split: if_splits prod.splits option.splits)
  have h: "clock w t \<le> h" using assms(1) by (simp add: short_pass_def)
  have d: "queued_due h q = Suc (queued_due h q1)" "due h q1 k" "pending q1 = pending q"
    using dequeue_queued_due [OF k(1) h] by simp_all
  then have "few_failures h q1" using assms(2) by (simp add: few_failures_def)
  then show ?thesis using settle_later [OF assms(1) _ d(2), of t m] d(1) k(2) by simp
qed

text \<open>
  A pass shorter than the shortest delay ends: if the clock moves less than two seconds, requeues ask
  for two seconds or more and no key near its time has failed more than 32 times, the loop returns
  after at most one iteration per queued key, and, unless it was cancelled, leaves no due key behind.
\<close>

theorem processQueue_returns:
  assumes "short_pass h w" and "few_failures h q" and "length (ordered q) < n"
  shows "\<exists>r. processQueue_loop n w m t dw q evs = Some r
    \<and> (case r of Cancelled _ _ \<Rightarrow> (\<exists>t. cancelled w t)
       | Drained _ t' q' _ \<Rightarrow> (\<forall>k \<in> set (ordered q'). \<not> due (clock w t') q' k))"
proof -
  let ?I = "\<lambda>(t :: nat, dw :: bool, q, evs :: pass_event list). few_failures h q"
  let ?m = "\<lambda>(t :: nat, dw :: bool, q, evs :: pass_event list). queued_due h q"
  have down: "?I s' \<and> ?m s' < ?m s" if "?I s" "pass_step w m s = Inl s'" for s s'
    using that pass_step_later [OF assms(1)] by (cases s; cases s') auto
  have "queued_due h q < n"
    unfolding queued_due_def using assms(3) length_filter_le [of "due h q" "ordered q"] by linarith
  then obtain r s' where r: "pass_run w m n (t, dw, q, evs) = Some r" "pass_step w m s' = Inr r"
    using drain.returns [of ?I w m ?m "(t, dw, q, evs)" n, OF down] assms(2) by auto
  have "case r of Cancelled _ _ \<Rightarrow> (\<exists>t. cancelled w t)
       | Drained _ t' q' _ \<Rightarrow> (\<forall>k \<in> set (ordered q'). \<not> due (clock w t') q' k)"
    using r(2)
    by (auto simp: pass_step_def Let_def due_def split: if_splits prod.splits option.splits
        elim!: dequeue_cases)
  then show ?thesis using r(1) by (auto simp: pass_run_def)
qed

definition calm_world :: world where
  "calm_world = \<lparr>clock = (\<lambda>_. 5), Reconcile = (\<lambda>_ _. \<lparr>RequeueAfter = 0, result_error = Some ''boom''\<rparr>), cancelled = (\<lambda>_. False)\<rparr>"

theorem processQueue_returns_witness:
  "\<exists>r. processQueue_loop 4 calm_world 5 0 False demo_queue [] = Some r"
proof -
  have "short_pass 5 calm_world" by (simp add: short_pass_def calm_world_def Second_def)
  moreover have "few_failures 5 demo_queue" by (simp add: few_failures_def demo_queue_def)
  moreover have "length (ordered demo_queue) < 4" by (simp add: demo_queue_def)
  ultimately show ?thesis using processQueue_returns [of 5 calm_world demo_queue 4 5 0 False "[]"] by blast
qed

definition spinning :: "string \<Rightarrow> nat \<Rightarrow> int \<Rightarrow> workQueue \<Rightarrow> bool" where
  "spinning k n now q \<longleftrightarrow> ordered q = [k]
     \<and> (\<exists>e. pending q k = Some e \<and> readyAt e \<le> now \<and> 54 \<le> entry_failures e \<and> entry_failures e + int n < 2 ^ 63)"

lemma spinning_step:
  assumes "mono (clock w)" and "\<And>t. \<not> cancelled w t" and "\<And>t. result_error (Reconcile w t k) \<noteq> None"
    and "spinning k (Suc n) (clock w t) q"
  shows "\<exists>q' evs'. pass_step w m (t, dw, q, evs) = Inl (t + 3, True, q', evs') \<and> spinning k n (clock w (t + 3)) q'"
proof -
  obtain e where e: "ordered q = [k]" "pending q k = Some e" "readyAt e \<le> clock w t" "54 \<le> entry_failures e"
      "entry_failures e + int (Suc n) < 2 ^ 63"
    using assms(4) by (auto simp: spinning_def)
  have deq: "dequeue (clock w t) q = (Some k, q\<lparr>ordered := []\<rparr>)"
    using dequeue_Some [of q "[]" k "[]" "clock w t"] e by (simp add: due_def)
  have wrap: "i64 (entry_failures e + 1) = entry_failures e + 1" using e(4,5) by (simp add: in_i64_def)
  have zero: "fail_backoff (entry_failures e + 1) = 0" using e(4) by (simp add: backoff_zero)
  have "clock w (t + 1) \<le> clock w (t + 3)" using assms(1) by (simp add: monoD)
  then show ?thesis using assms(2,3) e
    by (auto simp: pass_step_def deq settle_def markFailed_def Let_def wrap zero spinning_def)
qed

text \<open>
  C38. A key that has failed 54 times and keeps failing pins the loop: its delay is zero, so it is due again
  at once and the pass never returns, whatever fuel it is given (up to the wrap-around of the
  64-bit failure counter). Leadership is then never renewed and no other turn of the job runs.
\<close>

theorem processQueue_livelock:
  assumes "mono (clock w)" and "\<And>t. \<not> cancelled w t" and "\<And>t. result_error (Reconcile w t k) \<noteq> None"
    and "spinning k n (clock w 0) q"
  shows "processQueue n w m q = None"
proof -
  let ?P = "\<lambda>n (t, dw :: bool, q, evs :: pass_event list). spinning k n (clock w t) q"
  have "pass_run w m n (0, False, q, []) = None"
  proof (rule drain.starves [where P = ?P])
    fix n s assume "?P (Suc n) s"
    then show "\<exists>s'. pass_step w m s = Inl s' \<and> ?P n s'"
      using spinning_step [OF assms(1-3)] by (cases s) fastforce
  qed (use assms(4) in simp)
  then show ?thesis by (simp add: processQueue_def pass_run_def)
qed

theorem processQueue_livelock_witness:
  "processQueue 1000 calm_world 5
     (demo_queue\<lparr>ordered := [''a''], pending := [''a'' \<mapsto> \<lparr>entry_key = ''a'', enqueuedAt = 0, readyAt = 0, entry_failures = 54\<rparr>]\<rparr>) = None"
  by (rule processQueue_livelock [where k = "''a''"]) (simp_all add: calm_world_def spinning_def monoI)

section \<open>Routing and leadership\<close>

definition job_queue :: "string \<Rightarrow> 'conn job list \<Rightarrow> workQueue option" where
  "job_queue kind jobs = map_option queue (find (\<lambda>j. rec_kind j = kind) jobs)"

lemma job_queue_Enqueue:
  "job_queue kind' (Enqueue now kind k jobs) =
     (if kind' = kind then map_option (enqueue now k) (job_queue kind jobs) else job_queue kind' jobs)"
  by (induction jobs) (auto simp: job_queue_def)

text \<open>
  \<open>Enqueue\<close> routes by kind: once a kind is registered, a key sent to it is pending in its queue and in
  no other; the queues of the other kinds and the number of jobs do not change, and a kind nobody
  registered is a no-op.
\<close>

theorem Enqueue_routes:
  "(\<forall>q. job_queue kind jobs = Some q \<longrightarrow>
      (\<exists>q'. job_queue kind (Enqueue now kind k jobs) = Some q' \<and> live q' k \<and> (\<forall>k'. live q k' \<longrightarrow> live q' k')))
   \<and> (\<forall>kind'. kind' \<noteq> kind \<longrightarrow> job_queue kind' (Enqueue now kind k jobs) = job_queue kind' jobs)
   \<and> (job_queue kind jobs = None \<longrightarrow> Enqueue now kind k jobs = jobs)
   \<and> job_queue kind (Register kind jobs) \<noteq> None"
proof -
  have none: "Enqueue now kind k jobs = jobs" if "job_queue kind jobs = None"
    using that by (induction jobs) (auto simp: job_queue_def split: if_splits)
  have reg: "job_queue kind (Register kind jobs) \<noteq> None"
    by (induction jobs) (auto simp: job_queue_def Register_def split: if_splits)
  have "live (enqueue now k q) k \<and> (live q k' \<longrightarrow> live (enqueue now k q) k')" for q k'
    by (simp add: live_def enqueue_def split: option.splits)
  then show ?thesis using none reg by (simp add: job_queue_Enqueue)
qed

theorem Enqueue_routes_witness:
  "\<exists>q'. job_queue ''task'' (Enqueue 1 ''task'' ''k'' (Register ''task'' (Register ''workflow'' ([] :: unit job list)))) = Some q'
     \<and> live q' ''k''"
proof -
  have "job_queue ''task'' (Register ''task'' (Register ''workflow'' ([] :: unit job list))) = Some (newWorkQueue ''task'')"
    by (simp add: job_queue_def Register_def)
  then show ?thesis using Enqueue_routes [of "''task''" "Register ''task'' (Register ''workflow'' [])" 1 "''k''"] by blast
qed

text \<open>The kinds of the reconcilers the server registers.\<close>

definition reconciler_kinds :: "string list" where
  "reconciler_kinds = [''task'', ''sequence'', ''recurring_fire'', ''workflow'', ''scheduled_run'', ''worktree'', ''recovery'']"

text \<open>
  No two reconcilers of the server fight over one advisory lock: their kinds hash to different keys,
  and every key is in the non-negative 32-bit range, so the conversion to \<open>int64\<close> is exact.
\<close>

theorem lock_keys_distinct:
  "distinct (map hashKind reconciler_kinds) \<and> 0 \<le> hashKind kind \<and> hashKind kind < 2 ^ 32"
proof -
  have "distinct (map hashKind reconciler_kinds)" by code_simp
  moreover have "0 \<le> hashKind kind" unfolding hashKind_def by (rule uint_ge_0)
  moreover have "hashKind kind < 2 ^ 32"
    unfolding hashKind_def using uint_lt2p [where 'a = 32] by simp
  ultimately show ?thesis by blast
qed

text \<open>What the election relies on in the database. \<open>out d\<close> counts the pooled connections in use; \<open>cnt d c k\<close>
  is how often session \<open>c\<close> holds the lock \<open>k\<close>: session-level advisory locks stack, a session that
  holds a lock gets it again, an unlock undoes one acquisition, and returning a connection to the
  pool does not touch the locks of its session.\<close>

definition pool_accounting :: "('d, 'conn) postgres \<Rightarrow> ('d \<Rightarrow> int) \<Rightarrow> bool" where
  "pool_accounting pg out \<longleftrightarrow>
     (\<forall>d. out (snd (pool_acquire pg d)) = out d + (if fst (pool_acquire pg d) = None then 0 else 1))
     \<and> (\<forall>k c d. out (snd (try_lock pg k c d)) = out d)
     \<and> (\<forall>k c d. out (unlock pg k c d) = out d)
     \<and> (\<forall>c d. out (put_back pg c d) = out d - 1)"

definition lock_accounting :: "('d, 'conn) postgres \<Rightarrow> ('d \<Rightarrow> 'conn \<Rightarrow> int \<Rightarrow> nat) \<Rightarrow> bool" where
  "lock_accounting pg cnt \<longleftrightarrow>
     (\<forall>k c d. 0 < cnt d c k \<longrightarrow> fst (try_lock pg k c d) = Some True \<and> cnt (snd (try_lock pg k c d)) c k = Suc (cnt d c k))
     \<and> (\<forall>k c d. cnt (unlock pg k c d) c k = cnt d c k - 1)
     \<and> (\<forall>k c c' d. cnt (put_back pg c' d) c k = cnt d c k)"

definition pinned :: "'conn leaderElection \<Rightarrow> int" where
  "pinned l = (case heldConn l of None \<Rightarrow> 0 | Some _ \<Rightarrow> 1)"

text \<open>
  The election leaks no connection and holds one exactly while it leads: after a heartbeat a connection
  is pinned iff the heartbeat reported leadership, connections in use change only by the pinned
  one, on every error path too, and \<open>release\<close> gives the pinned one back.
\<close>

theorem leader_holds_connection:
  assumes "pool_accounting pg out" and "tryAcquireOrRenew pg d l = (r, d', l')"
  shows "(heldConn l' \<noteq> None \<longleftrightarrow> r = Inr True) \<and> out d' - pinned l' = out d - pinned l
    \<and> heldConn (snd (release pg d' l')) = None \<and> out (fst (release pg d' l')) = out d' - pinned l'"
proof -
  have acq: "pool_acquire pg d = (x, e) \<Longrightarrow> out e = out d + (if x = None then 0 else 1)" for d x e
    using assms(1) by (metis fst_conv pool_accounting_def snd_conv)
  have tl: "try_lock pg k c d = (x, e) \<Longrightarrow> out e = out d" for k c d x e
    using assms(1) by (metis pool_accounting_def snd_conv)
  have give: "out (put_back pg c d) = out d - 1" for c d using assms(1) by (simp add: pool_accounting_def)
  have free: "out (unlock pg k c d) = out d" for k c d using assms(1) by (simp add: pool_accounting_def)
  show ?thesis using assms(2)
    by (auto simp: tryAcquireOrRenew_def release_def pinned_def give free
        split: option.splits prod.splits bool.splits dest!: acq tl)
qed

text \<open>A database with one session, whose state is the lock count and the number of connections in use.\<close>

definition one_session :: "(nat \<times> int, unit) postgres" where
  "one_session = \<lparr>pool_acquire = (\<lambda>(n, o'). (Some (), (n, o' + 1))),
     try_lock = (\<lambda>_ _ (n, o'). (Some True, (Suc n, o'))),
     unlock = (\<lambda>_ _ (n, o'). (n - 1, o')), put_back = (\<lambda>_ (n, o'). (n, o' - 1))\<rparr>"

theorem leader_holds_connection_witness:
  "heldConn (snd (snd (tryAcquireOrRenew one_session (0, 0) (newLeaderElection ''task'')))) \<noteq> None"
proof -
  have "pool_accounting one_session snd"
    by (simp add: pool_accounting_def one_session_def split: prod.splits)
  moreover have "tryAcquireOrRenew one_session (0, 0) (newLeaderElection ''task'')
    = (Inr True, (1, 1), (newLeaderElection ''task'')\<lparr>heldConn := Some ()\<rparr>)"
    by (simp add: tryAcquireOrRenew_def newLeaderElection_def one_session_def)
  ultimately show ?thesis
    using leader_holds_connection [of one_session snd "(0, 0)" "newLeaderElection ''task''"] by simp
qed

definition beat :: "('d, 'conn) postgres \<Rightarrow> 'd \<times> 'conn leaderElection \<Rightarrow> 'd \<times> 'conn leaderElection" where
  "beat pg = (\<lambda>(d, l). snd (tryAcquireOrRenew pg d l))"

lemma beat_stacks:
  assumes "lock_accounting pg cnt" and "heldConn l = Some c" and "0 < cnt d c (lockKey l)"
  shows "\<exists>d'. (beat pg ^^ n) (d, l) = (d', l) \<and> cnt d' c (lockKey l) = cnt d c (lockKey l) + n"
proof (induction n)
  case (Suc n)
  then obtain d' where d': "(beat pg ^^ n) (d, l) = (d', l)" "cnt d' c (lockKey l) = cnt d c (lockKey l) + n" by blast
  then have again: "fst (try_lock pg (lockKey l) c d') = Some True"
      "cnt (snd (try_lock pg (lockKey l) c d')) c (lockKey l) = Suc (cnt d' c (lockKey l))"
    using assms(1,3) by (simp_all add: lock_accounting_def)
  from again(1) have "beat pg (d', l) = (snd (try_lock pg (lockKey l) c d'), l)"
    by (cases "try_lock pg (lockKey l) c d'") (simp add: beat_def tryAcquireOrRenew_def assms(2))
  then show ?case using d' again by simp
qed simp

text \<open>
  \<open>release\<close> undoes one acquisition, but every renewal has stacked another one on the pinned session:
  after \<open>n\<close> heartbeats as the leader the connection goes back to the pool with its session still
  holding the lock \<open>n\<close> times, so another replica cannot take over until that session ends.
\<close>

theorem release_leaves_lock_held:
  assumes "lock_accounting pg cnt" and "heldConn l = Some c" and "cnt d c (lockKey l) = 1"
    and "(beat pg ^^ n) (d, l) = (d', l')"
  shows "heldConn l' = Some c \<and> cnt (fst (release pg d' l')) c (lockKey l) = n"
  using beat_stacks [OF assms(1,2), of d n] assms
  by (auto simp: release_def lock_accounting_def)

theorem release_leaves_lock_held_witness:
  "fst (fst (release one_session (4, 1) ((newLeaderElection ''task'')\<lparr>heldConn := Some ()\<rparr>))) = 3"
proof -
  let ?l = "(newLeaderElection ''task'')\<lparr>heldConn := Some ()\<rparr>"
  have "lock_accounting one_session (\<lambda>d _ _. fst d)"
    by (simp add: lock_accounting_def one_session_def split: prod.splits)
  moreover have "(beat one_session ^^ 3) ((1, 1), ?l) = ((4, 1), ?l)"
    by (simp add: eval_nat_numeral beat_def tryAcquireOrRenew_def newLeaderElection_def one_session_def)
  ultimately show ?thesis
    using release_leaves_lock_held [of one_session "\<lambda>d _ _. fst d" ?l "()" "(1, 1)" 3] by simp
qed

end
