(* ===== verification/File_Diff.thy ===== *)
theory File_Diff
  imports Go_Numbers
begin

text \<open>
  The diff engine of \<open>internal/fileedit/diff.go\<close>: line splitting, Myers' greedy algorithm with its trace and
  backtrack, hunk grouping and rendering. Go's ints are integers here (every value is bounded by the
  number of lines); a \<open>[]byte\<close> that may be nil is an option.
\<close>

section \<open>Data\<close>

record dline =
  line_text :: string
  hasEOL :: bool

datatype op_kind = Keep | Remove | Add

record op =
  kind :: op_kind
  aIdx :: int
  bIdx :: int

abbreviation keep_op :: "int \<Rightarrow> int \<Rightarrow> op" where "keep_op i j \<equiv> \<lparr>kind = Keep, aIdx = i, bIdx = j\<rparr>"
abbreviation remove_op :: "int \<Rightarrow> op" where "remove_op i \<equiv> \<lparr>kind = Remove, aIdx = i, bIdx = 0\<rparr>"
abbreviation add_op :: "int \<Rightarrow> op" where "add_op j \<equiv> \<lparr>kind = Add, aIdx = 0, bIdx = j\<rparr>"

record DiffResult =
  UnifiedDiff :: string
  Kind :: string
  Binary :: bool
  Truncated :: bool

definition maxDiffBytes :: nat where "maxDiffBytes = 262144"
definition binaryProbeLen :: nat where "binaryProbeLen = 8192"
definition diffContext :: nat where "diffContext = 3"

definition kindFor :: "bool \<Rightarrow> bool \<Rightarrow> string" where
  "kindFor beforeExisted afterExisted =
     (if \<not> beforeExisted \<and> afterExisted then ''create''
      else if beforeExisted \<and> \<not> afterExisted then ''delete'' else ''modify'')"

definition isBinary :: "string \<Rightarrow> bool" where
  "isBinary b \<longleftrightarrow> List.member (if binaryProbeLen < length b then take binaryProbeLen b else b) CHR 0x00"

text \<open>The loop of \<open>splitLines\<close>, with the bytes since \<open>start\<close> in \<open>cur\<close>.\<close>

fun split_loop :: "string \<Rightarrow> string \<Rightarrow> dline list" where
  "split_loop cur [] = (if cur = [] then [] else [\<lparr>line_text = cur, hasEOL = False\<rparr>])"
| "split_loop cur (c # cs) =
     (if c = CHR 0x0A then \<lparr>line_text = cur, hasEOL = True\<rparr> # split_loop [] cs else split_loop (cur @ [c]) cs)"

definition splitLines :: "string \<Rightarrow> dline list" where
  "splitLines c = split_loop [] c"

definition dlineEqual :: "dline \<Rightarrow> dline \<Rightarrow> bool" where
  "dlineEqual a b \<longleftrightarrow> line_text a = line_text b \<and> hasEOL a = hasEOL b"

section \<open>Myers' algorithm\<close>

definition line_at :: "dline list \<Rightarrow> int \<Rightarrow> dline" where
  "line_at a i = a ! nat i"

definition opsNaive :: "dline list \<Rightarrow> dline list \<Rightarrow> int \<Rightarrow> op list" where
  "opsNaive a b pre =
     map (\<lambda>i. remove_op (pre + int i)) [0..<length a] @ map (\<lambda>j. add_op (pre + int j)) [0..<length b]"

text \<open>The diagonal run from \<open>(x, y)\<close>: the \<open>x\<close> where it ends.\<close>

function snake :: "dline list \<Rightarrow> dline list \<Rightarrow> int \<Rightarrow> int \<Rightarrow> int" where
  "snake a b x y =
     (if x < int (length a) \<and> y < int (length b) \<and> dlineEqual (line_at a x) (line_at b y)
      then snake a b (x + 1) (y + 1) else x)"
  by pat_completeness auto
termination
  by (relation "measure (\<lambda>(a, b, x, y). nat (int (length a) - x))") auto

declare snake.simps [simp del]

definition go_down :: "int list \<Rightarrow> int \<Rightarrow> int \<Rightarrow> int \<Rightarrow> bool" where
  "go_down v offset d k \<longleftrightarrow> k = - d \<or> (k \<noteq> d \<and> v ! nat (offset + k - 1) < v ! nat (offset + k + 1))"

text \<open>One round: the loop over the diagonals \<open>k\<close>, updating \<open>v\<close> in place; \<open>True\<close> is \<open>break find\<close>.\<close>

function round_loop :: "dline list \<Rightarrow> dline list \<Rightarrow> int \<Rightarrow> int \<Rightarrow> int \<Rightarrow> int list \<Rightarrow> int list \<times> bool" where
  "round_loop a b offset d k v =
     (if k \<le> d then
        (let x0 = (if go_down v offset d k then v ! nat (offset + k + 1) else v ! nat (offset + k - 1) + 1);
             x = snake a b x0 (x0 - k);
             v' = v[nat (offset + k) := x]
         in if int (length a) \<le> x \<and> int (length b) \<le> x - k then (v', True)
            else round_loop a b offset d (k + 2) v')
      else (v, False))"
  by pat_completeness auto
termination
  by (relation "measure (\<lambda>(a, b, offset, d, k, v). nat (d - k + 1))") auto

declare round_loop.simps [simp del]

text \<open>The rounds, collecting a snapshot of \<open>v\<close> before each; \<open>None\<close> is the fallback once \<open>d\<close> exceeds the cap.\<close>

function find_loop :: "dline list \<Rightarrow> dline list \<Rightarrow> int \<Rightarrow> int \<Rightarrow> int \<Rightarrow> int list \<Rightarrow> int list list \<Rightarrow> int list list option" where
  "find_loop a b mx dCap d v trace =
     (if d \<le> mx then
        (if dCap < d then None
         else case round_loop a b mx d (- d) v of
           (v', True) \<Rightarrow> Some (trace @ [v])
         | (v', False) \<Rightarrow> find_loop a b mx dCap (d + 1) v' (trace @ [v]))
      else Some trace)"
  by pat_completeness auto
termination
  by (relation "measure (\<lambda>(a, b, mx, dCap, d, v, trace). nat (mx + 1 - d))") auto

declare find_loop.simps [simp del]

text \<open>The keep steps of one backtrack round, in the order they are appended.\<close>

function back_keeps :: "int \<Rightarrow> int \<Rightarrow> int \<Rightarrow> int \<Rightarrow> int \<Rightarrow> op list \<times> int \<times> int" where
  "back_keeps pre prevX prevY x y =
     (if prevX < x \<and> prevY < y then
        (let (ops, x', y') = back_keeps pre prevX prevY (x - 1) (y - 1)
         in (keep_op (x - 1 + pre) (y - 1 + pre) # ops, x', y'))
      else ([], x, y))"
  by pat_completeness auto
termination
  by (relation "measure (\<lambda>(pre, prevX, prevY, x, y). nat (x - prevX))") auto

declare back_keeps.simps [simp del]

text \<open>The backtrack from round \<open>d\<close> down to round 0, which adds nothing.\<close>

fun backtrack :: "int list list \<Rightarrow> int \<Rightarrow> int \<Rightarrow> nat \<Rightarrow> int \<Rightarrow> int \<Rightarrow> op list" where
  "backtrack trace offset pre 0 x y = []"
| "backtrack trace offset pre (Suc d) x y =
     (let vv = trace ! Suc d;
          k = x - y;
          prevK = (if go_down vv offset (int (Suc d)) k then k + 1 else k - 1);
          prevX = vv ! nat (offset + prevK);
          prevY = prevX - prevK;
          (keeps, x1, y1) = back_keeps pre prevX prevY x y
      in keeps @
         (if x1 = prevX \<and> y1 = prevY then backtrack trace offset pre d x1 y1
          else if prevX < x1 then remove_op (x1 - 1 + pre) # backtrack trace offset pre d (x1 - 1) y1
          else add_op (y1 - 1 + pre) # backtrack trace offset pre d x1 (y1 - 1)))"

definition opsMyers :: "dline list \<Rightarrow> dline list \<Rightarrow> int \<Rightarrow> op list" where
  "opsMyers a b pre =
     (let n = int (length a); m = int (length b)
      in if n = 0 \<and> m = 0 then []
         else if n = 0 then map (\<lambda>j. add_op (pre + int j)) [0..<length b]
         else if m = 0 then map (\<lambda>i. remove_op (pre + int i)) [0..<length a]
         else
           (let mx = n + m;
                cap = go_quot 33554432 (16 * mx + 8);
                dCap = (if cap < 16 then 16 else cap)
            in if 200000 < mx then opsNaive a b pre
               else case find_loop a b mx dCap 0 (replicate (nat (2 * mx + 1)) 0) [] of
                 None \<Rightarrow> opsNaive a b pre
               | Some trace \<Rightarrow> rev (backtrack trace mx pre (length trace - 1) n m)))"

text \<open>The lengths of the common prefix and, outside it, of the common suffix.\<close>

fun common_prefix :: "dline list \<Rightarrow> dline list \<Rightarrow> nat" where
  "common_prefix (x # a) (y # b) = (if dlineEqual x y then Suc (common_prefix a b) else 0)"
| "common_prefix _ _ = 0"

definition diffOps :: "dline list \<Rightarrow> dline list \<Rightarrow> op list" where
  "diffOps a b =
     (let n = length a; m = length b;
          p = common_prefix a b;
          s = common_prefix (rev (drop p a)) (rev (drop p b))
      in map (\<lambda>i. keep_op (int i) (int i)) [0..<p] @
         opsMyers (take (n - s - p) (drop p a)) (take (m - s - p) (drop p b)) (int p) @
         map (\<lambda>i. keep_op (int (n - s + i)) (int (m - s + i))) [0..<s])"

section \<open>Hunks\<close>

definition is_change :: "op \<Rightarrow> bool" where
  "is_change p \<longleftrightarrow> kind p \<noteq> Keep"

text \<open>The end of the keep run that starts at \<open>j\<close>.\<close>

function skip_keeps :: "op list \<Rightarrow> nat \<Rightarrow> nat" where
  "skip_keeps ops j = (if j < length ops \<and> kind (ops ! j) = Keep then skip_keeps ops (Suc j) else j)"
  by pat_completeness auto
termination
  by (relation "measure (\<lambda>(ops, j). length ops - j)") auto

declare skip_keeps.simps [simp del]

lemma skip_keeps_ge: "j \<le> skip_keeps ops j"
proof (induction ops j rule: skip_keeps.induct)
  case (1 ops j)
  then show ?case by (subst skip_keeps.simps) auto
qed

function extend_hunk :: "op list \<Rightarrow> nat \<Rightarrow> nat" where
  "extend_hunk ops to =
     (if to < length ops then
        (if kind (ops ! to) \<noteq> Keep then extend_hunk ops (Suc to)
         else (let j = skip_keeps ops to
               in if j < length ops \<and> j - to \<le> 2 * diffContext then extend_hunk ops (Suc j) else to))
      else to)"
  by pat_completeness auto
termination
proof (relation "measure (\<lambda>(ops, to). length ops - to)")
  fix ops :: "op list" and to j
  assume "to < length ops" "j = skip_keeps ops to"
  then show "((ops, Suc j), ops, to) \<in> measure (\<lambda>(ops, to). length ops - to)"
    using skip_keeps_ge [of to ops] by simp
qed auto

declare extend_hunk.simps [simp del]

lemma extend_hunk_ge: "to \<le> extend_hunk ops to"
proof (induction ops to rule: extend_hunk.induct)
  case (1 ops to)
  show ?case
    using 1 skip_keeps_ge [of to ops]
    by (subst extend_hunk.simps) (auto simp: Let_def intro: Suc_leD order_trans)
qed

function group_hunks :: "op list \<Rightarrow> nat \<Rightarrow> (nat \<times> nat) list" where
  "group_hunks ops i =
     (if i < length ops then
        (if kind (ops ! i) = Keep then group_hunks ops (Suc i)
         else (let to = extend_hunk ops (Suc i); end' = min (to + diffContext) (length ops)
               in (i - diffContext, end') # group_hunks ops end'))
      else [])"
  by pat_completeness auto
termination
proof (relation "measure (\<lambda>(ops, i). length ops - i)")
  fix ops :: "op list" and i to end'
  assume "i < length ops" "to = extend_hunk ops (Suc i)" "end' = min (to + diffContext) (length ops)"
  then show "((ops, end'), ops, i) \<in> measure (\<lambda>(ops, i). length ops - i)"
    using extend_hunk_ge [of "Suc i" ops] by auto
qed auto

declare group_hunks.simps [simp del]

definition hunkRange :: "int \<Rightarrow> int \<Rightarrow> string" where
  "hunkRange start cnt = (if cnt = 1 then fmt_d start else fmt_d start @ '','' @ fmt_d cnt)"

definition writeDline :: "dline \<Rightarrow> string" where
  "writeDline l = line_text l @ (if hasEOL l then [CHR 0x0A]
     else [CHR 0x0A, CHR 0x5C] @ '' No newline at end of file'' @ [CHR 0x0A])"

definition countA :: "op list \<Rightarrow> nat" where
  "countA ops = length (filter (\<lambda>p. kind p \<noteq> Add) ops)"

definition countB :: "op list \<Rightarrow> nat" where
  "countB ops = length (filter (\<lambda>p. kind p \<noteq> Remove) ops)"

text \<open>The first operation of a hunk fixes both starts; a hunk is never empty.\<close>

definition hunk_header :: "op list \<Rightarrow> string" where
  "hunk_header ops =
     (let startA = (case ops of [] \<Rightarrow> 0 | p # _ \<Rightarrow> aIdx p + 1); startB = (case ops of [] \<Rightarrow> 0 | p # _ \<Rightarrow> bIdx p + 1)
      in ''@@ -'' @ hunkRange startA (int (countA ops)) @ '' +'' @ hunkRange startB (int (countB ops)) @ '' @@'' @ [CHR 0x0A])"

definition write_op :: "dline list \<Rightarrow> dline list \<Rightarrow> op \<Rightarrow> string" where
  "write_op a b p =
     (case kind p of
        Keep \<Rightarrow> '' '' @ writeDline (line_at a (aIdx p))
      | Remove \<Rightarrow> ''-'' @ writeDline (line_at a (aIdx p))
      | Add \<Rightarrow> ''+'' @ writeDline (line_at b (bIdx p)))"

definition hunk_ops :: "op list \<Rightarrow> nat \<times> nat \<Rightarrow> op list" where
  "hunk_ops ops h = take (snd h - fst h) (drop (fst h) ops)"

definition writeHunks :: "dline list \<Rightarrow> dline list \<Rightarrow> string" where
  "writeHunks a b =
     (let ops = diffOps a b
      in concat (map (\<lambda>h. hunk_header (hunk_ops ops h) @ concat (map (write_op a b) (hunk_ops ops h))) (group_hunks ops 0)))"

text \<open>The line loop of \<open>writeWholeHunk\<close>, with the buffer it appends to.\<close>

fun write_whole_lines :: "char \<Rightarrow> string \<Rightarrow> dline list \<Rightarrow> string" where
  "write_whole_lines sign w [] = w"
| "write_whole_lines sign w (l # ls) =
     (let w' = w @ [sign] @ writeDline l
      in if maxDiffBytes + 1024 < length w' then w' else write_whole_lines sign w' ls)"

definition writeWholeHunk :: "string \<Rightarrow> char \<Rightarrow> dline list \<Rightarrow> string" where
  "writeWholeHunk w sign ls =
     write_whole_lines sign
       (w @ (if sign = CHR ''+'' then ''@@ -0,0 +1,'' @ fmt_d (int (length ls)) @ '' @@''
             else ''@@ -1,'' @ fmt_d (int (length ls)) @ '' +0,0 @@'') @ [CHR 0x0A]) ls"

definition no_diff :: DiffResult where
  "no_diff = \<lparr>UnifiedDiff = [], Kind = [], Binary = False, Truncated = False\<rparr>"

definition diff_header :: "string option \<Rightarrow> string option \<Rightarrow> string \<Rightarrow> string" where
  "diff_header old new path =
     (if old = None then ''--- /dev/null'' @ [CHR 0x0A] @ ''+++ b/'' @ path @ [CHR 0x0A]
      else if new = None then ''--- a/'' @ path @ [CHR 0x0A] @ ''+++ /dev/null'' @ [CHR 0x0A]
      else ''--- a/'' @ path @ [CHR 0x0A] @ ''+++ b/'' @ path @ [CHR 0x0A])"

definition diff_text :: "string option \<Rightarrow> string option \<Rightarrow> string \<Rightarrow> string" where
  "diff_text old new path =
     (let header = diff_header old new path
      in case (old, new) of
           (Some x, Some y) \<Rightarrow> header @ writeHunks (splitLines x) (splitLines y)
         | (None, Some y) \<Rightarrow> writeWholeHunk header CHR ''+'' (splitLines y)
         | (Some x, None) \<Rightarrow> writeWholeHunk header CHR ''-'' (splitLines x)
         | (None, None) \<Rightarrow> writeWholeHunk header CHR ''+'' [])"

definition content :: "string option \<Rightarrow> string" where
  "content x = (case x of Some s \<Rightarrow> s | None \<Rightarrow> [])"

definition ComputeUnifiedDiff :: "string option \<Rightarrow> string option \<Rightarrow> string \<Rightarrow> DiffResult" where
  "ComputeUnifiedDiff old new path =
     (if old = None \<and> new = None then no_diff
      else if old \<noteq> None \<and> new \<noteq> None \<and> old = new then no_diff
      else
        (let kind = kindFor (old \<noteq> None) (new \<noteq> None)
         in if isBinary (content old) \<or> isBinary (content new)
            then \<lparr>UnifiedDiff = [], Kind = kind, Binary = True, Truncated = False\<rparr>
            else
              (let out = diff_text old new path;
                   truncated = maxDiffBytes < length out;
                   out = (if truncated then take maxDiffBytes out else out)
               in if out = [] \<and> \<not> truncated then no_diff
                  else \<lparr>UnifiedDiff = out, Kind = kind, Binary = False, Truncated = truncated\<rparr>)))"

definition ReconcileDiff :: "string option \<Rightarrow> string option \<Rightarrow> string \<Rightarrow> DiffResult" where
  "ReconcileDiff old new path = ComputeUnifiedDiff old new path"

end
