(* ===== verification/Diff_Correct.thy ===== *)
theory Diff_Correct
  imports File_Diff
begin

text \<open>
  Correctness of the diff engine. The rounds of Myers' algorithm are related to a recursive definition of
  the furthest reaching point on each diagonal; from it follow that the search ends at the corner
  and not beyond it, that the backtrack is a path of the edit graph, and that the edit script turns
  one file into the other.
\<close>

section \<open>Furthest reaching points\<close>

lemma dlineEqual_iff: "dlineEqual a b \<longleftrightarrow> a = b"
  by (cases a; cases b) (auto simp: dlineEqual_def)

lemma snake_ge: "x \<le> snake a b x y"
proof (induction a b x y rule: snake.induct)
  case (1 a b x y)
  then show ?case by (subst snake.simps) auto
qed

lemma snake_run:
  assumes "x \<le> i" "i < snake a b x y"
  shows "i < int (length a) \<and> i - x + y < int (length b) \<and> line_at a i = line_at b (i - x + y)"
  using assms
proof (induction a b x y rule: snake.induct)
  case (1 a b x y)
  let ?c = "x < int (length a) \<and> y < int (length b) \<and> dlineEqual (line_at a x) (line_at b y)"
  have c: ?c
  proof (rule ccontr)
    assume "\<not> ?c"
    then have "snake a b x y = x" by (subst snake.simps) (simp only: if_False)
    then show False using 1(2,3) by simp
  qed
  then have s: "snake a b x y = snake a b (x + 1) (y + 1)" by (subst snake.simps) simp
  show ?case
  proof (cases "i = x")
    case True
    then show ?thesis using c by (simp add: dlineEqual_iff)
  next
    case False
    then have "x + 1 \<le> i" "i < snake a b (x + 1) (y + 1)" using 1(2,3) s by simp_all
    from 1(1) [OF c this] show ?thesis by (simp add: algebra_simps)
  qed
qed

lemma snake_bound:
  assumes "x < snake a b x y"
  shows "snake a b x y \<le> int (length a)" and "snake a b x y - x + y \<le> int (length b)"
  using snake_run [of x "snake a b x y - 1" a b y] assms by auto

definition diagonals :: "nat \<Rightarrow> int set" where
  "diagonals d = {k. - int d \<le> k \<and> k \<le> int d \<and> even (k + int d)}"

text \<open>The step onto diagonal \<open>k\<close> in round \<open>d\<close>, from the points \<open>f\<close> of the round before.\<close>

definition steps_down :: "(int \<Rightarrow> int) \<Rightarrow> int \<Rightarrow> int \<Rightarrow> bool" where
  "steps_down f d k \<longleftrightarrow> k = - d \<or> (k \<noteq> d \<and> f (k - 1) < f (k + 1))"

definition step_x :: "(int \<Rightarrow> int) \<Rightarrow> int \<Rightarrow> int \<Rightarrow> int" where
  "step_x f d k = (if steps_down f d k then f (k + 1) else f (k - 1) + 1)"

fun furthest :: "dline list \<Rightarrow> dline list \<Rightarrow> nat \<Rightarrow> int \<Rightarrow> int" where
  "furthest a b 0 k = snake a b 0 0"
| "furthest a b (Suc d) k = (let x = step_x (furthest a b d) (int (Suc d)) k in snake a b x (x - k))"

declare furthest.simps(2) [simp del]

lemma diagonals_0 [simp]: "diagonals 0 = {0}"
  by (auto simp: diagonals_def)

lemma diagonals_down: "k \<in> diagonals (Suc d) \<Longrightarrow> steps_down f (int (Suc d)) k \<Longrightarrow> k + 1 \<in> diagonals d"
  by (auto simp: diagonals_def steps_down_def) presburger+

lemma diagonals_right: "k \<in> diagonals (Suc d) \<Longrightarrow> \<not> steps_down f (int (Suc d)) k \<Longrightarrow> k - 1 \<in> diagonals d"
  by (auto simp: diagonals_def steps_down_def) presburger+

lemma diagonals_up: "k \<in> diagonals d \<Longrightarrow> k + 1 \<in> diagonals (Suc d) \<and> k - 1 \<in> diagonals (Suc d)"
  by (auto simp: diagonals_def)

lemma step_x_right: "k \<in> diagonals d \<Longrightarrow> f k + 1 \<le> step_x f (int (Suc d)) (k + 1)"
  by (auto simp: step_x_def steps_down_def diagonals_def)

lemma step_x_down: "k \<in> diagonals d \<Longrightarrow> f k \<le> step_x f (int (Suc d)) (k - 1)"
  by (auto simp: step_x_def steps_down_def diagonals_def)

lemma furthest_ge_step: "step_x (furthest a b d) (int (Suc d)) k \<le> furthest a b (Suc d) k"
  by (simp add: furthest.simps(2) Let_def snake_ge)

lemma furthest_right: "k \<in> diagonals d \<Longrightarrow> furthest a b d k + 1 \<le> furthest a b (Suc d) (k + 1)"
  using step_x_right [of k d "furthest a b d"] furthest_ge_step [of a b d "k + 1"] by linarith

lemma furthest_down: "k \<in> diagonals d \<Longrightarrow> furthest a b d k \<le> furthest a b (Suc d) (k - 1)"
  using step_x_down [of k d "furthest a b d"] furthest_ge_step [of a b d "k - 1"] by linarith

lemma furthest_pos: "k \<in> diagonals d \<Longrightarrow> 0 \<le> furthest a b d k \<and> k \<le> furthest a b d k \<and> int d \<le> 2 * furthest a b d k - k"
proof (induction d arbitrary: k)
  case 0
  then show ?case using snake_ge [of 0 a b 0] by simp
next
  case (Suc d)
  show ?case
  proof (cases "steps_down (furthest a b d) (int (Suc d)) k")
    case True
    then show ?thesis
      using Suc.IH [OF diagonals_down [OF Suc.prems True]] furthest_ge_step [of a b d k] by (simp add: step_x_def)
  next
    case False
    then show ?thesis
      using Suc.IH [OF diagonals_right [OF Suc.prems False]] furthest_ge_step [of a b d k] by (simp add: step_x_def)
  qed
qed

text \<open>A point beyond an edge has no run behind it: it is the step itself.\<close>

lemma furthest_beyond:
  assumes "int (length a) < furthest a b (Suc d) k \<or> int (length b) < furthest a b (Suc d) k - k"
  shows "furthest a b (Suc d) k = step_x (furthest a b d) (int (Suc d)) k"
proof (rule ccontr)
  let ?x = "step_x (furthest a b d) (int (Suc d)) k"
  assume "furthest a b (Suc d) k \<noteq> ?x"
  then have "?x < snake a b ?x (?x - k)" using furthest_ge_step [of a b d k] by (simp add: furthest.simps(2) Let_def)
  from snake_bound [OF this] show False using assms by (simp add: furthest.simps(2) Let_def)
qed

lemma beyond_b:
  assumes "k \<in> diagonals (Suc d)" and "int (length b) < furthest a b (Suc d) k - k"
  shows "k + 1 \<in> diagonals d \<and> furthest a b (Suc d) k \<le> furthest a b d (k + 1)"
  using assms
proof (induction d arbitrary: k)
  case 0
  have F0: "furthest a b 0 k' \<le> int (length b)" for k'
    using snake_bound(2) [of 0 a b 0] snake_ge [of 0 a b 0] by (cases "0 < snake a b 0 0") auto
  have step: "furthest a b (Suc 0) k = step_x (furthest a b 0) 1 k"
    using furthest_beyond [of a b 0 k] 0(2) by simp
  have "steps_down (furthest a b 0) 1 k"
  proof (rule ccontr)
    assume "\<not> steps_down (furthest a b 0) 1 k"
    then have "k = 1" "step_x (furthest a b 0) 1 k = furthest a b 0 0 + 1"
      using diagonals_right [OF 0(1)] by (auto simp: step_x_def)
    then show False using F0 [of 0] 0(2) step by simp
  qed
  then show ?case using diagonals_down [OF 0(1)] step by (simp add: step_x_def)
next
  case (Suc d)
  let ?f = "furthest a b (Suc d)" and ?d = "int (Suc (Suc d))"
  have step: "furthest a b (Suc (Suc d)) k = step_x ?f ?d k"
    by (rule furthest_beyond) (use Suc.prems(2) in simp)
  show ?case
  proof (cases "steps_down ?f ?d k")
    case True
    then show ?thesis using diagonals_down [OF Suc.prems(1) True] step by (simp add: step_x_def)
  next
    case False
    then have k: "k - 1 \<in> diagonals (Suc d)" and x: "furthest a b (Suc (Suc d)) k = ?f (k - 1) + 1"
      using diagonals_right [OF Suc.prems(1) False] step by (simp_all add: step_x_def)
    then have "k \<in> diagonals d \<and> ?f (k - 1) \<le> furthest a b d k"
      using Suc.IH [OF k] Suc.prems(2) by simp
    then show ?thesis using furthest_right [of k d a b] diagonals_up [of k d] x by auto
  qed
qed

lemma beyond_a:
  assumes "k \<in> diagonals (Suc d)" and "int (length a) < furthest a b (Suc d) k"
  shows "k - 1 \<in> diagonals d \<and> furthest a b (Suc d) k - 1 \<le> furthest a b d (k - 1)"
  using assms
proof (induction d arbitrary: k)
  case 0
  have F0: "furthest a b 0 k' \<le> int (length a)" for k'
    using snake_bound(1) [of 0 a b 0] snake_ge [of 0 a b 0] by (cases "0 < snake a b 0 0") auto
  have step: "furthest a b (Suc 0) k = step_x (furthest a b 0) 1 k"
    using furthest_beyond [of a b 0 k] 0(2) by simp
  have "\<not> steps_down (furthest a b 0) 1 k"
    using F0 [of "k + 1"] 0(2) step by (auto simp: step_x_def)
  then show ?case using diagonals_right [OF 0(1)] step by (simp add: step_x_def)
next
  case (Suc d)
  let ?f = "furthest a b (Suc d)" and ?d = "int (Suc (Suc d))"
  have step: "furthest a b (Suc (Suc d)) k = step_x ?f ?d k"
    by (rule furthest_beyond) (use Suc.prems(2) in simp)
  show ?case
  proof (cases "steps_down ?f ?d k")
    case False
    then show ?thesis using diagonals_right [OF Suc.prems(1) False] step by (simp add: step_x_def)
  next
    case True
    then have k: "k + 1 \<in> diagonals (Suc d)" and x: "furthest a b (Suc (Suc d)) k = ?f (k + 1)"
      using diagonals_down [OF Suc.prems(1) True] step by (simp_all add: step_x_def)
    then have "k \<in> diagonals d \<and> ?f (k + 1) - 1 \<le> furthest a b d k"
      using Suc.IH [OF k] Suc.prems(2) by simp
    then show ?thesis using furthest_down [of k d a b] diagonals_up [of k d] x by auto
  qed
qed

definition arrived :: "dline list \<Rightarrow> dline list \<Rightarrow> nat \<Rightarrow> int \<Rightarrow> bool" where
  "arrived a b d k \<longleftrightarrow> int (length a) \<le> furthest a b d k \<and> int (length b) \<le> furthest a b d k - k"

text \<open>The first arrival is at the corner: no path leaves the graph and comes back as a shortest one.\<close>

lemma arrived_corner:
  assumes "k \<in> diagonals d" and "arrived a b d k" and first: "\<forall>d' < d. \<forall>k' \<in> diagonals d'. \<not> arrived a b d' k'"
  shows "furthest a b d k = int (length a) \<and> k = int (length a) - int (length b)"
proof (cases d)
  case 0
  have "furthest a b 0 k \<le> int (length a)" "furthest a b 0 k \<le> int (length b)"
    using snake_bound [of 0 a b 0] snake_ge [of 0 a b 0] by (cases "0 < snake a b 0 0"; simp)+
  then show ?thesis using assms(1,2) 0 by (simp add: arrived_def)
next
  case (Suc e)
  have "\<not> int (length b) < furthest a b d k - k"
  proof
    assume over: "int (length b) < furthest a b d k - k"
    then have "k + 1 \<in> diagonals e \<and> furthest a b d k \<le> furthest a b e (k + 1)"
      using beyond_b [of k e b a] assms(1) Suc by simp
    then show False using first assms(2) over Suc by (fastforce simp: arrived_def)
  qed
  moreover have "\<not> int (length a) < furthest a b d k"
  proof
    assume over: "int (length a) < furthest a b d k"
    then have "k - 1 \<in> diagonals e \<and> furthest a b d k - 1 \<le> furthest a b e (k - 1)"
      using beyond_a [of k e a b] assms(1) Suc by simp
    then show False using first assms(2) over Suc by (fastforce simp: arrived_def)
  qed
  ultimately show ?thesis using assms(2) by (simp add: arrived_def)
qed

lemma arrival_exists:
  "int (length a) - int (length b) \<in> diagonals (length a + length b)
   \<and> arrived a b (length a + length b) (int (length a) - int (length b))"
proof -
  let ?k = "int (length a) - int (length b)" and ?d = "length a + length b"
  have k: "?k \<in> diagonals ?d" by (auto simp: diagonals_def)
  then show ?thesis using furthest_pos [OF k, of a b] by (simp add: arrived_def)
qed

section \<open>The rounds compute them\<close>

definition reads :: "int list \<Rightarrow> int \<Rightarrow> int \<Rightarrow> int" where
  "reads v offset k = v ! nat (offset + k)"

definition holds_round :: "dline list \<Rightarrow> dline list \<Rightarrow> int \<Rightarrow> nat \<Rightarrow> int list \<Rightarrow> bool" where
  "holds_round a b mx d v \<longleftrightarrow> length v = nat (2 * mx + 1) \<and> (\<forall>k \<in> diagonals d. reads v mx k = furthest a b d k)"

text \<open>What \<open>v\<close> holds while round \<open>d\<close> is at diagonal \<open>k\<close>: this round's points below \<open>k\<close>, the last round's points.\<close>

definition mid_round :: "dline list \<Rightarrow> dline list \<Rightarrow> int \<Rightarrow> nat \<Rightarrow> int \<Rightarrow> int list \<Rightarrow> bool" where
  "mid_round a b mx d k v \<longleftrightarrow> length v = nat (2 * mx + 1)
     \<and> (\<forall>j \<in> diagonals d. j < k \<longrightarrow> reads v mx j = furthest a b d j \<and> \<not> arrived a b d j)
     \<and> (case d of 0 \<Rightarrow> reads v mx 1 = 0 | Suc e \<Rightarrow> \<forall>j \<in> diagonals e. reads v mx j = furthest a b e j)"

lemma go_down_reads: "go_down v mx d k \<longleftrightarrow> steps_down (reads v mx) d k"
  by (simp add: go_down_def steps_down_def reads_def algebra_simps)

lemma step_x_cong:
  assumes "k \<in> diagonals (Suc d)" and "\<forall>j \<in> diagonals d. f j = g j"
  shows "step_x f (int (Suc d)) k = step_x g (int (Suc d)) k
    \<and> steps_down f (int (Suc d)) k = steps_down g (int (Suc d)) k"
proof -
  have "k \<noteq> - int (Suc d) \<Longrightarrow> k - 1 \<in> diagonals d" "k \<noteq> int (Suc d) \<Longrightarrow> k + 1 \<in> diagonals d"
    using assms(1) by (auto simp: diagonals_def) presburger+
  then have "k \<noteq> - int (Suc d) \<Longrightarrow> f (k - 1) = g (k - 1)" "k \<noteq> int (Suc d) \<Longrightarrow> f (k + 1) = g (k + 1)"
    using assms(2) by blast+
  then show ?thesis unfolding step_x_def steps_down_def by auto
qed

lemma mid_round_step:
  assumes "mid_round a b mx d k v" and "k \<in> diagonals d"
  shows "(let x0 = (if go_down v mx (int d) k then v ! nat (mx + k + 1) else v ! nat (mx + k - 1) + 1)
          in snake a b x0 (x0 - k)) = furthest a b d k"
proof (cases d)
  case 0
  then have "go_down v mx (int d) k" "v ! nat (mx + k + 1) = 0"
    using assms by (simp_all add: go_down_def mid_round_def reads_def)
  then show ?thesis using 0 assms(2) by simp
next
  case (Suc e)
  have "(if go_down v mx (int d) k then v ! nat (mx + k + 1) else v ! nat (mx + k - 1) + 1) = step_x (reads v mx) (int d) k"
    by (simp add: step_x_def go_down_reads reads_def algebra_simps)
  also have "\<dots> = step_x (furthest a b e) (int d) k"
    using step_x_cong [of k e "reads v mx" "furthest a b e"] assms Suc by (simp add: mid_round_def)
  finally show ?thesis using Suc by (simp add: furthest.simps(2) Let_def)
qed

lemma mid_round_update:
  assumes "mid_round a b mx d k v" and "k \<in> diagonals d" and "int d \<le> mx" and "\<not> arrived a b d k"
  shows "mid_round a b mx d (k + 2) (v[nat (mx + k) := furthest a b d k])"
proof -
  let ?v = "v[nat (mx + k) := furthest a b d k]"
  have k: "- int d \<le> k" "k \<le> int d" "even (k + int d)" using assms(2) by (auto simp: diagonals_def)
  have len: "length v = nat (2 * mx + 1)" using assms(1) by (simp add: mid_round_def)
  have at_k: "reads ?v mx k = furthest a b d k" unfolding reads_def using k assms(3) len by simp
  have other: "reads ?v mx j = reads v mx j" if "j \<noteq> k" "- mx \<le> j" for j
  proof -
    have "nat (mx + k) \<noteq> nat (mx + j)" using that k assms(3) by auto
    then show ?thesis by (simp add: reads_def)
  qed
  have this_round: "reads ?v mx j = furthest a b d j \<and> \<not> arrived a b d j"
    if j: "j \<in> diagonals d" "j < k + 2" for j
  proof (cases "j = k")
    case True
    then show ?thesis using at_k assms(4) by simp
  next
    case False
    have "j \<noteq> k + 1" using j(1) k by (auto simp: diagonals_def)
    then have "j < k" "- mx \<le> j" using j False assms(3) by (auto simp: diagonals_def)
    then show ?thesis using assms(1) j(1) other False by (auto simp: mid_round_def)
  qed
  have "case d of 0 \<Rightarrow> reads ?v mx 1 = 0 | Suc e \<Rightarrow> \<forall>j \<in> diagonals e. reads ?v mx j = furthest a b e j"
  proof (cases d)
    case 0
    then show ?thesis using assms(1,3) k other [of 1] by (simp add: mid_round_def)
  next
    case (Suc e)
    have "j \<noteq> k \<and> - mx \<le> j" if "j \<in> diagonals e" for j
      using that k assms(3) Suc by (auto simp: diagonals_def)
    then show ?thesis using assms(1) Suc other by (simp add: mid_round_def)
  qed
  then show ?thesis using len this_round by (simp add: mid_round_def)
qed

lemma round_loop_correct:
  assumes "mid_round a b mx d k v" and "int d \<le> mx" and "- int d \<le> k" and "even (k + int d)"
  shows "case round_loop a b mx (int d) k v of
      (v', True) \<Rightarrow> (\<exists>j \<in> diagonals d. arrived a b d j)
    | (v', False) \<Rightarrow> holds_round a b mx d v' \<and> (\<forall>j \<in> diagonals d. \<not> arrived a b d j)"
  using assms
proof (induction "nat (int d + 2 - k)" arbitrary: k v rule: less_induct)
  case less
  show ?case
  proof (cases "k \<le> int d")
    case False
    then have "round_loop a b mx (int d) k v = (v, False)" by (subst round_loop.simps) simp
    moreover have "\<forall>j \<in> diagonals d. j < k" using False by (auto simp: diagonals_def)
    ultimately show ?thesis using less.prems(1) by (auto simp: mid_round_def holds_round_def)
  next
    case True
    then have k: "k \<in> diagonals d" using less.prems by (simp add: diagonals_def)
    have step: "round_loop a b mx (int d) k v =
      (if arrived a b d k then (v[nat (mx + k) := furthest a b d k], True)
       else round_loop a b mx (int d) (k + 2) (v[nat (mx + k) := furthest a b d k]))"
      using True mid_round_step [OF less.prems(1) k]
      by (subst round_loop.simps) (simp add: Let_def arrived_def)
    show ?thesis
    proof (cases "arrived a b d k")
      case True
      then show ?thesis using step k by auto
    next
      case False
      have "nat (int d + 2 - (k + 2)) < nat (int d + 2 - k)" "- int d \<le> k + 2" "even (k + 2 + int d)"
        using \<open>k \<le> int d\<close> less.prems(3,4) by auto
      then show ?thesis
        using less.hyps [OF _ mid_round_update [OF less.prems(1) k less.prems(2) False] less.prems(2)] step False
        by simp
    qed
  qed
qed

definition trace_ok :: "dline list \<Rightarrow> dline list \<Rightarrow> int \<Rightarrow> int list list \<Rightarrow> bool" where
  "trace_ok a b mx tr \<longleftrightarrow> (\<forall>i. Suc i < length tr \<longrightarrow> holds_round a b mx i (tr ! Suc i))"

lemma find_loop_correct:
  assumes "mx = int (length a + length b)" and "length tr = d" and "trace_ok a b mx (tr @ [v])"
    and "d = 0 \<longrightarrow> v = replicate (nat (2 * mx + 1)) 0"
    and "\<forall>d' < d. \<forall>k' \<in> diagonals d'. \<not> arrived a b d' k'"
    and "find_loop a b mx dCap (int d) v tr = Some tr'" and "0 < mx"
  shows "\<exists>D k. length tr' = Suc D \<and> trace_ok a b mx tr' \<and> k \<in> diagonals D \<and> arrived a b D k
    \<and> (\<forall>d' < D. \<forall>k' \<in> diagonals d'. \<not> arrived a b d' k')"
  using assms(2-6)
proof (induction "length a + length b + 1 - d" arbitrary: d v tr rule: less_induct)
  case less
  have le: "d \<le> length a + length b"
    using arrival_exists [of a b] less.prems(4) by (meson not_le_imp_less)
  have start: "mid_round a b mx d (- int d) v"
  proof -
    have "length v = nat (2 * mx + 1)"
    proof (cases d)
      case (Suc e)
      then have "holds_round a b mx e v"
        using less.prems(1,2) nth_append_length [of tr v "[]"] by (auto simp: trace_ok_def)
      then show ?thesis by (simp add: holds_round_def)
    qed (use less.prems(3) in simp)
    moreover have "case d of 0 \<Rightarrow> reads v mx 1 = 0 | Suc e \<Rightarrow> \<forall>j \<in> diagonals e. reads v mx j = furthest a b e j"
    proof (cases d)
      case 0
      then show ?thesis using less.prems(3) assms(7) by (simp add: reads_def)
    next
      case (Suc e)
      then have "holds_round a b mx e v"
        using less.prems(1,2) nth_append_length [of tr v "[]"] by (auto simp: trace_ok_def)
      then show ?thesis using Suc by (simp add: holds_round_def)
    qed
    ultimately show ?thesis by (auto simp: mid_round_def diagonals_def)
  qed
  have dmx: "int d \<le> mx" using le assms(1) by simp
  obtain v' fin where r: "round_loop a b mx (int d) (- int d) v = (v', fin)" by (cases "round_loop a b mx (int d) (- int d) v")
  note round = round_loop_correct [OF start dmx]
  have unfold: "find_loop a b mx dCap (int d) v tr =
      (if dCap < int d then None else if fin then Some (tr @ [v]) else find_loop a b mx dCap (int (Suc d)) v' (tr @ [v]))"
    using dmx by (subst find_loop.simps) (simp add: r add.commute split: bool.splits)
  show ?case
  proof (cases fin)
    case True
    then have "tr' = tr @ [v]" using less.prems(5) unfold by (simp split: if_splits)
    moreover have "\<exists>j \<in> diagonals d. arrived a b d j" using round r True by simp
    ultimately show ?thesis using less.prems(1,2,4) by auto
  next
    case False
    then have v': "holds_round a b mx d v'" "\<forall>j \<in> diagonals d. \<not> arrived a b d j" using round r by simp_all
    have tr: "trace_ok a b mx ((tr @ [v]) @ [v'])"
      using less.prems(1,2) v'(1) by (auto simp: trace_ok_def nth_append less_Suc_eq)
    have rec: "find_loop a b mx dCap (int (Suc d)) v' (tr @ [v]) = Some tr'"
      using less.prems(5) unfold False by (simp split: if_splits)
    show ?thesis
      by (rule less.hyps [OF _ _ tr _ _ rec]) (use le less.prems(1,4) v'(2) in \<open>auto simp: less_Suc_eq\<close>)
  qed
qed

section \<open>Edit scripts\<close>

text \<open>A script is a path of the edit graph from \<open>(x, y)\<close> to \<open>(x', y')\<close>; its indices are shifted by \<open>p\<close>.\<close>

fun script :: "dline list \<Rightarrow> dline list \<Rightarrow> int \<Rightarrow> op list \<Rightarrow> int \<Rightarrow> int \<Rightarrow> int \<Rightarrow> int \<Rightarrow> bool" where
  "script a b p [] x y x' y' \<longleftrightarrow> x = x' \<and> y = y'"
| "script a b p (q # ops) x y x' y' \<longleftrightarrow>
     (case kind q of
        Keep \<Rightarrow> aIdx q = x + p \<and> bIdx q = y + p \<and> 0 \<le> x \<and> x < int (length a) \<and> 0 \<le> y \<and> y < int (length b)
          \<and> line_at a x = line_at b y \<and> script a b p ops (x + 1) (y + 1) x' y'
      | Remove \<Rightarrow> aIdx q = x + p \<and> 0 \<le> x \<and> x < int (length a) \<and> script a b p ops (x + 1) y x' y'
      | Add \<Rightarrow> bIdx q = y + p \<and> 0 \<le> y \<and> y < int (length b) \<and> script a b p ops x (y + 1) x' y')"

lemma script_append:
  "script a b p us x y x1 y1 \<Longrightarrow> script a b p vs x1 y1 x' y' \<Longrightarrow> script a b p (us @ vs) x y x' y'"
  by (induction us arbitrary: x y) (auto split: op_kind.splits)

lemma script_snoc:
  assumes "script a b p us x y x1 y1" and "script a b p [q] x1 y1 x' y'"
  shows "script a b p (us @ [q]) x y x' y'"
  using script_append assms .

lemma back_keeps_script:
  assumes "prevX \<le> x0" "prevY \<le> y0" "x0 = prevX \<or> y0 = prevY" "0 \<le> x0" "0 \<le> y0" "x0 \<le> x" "y = y0 + (x - x0)"
    and "\<And>i. x0 \<le> i \<Longrightarrow> i < x \<Longrightarrow> i < int (length a) \<and> i - x0 + y0 < int (length b) \<and> line_at a i = line_at b (i - x0 + y0)"
  shows "\<exists>ks. back_keeps p prevX prevY x y = (ks, x0, y0) \<and> script a b p (rev ks) x0 y0 x y"
  using assms(6-8)
proof (induction "nat (x - x0)" arbitrary: x y)
  case 0
  then have "x = x0" "y = y0" by simp_all
  then have "back_keeps p prevX prevY x y = ([], x0, y0)"
    using assms(3) by (subst back_keeps.simps) auto
  then show ?case using \<open>x = x0\<close> \<open>y = y0\<close> by simp
next
  case (Suc j)
  then have x: "x0 < x" by simp
  then have "\<exists>ks. back_keeps p prevX prevY (x - 1) (y - 1) = (ks, x0, y0) \<and> script a b p (rev ks) x0 y0 (x - 1) (y - 1)"
    using Suc.hyps(2) Suc.prems by (intro Suc.hyps(1)) auto
  then obtain ks where ks: "back_keeps p prevX prevY (x - 1) (y - 1) = (ks, x0, y0)"
      "script a b p (rev ks) x0 y0 (x - 1) (y - 1)" by blast
  have "back_keeps p prevX prevY x y = (keep_op (x - 1 + p) (y - 1 + p) # ks, x0, y0)"
    using x Suc.prems(2) assms(1,2) ks(1) by (subst back_keeps.simps) simp
  moreover have "script a b p [keep_op (x - 1 + p) (y - 1 + p)] (x - 1) (y - 1) x y"
  proof -
    have y: "x - 1 - x0 + y0 = y - 1" "0 \<le> y - 1" using Suc.prems(2) x assms(5) by simp_all
    show ?thesis using Suc.prems(3) [of "x - 1", unfolded y(1)] x y(2) assms(4) by simp
  qed
  ultimately show ?case using script_snoc [OF ks(2)] by simp
qed

declare backtrack.simps(2) [simp del]

lemma backtrack_Suc:
  assumes "x - y = k" and "go_down (tr ! Suc d) mx (int (Suc d)) k = down" and "(if down then k + 1 else k - 1) = pk"
    and "tr ! Suc d ! nat (mx + pk) = px" and "back_keeps p px (px - pk) x y = (ks, x1, y1)"
  shows "backtrack tr mx p (Suc d) x y = ks @
    (if x1 = px \<and> y1 = px - pk then backtrack tr mx p d x1 y1
     else if px < x1 then remove_op (x1 - 1 + p) # backtrack tr mx p d (x1 - 1) y1
     else add_op (y1 - 1 + p) # backtrack tr mx p d x1 (y1 - 1))"
  unfolding backtrack.simps Let_def assms(1-4) by (simp add: assms(5))

lemma backtrack_script:
  assumes tr: "trace_ok a b mx tr" and origin: "furthest a b 0 0 = 0"
  shows "k \<in> diagonals d \<Longrightarrow> d < length tr \<Longrightarrow> furthest a b d k \<le> int (length a) \<Longrightarrow> furthest a b d k - k \<le> int (length b)
    \<Longrightarrow> script a b p (rev (backtrack tr mx p d (furthest a b d k) (furthest a b d k - k))) 0 0 (furthest a b d k) (furthest a b d k - k)"
proof (induction d arbitrary: k)
  case 0
  then show ?case using origin by simp
next
  case (Suc d)
  let ?x = "furthest a b (Suc d) k" and ?f = "furthest a b d" and ?vv = "tr ! Suc d"
  define down where "down = steps_down ?f (int (Suc d)) k"
  define pk where "pk = (if down then k + 1 else k - 1)"
  define x0 where "x0 = step_x ?f (int (Suc d)) k"
  have pk: "pk \<in> diagonals d" using diagonals_down [OF Suc.prems(1)] diagonals_right [OF Suc.prems(1)]
    by (auto simp: pk_def down_def)
  have x0: "x0 = (if down then ?f pk else ?f pk + 1)" by (simp add: x0_def step_x_def pk_def down_def)
  have x: "?x = snake a b x0 (x0 - k)" by (simp add: furthest.simps(2) Let_def x0_def)
  have holds: "\<forall>j \<in> diagonals d. reads ?vv mx j = ?f j"
    using tr Suc.prems(2) by (simp add: trace_ok_def holds_round_def)
  have gd: "go_down ?vv mx (int (Suc d)) k = down"
    using step_x_cong [OF Suc.prems(1) holds] by (simp add: go_down_reads down_def)
  have prevX: "?vv ! nat (mx + pk) = ?f pk" using holds pk by (simp add: reads_def)
  have pos: "0 \<le> ?f pk" "pk \<le> ?f pk" using furthest_pos [OF pk] by simp_all
  have le: "x0 \<le> ?x" using x snake_ge by simp
  obtain ks where ks: "back_keeps p (?f pk) (?f pk - pk) ?x (?x - k) = (ks, x0, x0 - k)"
      "script a b p (rev ks) x0 (x0 - k) ?x (?x - k)"
  proof -
    have run: "i < int (length a) \<and> i - x0 + (x0 - k) < int (length b) \<and> line_at a i = line_at b (i - x0 + (x0 - k))"
      if "x0 \<le> i" "i < ?x" for i using snake_run [of x0 i a b "x0 - k"] that x by simp
    have "\<exists>ks. back_keeps p (?f pk) (?f pk - pk) ?x (?x - k) = (ks, x0, x0 - k) \<and> script a b p (rev ks) x0 (x0 - k) ?x (?x - k)"
      by (rule back_keeps_script) (use pos x0 le run in \<open>auto simp: pk_def split: if_splits\<close>)
    then show ?thesis using that by blast
  qed
  have bt: "backtrack tr mx p (Suc d) ?x (?x - k) =
      ks @ (if down then add_op (?f pk - pk + p) # backtrack tr mx p d (?f pk) (?f pk - pk)
            else remove_op (?f pk + p) # backtrack tr mx p d (?f pk) (?f pk - pk))"
  proof -
    have unfold: "backtrack tr mx p (Suc d) ?x (?x - k) = ks @
      (if x0 = ?f pk \<and> x0 - k = ?f pk - pk then backtrack tr mx p d x0 (x0 - k)
       else if ?f pk < x0 then remove_op (x0 - 1 + p) # backtrack tr mx p d (x0 - 1) (x0 - k)
       else add_op (x0 - k - 1 + p) # backtrack tr mx p d x0 (x0 - k - 1))"
      by (rule backtrack_Suc [OF _ gd _ prevX ks(1)]) (simp_all add: pk_def)
    show ?thesis
    proof (cases down)
      case True
      then have e: "x0 = ?f pk" "x0 - k - 1 = ?f pk - pk" and ne: "\<not> (x0 = ?f pk \<and> x0 - k = ?f pk - pk)" "\<not> ?f pk < x0"
        using x0 by (simp_all add: pk_def)
      show ?thesis unfolding unfold if_not_P [OF ne(1)] if_not_P [OF ne(2)] e(2) if_P [OF True] unfolding e(1) by (rule refl)
    next
      case False
      then have e: "x0 - 1 = ?f pk" "x0 - k = ?f pk - pk" and ne: "\<not> (x0 = ?f pk \<and> x0 - k = ?f pk - pk)" "?f pk < x0"
        using x0 by (simp_all add: pk_def)
      show ?thesis unfolding unfold if_not_P [OF ne(1)] if_P [OF ne(2)] if_not_P [OF False] unfolding e by (rule refl)
    qed
  qed
  have small: "?f pk \<le> int (length a)" "?f pk - pk \<le> int (length b)"
    using le x0 Suc.prems(3,4) by (auto simp: pk_def split: if_splits)
  have IH: "script a b p (rev (backtrack tr mx p d (?f pk) (?f pk - pk))) 0 0 (?f pk) (?f pk - pk)"
    using Suc.IH [OF pk] Suc.prems(2) small by simp
  have edge: "script a b p [if down then add_op (?f pk - pk + p) else remove_op (?f pk + p)] (?f pk) (?f pk - pk) x0 (x0 - k)"
    using pos x0 le Suc.prems(3,4) by (auto simp: pk_def split: if_splits)
  show ?case unfolding bt using script_append [OF script_snoc [OF IH edge] ks(2)] by (simp split: if_splits)
qed

section \<open>The script of a diff\<close>

lemma script_adds:
  "0 \<le> y \<Longrightarrow> y + int n \<le> int (length b) \<Longrightarrow> script a b p (map (\<lambda>j. add_op (y + p + int j)) [0..<n]) x y x (y + int n)"
proof (induction n)
  case (Suc n)
  then have "script a b p (map (\<lambda>j. add_op (y + p + int j)) [0..<n]) x y x (y + int n)" by simp
  then have "script a b p (map (\<lambda>j. add_op (y + p + int j)) [0..<n] @ [add_op (y + p + int n)]) x y x (y + int (Suc n))"
    using Suc.prems by (intro script_append) auto
  then show ?case by simp
qed simp

lemma script_removes:
  "0 \<le> x \<Longrightarrow> x + int n \<le> int (length a) \<Longrightarrow> script a b p (map (\<lambda>i. remove_op (x + p + int i)) [0..<n]) x y (x + int n) y"
proof (induction n)
  case (Suc n)
  then have "script a b p (map (\<lambda>i. remove_op (x + p + int i)) [0..<n]) x y (x + int n) y" by simp
  then have "script a b p (map (\<lambda>i. remove_op (x + p + int i)) [0..<n] @ [remove_op (x + p + int n)]) x y (x + int (Suc n)) y"
    using Suc.prems by (intro script_append) auto
  then show ?case by simp
qed simp

lemma script_keeps:
  assumes "0 \<le> x" "0 \<le> y" "x + int n \<le> int (length a)" "y + int n \<le> int (length b)"
    and "\<And>i. i < n \<Longrightarrow> line_at a (x + int i) = line_at b (y + int i)"
  shows "script a b 0 (map (\<lambda>i. keep_op (x + int i) (y + int i)) [0..<n]) x y (x + int n) (y + int n)"
  using assms
proof (induction n)
  case (Suc n)
  then have "script a b 0 (map (\<lambda>i. keep_op (x + int i) (y + int i)) [0..<n] @ [keep_op (x + int n) (y + int n)]) x y
      (x + int (Suc n)) (y + int (Suc n))"
    by (intro script_append) auto
  then show ?case by simp
qed simp

lemma opsNaive_script: "script a b p (opsNaive a b p) 0 0 (int (length a)) (int (length b))"
  unfolding opsNaive_def
  using script_removes [of 0 "length a" a b p 0] script_adds [of 0 "length b" b a p "int (length a)"]
  by (intro script_append) auto

lemma opsMyers_script:
  assumes "a = [] \<or> b = [] \<or> hd a \<noteq> hd b"
  shows "script a b p (opsMyers a b p) 0 0 (int (length a)) (int (length b))"
proof (cases "a = [] \<or> b = []")
  case True
  then show ?thesis
    using script_adds [of 0 "length b" b a p 0] script_removes [of 0 "length a" a b p 0]
    by (auto simp: opsMyers_def Let_def)
next
  case False
  define mx where "mx = int (length a) + int (length b)"
  define cap where "cap = go_quot 33554432 (16 * mx + 8)"
  define dCap where "dCap = (if cap < 16 then 16 else cap)"
  define found where "found = find_loop a b mx dCap 0 (replicate (nat (2 * mx + 1)) 0) []"
  have ops: "opsMyers a b p = (if 200000 < mx then opsNaive a b p
      else case found of None \<Rightarrow> opsNaive a b p
        | Some tr \<Rightarrow> rev (backtrack tr mx p (length tr - 1) (int (length a)) (int (length b))))"
    unfolding opsMyers_def Let_def found_def dCap_def cap_def mx_def using False by simp
  have origin: "furthest a b 0 0 = 0"
    using assms False by (subst furthest.simps, subst snake.simps) (simp add: dlineEqual_iff line_at_def hd_conv_nth)
  have "script a b p (rev (backtrack tr mx p (length tr - 1) (int (length a)) (int (length b)))) 0 0 (int (length a)) (int (length b))"
    if "found = Some tr" for tr
  proof -
    have "0 < length a" using False by simp
    then have "0 < mx" unfolding mx_def by linarith
    moreover have "find_loop a b mx dCap (int 0) (replicate (nat (2 * mx + 1)) 0) [] = Some tr"
      using that by (simp add: found_def)
    ultimately have "\<exists>D k. length tr = Suc D \<and> trace_ok a b mx tr \<and> k \<in> diagonals D \<and> arrived a b D k
      \<and> (\<forall>d' < D. \<forall>k' \<in> diagonals d'. \<not> arrived a b d' k')"
      using find_loop_correct [of mx a b "[]" 0 "replicate (nat (2 * mx + 1)) 0" dCap tr]
      by (simp add: trace_ok_def mx_def)
    then obtain D k where tr: "length tr = Suc D" "trace_ok a b mx tr" "k \<in> diagonals D" "arrived a b D k"
        "\<forall>d' < D. \<forall>k' \<in> diagonals d'. \<not> arrived a b d' k'"
      by blast
    have corner: "furthest a b D k = int (length a)" "furthest a b D k - k = int (length b)"
      using arrived_corner [OF tr(3-5)] by linarith+
    show ?thesis using backtrack_script [OF tr(2) origin tr(3), of p] tr(1) corner by simp
  qed
  then show ?thesis using ops opsNaive_script [of a b p] by (auto split: option.splits)
qed

lemma script_shift:
  assumes "script a' b' p ops x y x' y'" and "a = us @ a' @ vs" and "b = ws @ b' @ zs"
    and "int (length us) = p" and "int (length ws) = p"
  shows "script a b 0 ops (x + p) (y + p) (x' + p) (y' + p)"
  using assms(1)
proof (induction ops arbitrary: x y)
  case (Cons q ops)
  have at: "line_at a (i + p) = line_at a' i" if "0 \<le> i" "i < int (length a')" for i
    using that assms(2,4) by (auto simp: line_at_def nth_append nat_add_distrib)
  have bt: "line_at b (i + p) = line_at b' i" if "0 \<le> i" "i < int (length b')" for i
    using that assms(3,5) by (auto simp: line_at_def nth_append nat_add_distrib)
  have "int (length a') + p \<le> int (length a)" "int (length b') + p \<le> int (length b)" "0 \<le> p"
    using assms(2-5) by auto
  then show ?case
    using Cons.prems Cons.IH [of "x + 1" "y + 1"] Cons.IH [of "x + 1" y] Cons.IH [of x "y + 1"] at [of x] bt [of y]
    by (auto split: op_kind.splits simp: algebra_simps)
qed simp

lemma common_prefix_le: "common_prefix a b \<le> length a \<and> common_prefix a b \<le> length b"
  by (induction a b rule: common_prefix.induct) auto

lemma common_prefix_take: "take (common_prefix a b) a = take (common_prefix a b) b"
  by (induction a b rule: common_prefix.induct) (auto simp: dlineEqual_iff)

lemma common_prefix_stop:
  "drop (common_prefix a b) a = [] \<or> drop (common_prefix a b) b = []
   \<or> hd (drop (common_prefix a b) a) \<noteq> hd (drop (common_prefix a b) b)"
  by (induction a b rule: common_prefix.induct) (auto simp: dlineEqual_iff)

lemma hd_take_append: "u = [] \<or> v = [] \<or> hd (u @ s) \<noteq> hd (v @ t) \<Longrightarrow> u = [] \<or> v = [] \<or> hd u \<noteq> hd v"
  by (cases u; cases v) auto

text \<open>A common prefix, the middles and a common suffix.\<close>

lemma diff_parts:
  assumes "p = common_prefix a b" and "s = common_prefix (rev (drop p a)) (rev (drop p b))"
    and "am = take (length a - s - p) (drop p a)" and "bm = take (length b - s - p) (drop p b)"
  shows "\<exists>u w. a = u @ am @ w \<and> b = u @ bm @ w \<and> length u = p \<and> length w = s
    \<and> (am = [] \<or> bm = [] \<or> hd am \<noteq> hd bm)"
proof -
  let ?a = "drop p a" and ?b = "drop p b"
  have p: "p \<le> length a" "p \<le> length b" using common_prefix_le assms(1) by auto
  have s: "s \<le> length ?a" "s \<le> length ?b" using common_prefix_le [of "rev ?a" "rev ?b"] assms(2) by auto
  have "rev (take s (rev ?a)) = rev (take s (rev ?b))" using common_prefix_take assms(2) by simp
  then have w: "drop (length ?a - s) ?a = drop (length ?b - s) ?b" by (simp add: take_rev)
  have am: "am = take (length ?a - s) ?a" "bm = take (length ?b - s) ?b"
    using assms(3,4) by (simp_all add: add.commute)
  have split: "?a = am @ drop (length ?a - s) ?a" "?b = bm @ drop (length ?a - s) ?a"
    using am w by (metis append_take_drop_id)+
  have "a = take p a @ am @ drop (length ?a - s) ?a" using split(1) by (metis append_take_drop_id)
  moreover have "b = take p a @ bm @ drop (length ?a - s) ?a"
    using split(2) common_prefix_take assms(1) by (metis append_take_drop_id)
  moreover have "length (drop (length ?a - s) ?a) = s" using s by simp
  moreover have "am = [] \<or> bm = [] \<or> hd am \<noteq> hd bm"
  proof (cases "?a = [] \<or> ?b = []")
    case True
    then show ?thesis using am by auto
  next
    case False
    then have "hd ?a \<noteq> hd ?b" using common_prefix_stop assms(1) by blast
    then show ?thesis using split hd_take_append by metis
  qed
  ultimately show ?thesis using p by (intro exI [of _ "take p a"] exI [of _ "drop (length ?a - s) ?a"]) simp
qed

lemma diffOps_script: "script a b 0 (diffOps a b) 0 0 (int (length a)) (int (length b))"
proof -
  define p where "p = common_prefix a b"
  define s where "s = common_prefix (rev (drop p a)) (rev (drop p b))"
  define am where "am = take (length a - s - p) (drop p a)"
  define bm where "bm = take (length b - s - p) (drop p b)"
  obtain u w where u: "a = u @ am @ w" "b = u @ bm @ w" "length u = p" "length w = s" "am = [] \<or> bm = [] \<or> hd am \<noteq> hd bm"
    using diff_parts [OF p_def s_def am_def bm_def] by blast
  have ops: "diffOps a b = map (\<lambda>i. keep_op (0 + int i) (0 + int i)) [0..<p] @ opsMyers am bm (int p)
      @ map (\<lambda>i. keep_op (int p + int (length am) + int i) (int p + int (length bm) + int i)) [0..<s]"
  proof -
    have la: "length a - s = p + length am" "length b - s = p + length bm" using u(1-4) by simp_all
    show ?thesis
      unfolding diffOps_def Let_def p_def [symmetric] s_def [symmetric] am_def [symmetric] bm_def [symmetric] unfolding la by simp
  qed
  have 1: "script a b 0 (map (\<lambda>i. keep_op (0 + int i) (0 + int i)) [0..<p]) 0 0 (0 + int p) (0 + int p)"
    using u(1-3) by (intro script_keeps) (auto simp: line_at_def nth_append)
  have 2: "script a b 0 (opsMyers am bm (int p)) (0 + int p) (0 + int p) (int (length am) + int p) (int (length bm) + int p)"
    by (rule script_shift [OF opsMyers_script [OF u(5)] u(1,2)]) (simp_all add: u(3))
  have 3: "script a b 0 (map (\<lambda>i. keep_op (int p + int (length am) + int i) (int p + int (length bm) + int i)) [0..<s])
      (int p + int (length am)) (int p + int (length bm)) (int p + int (length am) + int s) (int p + int (length bm) + int s)"
    using u(1-4) by (intro script_keeps) (auto simp: line_at_def nth_append nat_add_distrib)
  have "int (length a) = int p + int (length am) + int s" "int (length b) = int p + int (length bm) + int s"
    using u(1-4) by simp_all
  then show ?thesis unfolding ops using script_append [OF 1 script_append [OF 2]] 3 by (simp add: algebra_simps)
qed

text \<open>The two sides of a script: the lines it takes away or keeps, and the lines it keeps or adds.\<close>

definition old_side :: "dline list \<Rightarrow> op list \<Rightarrow> dline list" where
  "old_side a ops = map (\<lambda>q. line_at a (aIdx q)) (filter (\<lambda>q. kind q \<noteq> Add) ops)"

definition new_side :: "dline list \<Rightarrow> dline list \<Rightarrow> op list \<Rightarrow> dline list" where
  "new_side a b ops = map (\<lambda>q. if kind q = Keep then line_at a (aIdx q) else line_at b (bIdx q)) (filter (\<lambda>q. kind q \<noteq> Remove) ops)"

lemma drop_line: "0 \<le> x \<Longrightarrow> x < int (length a) \<Longrightarrow> drop (nat x) a = line_at a x # drop (nat (x + 1)) a"
  by (simp add: line_at_def Cons_nth_drop_Suc nat_add_distrib)

lemma script_sides:
  assumes "script a b 0 ops x y (int (length a)) (int (length b))" and "0 \<le> x" and "0 \<le> y"
  shows "old_side a ops = drop (nat x) a \<and> new_side a b ops = drop (nat y) b"
  using assms
proof (induction ops arbitrary: x y)
  case (Cons q ops)
  then show ?case
    using Cons.IH [of "x + 1" "y + 1"] Cons.IH [of "x + 1" y] Cons.IH [of x "y + 1"]
    by (auto simp: old_side_def new_side_def drop_line split: op_kind.splits)
qed (simp add: old_side_def new_side_def)

text \<open>
  C1. The diff engine is correct on all files: the edit script it computes (prefix and suffix trimming, Myers'
  search with its trace, the backtrack, and the fallback when the budget is exceeded) removes or keeps
  exactly the lines of the old file in their order, and keeps or adds exactly those of the new one.
\<close>

theorem diffOps_correct:
  "old_side a (diffOps a b) = a \<and> new_side a b (diffOps a b) = b"
  using script_sides [OF diffOps_script] by simp

end
