(* ===== verification/Diff_Hunks.thy ===== *)
theory Diff_Hunks
  imports Diff_Correct
begin

text \<open>
  What is rendered from an edit script: lines are split without loss, hunks cover every change once, a real
  change never yields an empty diff, and the entry stays within its cap.
\<close>

section \<open>Lines\<close>

definition line_bytes :: "dline \<Rightarrow> string" where
  "line_bytes l = line_text l @ (if hasEOL l then [CHR 0x0A] else [])"

definition join_lines :: "dline list \<Rightarrow> string" where
  "join_lines ls = concat (map line_bytes ls)"

lemma join_split_loop: "join_lines (split_loop cur c) = cur @ c"
  by (induction cur c rule: split_loop.induct) (auto simp: join_lines_def line_bytes_def)

lemma join_splitLines: "join_lines (splitLines c) = c"
  by (simp add: splitLines_def join_split_loop)

lemma split_loop_shape:
  "CHR 0x0A \<notin> set cur \<Longrightarrow> list_all (\<lambda>l. CHR 0x0A \<notin> set (line_text l)) (split_loop cur c)
     \<and> list_all hasEOL (butlast (split_loop cur c))"
  by (induction cur c rule: split_loop.induct) auto

text \<open>
  C40. Round trip from the script back to the files: splitting loses nothing, no line holds a newline and only the
  last may lack one, and joining the new side of the computed script gives the new content byte for
  byte, final newline or not.
\<close>

theorem diff_roundtrip:
  "join_lines (new_side (splitLines x) (splitLines y) (diffOps (splitLines x) (splitLines y))) = y
   \<and> join_lines (old_side (splitLines x) (diffOps (splitLines x) (splitLines y))) = x
   \<and> list_all (\<lambda>l. CHR 0x0A \<notin> set (line_text l)) (splitLines x) \<and> list_all hasEOL (butlast (splitLines x))"
  using script_sides [OF diffOps_script, of "splitLines x" "splitLines y"] join_splitLines [of x] join_splitLines [of y]
    split_loop_shape [of "[]" x]
  by (simp add: splitLines_def)

section \<open>Hunks\<close>

lemma skip_keeps_keeps: "j \<le> c \<Longrightarrow> c < skip_keeps ops j \<Longrightarrow> kind (ops ! c) = Keep"
proof (induction ops j rule: skip_keeps.induct)
  case (1 ops j)
  show ?case
  proof (cases "j < length ops \<and> kind (ops ! j) = Keep")
    case True
    then have "skip_keeps ops j = skip_keeps ops (Suc j)" by (subst skip_keeps.simps) simp
    then show ?thesis using 1 True by (cases "c = j") auto
  next
    case False
    then have "skip_keeps ops j = j" by (subst skip_keeps.simps) auto
    then show ?thesis using "1.prems" by simp
  qed
qed

text \<open>Behind an extended hunk comes a run of more than six keeps, or nothing but keeps.\<close>

lemma extend_hunk_gap: "extend_hunk ops to \<le> c \<Longrightarrow> c < length ops \<Longrightarrow> is_change (ops ! c) \<Longrightarrow> extend_hunk ops to + 2 * diffContext < c"
proof (induction ops to rule: extend_hunk.induct)
  case (1 ops to)
  let ?j = "skip_keeps ops to"
  show ?case
  proof (cases "to < length ops")
    case False
    then have "extend_hunk ops to = to" by (subst extend_hunk.simps) simp
    then show ?thesis using False "1.prems" by simp
  next
    case inside: True
    show ?thesis
    proof (cases "kind (ops ! to) \<noteq> Keep")
      case True
      then have "extend_hunk ops to = extend_hunk ops (Suc to)" using inside by (subst extend_hunk.simps) simp
      then show ?thesis using "1.IH"(1) [OF inside True] "1.prems" by simp
    next
      case keep: False
      show ?thesis
      proof (cases "?j < length ops \<and> ?j - to \<le> 2 * diffContext")
        case True
        then have "extend_hunk ops to = extend_hunk ops (Suc ?j)" using inside keep by (subst extend_hunk.simps) (simp add: Let_def)
        then show ?thesis using "1.IH"(2) [OF inside keep refl True] "1.prems" by simp
      next
        case False
        then have e: "extend_hunk ops to = to" using inside keep by (subst extend_hunk.simps) (auto simp: Let_def)
        have "?j \<le> c" using skip_keeps_keeps [of to c ops] "1.prems" e by (force simp: is_change_def)
        then show ?thesis using False e "1.prems"(2) by auto
      qed
    qed
  qed
qed

lemma extend_hunk_le: "to \<le> length ops \<Longrightarrow> extend_hunk ops to \<le> length ops"
proof (induction ops to rule: extend_hunk.induct)
  case (1 ops to)
  then show ?case by (subst extend_hunk.simps) (auto simp: Let_def)
qed

lemma group_hunks_change:
  assumes "i < length ops" and "is_change (ops ! i)"
  shows "group_hunks ops i = (i - diffContext, min (extend_hunk ops (Suc i) + diffContext) (length ops))
    # group_hunks ops (min (extend_hunk ops (Suc i) + diffContext) (length ops))"
  using assms by (subst group_hunks.simps) (simp add: is_change_def Let_def)

lemma group_hunks_keep: "i < length ops \<Longrightarrow> \<not> is_change (ops ! i) \<Longrightarrow> group_hunks ops i = group_hunks ops (Suc i)"
  by (subst group_hunks.simps) (simp add: is_change_def)

lemma group_hunks_end: "\<not> i < length ops \<Longrightarrow> group_hunks ops i = []"
  by (subst group_hunks.simps) simp

lemma group_hunks_cover:
  "i \<le> c \<Longrightarrow> c < length ops \<Longrightarrow> is_change (ops ! c) \<Longrightarrow> \<exists>h \<in> set (group_hunks ops i). fst h \<le> c \<and> c < snd h"
proof (induction "length ops - i" arbitrary: i rule: less_induct)
  case less
  let ?e = "min (extend_hunk ops (Suc i) + diffContext) (length ops)"
  have i: "i < length ops" using less.prems by simp
  show ?case
  proof (cases "is_change (ops ! i)")
    case True
    have "i < ?e" using extend_hunk_ge [of "Suc i" ops] i by simp
    then show ?thesis
      using less.hyps [of ?e] less.prems i True group_hunks_change [OF i True] by (cases "c < ?e") auto
  next
    case False
    then have "i < c" using less.prems by (cases "i = c") auto
    then show ?thesis using less.hyps [of "Suc i"] less.prems i group_hunks_keep [OF i False] by simp
  qed
qed

definition hunks_ok :: "nat \<Rightarrow> nat \<Rightarrow> (nat \<times> nat) list \<Rightarrow> bool" where
  "hunks_ok lo n hs \<longleftrightarrow> sorted_wrt (\<lambda>h g. snd h \<le> fst g) hs \<and> (\<forall>h \<in> set hs. lo \<le> fst h \<and> fst h < snd h \<and> snd h \<le> n)"

lemma group_hunks_ok:
  "(\<And>c. i \<le> c \<Longrightarrow> c < length ops \<Longrightarrow> is_change (ops ! c) \<Longrightarrow> lo = 0 \<or> lo + diffContext \<le> c)
     \<Longrightarrow> hunks_ok lo (length ops) (group_hunks ops i)"
proof (induction "length ops - i" arbitrary: i lo rule: less_induct)
  case less
  let ?to = "extend_hunk ops (Suc i)" and ?e = "min (extend_hunk ops (Suc i) + diffContext) (length ops)"
  consider (stop) "\<not> i < length ops" | (keep) "i < length ops" "\<not> is_change (ops ! i)" | (change) "i < length ops" "is_change (ops ! i)"
    by blast
  then show ?case
  proof cases
    case stop
    then show ?thesis by (simp add: group_hunks_end hunks_ok_def)
  next
    case keep
    then show ?thesis using less.hyps [of "Suc i" lo] less.prems by (simp add: group_hunks_keep)
  next
    case change
    have ie: "i < ?e" using extend_hunk_ge [of "Suc i" ops] change(1) by simp
    have "?e + diffContext \<le> c" if "?e \<le> c" "c < length ops" "is_change (ops ! c)" for c
      using extend_hunk_gap [of ops "Suc i" c] that by (simp add: min_def split: if_splits)
    then have rest: "hunks_ok ?e (length ops) (group_hunks ops ?e)"
      using less.hyps [of ?e ?e] ie change(1) by simp
    have "lo \<le> i - diffContext" using less.prems [of i] change by auto
    then show ?thesis using rest ie unfolding group_hunks_change [OF change]
      by (auto simp: hunks_ok_def intro: order_trans)
  qed
qed

text \<open>
  Rendering drops no change and repeats none: the hunks of a script are non-empty, in order and disjoint
  ranges of its operations, and every change lies in one of them.
\<close>

theorem hunks_cover_once:
  "(\<forall>c < length ops. is_change (ops ! c) \<longrightarrow> (\<exists>h \<in> set (group_hunks ops 0). fst h \<le> c \<and> c < snd h))
   \<and> sorted_wrt (\<lambda>h g. snd h \<le> fst g) (group_hunks ops 0)
   \<and> (\<forall>h \<in> set (group_hunks ops 0). fst h < snd h \<and> snd h \<le> length ops)"
  using group_hunks_ok [of 0 ops 0] group_hunks_cover [of 0] by (auto simp: hunks_ok_def)

theorem hunks_cover_once_witness:
  "\<exists>h \<in> set (group_hunks [keep_op 0 0, add_op 1] 0). fst h \<le> 1 \<and> 1 < snd h"
proof -
  have "\<forall>c < 2. is_change ([keep_op 0 0, add_op 1] ! c) \<longrightarrow> (\<exists>h \<in> set (group_hunks [keep_op 0 0, add_op 1] 0). fst h \<le> c \<and> c < snd h)"
    using hunks_cover_once [of "[keep_op 0 0, add_op 1]"] by simp
  then show ?thesis by (auto simp: is_change_def dest: spec [of _ 1])
qed

section \<open>The diff of a file\<close>

lemma all_keeps_same: "list_all (\<lambda>q. \<not> is_change q) ops \<Longrightarrow> new_side a b ops = old_side a ops"
proof -
  assume "list_all (\<lambda>q. \<not> is_change q) ops"
  then have k: "kind q = Keep" if "q \<in> set ops" for q using that by (auto simp: list_all_iff is_change_def)
  then have "filter (\<lambda>q. kind q \<noteq> Add) ops = ops" "filter (\<lambda>q. kind q \<noteq> Remove) ops = ops" by (auto intro!: filter_True)
  then show ?thesis using k by (simp add: new_side_def old_side_def)
qed

lemma real_change_has_hunk:
  assumes "x \<noteq> y"
  shows "group_hunks (diffOps (splitLines x) (splitLines y)) 0 \<noteq> []"
proof -
  let ?ops = "diffOps (splitLines x) (splitLines y)"
  have "\<not> list_all (\<lambda>q. \<not> is_change q) ?ops"
    using all_keeps_same script_sides [OF diffOps_script, of "splitLines x" "splitLines y"] join_splitLines assms
    by (metis drop0 nat_zero_as_int order_refl)
  then obtain c where "c < length ?ops" "is_change (?ops ! c)" by (auto simp: list_all_length)
  then show ?thesis using group_hunks_cover [of 0 c ?ops] by auto
qed

lemma diff_header_neq: "diff_header old new path \<noteq> []"
  by (simp add: diff_header_def)

lemma write_whole_neq: "w \<noteq> [] \<Longrightarrow> write_whole_lines sign w ls \<noteq> []"
  by (induction sign w ls rule: write_whole_lines.induct) (auto simp: Let_def)

lemma diff_text_neq: "diff_text old new path \<noteq> []"
  by (auto simp: diff_text_def Let_def diff_header_neq writeWholeHunk_def write_whole_neq split: option.splits)

text \<open>
  The result of a diff, branch by branch: it is empty exactly for a file that is absent on both sides or
  unchanged; otherwise the kind tells creation, deletion and modification apart, binary content gives
  no text, and text is never longer than the cap, is cut only then, and holds a hunk for every
  modification, a toggled final newline included.
\<close>

theorem ComputeUnifiedDiff_result:
  "let r = ComputeUnifiedDiff old new path in
     (r = no_diff \<longleftrightarrow> old = new)
     \<and> (old \<noteq> new \<longrightarrow>
          Kind r = (case (old, new) of (None, _) \<Rightarrow> ''create'' | (Some _, None) \<Rightarrow> ''delete'' | _ \<Rightarrow> ''modify'')
          \<and> (Binary r \<longleftrightarrow> isBinary (content old) \<or> isBinary (content new))
          \<and> (\<not> Binary r \<longrightarrow> UnifiedDiff r = take maxDiffBytes (diff_text old new path) \<and> UnifiedDiff r \<noteq> [])
          \<and> (Truncated r \<longleftrightarrow> \<not> Binary r \<and> maxDiffBytes < length (diff_text old new path))
          \<and> (\<forall>x y. old = Some x \<and> new = Some y \<longrightarrow> group_hunks (diffOps (splitLines x) (splitLines y)) 0 \<noteq> []))"
proof (cases "old = new")
  case True
  then show ?thesis by (cases old) (simp_all add: ComputeUnifiedDiff_def)
next
  case False
  have k: "kindFor (old \<noteq> None) (new \<noteq> None) = (case (old, new) of (None, _) \<Rightarrow> ''create'' | (Some _, None) \<Rightarrow> ''delete'' | _ \<Rightarrow> ''modify'')"
    using False by (auto simp: kindFor_def split: option.splits)
  have kn: "(case (old, new) of (None, _) \<Rightarrow> ''create'' | (Some _, None) \<Rightarrow> ''delete'' | _ \<Rightarrow> ''modify'') \<noteq> []"
    by (auto split: option.splits)
  have "ComputeUnifiedDiff old new path =
    (if isBinary (content old) \<or> isBinary (content new)
     then \<lparr>UnifiedDiff = [], Kind = kindFor (old \<noteq> None) (new \<noteq> None), Binary = True, Truncated = False\<rparr>
     else \<lparr>UnifiedDiff = take maxDiffBytes (diff_text old new path), Kind = kindFor (old \<noteq> None) (new \<noteq> None), Binary = False,
           Truncated = maxDiffBytes < length (diff_text old new path)\<rparr>)"
    using False diff_text_neq [of old new path] by (auto simp: ComputeUnifiedDiff_def Let_def maxDiffBytes_def)
  then show ?thesis using False k kn diff_text_neq [of old new path] real_change_has_hunk
    by (auto simp: Let_def no_diff_def maxDiffBytes_def)
qed

theorem ComputeUnifiedDiff_result_witness:
  "Kind (ComputeUnifiedDiff (Some ''a'') (Some (''a'' @ [CHR 0x0A])) ''f'') = ''modify''
   \<and> group_hunks (diffOps (splitLines ''a'') (splitLines (''a'' @ [CHR 0x0A]))) 0 \<noteq> []"
  using ComputeUnifiedDiff_result [of "Some ''a''" "Some (''a'' @ [CHR 0x0A])" "''f''"] by (simp add: Let_def)

text \<open>
  Two places where a header departs from git's convention the comments cite: filling a file that existed but
  was empty prints the old range as \<open>-1,0\<close> and not \<open>-0,0\<close>, and a created one-line file prints the
  count that is said to be left out.
\<close>

theorem header_departs_from_git:
  "UnifiedDiff (ComputeUnifiedDiff (Some []) (Some (''x'' @ [CHR 0x0A])) ''f'') =
     ''--- a/f'' @ [CHR 0x0A] @ ''+++ b/f'' @ [CHR 0x0A] @ ''@@ -1,0 +1 @@'' @ [CHR 0x0A] @ ''+x'' @ [CHR 0x0A]
   \<and> UnifiedDiff (ComputeUnifiedDiff None (Some (''x'' @ [CHR 0x0A])) ''f'') =
     ''--- /dev/null'' @ [CHR 0x0A] @ ''+++ b/f'' @ [CHR 0x0A] @ ''@@ -0,0 +1,1 @@'' @ [CHR 0x0A] @ ''+x'' @ [CHR 0x0A]"
proof -
  let ?x = "''x'' @ [CHR 0x0A]"
  have modified: "diff_text (Some []) (Some ?x) ''f'' =
      ''--- a/f'' @ [CHR 0x0A] @ ''+++ b/f'' @ [CHR 0x0A] @ ''@@ -1,0 +1 @@'' @ [CHR 0x0A] @ ''+x'' @ [CHR 0x0A]"
    by code_simp
  have "splitLines ?x = [\<lparr>line_text = ''x'', hasEOL = True\<rparr>] \<and> fmt_d 1 = ''1''" by code_simp
  then have created: "diff_text None (Some ?x) ''f'' =
      ''--- /dev/null'' @ [CHR 0x0A] @ ''+++ b/f'' @ [CHR 0x0A] @ ''@@ -0,0 +1,1 @@'' @ [CHR 0x0A] @ ''+x'' @ [CHR 0x0A]"
    by (simp add: diff_text_def diff_header_def writeWholeHunk_def writeDline_def maxDiffBytes_def)
  have "\<not> isBinary ?x" "\<not> isBinary []" by (simp_all add: isBinary_def binaryProbeLen_def)
  then show ?thesis
    by (simp add: ComputeUnifiedDiff_def content_def modified [simplified] created [simplified] maxDiffBytes_def)
qed

end
