(* ===== verification/Edit_Entries.thy ===== *)
theory Edit_Entries
  imports Diff_Hunks Fuel_Loop
begin

text \<open>
  Ledger entries of \<open>internal/fileedit/parse.go\<close>: the extraction of the engine's \<open>file_edits\<close> from a tool's output
  and the conversion to entries. The JSON decoder (\<open>encoding/json\<close> into \<open>engineOutput\<close>) and SHA-256
  are arguments: \<open>decode s\<close> is the \<open>file_edits\<close> list of the first JSON value of \<open>s\<close>, or \<open>None\<close> on an error.
\<close>

record EngineFileEdit =
  edit_path :: string
  edit_kind :: string
  unified_diff :: string
  existed_before :: bool
  existed_after :: bool
  size_before :: int
  size_after :: int
  sha256_before :: string
  sha256_after :: string
  is_binary :: bool
  edit_truncated :: bool

record Entry =
  Path :: string
  EntryKind :: string
  EntryDiff :: string
  BeforeSize :: int
  AfterSize :: int
  BeforeSHA :: string
  AfterSHA :: string
  Tool :: string
  IsBinary :: bool
  EntryTruncated :: bool

text \<open>\<open>strings.IndexByte\<close>, with Go's \<open>-1\<close>.\<close>

fun IndexByte :: "string \<Rightarrow> char \<Rightarrow> int" where
  "IndexByte [] c = - 1"
| "IndexByte (x # xs) c = (if x = c then 0 else (let r = IndexByte xs c in if r = - 1 then - 1 else r + 1))"

type_synonym edits_decoder = "string \<Rightarrow> EngineFileEdit list option"

fun parse_loop :: "nat \<Rightarrow> edits_decoder \<Rightarrow> string \<Rightarrow> int \<Rightarrow> EngineFileEdit list option" where
  "parse_loop 0 decode s i = None"
| "parse_loop (Suc n) decode s i =
     (if 0 \<le> i \<and> i < int (length s) then
        (case decode (drop (nat i) s) of
           Some (e # es) \<Rightarrow> Some (e # es)
         | _ \<Rightarrow> parse_loop n decode s (i + 1 + IndexByte (drop (nat (i + 1)) s) CHR ''{''))
      else Some [])"

definition ParseEngineOutput :: "nat \<Rightarrow> edits_decoder \<Rightarrow> string \<Rightarrow> EngineFileEdit list option" where
  "ParseEngineOutput n decode toolOutput =
     (if toolOutput = [] \<or> \<not> Contains toolOutput ([CHR 0x22] @ ''file_edits'' @ [CHR 0x22]) then Some []
      else parse_loop n decode toolOutput (IndexByte toolOutput CHR ''{''))"

text \<open>\<open>strings.ReplaceAll\<close> of one byte by another, then the two prefixes, once each.\<close>

definition NormalizePath :: "string \<Rightarrow> string" where
  "NormalizePath p = TrimPrefix (TrimPrefix (map (\<lambda>c. if c = CHR 0x5C then slash else c) p) ''./'') ''/''"

definition EntryFromEngine :: "EngineFileEdit \<Rightarrow> string \<Rightarrow> Entry" where
  "EntryFromEngine e tool =
     \<lparr>Path = NormalizePath (edit_path e), EntryKind = edit_kind e, EntryDiff = unified_diff e, BeforeSize = size_before e,
      AfterSize = size_after e, BeforeSHA = sha256_before e, AfterSHA = sha256_after e, Tool = tool,
      IsBinary = is_binary e, EntryTruncated = edit_truncated e\<rparr>"

definition SHA256Hex :: "(string \<Rightarrow> string) \<Rightarrow> string option \<Rightarrow> string" where
  "SHA256Hex sha b = (case b of None \<Rightarrow> [] | Some x \<Rightarrow> sha x)"

definition EntryFromSnapshots :: "(string \<Rightarrow> string) \<Rightarrow> string option \<Rightarrow> string option \<Rightarrow> string \<Rightarrow> string \<Rightarrow> Entry" where
  "EntryFromSnapshots sha old new rawPath tool =
     (let res = ComputeUnifiedDiff old new (NormalizePath rawPath)
      in \<lparr>Path = NormalizePath rawPath, EntryKind = Kind res, EntryDiff = UnifiedDiff res,
          BeforeSize = int (length (content old)), AfterSize = int (length (content new)),
          BeforeSHA = SHA256Hex sha old, AfterSHA = SHA256Hex sha new, Tool = tool,
          IsBinary = Binary res, EntryTruncated = Truncated res\<rparr>)"

section \<open>The scan for a payload\<close>

definition parse_step :: "edits_decoder \<Rightarrow> string \<Rightarrow> int \<Rightarrow> int + EngineFileEdit list" where
  "parse_step decode s i =
     (if 0 \<le> i \<and> i < int (length s) then
        (case decode (drop (nat i) s) of
           Some (e # es) \<Rightarrow> Inr (e # es)
         | _ \<Rightarrow> Inl (i + 1 + IndexByte (drop (nat (i + 1)) s) CHR ''{''))
      else Inr [])"

interpretation scan: fuel_loop "parse_step decode s" "\<lambda>n. parse_loop n decode s" for decode s
  by unfold_locales (auto simp: parse_step_def split: option.splits list.splits)

lemma IndexByte_range: "IndexByte s c = - 1 \<or> 0 \<le> IndexByte s c \<and> IndexByte s c < int (length s)"
  by (induction s) (auto simp: Let_def)

lemma IndexByte_found: "0 \<le> IndexByte s c \<Longrightarrow> s ! nat (IndexByte s c) = c"
proof (induction s)
  case (Cons x s)
  then show ?case using IndexByte_range [of s c] by (auto simp: Let_def nat_add_distrib split: if_splits)
qed simp

lemma IndexByte_absent: "c \<notin> set s \<longleftrightarrow> IndexByte s c = - 1"
proof (induction s)
  case (Cons x s)
  then show ?case using IndexByte_range [of s c] by (auto simp: Let_def)
qed simp

lemma IndexByte_first: "i < length s \<Longrightarrow> s ! i = c \<Longrightarrow> 0 \<le> IndexByte s c \<and> IndexByte s c \<le> int i"
proof (induction s arbitrary: i)
  case (Cons x s)
  show ?case
  proof (cases "x = c")
    case False
    then obtain j where "i = Suc j" using Cons.prems by (cases i) auto
    then show ?thesis using Cons.IH [of j] Cons.prems False by (auto simp: Let_def)
  qed simp
qed simp

text \<open>The places the scan can try, and those that have a payload.\<close>

definition payload :: "edits_decoder \<Rightarrow> string \<Rightarrow> nat \<Rightarrow> EngineFileEdit list" where
  "payload decode s i = (case decode (drop i s) of Some es \<Rightarrow> es | None \<Rightarrow> [])"

lemma parse_step_payload:
  assumes "i < length s"
  shows "parse_step decode s (int i) =
    (if payload decode s i \<noteq> [] then Inr (payload decode s i) else Inl (int i + 1 + IndexByte (drop (Suc i) s) CHR ''{''))"
  using assms by (auto simp: parse_step_def payload_def nat_add_distrib split: option.splits list.splits)

lemma next_brace:
  assumes "i < j" and "j < length s" and "s ! j = CHR ''{''"
  shows "\<exists>k. int i + 1 + IndexByte (drop (Suc i) s) CHR ''{'' = int k \<and> i < k \<and> k \<le> j \<and> s ! k = CHR ''{''"
proof -
  let ?r = "IndexByte (drop (Suc i) s) CHR ''{''"
  have r: "0 \<le> ?r" "?r \<le> int (j - Suc i)"
    using IndexByte_first [of "j - Suc i" "drop (Suc i) s" "CHR ''{''"] assms by simp_all
  have "drop (Suc i) s ! nat ?r = CHR ''{''" using r(1) by (rule IndexByte_found)
  then have "s ! (Suc i + nat ?r) = CHR ''{''" using assms by simp
  then show ?thesis using r assms(1) by (intro exI [of _ "Suc i + nat ?r"]) auto
qed

text \<open>
  A payload is found behind any summary text: if some brace of the output starts a JSON value with edits, the
  scan returns within as many steps as the output has bytes, and it returns the edits of the first
  such brace.
\<close>

theorem ParseEngineOutput_finds_first:
  assumes "Contains s ([CHR 0x22] @ ''file_edits'' @ [CHR 0x22])"
    and "j < length s" and "s ! j = CHR ''{''" and "payload decode s j \<noteq> []"
    and "\<forall>i < j. s ! i = CHR ''{'' \<longrightarrow> payload decode s i = []"
  shows "ParseEngineOutput (Suc (length s)) decode s = Some (payload decode s j)"
proof -
  let ?I = "\<lambda>i. \<exists>k. i = int k \<and> k \<le> j \<and> s ! k = CHR ''{''"
  have step: "?I i' \<and> nat (int j - i') < nat (int j - i)" if I: "?I i" and st: "parse_step decode s i = Inl i'" for i i'
  proof -
    obtain k where k: "i = int k" "k \<le> j" "s ! k = CHR ''{''" using I by blast
    have none: "payload decode s k = []" "i' = int k + 1 + IndexByte (drop (Suc k) s) CHR ''{''"
      using st parse_step_payload [of k s decode] k assms(2) by (auto split: if_splits)
    then have "k < j" using k assms(4) by (cases "k = j") auto
    then show ?thesis using next_brace [OF _ assms(2,3)] none(2) k(1) by force
  qed
  have start: "?I (IndexByte s CHR ''{'')"
    using IndexByte_first [OF assms(2,3)] IndexByte_found [of s "CHR ''{''"]
    by (intro exI [of _ "nat (IndexByte s CHR ''{'')"]) auto
  have "nat (int j - IndexByte s CHR ''{'') < Suc (length s)" using IndexByte_first [OF assms(2,3)] assms(2) by linarith
  then obtain r i where r: "parse_loop (Suc (length s)) decode s (IndexByte s CHR ''{'') = Some r" "?I i" "parse_step decode s i = Inr r"
    using scan.returns [of ?I decode s "\<lambda>i. nat (int j - i)" "IndexByte s CHR ''{''" "Suc (length s)", OF step start] by blast
  then obtain k where k: "i = int k" "k \<le> j" "s ! k = CHR ''{''" by blast
  then have "r = payload decode s k" "payload decode s k \<noteq> []"
    using r(3) parse_step_payload [of k s decode] assms(2) by (auto split: if_splits)
  moreover from this have "k = j" using assms(5) k by (cases "k = j") auto
  moreover have "s \<noteq> []" using assms(2) by auto
  ultimately show ?thesis using r(1) assms(1) by (simp add: ParseEngineOutput_def)
qed

definition one_edit :: EngineFileEdit where
  "one_edit = \<lparr>edit_path = ''f'', edit_kind = ''create'', unified_diff = [], existed_before = False, existed_after = True,
     size_before = 0, size_after = 0, sha256_before = [], sha256_after = [], is_binary = False, edit_truncated = False\<rparr>"

definition sample_output :: string where
  "sample_output = ''ok: '' @ [CHR ''{'', CHR 0x22] @ ''file_edits'' @ [CHR 0x22, CHR ''}'']"

theorem ParseEngineOutput_finds_first_witness:
  "ParseEngineOutput 22 (\<lambda>_. Some [one_edit]) sample_output = Some [one_edit]"
proof -
  have "Contains sample_output ([CHR 0x22] @ ''file_edits'' @ [CHR 0x22]) \<and> length sample_output = 18" by code_simp
  moreover have "sample_output ! 4 = CHR ''{''" by code_simp
  moreover have "\<forall>i < (4::nat). sample_output ! i \<noteq> CHR ''{''" by code_simp
  ultimately have "ParseEngineOutput 19 (\<lambda>_. Some [one_edit]) sample_output = Some [one_edit]"
    using ParseEngineOutput_finds_first [of sample_output 4 "\<lambda>_. Some [one_edit]"] by (simp add: payload_def)
  then show ?thesis by (auto simp: ParseEngineOutput_def intro: scan.more_fuel split: if_splits)
qed

text \<open>
  Without a payload the scan hangs: if the output mentions \<open>"file_edits"\<close> and has a brace, but no brace starts a
  JSON value with edits (an empty \<open>file_edits\<close> array, a broken payload), no amount of fuel is enough.
  After the last brace \<open>IndexByte\<close> gives \<open>-1\<close>, so the step \<open>i + 1 + (-1)\<close> leaves the index where it is.
\<close>

theorem ParseEngineOutput_hangs:
  assumes "Contains s ([CHR 0x22] @ ''file_edits'' @ [CHR 0x22])" and "CHR ''{'' \<in> set s"
    and "\<forall>i < length s. s ! i = CHR ''{'' \<longrightarrow> payload decode s i = []"
  shows "ParseEngineOutput n decode s = None"
proof -
  let ?P = "\<lambda>(n :: nat) i. \<exists>k. i = int k \<and> k < length s \<and> s ! k = CHR ''{''"
  have go_on: "\<exists>i'. parse_step decode s i = Inl i' \<and> ?P n i'" if P: "?P (Suc n) i" for n :: nat and i
  proof -
    obtain k where k: "i = int k" "k < length s" "s ! k = CHR ''{''" using P by blast
    let ?r = "IndexByte (drop (Suc k) s) CHR ''{''"
    have st: "parse_step decode s i = Inl (int k + 1 + ?r)"
      using parse_step_payload [of k s decode] k assms(3) by simp
    show ?thesis
    proof (cases "?r = - 1")
      case True
      then show ?thesis using st k by auto
    next
      case False
      then have "0 \<le> ?r" "?r < int (length (drop (Suc k) s))" using IndexByte_range [of "drop (Suc k) s" "CHR ''{''"] by auto
      then have "k < Suc k + nat ?r" "Suc k + nat ?r < length s" "s ! (Suc k + nat ?r) = CHR ''{''"
        using IndexByte_found [of "drop (Suc k) s" "CHR ''{''"] k(2) by auto
      then show ?thesis using next_brace [of k "Suc k + nat ?r" s] st by force
    qed
  qed
  have "IndexByte s CHR ''{'' \<noteq> - 1" using assms(2) IndexByte_absent by blast
  then have start: "?P n (IndexByte s CHR ''{'')"
    using IndexByte_range [of s "CHR ''{''"] IndexByte_found [of s "CHR ''{''"]
    by (intro exI [of _ "nat (IndexByte s CHR ''{'')"]) auto
  have "parse_loop n decode s (IndexByte s CHR ''{'') = None"
    by (rule scan.starves [where P = ?P]) (use go_on start in blast)+
  moreover have "s \<noteq> []" using assms(2) by auto
  ultimately show ?thesis using assms(1) by (simp add: ParseEngineOutput_def)
qed

theorem ParseEngineOutput_hangs_witness: "ParseEngineOutput 1000000 (\<lambda>_. Some []) sample_output = None"
proof -
  have "Contains sample_output ([CHR 0x22] @ ''file_edits'' @ [CHR 0x22]) \<and> CHR ''{'' \<in> set sample_output" by code_simp
  then show ?thesis by (intro ParseEngineOutput_hangs) (auto simp: payload_def)
qed

section \<open>Entries\<close>

text \<open>
  An entry computed from snapshots is consistent: its kind, sizes and fingerprints agree about which side
  existed, and an entry without a kind is exactly one to skip, a pair that did not change.
\<close>

theorem EntryFromSnapshots_consistent:
  "let e = EntryFromSnapshots sha old new rawPath tool in
     (EntryKind e = [] \<longleftrightarrow> old = new)
     \<and> (EntryKind e = ''create'' \<longleftrightarrow> old = None \<and> new \<noteq> None)
     \<and> (EntryKind e = ''delete'' \<longleftrightarrow> old \<noteq> None \<and> new = None)
     \<and> (old = None \<longrightarrow> BeforeSize e = 0 \<and> BeforeSHA e = []) \<and> (new = None \<longrightarrow> AfterSize e = 0 \<and> AfterSHA e = [])
     \<and> length (EntryDiff e) \<le> maxDiffBytes"
proof (cases "old = new")
  case True
  then show ?thesis
    by (cases old) (simp_all add: EntryFromSnapshots_def ComputeUnifiedDiff_def no_diff_def content_def SHA256Hex_def)
next
  case False
  have "length (UnifiedDiff (ComputeUnifiedDiff old new p)) \<le> maxDiffBytes" for p
    by (simp add: ComputeUnifiedDiff_def no_diff_def Let_def)
  moreover have "Kind (ComputeUnifiedDiff old new p) = kindFor (old \<noteq> None) (new \<noteq> None)" for p
    using False diff_text_neq [of old new p] by (auto simp: ComputeUnifiedDiff_def Let_def maxDiffBytes_def)
  ultimately show ?thesis using False
    by (cases old; cases new) (auto simp: EntryFromSnapshots_def kindFor_def Let_def content_def SHA256Hex_def)
qed

theorem EntryFromSnapshots_consistent_witness:
  "EntryKind (EntryFromSnapshots (\<lambda>_. ''h'') None (Some ''x'') ''./f'' ''write'') = ''create''"
  using EntryFromSnapshots_consistent [of "\<lambda>_. ''h''" None "Some ''x''" "''./f''" "''write''"] by (simp add: Let_def)

text \<open>
  \<open>NormalizePath\<close> is not the stable form its comment promises: each prefix is removed once and the slash
  last, so a leading \<open>./\<close> or slash can survive and a second application changes the path again.
\<close>

theorem NormalizePath_not_stable:
  "NormalizePath ''/./a'' = ''./a'' \<and> NormalizePath (NormalizePath ''/./a'') = ''a''
   \<and> NormalizePath ''//a'' = ''/a'' \<and> NormalizePath ''./a'' = ''a'' \<and> NormalizePath ''/a'' = ''a''"
  by (intro conjI) code_simp+

end
