(* ===== verification/Consent_Store.thy ===== *)
theory Consent_Store
  imports Go_Numbers "HOL-Library.AList" "HOL-Library.List_Lexorder" "HOL-Library.Char_ord"
begin

text \<open>
  The in-memory stores of the Ask service's consent gate (\<open>internal/askorchicon/consent.go\<close> and
  \<open>fullsend.go\<close>): session grants, approved once-targets, the FULLSEND flags, and the registry of
  pending asks with the life cycle of one ask. A Go map is an association list with distinct keys;
  nothing below depends on its order, which Go leaves open. The service's constructor sets every
  store, so the nil receivers the methods tolerate do not occur. The clock is an argument.
\<close>

subsection \<open>Go maps keyed by conversation\<close>

type_synonym 'v gomap = "(string \<times> 'v) list"

text \<open>Indexing a map of maps: a missing key gives the nil map, which has no entry.\<close>

definition inner :: "'v gomap gomap \<Rightarrow> string \<Rightarrow> 'v gomap" where
  "inner m k = (case map_of m k of None \<Rightarrow> [] | Some s \<Rightarrow> s)"

lemma inner_update [simp]: "inner (AList.update k s m) k' = (if k' = k then s else inner m k')"
  by (simp add: inner_def update_conv')

lemma inner_delete [simp]: "inner (AList.delete k m) k' = (if k' = k then [] else inner m k')"
  by (simp add: inner_def delete_conv')

lemma inner_Nil [simp]: "inner [] k = []"
  by (simp add: inner_def)

text \<open>Well-formed maps of maps: the keys of the outer map and of every inner map are distinct.\<close>

definition gomap_ok :: "'v gomap gomap \<Rightarrow> bool" where
  "gomap_ok m \<longleftrightarrow> distinct (map fst m) \<and> list_all (\<lambda>(k, s). distinct (map fst s)) m"

lemma set_update_subset: "set (AList.update k v m) \<subseteq> insert (k, v) (set m)"
  by (induction m) auto

lemma set_delete_subset: "set (AList.delete k m) \<subseteq> set m"
  by (auto simp: AList.delete_eq)

lemma gomap_ok_Nil [simp]: "gomap_ok []"
  by (simp add: gomap_ok_def)

lemma gomap_ok_inner: "gomap_ok m \<Longrightarrow> distinct (map fst (inner m k))"
  by (auto simp: gomap_ok_def inner_def list_all_iff dest: map_of_SomeD split: option.splits)

lemma gomap_ok_update: "gomap_ok m \<Longrightarrow> distinct (map fst s) \<Longrightarrow> gomap_ok (AList.update k s m)"
  using set_update_subset [of k s m] by (auto simp: gomap_ok_def list_all_iff distinct_update)

lemma gomap_ok_delete: "gomap_ok m \<Longrightarrow> gomap_ok (AList.delete k m)"
  using set_delete_subset [of k m] by (auto simp: gomap_ok_def list_all_iff distinct_delete)

lemma keys_update [simp]: "fst ` set (AList.update k v m) = insert k (fst ` set m)"
  by (simp add: dom_update)

lemma keys_delete [simp]: "fst ` set (AList.delete k m) = fst ` set m - {k}"
  by (auto simp: AList.delete_eq)

text \<open>
  What the stores promise their clients: a view of the state per conversation, operations that each
  name one conversation and leave the views of all others alone, and a fresh store that shows nothing.
\<close>

locale conversation_store =
  fixes view :: "'s \<Rightarrow> string \<Rightarrow> 'v"
    and perform :: "'op \<Rightarrow> 's \<Rightarrow> 's"
    and names :: "'op \<Rightarrow> string"
    and clears :: "'op \<Rightarrow> bool"
    and nothing :: 'v
  assumes isolated: "c \<noteq> names op \<Longrightarrow> view (perform op s) c = view s c"
    and cleared: "clears op \<Longrightarrow> view (perform op s) (names op) = nothing"
begin

lemma run_isolated: "c \<notin> names ` set ops \<Longrightarrow> view (fold perform ops s) c = view s c"
  by (induction ops arbitrary: s) (auto simp: isolated)

lemma stays_cleared:
  assumes "clears op" and "names op \<notin> names ` set ops"
  shows "view (fold perform (op # ops) s) (names op) = nothing"
  using assms by (simp add: run_isolated cleared)

end

subsection \<open>Session grants\<close>

text \<open>The test for a volume root: \<open>Dir\<close> leaves it unchanged.\<close>

definition isFilesystemRoot :: "string \<Rightarrow> bool" where
  "isFilesystemRoot p \<longleftrightarrow> PathDir p = p"

type_synonym grantStore = "int gomap gomap"

record sessionGrant =
  grant_Directory :: string
  GrantedAt :: int

definition newGrantStore :: grantStore where
  "newGrantStore = []"

definition Grant :: "int \<Rightarrow> string \<Rightarrow> string \<Rightarrow> grantStore \<Rightarrow> grantStore" where
  "Grant now convID dir g =
     (if convID = [] \<or> TrimSpace dir = [] then g
      else (let dir = Clean dir
            in if isFilesystemRoot dir then g
               else AList.update convID (AList.update dir now (inner g convID)) g))"

definition HasGrant :: "string \<Rightarrow> string \<Rightarrow> grantStore \<Rightarrow> bool" where
  "HasGrant convID dir g =
     (if convID = [] \<or> TrimSpace dir = [] then False
      else (let target = Clean dir
            in list_ex (\<lambda>(granted, _). target = granted \<or> HasPrefix target (granted @ ''/''))
                 (inner g convID)))"

definition ClearGrants :: "string \<Rightarrow> grantStore \<Rightarrow> grantStore" where
  "ClearGrants convID g = AList.delete convID g"

definition LenGrants :: "string \<Rightarrow> grantStore \<Rightarrow> nat" where
  "LenGrants convID g = length (inner g convID)"

definition GrantRoots :: "string \<Rightarrow> grantStore \<Rightarrow> string list" where
  "GrantRoots convID g = (if convID = [] then [] else sort (map fst (inner g convID)))"

definition Revoke :: "string \<Rightarrow> string \<Rightarrow> grantStore \<Rightarrow> bool \<times> grantStore" where
  "Revoke convID dir g =
     (if convID = [] \<or> TrimSpace dir = [] then (False, g)
      else (case map_of g convID of
              None \<Rightarrow> (False, g)
            | Some held \<Rightarrow>
                (case map_of held (Clean dir) of
                   None \<Rightarrow> (False, g)
                 | Some _ \<Rightarrow>
                     (let held = AList.delete (Clean dir) held
                      in (True, if held = [] then AList.delete convID g else AList.update convID held g)))))"

definition ListGrants :: "string \<Rightarrow> grantStore \<Rightarrow> sessionGrant list" where
  "ListGrants convID g =
     (if convID = [] then []
      else map (\<lambda>(dir, t). \<lparr>grant_Directory = dir, GrantedAt = t\<rparr>) (sort_key fst (inner g convID)))"

subsection \<open>Once-targets and FULLSEND\<close>

type_synonym onceStore = "bool gomap gomap"

definition newOnceStore :: onceStore where
  "newOnceStore = []"

definition record_target :: "string \<Rightarrow> bool gomap \<Rightarrow> bool gomap" where
  "record_target t held = (let t = TrimSpace t in if t = [] then held else AList.update (Clean t) True held)"

definition RecordOnce :: "string \<Rightarrow> string list \<Rightarrow> onceStore \<Rightarrow> onceStore" where
  "RecordOnce convID targets st =
     (if convID = [] then st
      else AList.update convID (fold record_target targets (inner st convID)) st)"

definition OnceTargets :: "string \<Rightarrow> onceStore \<Rightarrow> string list" where
  "OnceTargets convID st = (if convID = [] then [] else sort (map fst (inner st convID)))"

definition ClearOnce :: "string \<Rightarrow> onceStore \<Rightarrow> onceStore" where
  "ClearOnce convID st = AList.delete convID st"

type_synonym fullsendStore = "bool gomap"

definition newFullsendStore :: fullsendStore where
  "newFullsendStore = []"

definition SetFullsend :: "string \<Rightarrow> bool \<Rightarrow> fullsendStore \<Rightarrow> fullsendStore" where
  "SetFullsend convID on f =
     (if convID = [] then f
      else if \<not> on then AList.delete convID f
      else AList.update convID True f)"

definition FullsendEnabled :: "string \<Rightarrow> fullsendStore \<Rightarrow> bool" where
  "FullsendEnabled convID f = (if convID = [] then False else map_of f convID = Some True)"

definition ClearFullsend :: "string \<Rightarrow> fullsendStore \<Rightarrow> fullsendStore" where
  "ClearFullsend convID f = (if convID = [] then f else AList.delete convID f)"

subsection \<open>One ask\<close>

text \<open>
  \<open>apiv1.PermissionChoice\<close> is an open protobuf enumeration: a client can send a number that names no
  value, which is the last constructor.
\<close>

datatype PermissionChoice = CHOICE_UNSPECIFIED | ALLOW_ONCE | ALLOW_SESSION | DENY | OTHER_CHOICE int

definition choice_String :: "PermissionChoice \<Rightarrow> string" where
  "choice_String c =
     (case c of
        CHOICE_UNSPECIFIED \<Rightarrow> ''PERMISSION_CHOICE_UNSPECIFIED''
      | ALLOW_ONCE \<Rightarrow> ''PERMISSION_CHOICE_ALLOW_ONCE''
      | ALLOW_SESSION \<Rightarrow> ''PERMISSION_CHOICE_ALLOW_SESSION''
      | DENY \<Rightarrow> ''PERMISSION_CHOICE_DENY''
      | OTHER_CHOICE n \<Rightarrow> fmt_d n)"

datatype askState = askOpen | askClientReplied | askFinalized

record askAction =
  Tool :: string
  Targets :: "string list"
  Command :: string
  CallID :: string
  action_AskID :: string
  action_Key :: string
  Input :: "(string \<times> json) list"

record pendingAsk =
  AskID :: string
  ConversationID :: string
  SessionID :: string
  Action :: askAction
  Key :: string
  ask_Tool :: string
  ask_Command :: string
  ask_Targets :: "string list"
  Directory :: string
  InsideProject :: bool
  Summary :: string
  ask_DenyBelow :: "string list"
  AbsTargets :: "string list"
  Question :: string
  Options :: "string list"
  AllowOther :: bool
  ask_state :: askState
  choice :: PermissionChoice
  answer :: string
  autoApproved :: bool

text \<open>
  The operations on one ask, each a critical section under the ask's mutex. A boolean result is the
  one the method returns; \<open>autoApproveOnce\<close> takes the mutex twice, so its two halves are separate.
\<close>

definition isQuestion :: "pendingAsk \<Rightarrow> bool" where
  "isQuestion a \<longleftrightarrow> TrimSpace (Question a) \<noteq> []"

definition isOpen :: "pendingAsk \<Rightarrow> bool" where
  "isOpen a \<longleftrightarrow> ask_state a = askOpen"

definition wasAutoApproved :: "pendingAsk \<Rightarrow> bool" where
  "wasAutoApproved a = autoApproved a"

definition clientReply :: "PermissionChoice \<Rightarrow> pendingAsk \<Rightarrow> bool \<times> pendingAsk" where
  "clientReply c a =
     (if ask_state a \<noteq> askOpen then (False, a)
      else (True, a\<lparr>ask_state := askClientReplied, choice := c\<rparr>))"

definition recordClientAnswer :: "string \<Rightarrow> pendingAsk \<Rightarrow> bool \<times> pendingAsk" where
  "recordClientAnswer t a =
     (if ask_state a \<noteq> askOpen then (False, a)
      else (True, a\<lparr>ask_state := askClientReplied, answer := t\<rparr>))"

definition markAutoApproved :: "pendingAsk \<Rightarrow> pendingAsk" where
  "markAutoApproved a = a\<lparr>autoApproved := True\<rparr>"

definition autoApproveOnce :: "pendingAsk \<Rightarrow> bool \<times> pendingAsk" where
  "autoApproveOnce a =
     (case clientReply ALLOW_ONCE a of
        (False, a) \<Rightarrow> (False, a)
      | (True, a) \<Rightarrow> (True, markAutoApproved a))"

definition clientAnswerValue :: "pendingAsk \<Rightarrow> string option" where
  "clientAnswerValue a =
     (if ask_state a = askClientReplied \<and> answer a \<noteq> [] then Some (answer a) else None)"

definition clientChoice :: "pendingAsk \<Rightarrow> PermissionChoice option" where
  "clientChoice a = (if ask_state a = askClientReplied then Some (choice a) else None)"

text \<open>The turn-end read: the choice to apply, whether there is one, and whether the ask was still open.\<close>

definition resolveForFinalize :: "pendingAsk \<Rightarrow> (PermissionChoice \<times> bool \<times> bool) \<times> pendingAsk" where
  "resolveForFinalize a =
     (case ask_state a of
        askClientReplied \<Rightarrow> ((choice a, True, False), a)
      | askOpen \<Rightarrow> ((CHOICE_UNSPECIFIED, False, True), a\<lparr>ask_state := askFinalized\<rparr>)
      | askFinalized \<Rightarrow> ((CHOICE_UNSPECIFIED, False, False), a))"

definition consentResponse :: "PermissionChoice \<Rightarrow> string option" where
  "consentResponse c =
     (if c = ALLOW_ONCE \<or> c = ALLOW_SESSION then Some ''once''
      else if c = DENY then Some ''reject''
      else None)"

definition resolutionOutcome :: "PermissionChoice \<Rightarrow> string" where
  "resolutionOutcome c =
     (if c = ALLOW_SESSION then ''allow_session'' else if c = DENY then ''deny'' else ''allow_once'')"

subsection \<open>The registry of pending asks\<close>

text \<open>
  The registry holds pointers; an ask is only reached through its entry, so the entry holds the ask
  and a mutation through the pointer is an update of the entry.
\<close>

type_synonym pendingAskRegistry = "pendingAsk gomap gomap"

definition newPendingAskRegistry :: pendingAskRegistry where
  "newPendingAskRegistry = []"

definition putAsk :: "string \<Rightarrow> pendingAsk \<Rightarrow> pendingAskRegistry \<Rightarrow> pendingAskRegistry" where
  "putAsk convID a r =
     (if convID = [] \<or> AskID a = [] then r
      else AList.update convID (AList.update (AskID a) a (inner r convID)) r)"

definition getAsk :: "string \<Rightarrow> string \<Rightarrow> pendingAskRegistry \<Rightarrow> pendingAsk option" where
  "getAsk convID askID r = map_of (inner r convID) askID"

definition removeAsk :: "string \<Rightarrow> string \<Rightarrow> pendingAskRegistry \<Rightarrow> pendingAskRegistry" where
  "removeAsk convID askID r =
     (let held = AList.delete askID (inner r convID)
      in if held = [] then AList.delete convID r else AList.update convID held r)"

definition removeConversation :: "string \<Rightarrow> pendingAskRegistry \<Rightarrow> pendingAsk list \<times> pendingAskRegistry" where
  "removeConversation convID r = (map snd (inner r convID), AList.delete convID r)"

definition listAsks :: "string \<Rightarrow> pendingAskRegistry \<Rightarrow> pendingAsk list" where
  "listAsks convID r = map snd (inner r convID)"

definition hasOpenAsk :: "string \<Rightarrow> pendingAskRegistry \<Rightarrow> bool" where
  "hasOpenAsk convID r = list_ex isOpen (listAsks convID r)"

text \<open>A mutation through the pointer the registry handed out.\<close>

definition setAsk :: "string \<Rightarrow> string \<Rightarrow> pendingAsk \<Rightarrow> pendingAskRegistry \<Rightarrow> pendingAskRegistry" where
  "setAsk convID askID a r = AList.update convID (AList.update askID a (inner r convID)) r"

end
