(* ===== verification/Consent_Laws.thy ===== *)
theory Consent_Laws
  imports Consent_Store
begin

text \<open>
  What the consent stores promise: the grant store refines a set of directories per conversation and
  never holds a volume root, every store keeps conversations apart, and an ask is settled once.
\<close>

subsection \<open>The grant store refines a set of directories\<close>

definition granted :: "grantStore \<Rightarrow> string \<Rightarrow> string set" where
  "granted g c = fst ` set (inner g c)"

datatype grant_op = OpGrant int string string | OpRevoke string string | OpClearGrants string

fun perform_grant :: "grant_op \<Rightarrow> grantStore \<Rightarrow> grantStore" where
  "perform_grant (OpGrant now c d) g = Grant now c d g"
| "perform_grant (OpRevoke c d) g = snd (Revoke c d g)"
| "perform_grant (OpClearGrants c) g = ClearGrants c g"

fun grant_conv :: "grant_op \<Rightarrow> string" where
  "grant_conv (OpGrant now c d) = c"
| "grant_conv (OpRevoke c d) = c"
| "grant_conv (OpClearGrants c) = c"

text \<open>The abstract operations on a family of sets of directories.\<close>

fun spec_grant :: "grant_op \<Rightarrow> (string \<Rightarrow> string set) \<Rightarrow> string \<Rightarrow> string set" where
  "spec_grant (OpGrant now c d) G =
     (if c = [] \<or> TrimSpace d = [] \<or> isFilesystemRoot (Clean d) then G
      else G(c := insert (Clean d) (G c)))"
| "spec_grant (OpRevoke c d) G =
     (if c = [] \<or> TrimSpace d = [] then G else G(c := G c - {Clean d}))"
| "spec_grant (OpClearGrants c) G = G(c := {})"

lemma granted_iff:
  "x \<in> granted g c \<longleftrightarrow> (\<exists>held v. map_of g c = Some held \<and> map_of held x = Some v)"
proof (cases "map_of g c")
  case (Some held)
  then have "x \<in> granted g c \<longleftrightarrow> x \<in> fst ` set held" by (simp add: granted_def inner_def)
  then show ?thesis using Some map_of_eq_None_iff [of held x] by auto
qed (simp add: granted_def inner_def)

lemma granted_Grant:
  "granted (Grant now c d g) =
    (if c = [] \<or> TrimSpace d = [] \<or> isFilesystemRoot (Clean d) then granted g
     else (granted g)(c := insert (Clean d) (granted g c)))"
  by (auto simp: Grant_def granted_def fun_eq_iff Let_def)

lemma Revoke_held:
  assumes "c \<noteq> []" and "TrimSpace d \<noteq> []" and "Clean d \<in> granted g c"
  shows "fst (Revoke c d g)" and "inner (snd (Revoke c d g)) c = AList.delete (Clean d) (inner g c)"
    and "c' \<noteq> c \<Longrightarrow> inner (snd (Revoke c d g)) c' = inner g c'"
proof -
  from assms(3) obtain held v where m: "map_of g c = Some held" "map_of held (Clean d) = Some v"
    by (auto simp: granted_iff)
  then have "inner g c = held" by (simp add: inner_def)
  with m assms(1,2) show "fst (Revoke c d g)" "inner (snd (Revoke c d g)) c = AList.delete (Clean d) (inner g c)"
    "c' \<noteq> c \<Longrightarrow> inner (snd (Revoke c d g)) c' = inner g c'"
    by (simp_all add: Revoke_def Let_def)
qed

lemma Revoke_absent:
  "\<not> (c \<noteq> [] \<and> TrimSpace d \<noteq> [] \<and> Clean d \<in> granted g c) \<Longrightarrow> Revoke c d g = (False, g)"
  by (auto simp: Revoke_def granted_iff split: option.splits)

lemma granted_Revoke:
  "granted (snd (Revoke c d g)) =
    (if c = [] \<or> TrimSpace d = [] then granted g else (granted g)(c := granted g c - {Clean d}))"
proof (cases "c \<noteq> [] \<and> TrimSpace d \<noteq> [] \<and> Clean d \<in> granted g c")
  case True
  then show ?thesis using Revoke_held [of c d g] by (auto simp: granted_def fun_eq_iff)
next
  case False
  then show ?thesis using Revoke_absent [OF False] by (auto simp: fun_eq_iff)
qed

lemma granted_perform: "granted (perform_grant op g) = spec_grant op (granted g)"
  by (cases op) (simp_all add: granted_Grant granted_Revoke, simp add: ClearGrants_def granted_def fun_eq_iff)

interpretation grants: conversation_store granted perform_grant grant_conv
    "\<lambda>op. case op of OpClearGrants c \<Rightarrow> True | _ \<Rightarrow> False" "{}"
proof
  fix c op s
  show "c \<noteq> grant_conv op \<Longrightarrow> granted (perform_grant op s) c = granted s c"
    by (cases op) (simp_all only: granted_perform, simp_all)
  show "(case op of OpClearGrants c \<Rightarrow> True | _ \<Rightarrow> False) \<Longrightarrow> granted (perform_grant op s) (grant_conv op) = {}"
    by (cases op) (simp_all only: granted_perform, simp_all)
qed

text \<open>The invariant of the store: distinct keys, and every directory held is clean and no root.\<close>

definition grants_ok :: "grantStore \<Rightarrow> bool" where
  "grants_ok g \<longleftrightarrow> gomap_ok g \<and> (\<forall>c. \<forall>d \<in> granted g c. Clean d = d \<and> \<not> isFilesystemRoot d)"

lemma grants_ok_new: "grants_ok newGrantStore"
  by (simp add: grants_ok_def newGrantStore_def granted_def)

lemma gomap_ok_perform: "gomap_ok g \<Longrightarrow> gomap_ok (perform_grant op g)"
proof (cases op)
  case (OpRevoke c d)
  assume g: "gomap_ok g"
  show ?thesis
  proof (cases "c \<noteq> [] \<and> TrimSpace d \<noteq> [] \<and> Clean d \<in> granted g c")
    case True
    then obtain held where "map_of g c = Some held" "inner g c = held"
      by (auto simp: granted_iff inner_def)
    then show ?thesis using g gomap_ok_inner [OF g, of c] OpRevoke True
      by (auto simp: Revoke_def Let_def gomap_ok_update gomap_ok_delete distinct_delete split: option.splits)
  qed (use Revoke_absent OpRevoke g in simp)
qed (auto simp: Grant_def ClearGrants_def Let_def gomap_ok_update gomap_ok_delete distinct_update gomap_ok_inner)

lemma grants_ok_perform: "grants_ok g \<Longrightarrow> grants_ok (perform_grant op g)"
  unfolding grants_ok_def granted_perform by (cases op) (auto simp: gomap_ok_perform simp del: perform_grant.simps)

lemma grants_ok_run: "grants_ok g \<Longrightarrow> grants_ok (fold perform_grant ops g)"
  by (induction ops arbitrary: g) (simp_all add: grants_ok_perform)

lemma set_GrantRoots: "c \<noteq> [] \<Longrightarrow> set (GrantRoots c g) = granted g c"
  by (simp add: GrantRoots_def granted_def)

lemma isFilesystemRoot_abs: "IsAbs d \<Longrightarrow> Clean d = d \<Longrightarrow> isFilesystemRoot d \<longleftrightarrow> d = ''/''"
proof -
  assume d: "IsAbs d" "Clean d = d"
  define segs where "segs = segs_of d"
  have eq: "d = abs_path segs" and n: "norm_segs segs" using d Clean_abs [of d] by (simp_all add: segs_def)
  have "norm_segs (butlast segs)" using n by (cases segs rule: rev_cases) simp_all
  then have "isFilesystemRoot d \<longleftrightarrow> butlast segs = segs"
    using n by (simp add: isFilesystemRoot_def eq PathDir_abs_path abs_path_inject)
  also have "\<dots> \<longleftrightarrow> segs = []" by (cases segs rule: rev_cases) simp_all
  finally show ?thesis using n by (simp add: eq abs_path_root)
qed

lemma root_not_granted: "grants_ok g \<Longrightarrow> ''/'' \<notin> granted g c"
proof
  assume "grants_ok g" and "''/'' \<in> granted g c"
  then have "Clean ''/'' = ''/''" "\<not> isFilesystemRoot ''/''" by (auto simp: grants_ok_def)
  then show False using isFilesystemRoot_abs [of "''/''"] by (simp add: IsAbs_def)
qed

text \<open>The store after any history of operations.\<close>

abbreviation grants_after :: "grant_op list \<Rightarrow> grantStore" where
  "grants_after ops \<equiv> fold perform_grant ops newGrantStore"

lemma grants_ok_after: "grants_ok (grants_after ops)"
  by (rule grants_ok_run [OF grants_ok_new])

lemma granted_run: "granted (fold perform_grant ops g) = fold spec_grant ops (granted g)"
  by (induction ops arbitrary: g) (simp_all only: fold_simps comp_apply id_apply granted_perform)

lemma HasGrant_iff:
  assumes "c \<noteq> []" and "TrimSpace dir \<noteq> []"
  shows "HasGrant c dir g \<longleftrightarrow> (\<exists>d \<in> granted g c. Clean dir = d \<or> HasPrefix (Clean dir) (d @ ''/''))"
  using assms by (simp add: HasGrant_def granted_def list_ex_iff case_prod_unfold Let_def)

lemma IsAbs_not_blank: "IsAbs p \<Longrightarrow> TrimSpace p \<noteq> []"
proof -
  assume "IsAbs p"
  then obtain q where "p = slash # q" by (auto simp: IsAbs_def HasPrefix_iff slash_string)
  moreover have "\<not> is_space slash" by (simp add: is_space_def slash_def)
  ultimately show ?thesis by (auto simp: TrimSpace_def)
qed

text \<open>On absolute paths the string test is containment of directories.\<close>

lemma covers_iff:
  assumes "Clean d = d" and "\<not> isFilesystemRoot d" and "IsAbs t"
  shows "(Clean t = d \<or> HasPrefix (Clean t) (d @ ''/'')) \<longleftrightarrow> IsAbs d \<and> prefix (segs_of d) (segs_of t)"
proof (cases "IsAbs d")
  case True
  then have d: "d = abs_path (segs_of d)" using Clean_abs assms(1) by simp
  have "segs_of d \<noteq> []"
    using isFilesystemRoot_abs [OF True assms(1)] assms(2) d abs_path_root [of "segs_of d"] by auto
  then have "HasPrefix (Clean t) (d @ ''/'') \<longleftrightarrow> strict_prefix (segs_of d) (segs_of t)"
    using abs_path_below [of "segs_of d" "segs_of t"] d assms(3) by (simp add: Clean_abs)
  moreover have "Clean t = d \<longleftrightarrow> segs_of d = segs_of t"
    using abs_path_inject [of "segs_of t" "segs_of d"] d assms(3) by (auto simp: Clean_abs)
  ultimately show ?thesis using True by (auto simp: strict_prefix_def)
next
  case False
  have "d \<noteq> []" using assms(1) Clean_neq_Nil [of d] by auto
  moreover have "IsAbs (Clean t)" using assms(3) by simp
  ultimately show ?thesis using False
    by (cases d) (auto simp: IsAbs_def HasPrefix_iff)
qed

text \<open>
  However the session's grants were given, revoked and cleared, no conversation ever holds a
  volume root: none is among the directories handed to the execution guard, and no grant answers for
  the filesystem root itself.
\<close>

theorem no_root_ever_granted:
  "list_all (\<lambda>d. \<not> isFilesystemRoot d \<and> d \<noteq> ''/'') (GrantRoots c (grants_after ops)) \<and>
   \<not> HasGrant c ''/'' (grants_after ops)"
proof -
  let ?g = "grants_after ops"
  have ok: "grants_ok ?g" by (rule grants_ok_after)
  have roots: "set (GrantRoots c ?g) \<subseteq> granted ?g c" by (auto simp: GrantRoots_def granted_def)
  have "\<not> HasGrant c ''/'' ?g"
  proof (cases "c = []")
    case False
    have slash: "IsAbs ''/''" "segs_of ''/'' = []"
      using segs_of_abs_path [of "[]"] by (simp_all add: IsAbs_def abs_path_def)
    show ?thesis
    proof
      assume "HasGrant c ''/'' ?g"
      then obtain d where d: "d \<in> granted ?g c" "Clean ''/'' = d \<or> HasPrefix (Clean ''/'') (d @ ''/'')"
        using HasGrant_iff [OF False IsAbs_not_blank [OF slash(1)]] by blast
      with ok have "Clean d = d" "\<not> isFilesystemRoot d" by (auto simp: grants_ok_def)
      with d slash covers_iff have "IsAbs d" "segs_of d = []" by (auto simp: slash(2))
      then have "d = ''/''" using \<open>Clean d = d\<close> Clean_abs [of d] by (simp add: abs_path_def)
      then show False using d root_not_granted [OF ok] by simp
    qed
  qed (simp add: HasGrant_def)
  then show ?thesis using ok roots root_not_granted [OF ok, of c]
    by (auto simp: list_all_iff grants_ok_def)
qed

text \<open>
  A grant covers its subtree and nothing else: in every reachable store an absolute directory is
  covered iff one of the conversation's directories is an ancestor of it, or it itself, element by
  element. A sibling that only shares leading characters is not covered.
\<close>

theorem HasGrant_subtree:
  assumes "c \<noteq> []" and "IsAbs dir"
  shows "HasGrant c dir (grants_after ops) \<longleftrightarrow>
    (\<exists>d \<in> set (GrantRoots c (grants_after ops)). IsAbs d \<and> prefix (segs_of d) (segs_of dir))"
proof -
  let ?g = "grants_after ops"
  have "\<forall>d \<in> granted ?g c. Clean d = d \<and> \<not> isFilesystemRoot d"
    using grants_ok_after by (auto simp: grants_ok_def)
  then show ?thesis
    unfolding HasGrant_iff [OF assms(1) IsAbs_not_blank [OF assms(2)]] set_GrantRoots [OF assms(1)]
    using covers_iff [OF _ _ assms(2)] by (intro bex_cong) auto
qed

definition sample_grants :: "grant_op list" where
  "sample_grants = [OpGrant 1 ''c'' ''/src/foo/'', OpGrant 2 ''c'' ''/'', OpGrant 3 ''d'' ''/etc'']"

theorem HasGrant_subtree_witness:
  "HasGrant ''c'' ''/src/foo/pkg'' (grants_after sample_grants) \<and>
   \<not> HasGrant ''c'' ''/src/foobar'' (grants_after sample_grants)"
proof -
  have r: "GrantRoots ''c'' (grants_after sample_grants) = [''/src/foo'']" by code_simp
  have s: "segs_of ''/src/foo'' = [''src'', ''foo'']" "segs_of ''/src/foo/pkg'' = [''src'', ''foo'', ''pkg'']"
    "segs_of ''/src/foobar'' = [''src'', ''foobar'']" by code_simp+
  show ?thesis
    using HasGrant_subtree [of "''c''" "''/src/foo/pkg''" sample_grants]
      HasGrant_subtree [of "''c''" "''/src/foobar''" sample_grants]
    by (simp add: r s IsAbs_def HasPrefix_def)
qed

text \<open>
  C33. The store implements a set of directories per conversation. After any history, the sorted list
  the guard reads and the list the client sees enumerate exactly the set that the abstract insertions,
  removals and clears leave, without repetition.
\<close>

theorem grant_store_refines:
  "GrantRoots c (grants_after ops) =
     (if c = [] then [] else sorted_list_of_set (fold spec_grant ops (\<lambda>_. {}) c)) \<and>
   map grant_Directory (ListGrants c (grants_after ops)) = GrantRoots c (grants_after ops)"
proof -
  let ?g = "grants_after ops"
  have "granted newGrantStore = (\<lambda>_. {})" by (simp add: granted_def newGrantStore_def fun_eq_iff)
  then have eq: "granted ?g c = fold spec_grant ops (\<lambda>_. {}) c" by (simp add: granted_run)
  have dist: "distinct (map fst (inner ?g c))"
    by (rule gomap_ok_inner) (use grants_ok_after [of ops] in \<open>simp add: grants_ok_def\<close>)
  have "sort (map fst (inner ?g c)) = sorted_list_of_set (granted ?g c)"
    using dist by (simp add: granted_def sorted_list_of_set_sort_remdups distinct_remdups_id flip: set_map)
  moreover have "map fst (sort_key fst (inner ?g c)) = sort (map fst (inner ?g c))"
    using dist by (intro sorted_distinct_set_unique) (simp_all add: distinct_map)
  ultimately show ?thesis
    by (simp add: GrantRoots_def ListGrants_def eq comp_def case_prod_unfold)
qed

text \<open>
  Revoking what the list shows always removes that grant, and reports it; afterwards exactly the
  directories some other grant covers are still covered.
\<close>

lemma Revoke_listed:
  assumes "c \<noteq> []" and "d \<in> set (GrantRoots c (grants_after ops))" and "TrimSpace d \<noteq> []"
  shows "fst (Revoke c d (grants_after ops))"
    and "granted (snd (Revoke c d (grants_after ops))) c = granted (grants_after ops) c - {d}"
proof -
  have d: "d \<in> granted (grants_after ops) c" using assms(1,2) by (simp add: set_GrantRoots)
  then have "Clean d = d" using grants_ok_after by (auto simp: grants_ok_def)
  with d assms(1,3) show "fst (Revoke c d (grants_after ops))"
    "granted (snd (Revoke c d (grants_after ops))) c = granted (grants_after ops) c - {d}"
    by (simp_all add: Revoke_held granted_Revoke)
qed

subsection \<open>The other stores keep conversations apart\<close>

datatype once_op = OpRecord string "string list" | OpClearOnce string

fun perform_once :: "once_op \<Rightarrow> onceStore \<Rightarrow> onceStore" where
  "perform_once (OpRecord c ts) st = RecordOnce c ts st"
| "perform_once (OpClearOnce c) st = ClearOnce c st"

fun once_conv :: "once_op \<Rightarrow> string" where
  "once_conv (OpRecord c ts) = c"
| "once_conv (OpClearOnce c) = c"

interpretation once: conversation_store inner perform_once once_conv
    "\<lambda>op. case op of OpClearOnce c \<Rightarrow> True | _ \<Rightarrow> False" "[]"
proof
  fix c op and s :: onceStore
  show "c \<noteq> once_conv op \<Longrightarrow> inner (perform_once op s) c = inner s c"
    by (cases op) (simp_all add: RecordOnce_def ClearOnce_def)
  show "(case op of OpClearOnce c \<Rightarrow> True | _ \<Rightarrow> False) \<Longrightarrow> inner (perform_once op s) (once_conv op) = []"
    by (cases op) (simp_all add: ClearOnce_def)
qed

datatype fullsend_op = OpSet string bool | OpClearFullsend string

fun perform_fullsend :: "fullsend_op \<Rightarrow> fullsendStore \<Rightarrow> fullsendStore" where
  "perform_fullsend (OpSet c on) f = SetFullsend c on f"
| "perform_fullsend (OpClearFullsend c) f = ClearFullsend c f"

fun fullsend_conv :: "fullsend_op \<Rightarrow> string" where
  "fullsend_conv (OpSet c on) = c"
| "fullsend_conv (OpClearFullsend c) = c"

interpretation fullsend: conversation_store "\<lambda>f c. FullsendEnabled c f" perform_fullsend fullsend_conv
    "\<lambda>op. case op of OpSet c on \<Rightarrow> \<not> on | OpClearFullsend c \<Rightarrow> True" False
proof
  fix c op s
  show "c \<noteq> fullsend_conv op \<Longrightarrow> FullsendEnabled c (perform_fullsend op s) = FullsendEnabled c s"
    by (cases op) (simp_all add: FullsendEnabled_def SetFullsend_def ClearFullsend_def update_conv' delete_conv')
  show "(case op of OpSet c on \<Rightarrow> \<not> on | OpClearFullsend c \<Rightarrow> True) \<Longrightarrow>
      FullsendEnabled (fullsend_conv op) (perform_fullsend op s) = False"
    by (cases op) (simp_all add: FullsendEnabled_def SetFullsend_def ClearFullsend_def delete_conv')
qed

datatype registry_op =
  OpPut string pendingAsk | OpMutate string string pendingAsk | OpRemove string string | OpRemoveAll string

fun perform_registry :: "registry_op \<Rightarrow> pendingAskRegistry \<Rightarrow> pendingAskRegistry" where
  "perform_registry (OpPut c a) r = putAsk c a r"
| "perform_registry (OpMutate c i a) r = setAsk c i a r"
| "perform_registry (OpRemove c i) r = removeAsk c i r"
| "perform_registry (OpRemoveAll c) r = snd (removeConversation c r)"

fun registry_conv :: "registry_op \<Rightarrow> string" where
  "registry_conv (OpPut c a) = c"
| "registry_conv (OpMutate c i a) = c"
| "registry_conv (OpRemove c i) = c"
| "registry_conv (OpRemoveAll c) = c"

interpretation registry: conversation_store inner perform_registry registry_conv
    "\<lambda>op. case op of OpRemoveAll c \<Rightarrow> True | _ \<Rightarrow> False" "[]"
proof
  fix c op and s :: pendingAskRegistry
  show "c \<noteq> registry_conv op \<Longrightarrow> inner (perform_registry op s) c = inner s c"
    by (cases op) (simp_all add: putAsk_def setAsk_def removeAsk_def removeConversation_def Let_def)
  show "(case op of OpRemoveAll c \<Rightarrow> True | _ \<Rightarrow> False) \<Longrightarrow> inner (perform_registry op s) (registry_conv op) = []"
    by (cases op) (simp_all add: removeConversation_def)
qed

text \<open>
  A conversation that ended leaves nothing behind. Once its grants and once-targets are cleared and
  its asks removed, no history of operations on other conversations brings back a directory, a
  once-target or an ask under its id.
\<close>

theorem ended_conversation_stays_empty:
  assumes "c \<notin> grant_conv ` set gs" and "c \<notin> once_conv ` set os" and "c \<notin> registry_conv ` set rs"
  shows "GrantRoots c (fold perform_grant gs (ClearGrants c g)) = [] \<and>
    OnceTargets c (fold perform_once os (ClearOnce c st)) = [] \<and>
    listAsks c (fold perform_registry rs (snd (removeConversation c r))) = []"
proof -
  have "granted (fold perform_grant gs (ClearGrants c g)) c = {}"
    using grants.stays_cleared [of "OpClearGrants c" gs g] assms(1) by simp
  moreover have "inner (fold perform_once os (ClearOnce c st)) c = []"
    using once.stays_cleared [of "OpClearOnce c" os st] assms(2) by simp
  moreover have "inner (fold perform_registry rs (snd (removeConversation c r))) c = []"
    using registry.stays_cleared [of "OpRemoveAll c" rs r] assms(3) by simp
  ultimately show ?thesis by (auto simp: GrantRoots_def OnceTargets_def listAsks_def granted_def)
qed

theorem ended_conversation_stays_empty_witness:
  "GrantRoots ''c'' (fold perform_grant [OpGrant 5 ''d'' ''/etc''] (ClearGrants ''c'' (grants_after sample_grants))) = []"
  using ended_conversation_stays_empty [of "''c''" "[OpGrant 5 ''d'' ''/etc'']" "[]" "[]" "grants_after sample_grants" "[]" "[]"]
  by simp

subsection \<open>An ask is settled once\<close>

text \<open>
  The critical sections that threads run on one ask: a client's choice or answer, FULLSEND's reply and
  its later mark, and the turn's expiry. The flag says whether the section settled the ask: its
  caller reports success, or answers the serve.
\<close>

datatype ask_op = OpReply PermissionChoice | OpAnswer string | OpMarkAuto | OpFinalize

fun perform_ask :: "ask_op \<Rightarrow> pendingAsk \<Rightarrow> bool \<times> pendingAsk" where
  "perform_ask (OpReply c) a = clientReply c a"
| "perform_ask (OpAnswer t) a = recordClientAnswer t a"
| "perform_ask OpMarkAuto a = (False, markAutoApproved a)"
| "perform_ask OpFinalize a = (case resolveForFinalize a of ((_, _, wasOpen), a') \<Rightarrow> (wasOpen, a'))"

fun run_ask :: "ask_op list \<Rightarrow> pendingAsk \<Rightarrow> bool list \<times> pendingAsk" where
  "run_ask [] a = ([], a)"
| "run_ask (op # ops) a =
     (case perform_ask op a of (w, a') \<Rightarrow> (case run_ask ops a' of (ws, a'') \<Rightarrow> (w # ws, a'')))"

definition settling :: "ask_op \<Rightarrow> bool" where
  "settling op \<longleftrightarrow> op \<noteq> OpMarkAuto"

text \<open>What a settled ask was settled as.\<close>

definition outcome :: "pendingAsk \<Rightarrow> askState \<times> PermissionChoice \<times> string" where
  "outcome a = (ask_state a, choice a, answer a)"

lemmas ask_defs = clientReply_def recordClientAnswer_def markAutoApproved_def resolveForFinalize_def
  settling_def outcome_def

lemma perform_ask_settled:
  "ask_state a \<noteq> askOpen \<Longrightarrow>
    \<not> fst (perform_ask op a) \<and> outcome (snd (perform_ask op a)) = outcome a"
  by (cases op) (auto simp: ask_defs split: askState.splits)

lemma perform_ask_open:
  "ask_state a = askOpen \<Longrightarrow>
    fst (perform_ask op a) = settling op \<and> (ask_state (snd (perform_ask op a)) = askOpen \<longleftrightarrow> \<not> settling op)"
  by (cases op) (auto simp: ask_defs)

lemma run_ask_settled:
  "ask_state a \<noteq> askOpen \<Longrightarrow>
    filter id (fst (run_ask ops a)) = [] \<and> outcome (snd (run_ask ops a)) = outcome a"
proof (induction ops arbitrary: a)
  case (Cons op ops)
  have "ask_state (snd (perform_ask op a)) \<noteq> askOpen"
    using perform_ask_settled [OF Cons.prems, of op] Cons.prems by (auto simp: outcome_def)
  then show ?case using Cons.IH [of "snd (perform_ask op a)"] perform_ask_settled [OF Cons.prems, of op]
    by (auto simp: split_beta)
qed simp

lemma run_ask_not_settling:
  "ask_state a = askOpen \<Longrightarrow> list_all (\<lambda>op. \<not> settling op) us \<Longrightarrow>
    ask_state (snd (run_ask us a)) = askOpen \<and> filter id (fst (run_ask us a)) = []"
proof (induction us arbitrary: a)
  case (Cons op us)
  then show ?case using perform_ask_open [OF Cons.prems(1), of op] Cons.IH [of "snd (perform_ask op a)"]
    by (auto simp: split_beta)
qed simp

lemma run_ask_append:
  "run_ask (us @ vs) a =
    (fst (run_ask us a) @ fst (run_ask vs (snd (run_ask us a))), snd (run_ask vs (snd (run_ask us a))))"
  by (induction us arbitrary: a) (auto simp: split_beta)

text \<open>
  C17. In every interleaving of replies, answers, FULLSEND approvals and the turn's expiry on an open
  ask, exactly one section settles it, the first that can, and what it recorded is the outcome for
  good: no later reply is reported as applied and none changes the choice or the answer.
\<close>

theorem ask_settled_once:
  assumes "ask_state a = askOpen" and "list_all (\<lambda>op. \<not> settling op) us" and "settling op"
  shows "length (filter id (fst (run_ask (us @ op # vs) a))) = 1 \<and>
    fst (run_ask (us @ op # vs) a) ! length us \<and>
    outcome (snd (run_ask (us @ op # vs) a)) = outcome (snd (perform_ask op (snd (run_ask us a))))"
proof -
  let ?a = "snd (run_ask us a)"
  have us: "ask_state ?a = askOpen" "filter id (fst (run_ask us a)) = []"
    using run_ask_not_settling assms(1,2) by auto
  have len: "length (fst (run_ask us a)) = length us"
    by (induction us arbitrary: a) (auto simp: split_beta)
  have op: "fst (perform_ask op ?a)" "ask_state (snd (perform_ask op ?a)) \<noteq> askOpen"
    using perform_ask_open [OF us(1), of op] assms(3) by auto
  show ?thesis using run_ask_settled [OF op(2), of vs] op(1) us(2) len
    by (simp add: run_ask_append split_beta nth_append)
qed

definition sample_action :: askAction where
  "sample_action = \<lparr>Tool = ''write'', Targets = [''/etc/x''], Command = [], CallID = [],
     action_AskID = ''a1'', action_Key = ''/etc'', Input = []\<rparr>"

definition sample_ask :: pendingAsk where
  "sample_ask = \<lparr>AskID = ''a1'', ConversationID = ''c'', SessionID = ''s'', Action = sample_action, Key = ''/etc'',
     ask_Tool = ''write'', ask_Command = [], ask_Targets = [''/etc/x''], Directory = ''/etc'', InsideProject = False,
     Summary = ''modify /etc/x (write)'', ask_DenyBelow = [], AbsTargets = [''/etc/x''], Question = [],
     Options = [], AllowOther = False, ask_state = askOpen, choice = CHOICE_UNSPECIFIED, answer = [],
     autoApproved = False\<rparr>"

theorem ask_settled_once_witness:
  "length (filter id (fst (run_ask [OpMarkAuto, OpReply DENY, OpFinalize, OpReply ALLOW_SESSION] sample_ask))) = 1"
  using ask_settled_once [of sample_ask "[OpMarkAuto]" "OpReply DENY" "[OpFinalize, OpReply ALLOW_SESSION]"]
  by (simp add: settling_def sample_ask_def)

end
