(* ===== verification/Consent_Scan.thy ===== *)
theory Consent_Scan
  imports Worker_Restrict Never_Allow Guard_Shim Consent_Laws
begin

text \<open>
  The command-line reading of the consent gate (\<open>internal/askorchicon/consent.go\<close>): the never-allow
  check, the tokenizer, the heredoc stripper and the extraction of the paths a command names. Go walks
  these strings rune by rune; every character the code compares with is ASCII, so on UTF-8 text the
  walk over bytes used here takes the same branches and keeps the same bytes.
\<close>

subsection \<open>More of package strings\<close>

definition newline :: char where
  "newline = CHR 0x0A"

definition TrimCut :: "string \<Rightarrow> string \<Rightarrow> string" where
  "TrimCut s cutset =
     rev (dropWhile (\<lambda>c. c \<in> set cutset) (rev (dropWhile (\<lambda>c. c \<in> set cutset) s)))"

fun IndexByte :: "string \<Rightarrow> char \<Rightarrow> nat option" where
  "IndexByte [] c = None"
| "IndexByte (x # xs) c = (if x = c then Some 0 else map_option Suc (IndexByte xs c))"

definition ContainsAny :: "string \<Rightarrow> string \<Rightarrow> bool" where
  "ContainsAny s cs = list_ex (\<lambda>c. c \<in> set cs) s"

fun fields_loop :: "string \<Rightarrow> string \<Rightarrow> string list" where
  "fields_loop [] w = (if w = [] then [] else [w])"
| "fields_loop (x # xs) w =
     (if is_space x then (if w = [] then fields_loop xs [] else w # fields_loop xs [])
      else fields_loop xs (w @ [x]))"

definition Fields :: "string \<Rightarrow> string list" where
  "Fields s = fields_loop s []"

definition CountByte :: "string \<Rightarrow> char \<Rightarrow> nat" where
  "CountByte s c = length (filter (\<lambda>x. x = c) s)"

subsection \<open>What an ask is about\<close>

definition isBashAsk :: "string \<Rightarrow> bool" where
  "isBashAsk tool =
     (let t = ToLower (TrimSpace tool)
      in t = ''bash'' \<or> t = ''shell'' \<or> t = ''sh'' \<or> Contains t ''bash'')"

fun wildcard_scan :: "bool \<Rightarrow> string \<Rightarrow> bool" where
  "wildcard_scan star [] = star"
| "wildcard_scan star (r # s) =
     (if r = CHR ''*'' then wildcard_scan True s
      else if r = CHR ''/'' \<or> r = CHR 0x5C \<or> r = CHR '' '' \<or> r = CHR 0x09 \<or> r = CHR ''.'' then wildcard_scan star s
      else False)"

definition isWildcardPattern :: "string \<Rightarrow> bool" where
  "isWildcardPattern s = wildcard_scan False s"

definition realTargets :: "string list \<Rightarrow> string list" where
  "realTargets ts = filter (\<lambda>t. \<not> (t = [] \<or> t = ''.'' \<or> isWildcardPattern t)) (map TrimSpace ts)"

definition askActionResolved :: "askAction \<Rightarrow> bool" where
  "askActionResolved a \<longleftrightarrow> realTargets (Targets a) \<noteq> [] \<or> TrimSpace (Command a) \<noteq> []"

subsection \<open>The never-allow class\<close>

text \<open>
  The regular expression \<open>shellGlobMatch\<close> builds, as a list of its atoms between the anchors:
  \<open>.*\<close>, \<open>.\<close> and a quoted literal. In Go's syntax, without the flag \<open>s\<close>, a dot matches everything
  but a newline, and without the flag \<open>m\<close> the anchors stand for the ends of the text.
\<close>

datatype rx = RxDotStar | RxDot | RxLit char

definition glob_regexp :: "string \<Rightarrow> rx list" where
  "glob_regexp pat =
     map (\<lambda>r. if r = CHR ''*'' then RxDotStar else if r = CHR ''?'' then RxDot else RxLit r) pat"

fun rx_match :: "rx list \<Rightarrow> string \<Rightarrow> bool" where
  "rx_match [] s = (s = [])"
| "rx_match (RxDotStar # p) s =
     (rx_match p s \<or> (case s of [] \<Rightarrow> False | x # s' \<Rightarrow> x \<noteq> newline \<and> rx_match (RxDotStar # p) s'))"
| "rx_match (RxDot # p) s = (case s of [] \<Rightarrow> False | x # s' \<Rightarrow> x \<noteq> newline \<and> rx_match p s')"
| "rx_match (RxLit c # p) s = (case s of [] \<Rightarrow> False | x # s' \<Rightarrow> x = c \<and> rx_match p s')"

declare rx_match.simps(2) [simp del]

definition shellGlobMatch :: "string \<Rightarrow> string \<Rightarrow> bool" where
  "shellGlobMatch pat s = rx_match (glob_regexp pat) s"

fun class_scan :: "string list \<Rightarrow> string \<Rightarrow> string option" where
  "class_scan [] cmd = None"
| "class_scan (pat # pats) cmd = (if shellGlobMatch pat cmd then Some pat else class_scan pats cmd)"

interpretation class_rules: first_match class_scan shellGlobMatch
  by unfold_locales simp_all

definition strconvQuote :: "string \<Rightarrow> string" where
  "strconvQuote s = [CHR 0x22] @ s @ [CHR 0x22]"

definition binaryClassRefusal :: "askAction \<Rightarrow> string" where
  "binaryClassRefusal a =
     (if \<not> isBashAsk (Tool a) \<or> TrimSpace (Command a) = [] then []
      else (case class_scan CommandPatterns (TrimSpace (Command a)) of
              Some pat \<Rightarrow>
                ''never allow: this command is in the never-allow class (pattern '' @ strconvQuote pat @
                '') and can never be approved, not even with a directory grant''
            | None \<Rightarrow> []))"

subsection \<open>Words of a command\<close>

record cmdToken =
  tok :: string
  quoted :: bool

text \<open>The scanner's variables: the word so far, the open quote, and the three flags.\<close>

fun tokens_loop :: "string \<Rightarrow> string \<Rightarrow> char option \<Rightarrow> bool \<Rightarrow> bool \<Rightarrow> bool \<Rightarrow> cmdToken list" where
  "tokens_loop [] b quote qd started escaped = (if started then [\<lparr>tok = b, quoted = qd\<rparr>] else [])"
| "tokens_loop (r # cmd) b quote qd started escaped =
     (if escaped then tokens_loop cmd (b @ [r]) quote qd started False
      else (case quote of
              Some q \<Rightarrow> if r = q then tokens_loop cmd b None qd started escaped
                        else tokens_loop cmd (b @ [r]) quote qd started escaped
            | None \<Rightarrow>
                if r = CHR 0x5C then tokens_loop cmd b None qd True True
                else if r = CHR 0x27 \<or> r = CHR 0x22 then tokens_loop cmd b (Some r) True True escaped
                else if r = CHR '' '' \<or> r = CHR 0x09 \<or> r = newline then
                  (if started then [\<lparr>tok = b, quoted = qd\<rparr>] else []) @
                  tokens_loop cmd [] None False False escaped
                else tokens_loop cmd (b @ [r]) None qd True escaped))"

definition commandTokens :: "string \<Rightarrow> cmdToken list" where
  "commandTokens cmd = tokens_loop cmd [] None False False False"

definition hasShellMetachar :: "string \<Rightarrow> bool" where
  "hasShellMetachar t = ContainsAny t (''^+!*,?$[]{}()|'' @ [CHR 0x5C])"

definition harmlessDevicePath :: "string \<Rightarrow> bool" where
  "harmlessDevicePath t \<longleftrightarrow>
     Clean t \<in> set [''/dev/null'', ''/dev/zero'', ''/dev/full'', ''/dev/random'', ''/dev/urandom'',
       ''/dev/stdin'', ''/dev/stdout'', ''/dev/stderr'', ''/dev/tty'', ''/dev/console'']"

definition is_digit :: "char \<Rightarrow> bool" where
  "is_digit c \<longleftrightarrow> (let n = (of_char c :: nat) in 48 \<le> n \<and> n \<le> 57)"

definition procIntrospectionPath :: "string \<Rightarrow> bool" where
  "procIntrospectionPath t =
     (let clean = Clean t
      in if \<not> HasPrefix clean ''/proc/'' then False
         else (let rest = TrimPrefix clean ''/proc/''
               in case IndexByte rest slash of
                    None \<Rightarrow> False
                  | Some i \<Rightarrow>
                      (let pid = take i rest; leaf = drop (Suc i) rest
                       in if leaf = [] then False
                          else if pid \<noteq> ''self'' \<and> pid \<noteq> ''thread-self'' \<and> (pid = [] \<or> \<not> list_all is_digit pid)
                          then False
                          else leaf \<in> set [''exe'', ''cwd'', ''root'', ''comm'', ''cmdline'', ''environ'', ''status'',
                            ''stat'', ''statm'', ''maps'', ''smaps'', ''io'', ''limits'', ''mountinfo'', ''mounts''])))"

definition looksLikePath :: "string \<Rightarrow> bool" where
  "looksLikePath t =
     (if HasSuffix t ''/'' then False
      else if HasPrefix t ''~/'' then True
      else 2 \<le> CountByte t slash)"

subsection \<open>Heredocs\<close>

fun heredoc_index :: "char option \<Rightarrow> string \<Rightarrow> nat option" where
  "heredoc_index quote [] = None"
| "heredoc_index quote (r # s) =
     (case quote of
        Some q \<Rightarrow> map_option Suc (heredoc_index (if r = q then None else quote) s)
      | None \<Rightarrow>
          if r = CHR 0x27 \<or> r = CHR 0x22 then map_option Suc (heredoc_index (Some r) s)
          else if r = CHR ''<'' \<and> HasPrefix s ''<'' then Some 0
          else map_option Suc (heredoc_index None s))"

definition indexHeredocOp :: "string \<Rightarrow> nat option" where
  "indexHeredocOp s = heredoc_index None s"

definition is_blank :: "char \<Rightarrow> bool" where
  "is_blank c \<longleftrightarrow> c = CHR '' '' \<or> c = CHR 0x09"

text \<open>The delimiter and the length of the operator, counted here as what is left of \<open>s\<close> behind it.\<close>

definition parseHeredocDelim :: "string \<Rightarrow> (string \<times> nat) option" where
  "parseHeredocDelim s =
     (if \<not> HasPrefix s ''<<'' then None
      else (let r = drop 2 s;
                r = (if HasPrefix r ''-'' then drop 1 r else r);
                r = dropWhile is_blank r
            in case r of
                 [] \<Rightarrow> None
               | x # r' \<Rightarrow>
                   if x = newline then None
                   else if x = CHR 0x27 \<or> x = CHR 0x22 then
                     (let delim = takeWhile (\<lambda>c. c \<noteq> x) r'; left = dropWhile (\<lambda>c. c \<noteq> x) r'
                      in if left = [] \<or> delim = [] then None
                         else Some (delim, length s - (length left - 1)))
                   else
                     (let delim = takeWhile (\<lambda>c. \<not> is_blank c \<and> c \<noteq> newline) r
                      in Some (delim, length s - (length r - length delim)))))"

lemma IndexByte_Some: "IndexByte s c = Some i \<Longrightarrow> i < length s \<and> s ! i = c \<and> c \<notin> set (take i s)"
  by (induction s arbitrary: i) (auto split: if_splits)

lemma IndexByte_None: "IndexByte s c = None \<longleftrightarrow> c \<notin> set s"
  by (induction s) auto

function cutHeredocBody :: "string \<Rightarrow> string \<Rightarrow> string" where
  "cutHeredocBody s delim =
     (case IndexByte s newline of
        None \<Rightarrow> []
      | Some nl \<Rightarrow>
          if TrimSuffix (take nl s) [CHR 0x0D] = delim then drop (Suc nl) s
          else cutHeredocBody (drop (Suc nl) s) delim)"
  by pat_completeness auto

termination
  by (relation "measure (\<lambda>(s, _). length s)") (auto dest!: IndexByte_Some)

declare cutHeredocBody.simps [simp del]

lemma cutHeredocBody_length: "length (cutHeredocBody s delim) \<le> length s"
proof (induction s delim rule: cutHeredocBody.induct)
  case (1 s delim)
  show ?case
  proof (cases "IndexByte s newline")
    case (Some nl)
    then show ?thesis using 1 [OF Some] by (subst cutHeredocBody.simps) auto
  qed (subst cutHeredocBody.simps, simp)
qed

text \<open>One turn of the loop: what is written out, and the rest to go on with, if any.\<close>

definition strip_step :: "string \<Rightarrow> string \<times> string option" where
  "strip_step rest =
     (case indexHeredocOp rest of
        None \<Rightarrow> (rest, None)
      | Some i \<Rightarrow>
          (case parseHeredocDelim (drop i rest) of
             None \<Rightarrow> (rest, None)
           | Some (delim, headerLen) \<Rightarrow>
               (let headerEnd = i + headerLen
                in case IndexByte (drop headerEnd rest) newline of
                     None \<Rightarrow> (rest, None)
                   | Some nl \<Rightarrow>
                       (take (headerEnd + nl + 1) rest,
                        Some (cutHeredocBody (drop (headerEnd + nl + 1) rest) delim)))))"

lemma strip_step_less: "strip_step rest = (w, Some rest') \<Longrightarrow> length rest' < length rest"
proof -
  assume "strip_step rest = (w, Some rest')"
  then obtain k nl delim where "rest' = cutHeredocBody (drop (k + nl + 1) rest) delim"
    and "IndexByte (drop k rest) newline = Some nl"
    by (auto simp: strip_step_def Let_def split: option.splits prod.splits)
  then show ?thesis using cutHeredocBody_length [of "drop (k + nl + 1) rest" delim]
    by (auto dest!: IndexByte_Some)
qed

function stripHeredocBodies :: "string \<Rightarrow> string" where
  "stripHeredocBodies rest =
     (case strip_step rest of
        (w, None) \<Rightarrow> w
      | (w, Some rest') \<Rightarrow> w @ stripHeredocBodies rest')"
  by pat_completeness auto

termination
  by (relation "measure length") (auto dest: strip_step_less [OF sym])

declare stripHeredocBodies.simps [simp del]

subsection \<open>Paths of a command\<close>

text \<open>What one token of the command contributes; \<open>userHome\<close> is what \<open>os.UserHomeDir\<close> returns.\<close>

definition token_path :: "string option \<Rightarrow> cmdToken \<Rightarrow> string option" where
  "token_path userHome t =
     (let w = TrimCut (tok t) ([CHR 0x22, CHR 0x27] @ '',;|&()<>'');
          w = (case IndexByte w CHR ''='' of Some i \<Rightarrow> drop (Suc i) w | None \<Rightarrow> w);
          isHome = HasPrefix w ''~/''
      in if w = [] then None
         else if \<not> isHome \<and> \<not> HasPrefix w ''/'' then None
         else if Contains w ''://'' \<or> HasPrefix w ''//'' then None
         else if hasShellMetachar w then None
         else if quoted t \<and> \<not> looksLikePath w then None
         else if harmlessDevicePath w \<or> procIntrospectionPath w then None
         else (case (if isHome then (case userHome of None \<Rightarrow> None | Some h \<Rightarrow> Some (PathJoin [h, TrimPrefix w ''~/'']))
                     else Some w) of
                 None \<Rightarrow> None
               | Some w \<Rightarrow> (let cleaned = Clean w in if cleaned \<noteq> ''/'' then Some cleaned else None)))"

definition commandPaths :: "string option \<Rightarrow> string \<Rightarrow> string list" where
  "commandPaths userHome cmd =
     (if TrimSpace cmd = [] then []
      else List.map_filter (token_path userHome) (commandTokens (stripHeredocBodies cmd)))"

definition invokes_scoped :: "string \<Rightarrow> bool" where
  "invokes_scoped w =
     (let w = TrimCut w ([CHR 0x22, CHR 0x27, CHR 0x60] @ '',;|&()<>{}[]$'')
      in if (w = [] \<or> Contains w ''='' \<and> \<not> HasPrefix w ''/'') \<and> \<not> Contains w ''/'' then False
         else (let base = rev (takeWhile (\<lambda>c. c \<noteq> slash) (rev w)) in base \<in> set ScopedBinaryNames))"

definition commandInvokesScopedBinary :: "string \<Rightarrow> bool" where
  "commandInvokesScopedBinary cmd =
     (if ScopedBinaryNames = [] \<or> TrimSpace cmd = [] then False
      else list_ex invokes_scoped (Fields cmd))"

subsection \<open>Targets and grant keys of an ask\<close>

record decisionTarget =
  abstarget :: string
  target_key :: string

definition grantScopeKey :: "string \<Rightarrow> string" where
  "grantScopeKey target =
     (let target = Clean target
      in if target = ''.'' \<or> isFilesystemRoot target then []
         else (let dir = PathDir target in if \<not> isFilesystemRoot dir then dir else target))"

definition absAskTarget :: "askAction \<Rightarrow> string \<Rightarrow> string" where
  "absAskTarget a dir =
     (case Targets a of
        [] \<Rightarrow> Clean dir
      | t # _ \<Rightarrow>
          if isBashAsk (Tool a) then Clean dir
          else (let t = Clean t in if \<not> IsAbs t then PathJoin [Clean dir, t] else t))"

definition resolveAskKey :: "askAction \<Rightarrow> string \<Rightarrow> string" where
  "resolveAskKey a dir =
     (let abs = absAskTarget a dir
      in if abs = [] then []
         else if isBashAsk (Tool a) \<or> Targets a = [] then Clean dir
         else grantScopeKey abs)"

text \<open>The paths of the command that were not seen before, in their order.\<close>

fun fresh_paths :: "string list \<Rightarrow> string list \<Rightarrow> string list" where
  "fresh_paths seen [] = []"
| "fresh_paths seen (p # ps) = (if p \<in> set seen then fresh_paths seen ps else p # fresh_paths (p # seen) ps)"

definition decisionTargets :: "string option \<Rightarrow> askAction \<Rightarrow> string \<Rightarrow> decisionTarget list" where
  "decisionTargets userHome a dir =
     (if isBashAsk (Tool a) then
        (let cwd = Clean dir
         in \<lparr>abstarget = cwd, target_key = cwd\<rparr> #
            map (\<lambda>p. \<lparr>abstarget = p, target_key = grantScopeKey p\<rparr>)
              (fresh_paths [cwd] (commandPaths userHome (Command a))))
      else if Targets a = [] then [\<lparr>abstarget = Clean dir, target_key = Clean dir\<rparr>]
      else map (\<lambda>t. let t = Clean t; t = (if \<not> IsAbs t then PathJoin [Clean dir, t] else t)
                    in \<lparr>abstarget = t, target_key = grantScopeKey t\<rparr>) (Targets a))"

subsection \<open>The class is refused, on one line\<close>

lemma rx_star_iff: "rx_match (RxDotStar # p) s \<longleftrightarrow> (\<exists>k \<le> length s. newline \<notin> set (take k s) \<and> rx_match p (drop k s))"
proof (induction s)
  case Nil
  show ?case by (subst rx_match.simps) simp
next
  case (Cons x s)
  have "(\<exists>k \<le> length (x # s). newline \<notin> set (take k (x # s)) \<and> rx_match p (drop k (x # s))) \<longleftrightarrow>
      rx_match p (x # s) \<or> x \<noteq> newline \<and> (\<exists>k \<le> length s. newline \<notin> set (take k s) \<and> rx_match p (drop k s))"
    (is "?L = (_ \<or> x \<noteq> newline \<and> ?R)")
  proof
    assume ?L
    then obtain k where k: "k \<le> length (x # s)" "newline \<notin> set (take k (x # s))" "rx_match p (drop k (x # s))"
      by blast
    then show "rx_match p (x # s) \<or> x \<noteq> newline \<and> ?R" by (cases k) auto
  next
    assume "rx_match p (x # s) \<or> x \<noteq> newline \<and> ?R"
    then show ?L
    proof
      assume "x \<noteq> newline \<and> ?R"
      then obtain k where "k \<le> length s" "newline \<notin> set (take k s)" "rx_match p (drop k s)" "x \<noteq> newline" by blast
      then show ?L by (intro exI [of _ "Suc k"]) auto
    qed (auto intro!: exI [of _ 0])
  qed
  then show ?case using Cons.IH by (subst rx_match.simps) simp
qed

text \<open>
  Without a question mark the expression means what the worker's matcher means, on text without a
  newline; and a pattern without a newline matches no text that has one.
\<close>

lemma rx_match_glob:
  "newline \<notin> set pat \<Longrightarrow> CHR ''?'' \<notin> set pat \<Longrightarrow>
    rx_match (glob_regexp pat) s \<longleftrightarrow> newline \<notin> set s \<and> Worker_Restrict.glob pat s"
proof (induction pat arbitrary: s)
  case (Cons c pat)
  then have IH: "rx_match (glob_regexp pat) t \<longleftrightarrow> newline \<notin> set t \<and> Worker_Restrict.glob pat t" for t by simp
  show ?case
  proof (cases "c = CHR ''*''")
    case True
    have "newline \<notin> set s \<longleftrightarrow> newline \<notin> set (take k s) \<and> newline \<notin> set (drop k s)" for k
      by (metis Un_iff append_take_drop_id set_append)
    then show ?thesis using True IH by (auto simp: glob_regexp_def rx_star_iff glob_star)
  next
    case False
    with Cons.prems have c: "newline \<noteq> c" "glob_regexp (c # pat) = RxLit c # glob_regexp pat"
      by (auto simp: glob_regexp_def)
    then show ?thesis using False IH by (cases s) (auto simp: glob_lit)
  qed
qed (auto simp: glob_regexp_def)

lemma CommandPatterns_plain: "pat \<in> set CommandPatterns \<Longrightarrow> newline \<notin> set pat \<and> CHR ''?'' \<notin> set pat"
proof -
  have "list_all (\<lambda>pat. newline \<notin> set pat \<and> CHR ''?'' \<notin> set pat) CommandPatterns" by code_simp
  then show "pat \<in> set CommandPatterns \<Longrightarrow> newline \<notin> set pat \<and> CHR ''?'' \<notin> set pat"
    by (auto simp: list_all_iff)
qed

lemma class_scan_iff:
  "class_scan CommandPatterns cmd \<noteq> None \<longleftrightarrow>
    newline \<notin> set cmd \<and> MatchCommandAgainst CommandPatterns cmd \<noteq> None"
proof -
  have "shellGlobMatch pat cmd \<longleftrightarrow> newline \<notin> set cmd \<and> matchGlob pat cmd" if "pat \<in> set CommandPatterns" for pat
    using rx_match_glob CommandPatterns_plain [OF that] by (simp add: shellGlobMatch_def matchGlob_glob)
  then show ?thesis using class_rules.scan_None [of CommandPatterns cmd] command_rules.scan_None [of CommandPatterns cmd]
    by auto
qed

text \<open>
  The consent gate's never-allow check, exactly: a shell ask is refused iff its trimmed command
  holds no newline and one of the class's patterns matches it in the sense of the worker's matcher. The
  worker's check has no such exception, so a command of two lines is never refused by this one.
\<close>

theorem binaryClassRefusal_exact:
  "binaryClassRefusal a \<noteq> [] \<longleftrightarrow>
     isBashAsk (Tool a) \<and> TrimSpace (Command a) \<noteq> [] \<and>
     newline \<notin> set (TrimSpace (Command a)) \<and>
     MatchCommandAgainst CommandPatterns (TrimSpace (Command a)) \<noteq> None"
  using class_scan_iff [of "TrimSpace (Command a)"]
  by (auto simp: binaryClassRefusal_def strconvQuote_def split: option.splits)

text \<open>The same lines, refused to a worker and unremarked by the gate.\<close>

lemma second_line_escapes:
  assumes "Command a = ''sudo '' @ x" and "newline \<in> set (TrimSpace (Command a))"
  shows "binaryClassRefusal a = [] \<and> MatchCommand (Command a) \<noteq> None"
proof -
  have "Worker_Restrict.glob (''sudo '' @ ''*'') (''sudo '' @ x)"
    by (subst glob_literals) simp_all
  then have "MatchCommand (Command a) \<noteq> None"
    unfolding assms(1) by (intro MatchCommand_denies [of "''sudo *''"])
      (simp_all add: WorkerDenyPatterns_def DenyRules_def CommandPatterns_def)
  then show ?thesis using assms(2) class_scan_iff [of "TrimSpace (Command a)"]
    by (auto simp: binaryClassRefusal_def split: option.splits)
qed

subsection \<open>Heredoc bodies\<close>

lemma IndexByte_append: "c \<notin> set l \<Longrightarrow> IndexByte (l @ c # t) c = Some (length l)"
  by (induction l) auto

definition is_line_of :: "string \<Rightarrow> string \<Rightarrow> bool" where
  "is_line_of delim l \<longleftrightarrow> TrimSuffix l [CHR 0x0D] = delim"

text \<open>
  A body is a list of lines, each ended by a newline. The cut passes every line that is not the
  delimiter, stops behind the first one that is, and consumes everything when there is none.
\<close>

definition body_text :: "string list \<Rightarrow> string" where
  "body_text ls = concat (map (\<lambda>l. l @ [newline]) ls)"

lemma cutHeredocBody_line:
  "newline \<notin> set l \<Longrightarrow> cutHeredocBody (l @ newline # t) delim = (if is_line_of delim l then t else cutHeredocBody t delim)"
  by (subst cutHeredocBody.simps) (simp add: IndexByte_append is_line_of_def)

lemma cutHeredocBody_lines:
  "list_all (\<lambda>l. newline \<notin> set l \<and> \<not> is_line_of delim l) ls \<Longrightarrow>
    cutHeredocBody (body_text ls @ t) delim = cutHeredocBody t delim"
  by (induction ls) (auto simp: body_text_def cutHeredocBody_line)

lemma cutHeredocBody_open: "newline \<notin> set t \<Longrightarrow> cutHeredocBody t delim = []"
  by (subst cutHeredocBody.simps) (simp add: IndexByte_None [THEN iffD2])

lemma heredoc_index_plain:
  assumes "list_all (\<lambda>c. c \<noteq> CHR 0x27 \<and> c \<noteq> CHR 0x22 \<and> c \<noteq> CHR ''<'') pre"
  shows "indexHeredocOp (pre @ CHR ''<'' # CHR ''<'' # t) = Some (length pre)"
  unfolding indexHeredocOp_def using assms by (induction pre) (auto simp: HasPrefix_def)

definition plain_delim :: "string \<Rightarrow> bool" where
  "plain_delim d \<longleftrightarrow> d \<noteq> [] \<and> hd d \<notin> set [CHR 0x27, CHR 0x22, CHR ''-''] \<and> list_all (\<lambda>c. \<not> is_blank c \<and> c \<noteq> newline) d"

lemma takeWhile_stop: "list_all P d \<Longrightarrow> t = [] \<or> \<not> P (hd t) \<Longrightarrow> takeWhile P (d @ t) = d"
  by (induction d) (auto, cases t, auto)

lemma parseHeredocDelim_plain:
  assumes d: "plain_delim d" and t: "t = [] \<or> is_blank (hd t) \<or> hd t = newline"
  shows "parseHeredocDelim (''<<'' @ d @ t) = Some (d, length d + 2)"
    and "parseHeredocDelim (''<<-'' @ d @ t) = Some (d, length d + 3)"
proof -
  obtain x d' where x: "d = x # d'" "x \<notin> set [CHR 0x27, CHR 0x22, CHR ''-'']" "\<not> is_blank x" "x \<noteq> newline"
    using d by (cases d) (auto simp: plain_delim_def)
  have dw: "dropWhile is_blank (d @ t) = d @ t" using x by simp
  have tw: "takeWhile (\<lambda>c. \<not> is_blank c \<and> c \<noteq> newline) (d @ t) = d"
    using d t by (intro takeWhile_stop) (auto simp: plain_delim_def)
  show "parseHeredocDelim (''<<'' @ d @ t) = Some (d, length d + 2)"
    using dw tw x by (auto simp: parseHeredocDelim_def HasPrefix_def Let_def)
  show "parseHeredocDelim (''<<-'' @ d @ t) = Some (d, length d + 3)"
    using dw tw x by (auto simp: parseHeredocDelim_def HasPrefix_def Let_def)
qed

text \<open>The opening line: text without quotes before the operator, a plain delimiter, and what follows.\<close>

lemma strip_step_heredoc:
  assumes pre: "list_all (\<lambda>c. c \<noteq> CHR 0x27 \<and> c \<noteq> CHR 0x22 \<and> c \<noteq> CHR ''<'') pre"
    and d: "plain_delim d" and post: "newline \<notin> set post" "post = [] \<or> is_blank (hd post)"
    and op: "op = ''<<'' \<or> op = ''<<-''"
  shows "strip_step (pre @ op @ d @ post @ newline # t) =
    (pre @ op @ d @ post @ [newline], Some (cutHeredocBody t d))"
proof -
  let ?r = "post @ newline # t"
  have i: "indexHeredocOp (pre @ op @ d @ ?r) = Some (length pre)"
    using op heredoc_index_plain [OF pre, of "d @ ?r"] heredoc_index_plain [OF pre, of "CHR ''-'' # d @ ?r"] by auto
  have r: "?r = [] \<or> is_blank (hd ?r) \<or> hd ?r = newline" using post(2) by (cases post) auto
  have p: "parseHeredocDelim (op @ d @ ?r) = Some (d, length op + length d)"
    using op parseHeredocDelim_plain [OF d r] by auto
  have drop1: "drop (length pre + (length op + length d)) (pre @ op @ d @ ?r) = ?r" by simp
  have "take (length pre + (length op + length d) + length post + 1) (pre @ op @ d @ ?r) = pre @ op @ d @ post @ [newline]"
    by simp
  moreover have "drop (length pre + (length op + length d) + length post + 1) (pre @ op @ d @ ?r) = t" by simp
  ultimately show ?thesis using i p drop1
    by (simp add: strip_step_def IndexByte_append [OF post(1)] del: append_assoc)
qed

text \<open>
  A heredoc's body is invisible to the extraction and nothing else is: the opening line is kept
  with whatever follows the delimiter on it, the lines up to the delimiter line disappear, and the
  text behind it is read as before.
\<close>

theorem heredoc_body_removed:
  assumes "list_all (\<lambda>c. c \<noteq> CHR 0x27 \<and> c \<noteq> CHR 0x22 \<and> c \<noteq> CHR ''<'') pre"
    and "plain_delim d" and "newline \<notin> set post" and "post = [] \<or> is_blank (hd post)"
    and "list_all (\<lambda>l. newline \<notin> set l \<and> \<not> is_line_of d l) body"
    and "newline \<notin> set close" and "is_line_of d close"
  shows "stripHeredocBodies (pre @ ''<<'' @ d @ post @ [newline] @ body_text body @ close @ [newline] @ rest) =
    pre @ ''<<'' @ d @ post @ [newline] @ stripHeredocBodies rest"
  using strip_step_heredoc [OF assms(1-4), of "''<<''" "body_text body @ close @ newline # rest"]
    cutHeredocBody_lines [OF assms(5), of "close @ newline # rest"] cutHeredocBody_line [OF assms(6), of rest d] assms(7)
  by (subst stripHeredocBodies.simps) simp

theorem heredoc_body_removed_witness:
  "stripHeredocBodies (''cat '' @ ''<<'' @ ''EOF'' @ '' > /srv/x'' @ [newline] @ body_text [''see /tmp/y''] @ ''EOF'' @ [newline] @ ''ls'') =
    ''cat '' @ ''<<'' @ ''EOF'' @ '' > /srv/x'' @ [newline] @ stripHeredocBodies ''ls''"
  by (rule heredoc_body_removed)
    (simp_all add: plain_delim_def is_blank_def newline_def is_line_of_def TrimSuffix_def HasSuffix_def HasPrefix_def)

lemma strip_no_op: "indexHeredocOp cmd = None \<Longrightarrow> stripHeredocBodies cmd = cmd"
  by (subst stripHeredocBodies.simps) (simp add: strip_step_def)

lemma stripHeredocBodies_Nil [simp]: "stripHeredocBodies [] = []"
  by (simp add: strip_no_op indexHeredocOp_def)

lemma body_text_append: "body_text (xs @ ys) = body_text xs @ body_text ys"
  by (simp add: body_text_def)

text \<open>
  The tab-stripping form hides the rest of the command. With \<open><<-\<close> a shell ends the body at an
  indented delimiter, the extraction does not: unless some later line is the bare delimiter, no path
  named behind the heredoc is ever extracted, and the gate judges the opening line only.
\<close>

theorem indented_terminator_hides_rest:
  assumes "list_all (\<lambda>c. c \<noteq> CHR 0x27 \<and> c \<noteq> CHR 0x22 \<and> c \<noteq> CHR ''<'') pre" and "plain_delim d"
    and "list_all (\<lambda>l. newline \<notin> set l \<and> \<not> is_line_of d l) (body @ [CHR 0x09 # d] @ commands)"
    and "newline \<notin> set lastline"
  shows "commandPaths userHome
      (pre @ ''<<-'' @ d @ [newline] @ body_text (body @ [CHR 0x09 # d] @ commands) @ lastline) =
    commandPaths userHome (pre @ ''<<-'' @ d @ [newline])"
proof -
  have lt: "\<not> is_space CHR ''<''" by (simp add: is_space_def)
  have strip: "stripHeredocBodies (pre @ ''<<-'' @ d @ [newline] @ body_text ls @ t) = pre @ ''<<-'' @ d @ [newline]"
    if "list_all (\<lambda>l. newline \<notin> set l \<and> \<not> is_line_of d l) ls" "newline \<notin> set t" for ls t
    using strip_step_heredoc [OF assms(1,2), of "[]" "''<<-''" "body_text ls @ t"]
      cutHeredocBody_lines [OF that(1), of t] cutHeredocBody_open [OF that(2), of d]
    by (subst stripHeredocBodies.simps) simp
  show ?thesis
    using strip [OF assms(3,4)] strip [of "[]" "[]"] TrimSpace_not_blank [OF _ lt]
    by (simp add: commandPaths_def body_text_def [of "[]"])
qed

theorem indented_terminator_hides_rest_witness:
  "commandPaths None (''cat '' @ ''<<-'' @ ''EOF'' @ [newline] @
     body_text ([''x''] @ [CHR 0x09 # ''EOF''] @ [''cp key /etc/x'']) @ ''true'') =
   commandPaths None (''cat '' @ ''<<-'' @ ''EOF'' @ [newline])"
  by (rule indented_terminator_hides_rest)
    (simp_all add: plain_delim_def is_blank_def newline_def is_line_of_def TrimSuffix_def HasSuffix_def HasPrefix_def)

subsection \<open>Every path named in plain words is judged\<close>

definition plain_char :: "char \<Rightarrow> bool" where
  "plain_char c \<longleftrightarrow> \<not> is_space c \<and> c \<notin> set ([CHR 0x22, CHR 0x27, CHR 0x5C, CHR ''<'', CHR ''='', CHR '':''] @ '',;|&()>^+!*?$[]{}'')"

definition plain_word :: "string \<Rightarrow> bool" where
  "plain_word w \<longleftrightarrow> w \<noteq> [] \<and> list_all plain_char w"

definition path_word :: "string \<Rightarrow> bool" where
  "path_word w \<longleftrightarrow> plain_word w \<and> HasPrefix w ''/'' \<and> \<not> HasPrefix w ''//'' \<and>
     \<not> harmlessDevicePath w \<and> \<not> procIntrospectionPath w \<and> Clean w \<noteq> ''/''"

lemma plain_char_cases:
  "plain_char c \<Longrightarrow> c \<noteq> CHR 0x5C \<and> c \<noteq> CHR 0x27 \<and> c \<noteq> CHR 0x22 \<and> c \<noteq> CHR '' '' \<and> c \<noteq> CHR 0x09 \<and> c \<noteq> newline"
  by (auto simp: plain_char_def is_space_def newline_def)

lemma tokens_word:
  "list_all plain_char w \<Longrightarrow>
    tokens_loop (w @ t) b None qd started False = tokens_loop t (b @ w) None qd (started \<or> w \<noteq> []) False"
  by (induction w arbitrary: b started) (auto dest!: plain_char_cases)

lemma commandTokens_words:
  "list_all plain_word ws \<Longrightarrow>
    commandTokens (join_with '' '' ws) = map (\<lambda>w. \<lparr>tok = w, quoted = False\<rparr>) ws"
proof (induction "'' ''" ws rule: join_with.induct)
  case (2 x)
  then show ?case using tokens_word [of x "[]" "[]" False False] by (simp add: commandTokens_def plain_word_def)
next
  case (3 x y ys)
  then show ?case using tokens_word [of x "'' '' @ join_with '' '' (y # ys)" "[]" False False]
    by (simp add: commandTokens_def plain_word_def)
qed (simp add: commandTokens_def)

lemma heredoc_index_None: "CHR ''<'' \<notin> set s \<Longrightarrow> heredoc_index q s = None"
  by (induction s arbitrary: q) (auto split: option.splits)

lemma join_words_chars:
  "list_all plain_word ws \<Longrightarrow> c \<in> set (join_with '' '' ws) \<Longrightarrow> plain_char c \<or> c = CHR '' ''"
  by (induction "'' ''" ws rule: join_with.induct) (auto simp: plain_word_def list_all_iff)

lemma TrimCut_id: "list_all (\<lambda>c. c \<notin> set cs) w \<Longrightarrow> TrimCut w cs = w"
proof -
  assume w: "list_all (\<lambda>c. c \<notin> set cs) w"
  have "dropWhile (\<lambda>c. c \<in> set cs) v = v" if "set v \<subseteq> set w" for v
    using that w by (cases v) (auto simp: list_all_iff)
  then show ?thesis by (simp add: TrimCut_def)
qed

lemma Index_None: "c \<in> set sub \<Longrightarrow> c \<notin> set s \<Longrightarrow> Index s sub = None"
proof (induction s)
  case Nil
  then show ?case by (subst Index.simps) (auto simp: HasPrefix_def)
next
  case (Cons x s)
  then have "c \<notin> set (x # s)" by simp
  then have "\<not> HasPrefix (x # s) sub" using Cons.prems(1) by (metis HasPrefix_iff Un_iff set_append)
  then show ?case using Cons by (subst Index.simps) simp
qed

lemma token_path_word:
  assumes "path_word w"
  shows "token_path h \<lparr>tok = w, quoted = False\<rparr> = Some (Clean w)"
proof -
  have chars: "list_all plain_char w" and w: "w \<noteq> []" "HasPrefix w ''/''" using assms by (auto simp: path_word_def plain_word_def)
  have notin: "c \<notin> set w" if "\<not> plain_char c" for c using chars that by (auto simp: list_all_iff)
  have trim: "TrimCut w ([CHR 0x22, CHR 0x27] @ '',;|&()<>'') = w"
    using chars by (intro TrimCut_id) (auto simp: list_all_iff plain_char_def)
  have eq: "IndexByte w CHR ''='' = None" using notin [of "CHR ''=''"] by (simp add: IndexByte_None plain_char_def)
  have home: "\<not> HasPrefix w ''~/''" using w by (auto simp: HasPrefix_iff)
  have url: "\<not> Contains w ''://''"
    using notin [of "CHR '':''"] Index_None [of "CHR '':''" "''://''" w] by (simp add: Contains_def plain_char_def)
  have "\<not> hasShellMetachar w"
    using chars by (auto simp: hasShellMetachar_def ContainsAny_def list_all_iff list_ex_iff plain_char_def)
  then show ?thesis using trim eq home url w assms by (simp add: token_path_def path_word_def Let_def)
qed

lemma set_fresh_paths: "set (fresh_paths seen ps) = set ps - set seen"
  by (induction seen ps rule: fresh_paths.induct) auto

lemma commandPaths_words:
  assumes "list_all plain_word ws" and "w \<in> set ws" and "path_word w"
  shows "Clean w \<in> set (commandPaths h (join_with '' '' ws))"
proof -
  let ?cmd = "join_with '' '' ws"
  have "CHR ''<'' \<notin> set ?cmd" using join_words_chars [OF assms(1)] by (auto simp: plain_char_def)
  then have strip: "stripHeredocBodies ?cmd = ?cmd"
    by (simp add: strip_no_op indexHeredocOp_def heredoc_index_None)
  have "ws \<noteq> []" using assms(2) by auto
  then obtain x xs where ws: "ws = x # xs" by (cases ws) auto
  then obtain c where "c \<in> set x" "\<not> is_space c"
    using assms(1) by (cases x) (auto simp: plain_word_def plain_char_def)
  moreover have "set x \<subseteq> set ?cmd" unfolding ws by (cases xs) auto
  ultimately have "TrimSpace ?cmd \<noteq> []" using TrimSpace_not_blank by blast
  then show ?thesis using strip commandTokens_words [OF assms(1)] token_path_word [OF assms(3)] assms(2)
    by (force simp: commandPaths_def map_filter_def image_iff)
qed

text \<open>
  A path a command names outright is always judged. In a shell ask whose command is plain words,
  every word that is an absolute path, other than the root and the devices and process files exempt by
  name, is among the targets of the decision, whichever directory the command runs in and however
  the session was granted.
\<close>

theorem named_paths_judged:
  assumes "isBashAsk (Tool a)" and "Command a = join_with '' '' ws" and "list_all plain_word ws"
    and "w \<in> set ws" and "path_word w"
  shows "Clean w \<in> set (map abstarget (decisionTargets h a dir))"
proof (cases "Clean w = Clean dir")
  case False
  then have "Clean w \<in> set (fresh_paths [Clean dir] (commandPaths h (Command a)))"
    using commandPaths_words [OF assms(3-5)] assms(2) by (simp add: set_fresh_paths)
  then show ?thesis using assms(1) by (simp add: decisionTargets_def image_image Let_def)
qed (use assms(1) in \<open>simp add: decisionTargets_def Let_def\<close>)

theorem named_paths_judged_witness:
  "''/etc/b'' \<in> set (map abstarget (decisionTargets None
     (sample_action\<lparr>Tool := ''bash'', Targets := [], Command := ''cp key /etc/b''\<rparr>) ''/srv/p''))"
proof -
  have w: "Clean ''/etc/b'' = ''/etc/b''" by code_simp
  have "path_word ''/etc/b''" by code_simp
  moreover have "list_all plain_word [''cp'', ''key'', ''/etc/b'']" by code_simp
  moreover have "isBashAsk ''bash''" by code_simp
  ultimately show ?thesis
    using named_paths_judged [of "sample_action\<lparr>Tool := ''bash'', Targets := [], Command := ''cp key /etc/b''\<rparr>"
        "[''cp'', ''key'', ''/etc/b'']" "''/etc/b''" None "''/srv/p''"]
    by (simp add: w)
qed

subsection \<open>Grant keys\<close>

lemma grantScopeKey_root: "grantScopeKey t = [] \<or> \<not> isFilesystemRoot (grantScopeKey t)"
  by (simp add: grantScopeKey_def Let_def)

text \<open>
  The directory a card offers to grant is never a root, and it does cover the target it was derived
  from: for an absolute target other than the root the key is a clean absolute directory, the
  target's parent or (below the root) the target itself, and for the root there is no key.
\<close>

theorem grantScopeKey_covers:
  assumes "IsAbs t" and "c \<noteq> []"
  shows "if Clean t = ''/'' then grantScopeKey t = []
    else grantScopeKey t = abs_path (if length (segs_of t) = 1 then segs_of t else butlast (segs_of t)) \<and>
      \<not> isFilesystemRoot (grantScopeKey t) \<and> HasGrant c t (Grant now c (grantScopeKey t) g)"
proof -
  define segs where "segs = segs_of t"
  have t: "Clean t = abs_path segs" and n: "norm_segs segs" using assms by (simp_all add: segs_def Clean_abs)
  have root: "isFilesystemRoot (abs_path xs) \<longleftrightarrow> xs = []" if "norm_segs xs" for xs
    using isFilesystemRoot_abs [of "abs_path xs"] that by (simp add: abs_path_root)
  show ?thesis
  proof (cases "segs = []")
    case True
    then show ?thesis using t root [OF n] by (simp add: grantScopeKey_def abs_path_root)
  next
    case False
    have nb: "norm_segs (butlast segs)" using n by (cases segs rule: rev_cases) simp_all
    have len: "butlast segs = [] \<longleftrightarrow> length segs = 1" using False by (cases segs rule: rev_cases) auto
    define k where "k = (if length segs = 1 then segs else butlast segs)"
    have k: "norm_segs k" "k \<noteq> []" "prefix k segs"
      using n nb len False by (auto simp: k_def prefixeq_butlast)
    have key: "grantScopeKey t = abs_path k"
      using False t root [OF n] root [OF nb] len
      by (simp add: grantScopeKey_def Let_def PathDir_abs_path [OF n] k_def)
    have "HasGrant c t (Grant now c (abs_path k) g)"
    proof -
      have "TrimSpace (abs_path k) \<noteq> []" by (rule IsAbs_not_blank) simp
      then have "abs_path k \<in> granted (Grant now c (abs_path k) g) c"
        using k root [OF k(1)] assms(2) by (simp add: granted_Grant)
      moreover have "Clean t = abs_path k \<or> HasPrefix (Clean t) (abs_path k @ ''/'')"
        using covers_iff [of "abs_path k" t] k root [OF k(1)] assms by (simp add: segs_def)
      ultimately show ?thesis using HasGrant_iff [OF assms(2)] IsAbs_not_blank [OF assms(1)] by auto
    qed
    then show ?thesis using False t n key root [OF k(1)] k by (simp add: abs_path_root k_def segs_def)
  qed
qed

theorem grantScopeKey_covers_witness:
  "grantScopeKey ''/tmp'' = ''/tmp'' \<and> grantScopeKey ''/etc/ssh/x'' = ''/etc/ssh'' \<and> grantScopeKey ''/'' = []"
proof -
  have s: "segs_of ''/tmp'' = [''tmp'']" "segs_of ''/etc/ssh/x'' = [''etc'', ''ssh'', ''x'']" by code_simp+
  have c: "Clean ''/tmp'' = ''/tmp''" "Clean ''/etc/ssh/x'' = ''/etc/ssh/x''" "Clean ''/'' = ''/''" by code_simp+
  show ?thesis
    using grantScopeKey_covers [of "''/tmp''" "''c''"] grantScopeKey_covers [of "''/etc/ssh/x''" "''c''"]
      grantScopeKey_covers [of "''/''" "''c''"]
    by (simp add: s c IsAbs_def HasPrefix_def abs_path_def)
qed

end
