(* ===== verification/Consent_Action.thy ===== *)
theory Consent_Action
  imports Consent_Scan
begin

text \<open>
  From a permission event to the action it asks about, and the line the card shows for it
  (\<open>internal/askorchicon/consent.go\<close>). The JSON decoder of the standard library is an argument: it
  returns the decoded object, or nothing on an error. A decoded object is an association list.
\<close>

subsection \<open>Reading arguments\<close>

fun detailString :: "(string \<times> json) list \<Rightarrow> string list \<Rightarrow> string" where
  "detailString m [] = []"
| "detailString m (k # ks) =
     (case map_of m k of
        Some (JString v) \<Rightarrow> if TrimSpace v \<noteq> [] then v else detailString m ks
      | _ \<Rightarrow> detailString m ks)"

definition json_strings :: "json list \<Rightarrow> string list" where
  "json_strings vs =
     List.map_filter (\<lambda>v. case v of JString s \<Rightarrow> if TrimSpace s \<noteq> [] then Some s else None | _ \<Rightarrow> None) vs"

fun detailStrings :: "(string \<times> json) list \<Rightarrow> string list \<Rightarrow> string list" where
  "detailStrings m [] = []"
| "detailStrings m (k # ks) =
     (case map_of m k of
        Some (JStrings v) \<Rightarrow> if v \<noteq> [] then v else detailStrings m ks
      | Some (JList v) \<Rightarrow> if json_strings v \<noteq> [] then json_strings v else detailStrings m ks
      | Some (JString v) \<Rightarrow> if TrimSpace v \<noteq> [] then [v] else detailStrings m ks
      | _ \<Rightarrow> detailStrings m ks)"

definition anyList :: "json option \<Rightarrow> json list" where
  "anyList v =
     (case v of Some (JList t) \<Rightarrow> t | Some (JMaps t) \<Rightarrow> map JMap t | _ \<Rightarrow> [])"

definition toolInputTargets :: "(string \<times> json) list \<Rightarrow> string list" where
  "toolInputTargets m =
     (if m = [] then []
      else (let t = realTargets (detailStrings m [''filePath'', ''filepath'', ''file_path'', ''path'', ''target'', ''file''])
            in if t \<noteq> [] then t
               else (let t = realTargets (detailStrings m [''paths'', ''targets'', ''files''])
                     in if t \<noteq> [] then t
                        else concat (map (\<lambda>e. case e of
                               JMap w \<Rightarrow> realTargets (detailStrings w [''path'', ''filePath'', ''filepath''])
                             | _ \<Rightarrow> []) (anyList (map_of m ''writes''))))))"

definition toolInputCommand :: "(string \<times> json) list \<Rightarrow> string" where
  "toolInputCommand m = detailString m [''command'', ''cmd'', ''script'', ''shellCommand'']"

subsection \<open>The card's line\<close>

text \<open>The ellipsis in UTF-8.\<close>

definition ellipsis :: string where
  "ellipsis = [CHR 0xE2, CHR 0x80, CHR 0xA6]"

definition truncateArg :: "string \<Rightarrow> string" where
  "truncateArg s = (if 80 < length s then take 80 s @ ellipsis else s)"

definition argCountLabel :: "nat \<Rightarrow> string \<Rightarrow> string" where
  "argCountLabel n noun =
     (if n = 1 then ''[1 '' @ noun @ '']'' else ''['' @ fmt_d (int n) @ '' '' @ noun @ ''s]'')"

definition scalarArg :: "json option \<Rightarrow> string" where
  "scalarArg v =
     (case v of
        None \<Rightarrow> ''null''
      | Some JNull \<Rightarrow> ''null''
      | Some (JString t) \<Rightarrow> truncateArg t
      | Some (JBool b) \<Rightarrow> (if b then ''true'' else ''false'')
      | Some (JNumber t) \<Rightarrow> t
      | Some (JList t) \<Rightarrow> argCountLabel (length t) ''item''
      | Some (JMap t) \<Rightarrow> argCountLabel (length t) ''field''
      | Some (JStrings _) \<Rightarrow> ellipsis
      | Some (JMaps _) \<Rightarrow> ellipsis)"

definition compactArgs :: "(string \<times> json) list \<Rightarrow> string" where
  "compactArgs m =
     join_with '', '' (map (\<lambda>k. k @ ''='' @ scalarArg (map_of m k)) (sort (map fst m)))"

definition toolIntentVerb :: "string \<Rightarrow> string" where
  "toolIntentVerb tool =
     (let t = ToLower (TrimSpace tool); has = Contains t
      in if isBashAsk t then ''run a shell command''
         else if has ''write'' \<or> has ''edit'' \<or> has ''patch'' \<or> has ''create'' then ''modify''
         else if has ''delete'' \<or> has ''remove'' \<or> t = ''rm'' then ''delete''
         else if has ''read'' \<or> has ''view'' \<or> has ''list'' \<or> has ''glob'' \<or> has ''grep'' \<or> has ''search'' \<or> has ''fetch''
         then ''read''
         else if has ''mcp'' then ''run a tool''
         else ''use the tool'')"

definition askSummary :: "askAction \<Rightarrow> string" where
  "askSummary a =
     (let verb = toolIntentVerb (Tool a)
      in if isBashAsk (Tool a) \<and> Command a \<noteq> [] then verb @ '': '' @ truncateArg (Command a)
         else (let out =
                 (if Targets a \<noteq> [] then verb @ '' '' @ join_with '', '' (Targets a)
                  else if Command a \<noteq> [] then verb @ '': '' @ truncateArg (Command a)
                  else if Tool a \<noteq> [] \<and> Input a \<noteq> [] then verb @ '' '' @ compactArgs (Input a)
                  else verb)
               in if Tool a \<noteq> [] \<and> \<not> Contains out (Tool a) then out @ '' ('' @ Tool a @ '')'' else out))"

subsection \<open>Extraction\<close>

text \<open>The fields of \<open>scheduler.SessionEvent\<close> a permission or question event carries.\<close>

record SessionEvent =
  evt_Tool :: string
  evt_Command :: string
  evt_Targets :: "string list"
  InputJSON :: string
  Detail :: "(string \<times> json) list option"
  PermissionID :: string
  evt_Question :: string
  evt_Options :: "string list"
  evt_AllowOther :: bool

definition no_action :: askAction where
  "no_action = \<lparr>Tool = [], Targets = [], Command = [], CallID = [], action_AskID = [], action_Key = [], Input = []\<rparr>"

text \<open>The arguments of the call fill in what the ask itself did not name.\<close>

definition fill_from_input :: "(string \<times> json) list \<Rightarrow> askAction \<Rightarrow> askAction" where
  "fill_from_input m a =
     a\<lparr>Input := m,
       Targets := (if Targets a = [] then toolInputTargets m else Targets a),
       Command := (if Command a = [] then toolInputCommand m else Command a)\<rparr>"

definition extract_typed :: "(string \<Rightarrow> (string \<times> json) list option) \<Rightarrow> SessionEvent \<Rightarrow> askAction" where
  "extract_typed unmarshal evt =
     (let a = no_action\<lparr>Tool := evt_Tool evt, Command := evt_Command evt, Targets := realTargets (evt_Targets evt)\<rparr>
      in if TrimSpace (InputJSON evt) \<noteq> [] then
           (case unmarshal (InputJSON evt) of Some m \<Rightarrow> fill_from_input m a | None \<Rightarrow> a)
         else a)"

text \<open>The steps on an event without typed fields, in their order: tool and call id, the metadata's path and
  command, the patterns, the correlated arguments, and the reading of a shell ask.\<close>

definition detail_ids :: "(string \<times> json) list \<Rightarrow> askAction" where
  "detail_ids d =
     (let callID = detailString d [''callID'', ''callId'', ''call_id''];
          callID = (if callID = [] then
                      (case map_of d ''tool'' of
                         Some (JMap call) \<Rightarrow> detailString call [''callID'', ''callId'', ''call_id'']
                       | _ \<Rightarrow> callID)
                    else callID)
      in no_action\<lparr>Tool := detailString d [''permission'', ''tool'', ''title''], CallID := callID\<rparr>)"

definition detail_metadata :: "(string \<times> json) list \<Rightarrow> askAction \<Rightarrow> askAction" where
  "detail_metadata d a =
     (case map_of d ''metadata'' of
        Some (JMap meta) \<Rightarrow>
          (let p = detailString meta [''filePath'', ''filepath'', ''path'', ''file'']
           in (if p \<noteq> [] then a\<lparr>Targets := realTargets [p]\<rparr> else a)\<lparr>Command := detailString meta [''command'']\<rparr>)
      | _ \<Rightarrow> a)"

definition detail_patterns :: "(string \<times> json) list \<Rightarrow> askAction \<Rightarrow> askAction" where
  "detail_patterns d a =
     (if Targets a = [] then a\<lparr>Targets := realTargets (detailStrings d [''patterns'', ''pattern''])\<rparr> else a)"

definition detail_input :: "(string \<times> json) list \<Rightarrow> askAction \<Rightarrow> askAction" where
  "detail_input d a =
     (case map_of d ''toolInput'' of
        Some (JMap m) \<Rightarrow> if m \<noteq> [] then fill_from_input m a else a
      | _ \<Rightarrow> a)"

definition detail_shell :: "askAction \<Rightarrow> askAction" where
  "detail_shell a =
     (if isBashAsk (Tool a) then
        a\<lparr>Command := (case Targets a of t # _ \<Rightarrow> if Command a = [] then t else Command a | [] \<Rightarrow> Command a),
          Targets := []\<rparr>
      else a)"

definition extract_detail :: "(string \<times> json) list \<Rightarrow> askAction" where
  "extract_detail d = detail_shell (detail_input d (detail_patterns d (detail_metadata d (detail_ids d))))"

definition extractAskAction :: "(string \<Rightarrow> (string \<times> json) list option) \<Rightarrow> SessionEvent \<Rightarrow> askAction" where
  "extractAskAction unmarshal evt =
     (if evt_Tool evt \<noteq> [] then extract_typed unmarshal evt
      else (case Detail evt of None \<Rightarrow> no_action | Some d \<Rightarrow> extract_detail d))"

subsection \<open>Only real paths become targets\<close>

definition real_target :: "string \<Rightarrow> bool" where
  "real_target t \<longleftrightarrow> TrimSpace t = t \<and> t \<noteq> [] \<and> t \<noteq> ''.'' \<and> \<not> isWildcardPattern t"

lemma realTargets_real: "list_all real_target (realTargets ts)"
  by (auto simp: realTargets_def real_target_def list_all_iff)

lemma realTargets_id: "list_all real_target ts \<Longrightarrow> realTargets ts = ts"
  by (induction ts) (auto simp: realTargets_def real_target_def)

lemma toolInputTargets_real: "list_all real_target (toolInputTargets m)"
  unfolding toolInputTargets_def using realTargets_real
  by (auto simp: Let_def list_all_iff split: json.splits)

lemma fill_real: "list_all real_target (Targets a) \<Longrightarrow> list_all real_target (Targets (fill_from_input m a))"
  by (simp add: fill_from_input_def toolInputTargets_real)

abbreviation targets_real :: "askAction \<Rightarrow> bool" where
  "targets_real a \<equiv> list_all real_target (Targets a)"

lemma extract_typed_real: "targets_real (extract_typed unmarshal evt)"
  using fill_real realTargets_real by (simp add: extract_typed_def Let_def split: option.splits)

lemma detail_ids_real: "targets_real (detail_ids d)"
  by (simp add: detail_ids_def no_action_def Let_def)

lemma detail_metadata_real: "targets_real a \<Longrightarrow> targets_real (detail_metadata d a)"
  unfolding detail_metadata_def
  by (cases "map_of d ''metadata''"; cases "the (map_of d ''metadata'')") (simp_all add: Let_def realTargets_real)

lemma detail_patterns_real: "targets_real a \<Longrightarrow> targets_real (detail_patterns d a)"
  by (simp add: detail_patterns_def realTargets_real)

lemma detail_input_real: "targets_real a \<Longrightarrow> targets_real (detail_input d a)"
  unfolding detail_input_def
  by (cases "map_of d ''toolInput''"; cases "the (map_of d ''toolInput'')") (simp_all add: fill_real)

lemma extract_detail_real: "targets_real (extract_detail d)"
  using detail_input_real [OF detail_patterns_real [OF detail_metadata_real [OF detail_ids_real]]]
  by (simp add: extract_detail_def detail_shell_def)

text \<open>
  A permission rule is never mistaken for a path: whatever an adapter sends, every target of the
  extracted action is a trimmed, non-empty path that is not the wildcard of an "everything" rule. So an
  ask that only carries such a rule, and no command, stays unresolved and cannot ride a grant on the
  project directory.
\<close>

theorem extracted_targets_real:
  "list_all real_target (Targets (extractAskAction unmarshal evt)) \<and>
   (askActionResolved (extractAskAction unmarshal evt) \<longleftrightarrow>
      \<not> (Targets (extractAskAction unmarshal evt) = [] \<and> TrimSpace (Command (extractAskAction unmarshal evt)) = []))"
proof -
  have "list_all real_target (Targets (extractAskAction unmarshal evt))"
    by (simp add: extractAskAction_def extract_typed_real extract_detail_real no_action_def split: option.splits)
  then show ?thesis by (simp add: askActionResolved_def realTargets_id)
qed

end
