(* ===== verification/Consent_Gate.thy ===== *)
theory Consent_Gate
  imports Consent_Action Perm_Policy Protected_Path
begin

text \<open>
  The consent gate of the Ask service: the decision path of a turn (\<open>consentTurn.decide\<close>), the replies
  to its cards (\<open>ReplyPermissionAsk\<close>, FULLSEND's approvals), their application by the turn and the
  turn's end. The service's stores are one record, what a turn writes (transcript, answers posted to
  the engine, resolutions published, the stall monitor's flag) another. The rendered text of a policy
  error is kept as the error itself; log output is left out.
\<close>

subsection \<open>State\<close>

record Service =
  svc_grants :: grantStore
  svc_once :: onceStore
  svc_fullsend :: fullsendStore
  svc_pending :: pendingAskRegistry

datatype remark = NoNote | Text string | PolicyNote policy_error

record permission_record =
  perm_ID :: string
  perm_Verdict :: string
  perm_Arguments :: string
  perm_Detail :: remark
  perm_IsError :: bool

record askResolution =
  res_AskID :: string
  res_Outcome :: string
  res_Answer :: string

text \<open>\<open>posted\<close> lists the calls of \<open>ReplyPermissionDecision\<close>: session, ask and response.\<close>

record turn =
  ledger :: "permission_record list"
  nextID :: nat
  awaiting :: bool
  posted :: "(string \<times> string \<times> string) list"
  emitted :: "askResolution list"

record AskFileScope =
  scope_Dir :: string
  ProjectID :: string
  FromConversation :: bool

text \<open>What the decision reads from outside the service: the policy file and its libraries, the environment,
  and the JSON decoder.\<close>

record consent_env =
  policy_deps :: deps
  policy_files :: fs
  policy_path :: string
  xdg_data :: string
  unmarshal :: "string \<Rightarrow> (string \<times> json) list option"

definition PreApprovedPath :: "AskFileScope \<Rightarrow> string \<Rightarrow> bool" where
  "PreApprovedPath s target =
     (if \<not> FromConversation s \<or> TrimSpace (scope_Dir s) = [] \<or> TrimSpace target = [] then False
      else (let dir = Clean (scope_Dir s);
                t = Clean target;
                t = (if \<not> IsAbs t then PathJoin [dir, t] else t)
            in t = dir \<or> HasPrefix t (dir @ ''/'')))"

subsection \<open>The transcript\<close>

definition truncateLedgerString :: "string \<Rightarrow> nat \<Rightarrow> string" where
  "truncateLedgerString s n = (if n < length s then take n s @ ellipsis @ ''(truncated)'' else s)"

definition recordPermission :: "string \<Rightarrow> string \<Rightarrow> remark \<Rightarrow> string \<Rightarrow> turn \<Rightarrow> turn" where
  "recordPermission target v detail askID T =
     (let fresh = (TrimSpace askID = []);
          n = (if fresh then Suc (nextID T) else nextID T);
          i = (if fresh then ''perm-'' @ fmt_d (int n) else TrimSpace askID)
      in T\<lparr>nextID := n,
           ledger := ledger T @ [\<lparr>perm_ID = i, perm_Verdict = v,
             perm_Arguments = truncateLedgerString target 4000, perm_Detail = detail,
             perm_IsError = (v = ''deny'' \<or> v = ''never_allow'' \<or> v = ''policy_error'')\<rparr>]\<rparr>)"

definition record_action :: "askAction \<Rightarrow> string \<Rightarrow> remark \<Rightarrow> turn \<Rightarrow> turn" where
  "record_action a v detail T =
     (let target = (if Command a = [] \<and> Targets a \<noteq> [] then join_with '', '' (Targets a) else Command a)
      in recordPermission target v detail (action_AskID a) T)"

subsection \<open>The decision\<close>

definition protected_Refusal :: "string \<Rightarrow> string \<Rightarrow> string" where
  "protected_Refusal target root =
     ''refused: '' @ target @ '' contains '' @ root @ '', which this session works in or depends on '' @
     [CHR 0xE2, CHR 0x80, CHR 0x94] @
     '' deleting it would take that with it. This is never allowed: not by a session grant, not by '' @
     ''an accept entry, and not by FULLSEND. Choose a target inside the project instead.''"

fun first_destroyed :: "string list \<Rightarrow> string list \<Rightarrow> decisionTarget list \<Rightarrow> (string \<times> string) option" where
  "first_destroyed machine scope [] = None"
| "first_destroyed machine scope (t # ts) =
     (let root = DestroyedBy (abstarget t) machine scope
      in if root \<noteq> [] then Some (abstarget t, root) else first_destroyed machine scope ts)"

text \<open>The variables the policy loop carries.\<close>

record judged =
  proceed :: bool
  allInside :: bool
  key_verdict :: verdict
  blocking :: "decisionTarget option"

definition consult :: "consent_env \<Rightarrow> grantStore \<Rightarrow> string \<Rightarrow> decisionTarget \<Rightarrow> policy_error + decision" where
  "consult E g convID t =
     Decide (policy_deps E) (policy_files E) (policy_path E) (abstarget t)
       \<lparr>SessionGranted = HasGrant convID (target_key t) g\<rparr>"

definition note_target :: "AskFileScope \<Rightarrow> nat \<Rightarrow> decisionTarget \<Rightarrow> decision \<Rightarrow> judged \<Rightarrow> judged" where
  "note_target scope i t d j =
     j\<lparr>key_verdict := (if i = 0 then Verdict d else key_verdict j),
       proceed := (proceed j \<and> Proceed (Verdict d)),
       blocking := (if \<not> Proceed (Verdict d) \<and> blocking j = None then Some t else blocking j),
       allInside := (allInside j \<and> PreApprovedPath scope (abstarget t))\<rparr>"

fun judge :: "consent_env \<Rightarrow> grantStore \<Rightarrow> string \<Rightarrow> AskFileScope \<Rightarrow> nat \<Rightarrow> decisionTarget list \<Rightarrow> judged \<Rightarrow>
    (string \<times> remark) + judged" where
  "judge E g convID scope i [] j = Inr j"
| "judge E g convID scope i (t # ts) j =
     (case consult E g convID t of
        Inl err \<Rightarrow> Inl (''policy_error'', PolicyNote err)
      | Inr d \<Rightarrow>
          if Verdict d = VerdictDeny then
            Inl (''deny'', PolicyNote (Refusal (policy_path E) (abstarget t) (Entry d)))
          else judge E g convID scope (Suc i) ts (note_target scope i t d j))"

definition denyBelowForGrant :: "consent_env \<Rightarrow> string \<Rightarrow> string list" where
  "denyBelowForGrant E key =
     (if TrimSpace key = [] then []
      else (case DenyBelow (policy_deps E) (policy_files E) (policy_path E) key of
              Inl _ \<Rightarrow> [] | Inr entries \<Rightarrow> entries))"

text \<open>An answer for the engine now, with the refusal if there is one, or a card to await.\<close>

datatype reaction = Answered string remark | Await pendingAsk

definition new_ask :: "consent_env \<Rightarrow> string \<Rightarrow> string \<Rightarrow> askAction \<Rightarrow> string \<Rightarrow> bool \<Rightarrow> string list \<Rightarrow> pendingAsk" where
  "new_ask E convID sid a grantDir inside absTargets =
     \<lparr>AskID = action_AskID a, ConversationID = convID, SessionID = sid, Action = a, Key = grantDir,
      ask_Tool = Tool a, ask_Command = Command a, ask_Targets = Targets a, Directory = grantDir,
      InsideProject = inside, Summary = askSummary a, ask_DenyBelow = denyBelowForGrant E grantDir,
      AbsTargets = absTargets, Question = [], Options = [], AllowOther = False, ask_state = askOpen,
      choice = CHOICE_UNSPECIFIED, answer = [], autoApproved = False\<rparr>"

definition card_key :: "askAction \<Rightarrow> judged \<Rightarrow> string" where
  "card_key a j = (case blocking j of Some t \<Rightarrow> if target_key t \<noteq> [] then target_key t else action_Key a | None \<Rightarrow> action_Key a)"

definition raise_card :: "consent_env \<Rightarrow> string \<Rightarrow> string \<Rightarrow> askAction \<Rightarrow> decisionTarget list \<Rightarrow> judged \<Rightarrow>
    Service \<Rightarrow> turn \<Rightarrow> reaction \<times> Service \<times> turn" where
  "raise_card E convID sid a targets j svc T =
     (let ask = new_ask E convID sid a (card_key a j) (allInside j) (map abstarget targets)
      in (Await ask, svc\<lparr>svc_pending := putAsk convID ask (svc_pending svc)\<rparr>,
          record_action a ''ask'' (Text (askSummary a)) (T\<lparr>awaiting := True\<rparr>)))"

definition the_action :: "consent_env \<Rightarrow> AskFileScope \<Rightarrow> SessionEvent \<Rightarrow> askAction" where
  "the_action E scope evt =
     (let a = (extractAskAction (unmarshal E) evt)\<lparr>action_AskID := PermissionID evt\<rparr>
      in a\<lparr>action_Key := resolveAskKey a (scope_Dir scope)\<rparr>)"

definition the_targets :: "consent_env \<Rightarrow> AskFileScope \<Rightarrow> SessionEvent \<Rightarrow> decisionTarget list" where
  "the_targets E scope evt =
     decisionTargets (UserHomeDir (policy_deps E)) (the_action E scope evt) (scope_Dir scope)"

text \<open>The protected-path rule applies unless the ask is a shell command that invokes none of the binaries
  the execution guard judges.\<close>

definition destroyed :: "consent_env \<Rightarrow> AskFileScope \<Rightarrow> string \<Rightarrow> SessionEvent \<Rightarrow> grantStore \<Rightarrow> (string \<times> string) option" where
  "destroyed E scope convID evt g =
     (let a = the_action E scope evt
      in if \<not> isBashAsk (Tool a) \<or> commandInvokesScopedBinary (Command a) then
           first_destroyed (Roots (UserHomeDir (policy_deps E)) (xdg_data E) [])
             (ScopeRoots (scope_Dir scope) (GrantRoots convID g)) (the_targets E scope evt)
         else None)"

definition start_judged :: "bool \<Rightarrow> judged" where
  "start_judged resolved = \<lparr>proceed = resolved, allInside = resolved, key_verdict = VerdictAsk, blocking = None\<rparr>"

definition decide :: "consent_env \<Rightarrow> AskFileScope \<Rightarrow> string \<Rightarrow> string \<Rightarrow> SessionEvent \<Rightarrow> Service \<Rightarrow> turn \<Rightarrow>
    reaction \<times> Service \<times> turn" where
  "decide E scope convID sid evt svc T =
     (let a = the_action E scope evt; r = binaryClassRefusal a
      in if r \<noteq> [] then
           (Answered ''reject'' (Text r), svc, record_action a ''never_allow'' (Text r) T)
         else (case destroyed E scope convID evt (svc_grants svc) of
                 Some (target, root) \<Rightarrow>
                   (let ref = Text (protected_Refusal target root)
                    in (Answered ''reject'' ref, svc, record_action a ''protected_path'' ref T))
               | None \<Rightarrow>
                   (case judge E (svc_grants svc) convID scope 0 (the_targets E scope evt)
                           (start_judged (askActionResolved a)) of
                      Inl (v, ref) \<Rightarrow> (Answered ''reject'' ref, svc, record_action a v ref T)
                    | Inr j \<Rightarrow>
                        if proceed j then
                          (Answered ''once'' NoNote, svc, record_action a (Verdict_String (key_verdict j)) NoNote T)
                        else if FullsendEnabled convID (svc_fullsend svc) then
                          (Answered ''once'' NoNote, svc, record_action a ''fullsend'' NoNote T)
                        else raise_card E convID sid a (the_targets E scope evt) j svc T)))"

subsection \<open>What the policy loop computes\<close>

definition clear_target :: "consent_env \<Rightarrow> grantStore \<Rightarrow> string \<Rightarrow> decisionTarget \<Rightarrow> bool" where
  "clear_target E g convID t = (case consult E g convID t of Inl _ \<Rightarrow> False | Inr d \<Rightarrow> Verdict d \<noteq> VerdictDeny)"

definition covered_target :: "consent_env \<Rightarrow> grantStore \<Rightarrow> string \<Rightarrow> decisionTarget \<Rightarrow> bool" where
  "covered_target E g convID t = (case consult E g convID t of Inl _ \<Rightarrow> False | Inr d \<Rightarrow> Proceed (Verdict d))"

lemma judge_clear:
  "list_all (clear_target E g c) ts \<Longrightarrow>
    \<exists>j'. judge E g c scope i ts j = Inr j' \<and>
      (proceed j' \<longleftrightarrow> proceed j \<and> list_all (covered_target E g c) ts) \<and>
      blocking j' = (case blocking j of None \<Rightarrow> find (\<lambda>t. \<not> covered_target E g c t) ts | Some b \<Rightarrow> Some b)"
proof (induction ts arbitrary: i j)
  case (Cons t ts)
  then obtain d where d: "consult E g c t = Inr d" "Verdict d \<noteq> VerdictDeny"
    by (auto simp: clear_target_def split: sum.splits)
  then have cov: "covered_target E g c t \<longleftrightarrow> Proceed (Verdict d)" by (simp add: covered_target_def)
  have "list_all (clear_target E g c) ts" using Cons.prems by simp
  from Cons.IH [OF this, of "Suc i" "note_target scope i t d j"] obtain j' where
    j': "judge E g c scope (Suc i) ts (note_target scope i t d j) = Inr j'"
      "proceed j' \<longleftrightarrow> proceed (note_target scope i t d j) \<and> list_all (covered_target E g c) ts"
      "blocking j' = (case blocking (note_target scope i t d j) of
         None \<Rightarrow> find (\<lambda>t. \<not> covered_target E g c t) ts | Some b \<Rightarrow> Some b)"
    by blast
  show ?case using d cov j' by (auto simp: note_target_def split: option.splits)
qed (auto split: option.splits)

lemma judge_refused: "\<not> list_all (clear_target E g c) ts \<Longrightarrow> \<exists>v n. judge E g c scope i ts j = Inl (v, n)"
proof (induction ts arbitrary: i j)
  case (Cons t ts)
  then show ?case by (cases "consult E g c t") (auto simp: clear_target_def)
qed simp

text \<open>The outcomes of a decision, by what stands in its way.\<close>

definition barred :: "consent_env \<Rightarrow> AskFileScope \<Rightarrow> string \<Rightarrow> SessionEvent \<Rightarrow> grantStore \<Rightarrow> bool" where
  "barred E scope c evt g \<longleftrightarrow>
     binaryClassRefusal (the_action E scope evt) \<noteq> [] \<or> destroyed E scope c evt g \<noteq> None \<or>
     \<not> list_all (clear_target E g c) (the_targets E scope evt)"

definition consented :: "consent_env \<Rightarrow> AskFileScope \<Rightarrow> string \<Rightarrow> SessionEvent \<Rightarrow> grantStore \<Rightarrow> bool" where
  "consented E scope c evt g \<longleftrightarrow>
     askActionResolved (the_action E scope evt) \<and> list_all (covered_target E g c) (the_targets E scope evt)"

lemma decide_clear:
  assumes "\<not> barred E scope c evt (svc_grants svc)"
  shows "\<exists>j. (consented E scope c evt (svc_grants svc) \<longleftrightarrow> proceed j) \<and>
    blocking j = find (\<lambda>t. \<not> covered_target E (svc_grants svc) c t) (the_targets E scope evt) \<and>
    decide E scope c sid evt svc T =
      (if proceed j then
         (Answered ''once'' NoNote, svc, record_action (the_action E scope evt) (Verdict_String (key_verdict j)) NoNote T)
       else if FullsendEnabled c (svc_fullsend svc) then
         (Answered ''once'' NoNote, svc, record_action (the_action E scope evt) ''fullsend'' NoNote T)
       else raise_card E c sid (the_action E scope evt) (the_targets E scope evt) j svc T)"
proof -
  let ?a = "the_action E scope evt" and ?ts = "the_targets E scope evt" and ?g = "svc_grants svc"
  have parts: "binaryClassRefusal ?a = []" "destroyed E scope c evt ?g = None" "list_all (clear_target E ?g c) ?ts"
    using assms by (simp_all add: barred_def del: not_None_eq)
  obtain j where "judge E ?g c scope 0 ?ts (start_judged (askActionResolved ?a)) = Inr j"
    "proceed j \<longleftrightarrow> consented E scope c evt ?g" "blocking j = find (\<lambda>t. \<not> covered_target E ?g c t) ?ts"
    using judge_clear [OF parts(3), of scope 0 "start_judged (askActionResolved ?a)"]
    by (auto simp: consented_def start_judged_def)
  then show ?thesis using parts(1,2) by (intro exI [of _ j]) (simp add: decide_def Let_def)
qed

lemma decide_barred:
  assumes "barred E scope c evt (svc_grants svc)"
  shows "\<exists>n. fst (decide E scope c sid evt svc T) = Answered ''reject'' n \<and> fst (snd (decide E scope c sid evt svc T)) = svc"
proof -
  let ?a = "the_action E scope evt" and ?g = "svc_grants svc"
  consider "binaryClassRefusal ?a \<noteq> []"
    | target root where "binaryClassRefusal ?a = []" "destroyed E scope c evt ?g = Some (target, root)"
    | v n where "binaryClassRefusal ?a = []" "destroyed E scope c evt ?g = None"
        "judge E ?g c scope 0 (the_targets E scope evt) (start_judged (askActionResolved ?a)) = Inl (v, n)"
    using assms judge_refused unfolding barred_def by (metis option.exhaust surj_pair)
  then show ?thesis by cases (simp_all add: decide_def Let_def)
qed

lemma decide_once:
  "\<not> barred E scope c evt (svc_grants svc) \<Longrightarrow>
    consented E scope c evt (svc_grants svc) \<or> FullsendEnabled c (svc_fullsend svc) \<Longrightarrow>
    fst (decide E scope c sid evt svc T) = Answered ''once'' NoNote"
  using decide_clear [of E scope c evt svc sid T] by auto

lemma decide_asks:
  "\<not> barred E scope c evt (svc_grants svc) \<Longrightarrow> \<not> consented E scope c evt (svc_grants svc) \<Longrightarrow>
    \<not> FullsendEnabled c (svc_fullsend svc) \<Longrightarrow>
    \<exists>j. decide E scope c sid evt svc T =
        raise_card E c sid (the_action E scope evt) (the_targets E scope evt) j svc T \<and>
      blocking j = find (\<lambda>t. \<not> covered_target E (svc_grants svc) c t) (the_targets E scope evt)"
  using decide_clear [of E scope c evt svc sid T] by auto

lemma raise_card_not_answered [simp]: "fst (raise_card E c sid a ts j svc T) \<noteq> Answered r n"
  by (simp add: raise_card_def Let_def)

lemma decide_reaction:
  "barred E scope c evt (svc_grants svc) \<and> (\<exists>n. fst (decide E scope c sid evt svc T) = Answered ''reject'' n) \<or>
   \<not> barred E scope c evt (svc_grants svc) \<and>
     (consented E scope c evt (svc_grants svc) \<or> FullsendEnabled c (svc_fullsend svc)) \<and>
     fst (decide E scope c sid evt svc T) = Answered ''once'' NoNote \<or>
   \<not> barred E scope c evt (svc_grants svc) \<and>
     \<not> (consented E scope c evt (svc_grants svc) \<or> FullsendEnabled c (svc_fullsend svc)) \<and>
     (\<exists>ask. fst (decide E scope c sid evt svc T) = Await ask)"
proof -
  have "\<exists>ask. fst (raise_card E c sid a ts j svc T) = Await ask" for a ts j by (simp add: raise_card_def Let_def)
  then show ?thesis
    using decide_barred [of E scope c evt svc sid T] decide_once [of E scope c evt svc sid T]
      decide_asks [of E scope c evt svc sid T] by metis
qed

lemma decide_awaits_iff:
  "(\<exists>ask. fst (decide E scope c sid evt svc T) = Await ask) \<longleftrightarrow>
    \<not> barred E scope c evt (svc_grants svc) \<and>
    \<not> (consented E scope c evt (svc_grants svc) \<or> FullsendEnabled c (svc_fullsend svc))"
  using decide_reaction [of E scope c evt svc sid T] by auto

lemma decide_once_iff:
  "fst (decide E scope c sid evt svc T) = Answered ''once'' NoNote \<longleftrightarrow>
    \<not> barred E scope c evt (svc_grants svc) \<and>
    (consented E scope c evt (svc_grants svc) \<or> FullsendEnabled c (svc_fullsend svc))"
  using decide_reaction [of E scope c evt svc sid T] by auto

text \<open>
  C3. The gate, exactly. An action is answered at once with consent iff the never-allow class, the
  protected paths and the policy's deny list leave it alone, the policy could be read for every target,
  and either every target is covered by a grant or an accept entry and the action names something, or
  the operator waived the prompt for this conversation. Where something bars it the answer is a
  refusal and no store changes; otherwise a card is raised for the operator.
\<close>

theorem decide_exact:
  "(fst (decide E scope c sid evt svc T) = Answered ''once'' NoNote \<longleftrightarrow>
      \<not> barred E scope c evt (svc_grants svc) \<and>
      (consented E scope c evt (svc_grants svc) \<or> FullsendEnabled c (svc_fullsend svc))) \<and>
   ((\<exists>n. fst (decide E scope c sid evt svc T) = Answered ''reject'' n) \<longleftrightarrow> barred E scope c evt (svc_grants svc)) \<and>
   ((\<exists>ask. fst (decide E scope c sid evt svc T) = Await ask) \<longleftrightarrow>
      \<not> barred E scope c evt (svc_grants svc) \<and>
      \<not> (consented E scope c evt (svc_grants svc) \<or> FullsendEnabled c (svc_fullsend svc)))"
  using decide_reaction [of E scope c evt svc sid T] by auto

subsection \<open>Grants and the policy, target by target\<close>

lemma clear_target_iff:
  "clear_target E g c t \<longleftrightarrow>
    (\<exists>p. Load (policy_deps E) (policy_files E) (policy_path E) = Inr p \<and>
      \<not> list_ex (\<lambda>e. entry_hit (policy_deps E) e (abstarget t)) (Deny p))"
proof (cases "Load (policy_deps E) (policy_files E) (policy_path E)")
  case (Inl e)
  then show ?thesis by (simp add: clear_target_def consult_def Decide_load_error)
next
  case (Inr p)
  then show ?thesis using matchAny_hit [of "policy_deps E" "Deny p" "abstarget t"]
    by (auto simp: clear_target_def consult_def Decide_loaded [OF Inr] split: option.splits)
qed

lemma covered_target_iff:
  "covered_target E g c t \<longleftrightarrow>
    (\<exists>p. Load (policy_deps E) (policy_files E) (policy_path E) = Inr p \<and>
      \<not> list_ex (\<lambda>e. entry_hit (policy_deps E) e (abstarget t)) (Deny p) \<and>
      (HasGrant c (target_key t) g \<or> list_ex (\<lambda>e. entry_hit (policy_deps E) e (abstarget t)) (Accept p)))"
proof (cases "Load (policy_deps E) (policy_files E) (policy_path E)")
  case (Inl e)
  then show ?thesis by (simp add: covered_target_def consult_def Decide_load_error)
next
  case (Inr p)
  then show ?thesis
    using matchAny_hit [of "policy_deps E" "Deny p" "abstarget t"] matchAny_hit [of "policy_deps E" "Accept p" "abstarget t"]
    by (auto simp: covered_target_def consult_def Decide_loaded [OF Inr] Proceed_def split: option.splits)
qed

lemma HasGrant_mono: "granted g c \<subseteq> granted g' c \<Longrightarrow> HasGrant c k g \<Longrightarrow> HasGrant c k g'"
proof -
  assume sub: "granted g c \<subseteq> granted g' c" and h: "HasGrant c k g"
  then have "c \<noteq> []" "TrimSpace k \<noteq> []" by (auto simp: HasGrant_def split: if_splits)
  then show ?thesis using sub h by (auto simp: HasGrant_iff)
qed

lemma covered_target_mono:
  "granted g c \<subseteq> granted g' c \<Longrightarrow> covered_target E g c t \<Longrightarrow> covered_target E g' c t"
  by (auto simp: covered_target_iff dest: HasGrant_mono)

lemma granted_Grant_mono: "granted g c \<subseteq> granted (Grant now c' d g) c"
  by (auto simp: granted_Grant)

text \<open>
  A deny entry is never waived. If any path the action touches is covered by a deny entry of the
  policy, the action is refused, whatever the conversation was granted and with FULLSEND on.
\<close>

theorem deny_never_waived:
  assumes "Load (policy_deps E) (policy_files E) (policy_path E) = Inr p" and "e \<in> set (Deny p)"
    and "t \<in> set (the_targets E scope evt)" and "entry_hit (policy_deps E) e (abstarget t)"
  shows "\<exists>n. fst (decide E scope c sid evt svc T) = Answered ''reject'' n"
proof -
  have "\<not> clear_target E (svc_grants svc) c t"
    using assms by (auto simp: clear_target_iff list_ex_iff)
  then have "barred E scope c evt (svc_grants svc)" using assms(3) by (auto simp: barred_def list_all_iff)
  then show ?thesis using decide_barred by blast
qed

text \<open>
  A policy that cannot be read is never taken for permission: every action is refused until it can,
  under every grant and with FULLSEND on.
\<close>

theorem unreadable_policy_refuses:
  assumes "Load (policy_deps E) (policy_files E) (policy_path E) = Inl e"
  shows "\<exists>n. fst (decide E scope c sid evt svc T) = Answered ''reject'' n"
proof -
  have "the_targets E scope evt \<noteq> []" by (simp add: the_targets_def decisionTargets_def Let_def)
  then obtain t where "t \<in> set (the_targets E scope evt)" by (meson last_in_set)
  moreover have "\<not> clear_target E (svc_grants svc) c t" using assms by (simp add: clear_target_iff)
  ultimately have "barred E scope c evt (svc_grants svc)" by (auto simp: barred_def list_all_iff)
  then show ?thesis using decide_barred by blast
qed

subsection \<open>Answering the cards ends the asking\<close>

definition grantable :: "decisionTarget \<Rightarrow> bool" where
  "grantable t \<longleftrightarrow> IsAbs (target_key t) \<and> Clean (target_key t) \<noteq> ''/''"

lemma granted_key:
  assumes "grantable t" and "c \<noteq> []"
  shows "HasGrant c (target_key t) (Grant now c (target_key t) g)"
proof -
  let ?k = "target_key t"
  have k: "IsAbs ?k" "Clean ?k \<noteq> ''/''" using assms(1) by (simp_all add: grantable_def)
  then have "\<not> isFilesystemRoot (Clean ?k)" using isFilesystemRoot_abs [of "Clean ?k"] by simp
  then have "Clean ?k \<in> granted (Grant now c ?k g) c"
    using assms(2) IsAbs_not_blank [OF k(1)] by (simp add: granted_Grant)
  then show ?thesis using HasGrant_iff [OF assms(2) IsAbs_not_blank [OF k(1)]] by blast
qed

text \<open>The same call raised again after each card was answered with a session grant, at most \<open>n\<close> times.\<close>

fun grant_cards :: "consent_env \<Rightarrow> AskFileScope \<Rightarrow> string \<Rightarrow> string \<Rightarrow> SessionEvent \<Rightarrow> int \<Rightarrow> nat \<Rightarrow> Service \<Rightarrow> turn \<Rightarrow> reaction" where
  "grant_cards E scope c sid evt now 0 svc T = fst (decide E scope c sid evt svc T)"
| "grant_cards E scope c sid evt now (Suc n) svc T =
     (case decide E scope c sid evt svc T of
        (Answered r m, _) \<Rightarrow> Answered r m
      | (Await ask, svc', T') \<Rightarrow>
          grant_cards E scope c sid evt now n (svc'\<lparr>svc_grants := Grant now c (Key ask) (svc_grants svc')\<rparr>) T')"

definition uncovered :: "consent_env \<Rightarrow> AskFileScope \<Rightarrow> string \<Rightarrow> SessionEvent \<Rightarrow> grantStore \<Rightarrow> decisionTarget list" where
  "uncovered E scope c evt g = filter (\<lambda>t. \<not> covered_target E g c t) (the_targets E scope evt)"

lemma length_filter_smaller:
  assumes "\<And>x. x \<in> set xs \<Longrightarrow> Q x \<Longrightarrow> P x" and "x \<in> set xs" and "P x" and "\<not> Q x"
  shows "length (filter Q xs) < length (filter P xs)"
proof -
  have "filter Q xs = filter Q (filter P xs)" using assms(1) by (induction xs) auto
  then show ?thesis using length_filter_less [of x "filter P xs" Q] assms(2-4) by simp
qed

lemma card_names_blocking:
  assumes "\<not> barred E scope c evt (svc_grants svc)" and "\<not> consented E scope c evt (svc_grants svc)"
    and "\<not> FullsendEnabled c (svc_fullsend svc)" and "askActionResolved (the_action E scope evt)"
    and "list_all grantable (the_targets E scope evt)"
  obtains ask svc' T' t where "decide E scope c sid evt svc T = (Await ask, svc', T')"
    and "svc_grants svc' = svc_grants svc" and "svc_fullsend svc' = svc_fullsend svc"
    and "Key ask = target_key t" and "t \<in> set (uncovered E scope c evt (svc_grants svc))"
proof -
  obtain j where j: "decide E scope c sid evt svc T =
      raise_card E c sid (the_action E scope evt) (the_targets E scope evt) j svc T"
    "blocking j = find (\<lambda>t. \<not> covered_target E (svc_grants svc) c t) (the_targets E scope evt)"
    using decide_asks [OF assms(1-3)] by blast
  have "\<not> list_all (covered_target E (svc_grants svc) c) (the_targets E scope evt)"
    using assms(2,4) by (simp add: consented_def)
  then have "blocking j \<noteq> None" unfolding j(2) find_None_iff by (auto simp: list_all_iff)
  then obtain t where t: "blocking j = Some t" by auto
  then have mem: "t \<in> set (uncovered E scope c evt (svc_grants svc))"
    using j(2) by (auto simp: uncovered_def find_Some_iff)
  then have "target_key t \<noteq> []" using assms(5) by (auto simp: uncovered_def list_all_iff grantable_def IsAbs_def HasPrefix_def)
  then show thesis using that j(1) t mem
    by (auto simp: raise_card_def Let_def new_ask_def card_key_def)
qed

lemma grant_cards_answers:
  assumes "askActionResolved (the_action E scope evt)" and "list_all grantable (the_targets E scope evt)" and "c \<noteq> []"
  shows "length (uncovered E scope c evt (svc_grants svc)) \<le> n \<Longrightarrow>
    \<exists>r m. grant_cards E scope c sid evt now n svc T = Answered r m"
proof (induction n arbitrary: svc T)
  case 0
  then have "consented E scope c evt (svc_grants svc)"
    using assms(1) by (auto simp: consented_def uncovered_def list_all_iff filter_empty_conv)
  then show ?case using decide_once decide_barred by (cases "barred E scope c evt (svc_grants svc)") fastforce+
next
  case (Suc n)
  show ?case
  proof (cases "\<not> barred E scope c evt (svc_grants svc) \<and> \<not> consented E scope c evt (svc_grants svc) \<and>
      \<not> FullsendEnabled c (svc_fullsend svc)")
    case True
    then obtain ask svc' T' t where d: "decide E scope c sid evt svc T = (Await ask, svc', T')"
      "svc_grants svc' = svc_grants svc" "Key ask = target_key t" and t: "t \<in> set (uncovered E scope c evt (svc_grants svc))"
      using card_names_blocking [of E scope c evt svc sid T] assms(1,2) by metis
    let ?g' = "Grant now c (target_key t) (svc_grants svc)"
    have tt: "t \<in> set (the_targets E scope evt)" "\<not> covered_target E (svc_grants svc) c t"
      using t by (auto simp: uncovered_def)
    then have "grantable t" "clear_target E (svc_grants svc) c t"
      using assms(2) True by (auto simp: list_all_iff barred_def)
    then have "covered_target E ?g' c t"
      using granted_key [OF _ assms(3)] by (auto simp: covered_target_iff clear_target_iff)
    then have "length (uncovered E scope c evt ?g') < length (uncovered E scope c evt (svc_grants svc))"
      unfolding uncovered_def using tt covered_target_mono [OF granted_Grant_mono]
      by (intro length_filter_smaller [of _ _ _ t]) blast+
    then show ?thesis using Suc.IH [of "svc'\<lparr>svc_grants := ?g'\<rparr>" T'] Suc.prems d by simp
  next
    case False
    then consider "barred E scope c evt (svc_grants svc)"
      | "\<not> barred E scope c evt (svc_grants svc)"
        "consented E scope c evt (svc_grants svc) \<or> FullsendEnabled c (svc_fullsend svc)" by blast
    then obtain r m where "fst (decide E scope c sid evt svc T) = Answered r m"
      using decide_barred decide_once by (cases) metis+
    then show ?thesis by (cases "decide E scope c sid evt svc T") simp
  qed
qed

lemma PathJoin_abs: "IsAbs h \<Longrightarrow> IsAbs (PathJoin [h, x])"
proof -
  assume h: "IsAbs h"
  then have "h \<noteq> []" by (auto simp: IsAbs_def HasPrefix_def)
  then have "PathJoin [h, x] = Clean (if x = [] then h else h @ ''/'' @ x)" by (simp add: PathJoin_def)
  then show ?thesis using h by (auto simp: IsAbs_append)
qed

lemma token_path_abs:
  assumes "token_path userHome t = Some p" and "\<And>h. userHome = Some h \<Longrightarrow> IsAbs h"
  shows "IsAbs p \<and> Clean p = p \<and> p \<noteq> ''/''"
proof -
  obtain w where w: "p = Clean w" "Clean w \<noteq> ''/''"
    and cases: "HasPrefix w ''/'' \<or> (\<exists>h x. userHome = Some h \<and> w = PathJoin [h, x])"
    using assms(1) by (auto simp: token_path_def Let_def split: if_splits option.splits)
  have "IsAbs w" using cases assms(2) PathJoin_abs by (auto simp: IsAbs_def)
  then show ?thesis using w by simp
qed

lemma grantable_key: "IsAbs p \<Longrightarrow> Clean p = p \<Longrightarrow> p \<noteq> ''/'' \<Longrightarrow> grantable \<lparr>abstarget = p, target_key = grantScopeKey p\<rparr>"
proof -
  assume p: "IsAbs p" "Clean p = p" "p \<noteq> ''/''"
  define segs where "segs = segs_of p"
  have eq: "p = abs_path segs" "norm_segs segs" using p(1,2) Clean_abs [of p] by (simp_all add: segs_def)
  have ne: "segs \<noteq> []" using p(3) eq abs_path_root by metis
  have nb: "norm_segs (butlast segs)" using eq(2) by (cases segs rule: rev_cases) simp_all
  have root: "isFilesystemRoot (abs_path xs) \<longleftrightarrow> xs = []" if "norm_segs xs" for xs
    using isFilesystemRoot_abs [of "abs_path xs"] that by (simp add: abs_path_root)
  have "grantScopeKey p = abs_path (if butlast segs = [] then segs else butlast segs)"
    using ne root [OF eq(2)] root [OF nb] eq by (simp add: grantScopeKey_def Let_def PathDir_abs_path)
  then show ?thesis using ne nb eq(2) by (simp add: grantable_def abs_path_root)
qed

lemma shell_targets_grantable:
  assumes "isBashAsk (Tool a)" and "IsAbs dir" and "Clean dir \<noteq> ''/''" and "\<And>h. userHome = Some h \<Longrightarrow> IsAbs h"
  shows "list_all grantable (decisionTargets userHome a dir)"
proof -
  have "grantable \<lparr>abstarget = p, target_key = grantScopeKey p\<rparr>"
    if "p \<in> set (fresh_paths [Clean dir] (commandPaths userHome (Command a)))" for p
  proof -
    have "p \<in> set (commandPaths userHome (Command a))" using that by (simp add: set_fresh_paths)
    then obtain t where "token_path userHome t = Some p"
      by (auto simp: commandPaths_def map_filter_def split: if_splits)
    then show ?thesis using token_path_abs assms(4) grantable_key by blast
  qed
  moreover have "grantable \<lparr>abstarget = Clean dir, target_key = Clean dir\<rparr>"
    using assms(2,3) by (simp add: grantable_def)
  ultimately show ?thesis using assms(1) by (auto simp: decisionTargets_def Let_def list_all_iff)
qed

text \<open>
  The cards of a shell command can be answered for good. In a project below the root, if each card
  is answered with a grant for the directory it names and the command is tried again, then after at
  most one card per path the gate answers by itself: each card names a directory whose grant settles
  the path it was raised for, and no grant makes another path ask again.
\<close>

theorem cards_end_the_asking:
  assumes "isBashAsk (Tool (the_action E scope evt))" and "TrimSpace (Command (the_action E scope evt)) \<noteq> []"
    and "IsAbs (scope_Dir scope)" and "Clean (scope_Dir scope) \<noteq> ''/''"
    and "UserHomeDir (policy_deps E) = Some h" and "IsAbs h" and "c \<noteq> []"
  shows "\<exists>r m. grant_cards E scope c sid evt now (length (the_targets E scope evt)) svc T = Answered r m"
proof (rule grant_cards_answers)
  show "askActionResolved (the_action E scope evt)" using assms(2) by (simp add: askActionResolved_def)
  show "list_all grantable (the_targets E scope evt)"
    unfolding the_targets_def using assms(1,3-6) by (intro shell_targets_grantable) auto
qed (use assms(7) in \<open>simp_all add: uncovered_def\<close>)

text \<open>A conversation in \<open>/srv/p\<close>, and the engine's event for a shell command and for a file write.\<close>

definition sample_env :: consent_env where
  "sample_env = \<lparr>policy_deps = sample_deps, policy_files = (\<lambda>_. Content ''x''), policy_path = ''p'',
     xdg_data = [], unmarshal = (\<lambda>_. None)\<rparr>"

definition sample_scope :: AskFileScope where
  "sample_scope = \<lparr>scope_Dir = ''/work/p'', ProjectID = ''1'', FromConversation = True\<rparr>"

definition shell_event :: "string \<Rightarrow> SessionEvent" where
  "shell_event cmd = \<lparr>evt_Tool = ''bash'', evt_Command = cmd, evt_Targets = [], InputJSON = [], Detail = None,
     PermissionID = ''a1'', evt_Question = [], evt_Options = [], evt_AllowOther = False\<rparr>"

definition write_event :: "string \<Rightarrow> SessionEvent" where
  "write_event path = \<lparr>evt_Tool = ''write'', evt_Command = [], evt_Targets = [path], InputJSON = [], Detail = None,
     PermissionID = ''a1'', evt_Question = [], evt_Options = [], evt_AllowOther = False\<rparr>"

definition new_service :: Service where
  "new_service = \<lparr>svc_grants = newGrantStore, svc_once = newOnceStore, svc_fullsend = newFullsendStore,
     svc_pending = newPendingAskRegistry\<rparr>"

definition new_turn :: turn where
  "new_turn = \<lparr>ledger = [], nextID = 0, awaiting = False, posted = [], emitted = []\<rparr>"

theorem cards_end_the_asking_witness:
  "\<exists>r m. grant_cards sample_env sample_scope ''c'' ''s'' (shell_event ''cp x /etc/y'') 7
     (length (the_targets sample_env sample_scope (shell_event ''cp x /etc/y''))) new_service new_turn = Answered r m"
proof (rule cards_end_the_asking)
  show "isBashAsk (Tool (the_action sample_env sample_scope (shell_event ''cp x /etc/y'')))" by code_simp
  show "TrimSpace (Command (the_action sample_env sample_scope (shell_event ''cp x /etc/y''))) \<noteq> []" by code_simp
  show "IsAbs (scope_Dir sample_scope)" by code_simp
  show "Clean (scope_Dir sample_scope) \<noteq> ''/''" by code_simp
  show "UserHomeDir (policy_deps sample_env) = Some ''/home/me''" by (simp add: sample_env_def sample_deps_def)
  show "IsAbs ''/home/me''" by code_simp
qed simp

theorem deny_never_waived_witness:
  "\<exists>n. fst (decide sample_env sample_scope ''c'' ''s'' (write_event ''/home/me/.ssh/id_rsa'')
     (new_service\<lparr>svc_fullsend := SetFullsend ''c'' True []\<rparr>) new_turn) = Answered ''reject'' n"
proof (rule deny_never_waived)
  show "Load (policy_deps sample_env) (policy_files sample_env) (policy_path sample_env) = Inr sample_policy"
    by (simp add: sample_env_def sample_load)
  show "''~/.ssh/**'' \<in> set (Deny sample_policy)" by (simp add: sample_policy_def)
  show "entry_hit (policy_deps sample_env) ''~/.ssh/**'' (abstarget \<lparr>abstarget = ''/home/me/.ssh/id_rsa'', target_key = ''/home/me/.ssh''\<rparr>)"
    by code_simp
  have "the_targets sample_env sample_scope (write_event ''/home/me/.ssh/id_rsa'') =
      [\<lparr>abstarget = ''/home/me/.ssh/id_rsa'', target_key = ''/home/me/.ssh''\<rparr>]" by code_simp
  then show "\<lparr>abstarget = ''/home/me/.ssh/id_rsa'', target_key = ''/home/me/.ssh''\<rparr> \<in>
      set (the_targets sample_env sample_scope (write_event ''/home/me/.ssh/id_rsa''))" by simp
qed

theorem unreadable_policy_refuses_witness:
  "\<exists>n. fst (decide (sample_env\<lparr>policy_files := (\<lambda>_. Unreadable)\<rparr>) sample_scope ''c'' ''s'' (shell_event ''ls'')
     (new_service\<lparr>svc_fullsend := SetFullsend ''c'' True []\<rparr>) new_turn) = Answered ''reject'' n"
  by (rule unreadable_policy_refuses [where e = ReadError]) (simp add: Load_def)

subsection \<open>The project directory\<close>

lemma project_irrelevant:
  assumes "scope_Dir scope' = scope_Dir scope"
  shows "barred E scope' c evt g \<longleftrightarrow> barred E scope c evt g" and "consented E scope' c evt g \<longleftrightarrow> consented E scope c evt g"
  using assms unfolding barred_def consented_def destroyed_def the_targets_def the_action_def by metis+

text \<open>
  Being inside the conversation's own project approves nothing. Two scopes with the same
  directory, one the conversation's project and one only the anchor for relative paths, get the same
  answers on every event: the membership test only fills a field of the card. What the operator did
  not grant or accept is asked about in the project as anywhere else.
\<close>

theorem project_preapproves_nothing:
  assumes "scope_Dir scope' = scope_Dir scope"
  shows "((\<exists>ask. fst (decide E scope' c sid evt svc T) = Await ask) \<longleftrightarrow> (\<exists>ask. fst (decide E scope c sid evt svc T) = Await ask)) \<and>
    (fst (decide E scope' c sid evt svc T) = Answered ''once'' NoNote \<longleftrightarrow> fst (decide E scope c sid evt svc T) = Answered ''once'' NoNote)"
  unfolding decide_awaits_iff decide_once_iff project_irrelevant [OF assms] by blast

theorem project_preapproves_nothing_witness:
  "(\<exists>ask. fst (decide sample_env sample_scope ''c'' ''s'' (write_event ''/work/p/x'') new_service new_turn) = Await ask) \<and>
   PreApprovedPath sample_scope ''/work/p/x''"
proof -
  have "case fst (decide sample_env (sample_scope\<lparr>FromConversation := False\<rparr>) ''c'' ''s'' (write_event ''/work/p/x'')
      new_service new_turn) of Await ask \<Rightarrow> True | _ \<Rightarrow> False" by code_simp
  then have "\<exists>ask. fst (decide sample_env (sample_scope\<lparr>FromConversation := False\<rparr>) ''c'' ''s'' (write_event ''/work/p/x'')
      new_service new_turn) = Await ask" by (auto split: reaction.splits)
  moreover have "PreApprovedPath sample_scope ''/work/p/x''" by code_simp
  ultimately show ?thesis
    using project_preapproves_nothing [of "sample_scope\<lparr>FromConversation := False\<rparr>" sample_scope sample_env "''c''" "''s''"
        "write_event ''/work/p/x''" new_service new_turn] by simp
qed

end
