(* ===== verification/Consent_Replies.thy ===== *)
theory Consent_Replies
  imports Consent_Gate
begin

text \<open>
  Answering the cards: the reply RPC (\<open>consent_service.go\<close>), FULLSEND's approvals and the end of a
  conversation (\<open>service.go\<close>), the clarifying questions, and the turn's application of replies and its
  end (\<open>consent.go\<close>). Whether the caller has a tenant and owns the conversation is decided by the
  database, so it is an argument, as is the decoder of the question's arguments.
\<close>

subsection \<open>The reply RPC\<close>

datatype rpc_error = CodeInternal | CodeInvalidArgument string | ConversationError

record ReplyResponse =
  Applied :: bool
  Expired :: bool
  resp_Detail :: string

definition ask_gone :: ReplyResponse where
  "ask_gone = \<lparr>Applied = False, Expired = True,
     resp_Detail = ''this ask is no longer open '' @ [CHR 0xE2, CHR 0x80, CHR 0x94] @ '' the turn ended or was superseded''\<rparr>"

definition ask_lost :: "string \<Rightarrow> string \<Rightarrow> ReplyResponse" where
  "ask_lost noun what = \<lparr>Applied = False, Expired = True,
     resp_Detail = ''this '' @ noun @ '' was already answered or expired '' @ [CHR 0xE2, CHR 0x80, CHR 0x94] @
       '' the '' @ what @ '' was not applied''\<rparr>"

definition ask_taken :: "string \<Rightarrow> string \<Rightarrow> ReplyResponse" where
  "ask_taken what askID = \<lparr>Applied = True, Expired = False, resp_Detail = what @ '' recorded for ask '' @ askID\<rparr>"

definition is_other_choice :: "PermissionChoice \<Rightarrow> bool" where
  "is_other_choice c = (case c of OTHER_CHOICE _ \<Rightarrow> True | _ \<Rightarrow> False)"

text \<open>The grant and the once-targets a winning choice records.\<close>

definition record_choice :: "int \<Rightarrow> string \<Rightarrow> PermissionChoice \<Rightarrow> pendingAsk \<Rightarrow> Service \<Rightarrow> Service" where
  "record_choice now convID c a svc =
     (if c = ALLOW_SESSION then svc\<lparr>svc_grants := Grant now convID (Key a) (svc_grants svc)\<rparr>
      else if c = ALLOW_ONCE then svc\<lparr>svc_once := RecordOnce convID (AbsTargets a) (svc_once svc)\<rparr>
      else svc)"

definition ReplyPermissionAsk ::
    "bool \<Rightarrow> (string \<Rightarrow> bool) \<Rightarrow> int \<Rightarrow> string \<Rightarrow> string \<Rightarrow> PermissionChoice \<Rightarrow> string \<Rightarrow> Service \<Rightarrow>
     (rpc_error + ReplyResponse) \<times> Service" where
  "ReplyPermissionAsk tenant owns now convID askID c ans svc =
     (if \<not> tenant then (Inl CodeInternal, svc)
      else (let convID = TrimSpace convID; askID = TrimSpace askID
            in if convID = [] \<or> askID = [] then
                 (Inl (CodeInvalidArgument ''conversation_id and ask_id must not be empty''), svc)
               else if is_other_choice c then
                 (Inl (CodeInvalidArgument ''choice must be ALLOW_ONCE, ALLOW_SESSION or DENY (UNSPECIFIED is only for a question answer)''), svc)
               else if \<not> owns convID then (Inl ConversationError, svc)
               else (case getAsk convID askID (svc_pending svc) of
                       None \<Rightarrow> (Inr ask_gone, svc)
                     | Some a \<Rightarrow>
                         if isQuestion a then
                           (let ans = TrimSpace ans
                            in if ans = [] then
                                 (Inl (CodeInvalidArgument ''answer must not be empty for a clarifying question''), svc)
                               else (case recordClientAnswer ans a of
                                       (False, _) \<Rightarrow> (Inr (ask_lost ''question'' ''answer''), svc)
                                     | (True, a') \<Rightarrow>
                                         (Inr (ask_taken ''answer'' askID),
                                          svc\<lparr>svc_pending := setAsk convID askID a' (svc_pending svc)\<rparr>)))
                         else (case clientReply c a of
                                 (False, _) \<Rightarrow> (Inr (ask_lost ''ask'' ''decision''), svc)
                               | (True, a') \<Rightarrow>
                                   (Inr (ask_taken ''decision'' askID),
                                    record_choice now convID c a
                                      (svc\<lparr>svc_pending := setAsk convID askID a' (svc_pending svc)\<rparr>))))))"

subsection \<open>FULLSEND and the end of a conversation\<close>

definition approve_one :: "string \<Rightarrow> pendingAsk \<Rightarrow> nat \<times> Service \<Rightarrow> nat \<times> Service" where
  "approve_one convID a acc =
     (case acc of (cleared, svc) \<Rightarrow>
        if isQuestion a \<or> \<not> isOpen a then (cleared, svc)
        else (case autoApproveOnce a of
                (False, _) \<Rightarrow> (cleared, svc)
              | (True, a') \<Rightarrow> (Suc cleared, svc\<lparr>svc_pending := setAsk convID (AskID a) a' (svc_pending svc)\<rparr>)))"

definition approvePendingForFullsend :: "string \<Rightarrow> Service \<Rightarrow> nat \<times> Service" where
  "approvePendingForFullsend convID svc =
     (if convID = [] then (0, svc) else fold (approve_one convID) (listAsks convID (svc_pending svc)) (0, svc))"

text \<open>\<open>SetConversationFullsend\<close> behind its committed transaction.\<close>

definition SetConversationFullsend :: "string \<Rightarrow> bool \<Rightarrow> Service \<Rightarrow> Service" where
  "SetConversationFullsend convID enabled svc =
     (let svc = svc\<lparr>svc_fullsend := SetFullsend convID enabled (svc_fullsend svc)\<rparr>
      in if enabled then snd (approvePendingForFullsend convID svc) else svc)"

text \<open>The consent state \<open>DeleteConversation\<close> clears.\<close>

definition DeleteConversation_consent :: "string \<Rightarrow> Service \<Rightarrow> Service" where
  "DeleteConversation_consent convID svc =
     svc\<lparr>svc_grants := ClearGrants convID (svc_grants svc),
         svc_once := ClearOnce convID (svc_once svc),
         svc_pending := snd (removeConversation convID (svc_pending svc))\<rparr>"

definition ListPendingAsks :: "string \<Rightarrow> Service \<Rightarrow> pendingAsk list" where
  "ListPendingAsks convID svc = filter isOpen (listAsks (TrimSpace convID) (svc_pending svc))"

definition wireGrants :: "sessionGrant list \<Rightarrow> (string \<times> int) list" where
  "wireGrants gs = map (\<lambda>g. (grant_Directory g, GrantedAt g)) gs"

definition ListPermissionGrants :: "bool \<Rightarrow> (string \<Rightarrow> bool) \<Rightarrow> string \<Rightarrow> Service \<Rightarrow> rpc_error + (string \<times> int) list" where
  "ListPermissionGrants tenant owns convID svc =
     (if \<not> tenant then Inl CodeInternal
      else (let convID = TrimSpace convID
            in if convID = [] then Inl (CodeInvalidArgument ''conversation_id must not be empty'')
               else if \<not> owns convID then Inl ConversationError
               else Inr (wireGrants (ListGrants convID (svc_grants svc)))))"

definition RevokePermissionGrant ::
    "bool \<Rightarrow> (string \<Rightarrow> bool) \<Rightarrow> string \<Rightarrow> string \<Rightarrow> Service \<Rightarrow> (rpc_error + bool \<times> (string \<times> int) list) \<times> Service" where
  "RevokePermissionGrant tenant owns convID dir svc =
     (if \<not> tenant then (Inl CodeInternal, svc)
      else (let convID = TrimSpace convID; dir = TrimSpace dir
            in if convID = [] \<or> dir = [] then
                 (Inl (CodeInvalidArgument ''conversation_id and directory must not be empty''), svc)
               else if \<not> owns convID then (Inl ConversationError, svc)
               else (case Revoke convID dir (svc_grants svc) of
                       (removed, g) \<Rightarrow>
                         (Inr (removed, wireGrants (ListGrants convID g)), svc\<lparr>svc_grants := g\<rparr>))))"

subsection \<open>Clarifying questions\<close>

datatype ask_user_error =
  MissingArguments | NotJSON | NoQuestion | EmptyLabel nat | NoOptions | OneOption string | NoAskID | NoText

text \<open>The options of a question: label and description, trimmed; the number is that of the first empty label.\<close>

fun check_options :: "nat \<Rightarrow> (string \<times> string) list \<Rightarrow> ask_user_error + (string \<times> string) list" where
  "check_options i [] = Inr []"
| "check_options i ((l, d) # os) =
     (let label = TrimSpace l
      in if label = [] then Inl (EmptyLabel (Suc i))
         else (case check_options (Suc i) os of
                 Inl e \<Rightarrow> Inl e
               | Inr os' \<Rightarrow> Inr ((label, TrimSpace d) # os')))"

definition parseAskUserArgs ::
    "(string \<Rightarrow> (string \<times> (string \<times> string) list \<times> bool) option) \<Rightarrow> string \<Rightarrow>
     ask_user_error + string \<times> (string \<times> string) list \<times> bool" where
  "parseAskUserArgs decode raw =
     (if TrimSpace raw = [] then Inl MissingArguments
      else (case decode raw of
              None \<Rightarrow> Inl NotJSON
            | Some (q, os, allowOther) \<Rightarrow>
                (let question = TrimSpace q
                 in if question = [] then Inl NoQuestion
                    else (case check_options 0 os of
                            Inl e \<Rightarrow> Inl e
                          | Inr opts \<Rightarrow>
                              if opts = [] \<and> \<not> allowOther then Inl NoOptions
                              else if length opts = 1 then Inl (OneOption (fst (hd opts)))
                              else Inr (question, opts, allowOther)))))"

definition question_ask :: "string \<Rightarrow> string \<Rightarrow> string \<Rightarrow> string \<Rightarrow> string list \<Rightarrow> bool \<Rightarrow> pendingAsk" where
  "question_ask askID convID sid question options allowOther =
     \<lparr>AskID = askID, ConversationID = convID, SessionID = sid, Action = no_action, Key = [],
      ask_Tool = ''ask_user'', ask_Command = [], ask_Targets = [], Directory = [], InsideProject = False,
      Summary = ''asking: '' @ truncateArg question, ask_DenyBelow = [], AbsTargets = [], Question = question,
      Options = options, AllowOther = allowOther, ask_state = askOpen, choice = CHOICE_UNSPECIFIED,
      answer = [], autoApproved = False\<rparr>"

text \<open>The question, its options and its free-text flag, from the typed fields or from the arguments.\<close>

definition question_of ::
    "(string \<Rightarrow> (string \<times> (string \<times> string) list \<times> bool) option) \<Rightarrow> SessionEvent \<Rightarrow>
     ask_user_error + string \<times> string list \<times> bool" where
  "question_of decode evt =
     (let question = TrimSpace (evt_Question evt)
      in if question = [] \<and> TrimSpace (InputJSON evt) \<noteq> [] then
           (case parseAskUserArgs decode (InputJSON evt) of
              Inl e \<Rightarrow> Inl e
            | Inr (q, opts, ao) \<Rightarrow>
                Inr (q, if evt_Options evt = [] then map fst opts else evt_Options evt, ao))
         else Inr (question, evt_Options evt, evt_AllowOther evt))"

definition raiseQuestion ::
    "(string \<Rightarrow> (string \<times> (string \<times> string) list \<times> bool) option) \<Rightarrow> string \<Rightarrow> string \<Rightarrow> SessionEvent \<Rightarrow>
     Service \<Rightarrow> turn \<Rightarrow> (ask_user_error + pendingAsk) \<times> Service \<times> turn" where
  "raiseQuestion decode convID sid evt svc T =
     (if TrimSpace (PermissionID evt) = [] then (Inl NoAskID, svc, T)
      else (case question_of decode evt of
              Inl e \<Rightarrow> (Inl e, svc, T)
            | Inr (question, options, allowOther) \<Rightarrow>
                if question = [] then (Inl NoText, svc, T)
                else (let a = question_ask (PermissionID evt) convID sid question options allowOther
                      in (Inr a, svc\<lparr>svc_pending := putAsk convID a (svc_pending svc)\<rparr>,
                          record_action (Action a) ''question'' (Text question) (T\<lparr>awaiting := True\<rparr>)))))"

subsection \<open>Applying replies\<close>

definition settleMonitor :: "string \<Rightarrow> Service \<Rightarrow> turn \<Rightarrow> turn" where
  "settleMonitor convID svc T = T\<lparr>awaiting := hasOpenAsk convID (svc_pending svc)\<rparr>"

definition post_reply :: "pendingAsk \<Rightarrow> string \<Rightarrow> turn \<Rightarrow> turn" where
  "post_reply a resp T = T\<lparr>posted := posted T @ [(SessionID a, AskID a, resp)]\<rparr>"

definition apply_one :: "string \<Rightarrow> pendingAsk \<Rightarrow> Service \<times> turn \<times> askResolution list \<Rightarrow>
    Service \<times> turn \<times> askResolution list" where
  "apply_one convID a acc =
     (case acc of (svc, T, out) \<Rightarrow>
        (let gone = svc\<lparr>svc_pending := removeAsk convID (AskID a) (svc_pending svc)\<rparr>
         in case clientAnswerValue a of
              Some ans \<Rightarrow>
                (gone, record_action (Action a) ''answered'' (Text ans) (post_reply a ans T),
                 out @ [\<lparr>res_AskID = AskID a, res_Outcome = ''answered'', res_Answer = ans\<rparr>])
            | None \<Rightarrow>
                (case clientChoice a of
                   None \<Rightarrow> acc
                 | Some c \<Rightarrow>
                     (case consentResponse c of
                        None \<Rightarrow> acc
                      | Some resp \<Rightarrow>
                          (let v = (if wasAutoApproved a then ''fullsend_approved'' else ''user_'' @ choice_String c);
                               T = record_action (Action a) v NoNote (post_reply a resp T);
                               gone = (if c = ALLOW_ONCE then
                                         gone\<lparr>svc_once := RecordOnce convID (AbsTargets a) (svc_once svc)\<rparr>
                                       else gone)
                           in (gone, T,
                               out @ [\<lparr>res_AskID = AskID a, res_Outcome = resolutionOutcome c, res_Answer = []\<rparr>]))))))"

definition applyClientReplies :: "string \<Rightarrow> Service \<Rightarrow> turn \<Rightarrow> Service \<times> turn \<times> askResolution list" where
  "applyClientReplies convID svc T =
     (case fold (apply_one convID) (listAsks convID (svc_pending svc)) (svc, T, []) of
        (svc, T, out) \<Rightarrow> (svc, settleMonitor convID svc T, out))"

definition emitAskResolution :: "askResolution \<Rightarrow> turn \<Rightarrow> turn" where
  "emitAskResolution r T = T\<lparr>emitted := emitted T @ [r]\<rparr>"

definition finalize_one :: "pendingAsk \<Rightarrow> turn \<Rightarrow> turn" where
  "finalize_one a T =
     (case resolveForFinalize a of
        ((c, applyClient, wasOpen), a') \<Rightarrow>
          if applyClient then
            (case clientAnswerValue a' of
               Some ans \<Rightarrow>
                 emitAskResolution \<lparr>res_AskID = AskID a, res_Outcome = ''answered'', res_Answer = ans\<rparr>
                   (record_action (Action a) ''answered'' (Text ans) T)
             | None \<Rightarrow>
                 (case consentResponse c of
                    None \<Rightarrow> T
                  | Some resp \<Rightarrow>
                      emitAskResolution \<lparr>res_AskID = AskID a, res_Outcome = resolutionOutcome c, res_Answer = []\<rparr>
                        (record_action (Action a) (''user_'' @ choice_String c) NoNote (post_reply a resp T))))
          else if wasOpen then
            (let T = post_reply a ''reject'' T
             in if isQuestion a then
                  emitAskResolution \<lparr>res_AskID = AskID a, res_Outcome = ''unanswered'', res_Answer = []\<rparr>
                    (record_action (Action a) ''unanswered'' (Text ''the turn ended while it was waiting on the operator'') T)
                else
                  emitAskResolution \<lparr>res_AskID = AskID a, res_Outcome = ''expired'', res_Answer = []\<rparr>
                    (record_action (Action a) ''expired'' (Text ''unanswered at turn end'') T))
          else T)"

definition finalize :: "string \<Rightarrow> Service \<Rightarrow> turn \<Rightarrow> Service \<times> turn" where
  "finalize convID svc T =
     (case removeConversation convID (svc_pending svc) of
        (asks, r) \<Rightarrow> (let svc = svc\<lparr>svc_pending := r\<rparr>
                      in (svc, settleMonitor convID svc (fold finalize_one asks T))))"

definition waitingOnOperator :: "string \<Rightarrow> Service \<Rightarrow> string option" where
  "waitingOnOperator convID svc =
     map_option
       (\<lambda>a. let question = TrimSpace (Question a);
               subject = TrimSpace (Summary a);
               subject = (if subject = [] then TrimSpace (ask_Tool a @ '' '' @ join_with '' '' (ask_Targets a)) else subject)
           in if question \<noteq> [] then question else subject)
       (find isOpen (listAsks convID (svc_pending svc)))"

end
