(* ===== verification/Consent_Reply_Laws.thy ===== *)
theory Consent_Reply_Laws
  imports Consent_Replies
begin

text \<open>
  What the replies promise: a reply takes effect once or not at all, FULLSEND clears exactly the open
  permission cards, the turn's end answers the engine for every ask that was open or decided, and no
  recorded reply is lost between the RPC and the turn. And two replies that are never delivered.
\<close>

subsection \<open>The registry\<close>

definition registry_ok :: "pendingAskRegistry \<Rightarrow> bool" where
  "registry_ok r \<longleftrightarrow> gomap_ok r \<and> (\<forall>c k a. (k, a) \<in> set (inner r c) \<longrightarrow> AskID a = k)"

lemma registry_ok_keys: "registry_ok r \<Longrightarrow> distinct (map AskID (listAsks c r))"
proof -
  assume ok: "registry_ok r"
  then have "map AskID (listAsks c r) = map fst (inner r c)" by (auto simp: registry_ok_def listAsks_def)
  then show ?thesis using ok gomap_ok_inner [of r c] by (simp add: registry_ok_def)
qed

lemma registry_ok_update:
  assumes "registry_ok r" and "AskID a = k"
  shows "registry_ok (AList.update c (AList.update k a (inner r c)) r)"
proof -
  have "distinct (map fst (inner r c))" using assms(1) gomap_ok_inner [of r c] by (simp add: registry_ok_def)
  then show ?thesis using assms set_update_subset [of k a "inner r c"]
    by (auto simp: registry_ok_def gomap_ok_update distinct_update)
qed

lemma registry_ok_put: "registry_ok r \<Longrightarrow> registry_ok (putAsk c a r)"
  by (simp add: putAsk_def registry_ok_update)

lemma registry_ok_set: "registry_ok r \<Longrightarrow> AskID a = k \<Longrightarrow> registry_ok (setAsk c k a r)"
  by (simp add: setAsk_def registry_ok_update)

lemma registry_ok_delete: "registry_ok r \<Longrightarrow> registry_ok (AList.delete c r)"
  by (simp add: registry_ok_def gomap_ok_delete)

lemma registry_ok_remove:
  assumes "registry_ok r"
  shows "registry_ok (removeAsk c k r)"
proof -
  have d: "distinct (map fst (AList.delete k (inner r c)))"
    using assms gomap_ok_inner [of r c] by (simp add: registry_ok_def distinct_delete)
  show ?thesis using assms d set_delete_subset [of k "inner r c"]
    by (auto simp: removeAsk_def Let_def registry_ok_def gomap_ok_update gomap_ok_delete)
qed

lemma inner_remove: "inner (removeAsk c k r) c' = (if c' = c then AList.delete k (inner r c) else inner r c')"
  by (auto simp: removeAsk_def Let_def)

lemma inner_set: "inner (setAsk c k a r) c' = (if c' = c then AList.update k a (inner r c) else inner r c')"
  by (simp add: setAsk_def)

lemma getAsk_list: "getAsk c k r = Some a \<Longrightarrow> a \<in> set (listAsks c r)"
  by (force simp: getAsk_def listAsks_def dest: map_of_SomeD)

subsection \<open>A reply takes effect once\<close>

lemma getAsk_set: "getAsk c k (setAsk c k a r) = Some a"
  by (simp add: getAsk_def inner_set update_conv')

lemma pending_record_choice [simp]: "svc_pending (record_choice now c ch a svc) = svc_pending svc"
  by (simp add: record_choice_def)

text \<open>
  A reply that is not reported as applied changed nothing: no grant, no once-target, no ask. One
  that is leaves the ask settled, so every later reply to it, with whatever choice or words, is
  reported as expired and changes nothing either.
\<close>

theorem reply_applies_once:
  assumes "ReplyPermissionAsk tenant owns now convID askID c ans svc = (Inr r, svc')"
  shows "if Applied r
    then snd (ReplyPermissionAsk tenant' owns' now' convID askID c' ans' svc') = svc' \<and>
      (case fst (ReplyPermissionAsk tenant' owns' now' convID askID c' ans' svc') of
         Inl e \<Rightarrow> True | Inr r' \<Rightarrow> Expired r' \<and> \<not> Applied r')
    else svc' = svc"
proof (cases "Applied r")
  case False
  then show ?thesis using assms
    by (auto simp: ReplyPermissionAsk_def Let_def ask_taken_def split: if_splits option.splits prod.splits bool.splits)
next
  case True
  then obtain a' where a': "getAsk (TrimSpace convID) (TrimSpace askID) (svc_pending svc') = Some a'" "ask_state a' \<noteq> askOpen"
    using assms
    by (auto simp: ReplyPermissionAsk_def Let_def ask_gone_def ask_lost_def getAsk_set clientReply_def
        recordClientAnswer_def split: if_splits option.splits prod.splits bool.splits)
  then show ?thesis using True
    by (auto simp: ReplyPermissionAsk_def Let_def ask_lost_def clientReply_def recordClientAnswer_def split: sum.splits)
qed

definition sample_service :: Service where
  "sample_service = new_service\<lparr>svc_pending := putAsk ''c'' sample_ask []\<rparr>"

theorem reply_applies_once_witness:
  "snd (ReplyPermissionAsk True (\<lambda>_. True) 8 ''c'' ''a1'' DENY []
     (snd (ReplyPermissionAsk True (\<lambda>_. True) 7 ''c'' ''a1'' ALLOW_SESSION [] sample_service))) =
   snd (ReplyPermissionAsk True (\<lambda>_. True) 7 ''c'' ''a1'' ALLOW_SESSION [] sample_service)"
proof -
  obtain r svc' where e: "ReplyPermissionAsk True (\<lambda>_. True) 7 ''c'' ''a1'' ALLOW_SESSION [] sample_service = (Inr r, svc')"
    and a: "Applied r"
  proof -
    have "case fst (ReplyPermissionAsk True (\<lambda>_. True) 7 ''c'' ''a1'' ALLOW_SESSION [] sample_service) of
        Inr r \<Rightarrow> Applied r | Inl _ \<Rightarrow> False" by code_simp
    then show thesis using that by (cases "ReplyPermissionAsk True (\<lambda>_. True) 7 ''c'' ''a1'' ALLOW_SESSION [] sample_service")
        (auto split: sum.splits)
  qed
  show ?thesis using reply_applies_once [OF e, of True "\<lambda>_. True" 8 DENY "[]"] a e by simp
qed

subsection \<open>The turn's end\<close>

definition decided :: "pendingAsk \<Rightarrow> bool" where
  "decided a \<longleftrightarrow> isOpen a \<or> ask_state a = askClientReplied \<and> answer a = [] \<and> consentResponse (choice a) \<noteq> None"

definition final_response :: "pendingAsk \<Rightarrow> string" where
  "final_response a = (if isOpen a then ''reject'' else the (consentResponse (choice a)))"

lemma record_action_keeps [simp]:
  "posted (record_action a v n T) = posted T" "emitted (record_action a v n T) = emitted T"
  "awaiting (record_action a v n T) = awaiting T"
  by (simp_all add: record_action_def recordPermission_def Let_def)

lemma emit_keeps [simp]:
  "posted (emitAskResolution r T) = posted T" "emitted (emitAskResolution r T) = emitted T @ [r]"
  by (simp_all add: emitAskResolution_def)

lemma post_keeps [simp]:
  "posted (post_reply a resp T) = posted T @ [(SessionID a, AskID a, resp)]" "emitted (post_reply a resp T) = emitted T"
  by (simp_all add: post_reply_def)

lemma finalize_one_decided:
  assumes "decided a"
  shows "posted (finalize_one a T) = posted T @ [(SessionID a, AskID a, final_response a)]"
    and "map res_AskID (emitted (finalize_one a T)) = map res_AskID (emitted T) @ [AskID a]"
  using assms
  by (auto simp: decided_def isOpen_def finalize_one_def resolveForFinalize_def final_response_def Let_def
      clientAnswerValue_def)

lemma fold_finalize:
  "list_all decided asks \<Longrightarrow>
    posted (fold finalize_one asks T) = posted T @ map (\<lambda>a. (SessionID a, AskID a, final_response a)) asks \<and>
    map res_AskID (emitted (fold finalize_one asks T)) = map res_AskID (emitted T) @ map AskID asks"
  by (induction asks arbitrary: T) (simp_all add: finalize_one_decided)

text \<open>
  No phantom permission outlives a turn. When every ask of the conversation is open or carries a
  decision, the turn's end answers the engine exactly once for each, with the operator's decision where
  there is one and a refusal where there is none, publishes one resolution for each, leaves the
  registry empty and lifts the stall monitor's gate.
\<close>

theorem finalize_answers_every_ask:
  assumes "list_all decided (listAsks c (svc_pending svc))" and "finalize c svc T = (svc', T')"
  shows "posted T' = posted T @ map (\<lambda>a. (SessionID a, AskID a, final_response a)) (listAsks c (svc_pending svc)) \<and>
    map res_AskID (emitted T') = map res_AskID (emitted T) @ map AskID (listAsks c (svc_pending svc)) \<and>
    listAsks c (svc_pending svc') = [] \<and> \<not> awaiting T'"
proof -
  let ?asks = "listAsks c (svc_pending svc)"
  have asks: "removeConversation c (svc_pending svc) = (?asks, AList.delete c (svc_pending svc))"
    by (simp add: removeConversation_def listAsks_def)
  then have "svc' = svc\<lparr>svc_pending := AList.delete c (svc_pending svc)\<rparr>"
    "T' = settleMonitor c svc' (fold finalize_one ?asks T)"
    using assms(2) by (auto simp: finalize_def Let_def)
  then show ?thesis using fold_finalize [OF assms(1), of T]
    by (simp add: settleMonitor_def hasOpenAsk_def listAsks_def)
qed

theorem finalize_answers_every_ask_witness:
  "posted (snd (finalize ''c'' sample_service new_turn)) = [(''s'', ''a1'', ''reject'')]"
proof -
  have l: "listAsks ''c'' (svc_pending sample_service) = [sample_ask]" by (simp add: sample_service_def putAsk_def listAsks_def sample_ask_def inner_def)
  have "decided sample_ask" by (simp add: decided_def isOpen_def sample_ask_def)
  then show ?thesis
    using finalize_answers_every_ask [of "''c''" sample_service new_turn "fst (finalize ''c'' sample_service new_turn)"
        "snd (finalize ''c'' sample_service new_turn)"] l
    by (simp add: new_turn_def final_response_def isOpen_def sample_ask_def)
qed

text \<open>
  A reply without a choice strands the call. The RPC accepts an unspecified choice for a permission
  card and reports it as applied; the turn then neither applies it nor counts the ask as open, and its
  end does not answer the engine either, so the held tool call is never answered.
\<close>

theorem unspecified_choice_strands_ask:
  assumes "listAsks c (svc_pending svc) = [a]" and "getAsk c i (svc_pending svc) = Some a" and "AskID a = i"
    and "isOpen a" and "\<not> isQuestion a" and "answer a = []"
    and "TrimSpace c = c" and "c \<noteq> []" and "TrimSpace i = i" and "i \<noteq> []" and "owns c"
  shows "\<exists>r svc'. ReplyPermissionAsk True owns now c i CHOICE_UNSPECIFIED ans svc = (Inr r, svc') \<and> Applied r \<and>
    \<not> hasOpenAsk c (svc_pending svc') \<and>
    posted (fst (snd (applyClientReplies c svc' T))) = posted T \<and>
    posted (snd (finalize c svc' T)) = posted T \<and> emitted (snd (finalize c svc' T)) = emitted T"
proof -
  define a' where "a' = a\<lparr>ask_state := askClientReplied, choice := CHOICE_UNSPECIFIED\<rparr>"
  define svc' where "svc' = svc\<lparr>svc_pending := setAsk c i a' (svc_pending svc)\<rparr>"
  obtain k where "inner (svc_pending svc) c = [(k, a)]" using assms(1) by (auto simp: listAsks_def)
  moreover have "k = i" using assms(2) calculation by (auto simp: getAsk_def split: if_splits)
  ultimately have l: "listAsks c (svc_pending svc') = [a']" by (simp add: svc'_def listAsks_def inner_set)
  have "ReplyPermissionAsk True owns now c i CHOICE_UNSPECIFIED ans svc = (Inr (ask_taken ''decision'' i), svc')"
    using assms(2,4,5,7-11)
    by (simp add: ReplyPermissionAsk_def Let_def is_other_choice_def isOpen_def clientReply_def a'_def svc'_def record_choice_def)
  moreover have "clientAnswerValue a' = None" "clientChoice a' = Some CHOICE_UNSPECIFIED" "ask_state a' = askClientReplied"
    "choice a' = CHOICE_UNSPECIFIED"
    using assms(6) by (simp_all add: a'_def clientAnswerValue_def clientChoice_def)
  moreover have "removeConversation c (svc_pending svc') = ([a'], AList.delete c (svc_pending svc'))"
    using l by (simp add: removeConversation_def listAsks_def)
  ultimately show ?thesis using l
    by (simp add: ask_taken_def hasOpenAsk_def isOpen_def applyClientReplies_def apply_one_def consentResponse_def
        finalize_def finalize_one_def resolveForFinalize_def settleMonitor_def Let_def)
qed

theorem unspecified_choice_strands_ask_witness:
  "\<exists>r svc'. ReplyPermissionAsk True (\<lambda>_. True) 7 ''c'' ''a1'' CHOICE_UNSPECIFIED [] sample_service = (Inr r, svc') \<and> Applied r \<and>
    \<not> hasOpenAsk ''c'' (svc_pending svc') \<and>
    posted (fst (snd (applyClientReplies ''c'' svc' new_turn))) = posted new_turn \<and>
    posted (snd (finalize ''c'' svc' new_turn)) = posted new_turn \<and>
    emitted (snd (finalize ''c'' svc' new_turn)) = emitted new_turn"
  by (rule unspecified_choice_strands_ask [where a = sample_ask])
    (simp_all add: sample_service_def putAsk_def listAsks_def getAsk_def inner_def sample_ask_def isOpen_def isQuestion_def
      TrimSpace_def is_space_def)

text \<open>
  An answer that arrives as the turn ends is recorded and published, and never handed to the engine.
\<close>

lemma late_answer_not_delivered:
  assumes "ask_state a = askClientReplied" and "answer a \<noteq> []"
  shows "posted (finalize_one a T) = posted T \<and> emitted (finalize_one a T) =
    emitted T @ [\<lparr>res_AskID = AskID a, res_Outcome = ''answered'', res_Answer = answer a\<rparr>]"
  using assms by (simp add: finalize_one_def resolveForFinalize_def clientAnswerValue_def)

text \<open>
  A card FULLSEND cleared is recorded as its decision while the turn runs, and as a click of the
  operator's when the turn ends first.
\<close>

lemma late_approval_misattributed:
  assumes "ask_state a = askClientReplied" and "answer a = []" and "choice a = ALLOW_ONCE" and "autoApproved a"
  shows "perm_Verdict (last (ledger (fst (snd (apply_one c a (svc, T, [])))))) = ''fullsend_approved'' \<and>
    perm_Verdict (last (ledger (finalize_one a T))) = ''user_PERMISSION_CHOICE_ALLOW_ONCE''"
  using assms
  by (simp add: apply_one_def finalize_one_def resolveForFinalize_def clientAnswerValue_def clientChoice_def
      consentResponse_def wasAutoApproved_def choice_String_def record_action_def recordPermission_def Let_def
      emitAskResolution_def post_reply_def)

text \<open>The record of a question does not carry the ask's id: it is numbered like a note.\<close>

lemma question_record_unnumbered:
  assumes "raiseQuestion decode c sid evt svc T = (Inr a, svc', T')"
  shows "perm_ID (last (ledger T')) = ''perm-'' @ fmt_d (int (Suc (nextID T)))"
  using assms
  by (auto simp: raiseQuestion_def question_ask_def Let_def record_action_def recordPermission_def no_action_def
      split: if_splits sum.splits prod.splits)

subsection \<open>FULLSEND clears the open cards\<close>

lemma update_map:
  "distinct (map fst m) \<Longrightarrow> k \<in> fst ` set m \<Longrightarrow> AList.update k v m = map (\<lambda>(k', v'). if k' = k then (k', v) else (k', v')) m"
proof (induction m)
  case (Cons x m)
  show ?case
  proof (cases "fst x = k")
    case True
    then have "k \<notin> fst ` set m" using Cons.prems(1) by simp
    then have "map (\<lambda>(k', v'). if k' = k then (k', v) else (k', v')) m = m"
      by (intro map_idI) (auto simp: rev_image_eqI)
    then show ?thesis using True by (cases x) simp
  next
    case False
    then show ?thesis using Cons by (cases x) simp
  qed
qed simp

definition cleared_ask :: "pendingAsk \<Rightarrow> pendingAsk" where
  "cleared_ask a = (if isQuestion a \<or> \<not> isOpen a then a else snd (autoApproveOnce a))"

lemma cleared_ask_id [simp]: "AskID (cleared_ask a) = AskID a"
  by (simp add: cleared_ask_def autoApproveOnce_def clientReply_def markAutoApproved_def)

lemma approve_one_cleared:
  "approve_one c a (n, svc) =
    (if isQuestion a \<or> \<not> isOpen a then (n, svc)
     else (Suc n, svc\<lparr>svc_pending := setAsk c (AskID a) (cleared_ask a) (svc_pending svc)\<rparr>))"
  by (simp add: approve_one_def cleared_ask_def autoApproveOnce_def clientReply_def isOpen_def)

lemma approve_keeps:
  "svc_grants (snd (fold (approve_one c) asks (n, svc))) = svc_grants svc"
  "svc_once (snd (fold (approve_one c) asks (n, svc))) = svc_once svc"
  "svc_fullsend (snd (fold (approve_one c) asks (n, svc))) = svc_fullsend svc"
  by (induction asks arbitrary: n svc) (simp_all add: approve_one_cleared)

lemma fold_approve:
  assumes "registry_ok (svc_pending svc)" and "set xs \<subseteq> set (inner (svc_pending svc) c)" and "distinct (map fst xs)"
  shows "inner (svc_pending (snd (fold (approve_one c) (map snd xs) (n, svc)))) c =
     map (\<lambda>(k, a). (k, if k \<in> fst ` set xs then cleared_ask a else a)) (inner (svc_pending svc) c)"
  using assms
proof (induction xs arbitrary: n svc)
  case (Cons x xs)
  obtain k a where x: "x = (k, a)" by (cases x)
  let ?r = "svc_pending svc" and ?m = "inner (svc_pending svc) c"
  have ok: "registry_ok ?r" by (rule Cons.prems(1))
  have mem: "(k, a) \<in> set ?m" and k: "AskID a = k" and dist: "distinct (map fst ?m)"
    using Cons.prems x gomap_ok_inner [of ?r c] by (auto simp: registry_ok_def)
  have same: "(k, b) \<in> set ?m \<Longrightarrow> b = a" for b using eq_key_imp_eq_value [OF dist mem] by simp
  define svc1 where "svc1 = snd (approve_one c a (n, svc))"
  have m1: "inner (svc_pending svc1) c = map (\<lambda>(k', a'). (k', if k' = k then cleared_ask a' else a')) ?m"
  proof (cases "isQuestion a \<or> \<not> isOpen a")
    case True
    then have "cleared_ask a = a" by (simp add: cleared_ask_def)
    then have "map (\<lambda>(k', a'). (k', if k' = k then cleared_ask a' else a')) ?m = ?m"
      by (intro map_idI) (auto dest: same)
    then show ?thesis using True by (simp add: svc1_def approve_one_cleared)
  next
    case False
    have "map (\<lambda>(k', v'). if k' = k then (k', cleared_ask a) else (k', v')) ?m =
        map (\<lambda>(k', a'). (k', if k' = k then cleared_ask a' else a')) ?m"
      by (intro map_cong) (auto dest: same)
    then show ?thesis using False mem dist k
      by (simp add: svc1_def approve_one_cleared inner_set update_map rev_image_eqI)
  qed
  have ok1: "registry_ok (svc_pending svc1)"
    using ok by (simp add: svc1_def approve_one_cleared registry_ok_set)
  have sub1: "set xs \<subseteq> set (inner (svc_pending svc1) c)"
    using Cons.prems(2,3) x unfolding m1 by (force simp: image_iff)
  note IH = Cons.IH [OF ok1 sub1]
  have step: "approve_one c a (n, svc) = (n + (if \<not> isQuestion a \<and> isOpen a then 1 else 0), svc1)"
    by (simp add: svc1_def approve_one_cleared)
  have "fst x \<notin> fst ` set xs" using Cons.prems(3) by simp
  then show ?case using IH [of "n + (if \<not> isQuestion a \<and> isOpen a then 1 else 0)"] Cons.prems(3) x
    by (simp add: step m1 case_prod_unfold)
qed (simp add: case_prod_unfold)

text \<open>
  Turning FULLSEND on clears the permission cards on screen and nothing else: every open permission
  ask is settled as an approval of this one call, marked as FULLSEND's own; questions and settled asks
  stay as they are, and neither a session grant nor a once-target is recorded by it.
\<close>

theorem fullsend_clears_open_cards:
  assumes "registry_ok (svc_pending svc)" and "c \<noteq> []"
  shows "listAsks c (svc_pending (SetConversationFullsend c True svc)) = map cleared_ask (listAsks c (svc_pending svc)) \<and>
    svc_grants (SetConversationFullsend c True svc) = svc_grants svc \<and>
    svc_once (SetConversationFullsend c True svc) = svc_once svc \<and>
    FullsendEnabled c (svc_fullsend (SetConversationFullsend c True svc))"
proof -
  let ?svc = "svc\<lparr>svc_fullsend := SetFullsend c True (svc_fullsend svc)\<rparr>"
  let ?m = "inner (svc_pending svc) c"
  have dist: "distinct (map fst ?m)" using assms(1) gomap_ok_inner [of "svc_pending svc" c] by (simp add: registry_ok_def)
  have "SetConversationFullsend c True svc = snd (fold (approve_one c) (map snd ?m) (0, ?svc))"
    using assms(2) by (simp add: SetConversationFullsend_def approvePendingForFullsend_def listAsks_def)
  moreover have "inner (svc_pending (snd (fold (approve_one c) (map snd ?m) (0, ?svc)))) c =
      map (\<lambda>(k, a). (k, if k \<in> fst ` set ?m then cleared_ask a else a)) ?m"
    using fold_approve [of ?svc ?m c 0] assms(1) dist by simp
  ultimately show ?thesis using assms(2)
    by (auto simp: listAsks_def approve_keeps FullsendEnabled_def SetFullsend_def update_conv' rev_image_eqI)
qed

lemma sample_registry_ok: "registry_ok (svc_pending sample_service)"
proof -
  have "registry_ok []" by (simp add: registry_ok_def)
  then show ?thesis by (simp add: sample_service_def registry_ok_put)
qed

theorem fullsend_clears_open_cards_witness:
  "map choice (listAsks ''c'' (svc_pending (SetConversationFullsend ''c'' True sample_service))) = [ALLOW_ONCE]"
proof -
  have l: "listAsks ''c'' (svc_pending sample_service) = [sample_ask]"
    by (simp add: sample_service_def putAsk_def listAsks_def sample_ask_def inner_def)
  have "choice (cleared_ask sample_ask) = ALLOW_ONCE"
    by (simp add: cleared_ask_def isQuestion_def isOpen_def sample_ask_def autoApproveOnce_def clientReply_def markAutoApproved_def)
  then show ?thesis using fullsend_clears_open_cards [OF sample_registry_ok, of "''c''"] l by simp
qed

subsection \<open>No reply is lost on its way to the turn\<close>

text \<open>
  The turn's drain loop sleeps on a channel of capacity one. A reply is recorded under the ask's
  mutex, and only then the sender tries the channel, dropping the signal when it is full. The loop
  takes the signal first and reads the registry afterwards. The steps below are those sections, in any
  interleaving; \<open>senders\<close> counts the recorded replies whose signal is still to come.
\<close>

record drain =
  d_svc :: Service
  d_turn :: turn
  signal :: bool
  senders :: nat
  draining :: bool

text \<open>The steps of the world outside: clients, FULLSEND, and new cards of the running turn.\<close>

inductive world_step :: "string \<Rightarrow> drain \<Rightarrow> drain \<Rightarrow> bool" for c where
  reply: "ReplyPermissionAsk tenant owns now c i ch ans (d_svc s) = (Inr r, svc') \<Longrightarrow> Applied r \<Longrightarrow>
    world_step c s (s\<lparr>d_svc := svc', senders := Suc (senders s)\<rparr>)"
| approve: "approvePendingForFullsend c (d_svc s) = (n, svc') \<Longrightarrow>
    world_step c s (s\<lparr>d_svc := svc', senders := senders s + n\<rparr>)"
| card: "isOpen a \<Longrightarrow> \<not> draining s \<Longrightarrow>
    world_step c s (s\<lparr>d_svc := (d_svc s)\<lparr>svc_pending := putAsk c a (svc_pending (d_svc s))\<rparr>\<rparr>)"

text \<open>The steps that carry a recorded reply to the engine.\<close>

inductive loop_step :: "string \<Rightarrow> drain \<Rightarrow> drain \<Rightarrow> bool" for c where
  send: "senders s = Suc n \<Longrightarrow> loop_step c s (s\<lparr>signal := True, senders := n\<rparr>)"
| receive: "signal s \<Longrightarrow> \<not> draining s \<Longrightarrow> loop_step c s (s\<lparr>signal := False, draining := True\<rparr>)"
| deliver: "draining s \<Longrightarrow> applyClientReplies c (d_svc s) (d_turn s) = (svc', T', out) \<Longrightarrow>
    loop_step c s (s\<lparr>d_svc := svc', d_turn := T', draining := False\<rparr>)"

inductive_cases world_stepE [elim]: "world_step c s s'"
inductive_cases loop_stepE [elim]: "loop_step c s s'"

definition drain_start :: "string \<Rightarrow> drain \<Rightarrow> bool" where
  "drain_start c s \<longleftrightarrow> registry_ok (svc_pending (d_svc s)) \<and> listAsks c (svc_pending (d_svc s)) = [] \<and>
     \<not> signal s \<and> senders s = 0 \<and> \<not> draining s"

definition reply_text :: "pendingAsk \<Rightarrow> string option" where
  "reply_text a =
     (case clientAnswerValue a of
        Some ans \<Rightarrow> Some ans
      | None \<Rightarrow> (case clientChoice a of None \<Rightarrow> None | Some ch \<Rightarrow> consentResponse ch))"

definition undelivered :: "string \<Rightarrow> Service \<Rightarrow> pendingAsk list" where
  "undelivered c svc = filter (\<lambda>a. reply_text a \<noteq> None) (listAsks c (svc_pending svc))"

definition drain_inv :: "string \<Rightarrow> drain \<Rightarrow> bool" where
  "drain_inv c s \<longleftrightarrow> registry_ok (svc_pending (d_svc s)) \<and>
     (undelivered c (d_svc s) = [] \<or> signal s \<or> 0 < senders s \<or> draining s)"

text \<open>One pass over the registry delivers every recorded reply and leaves the other asks alone.\<close>

lemma apply_one_pending:
  "svc_pending (fst (apply_one c a (svc, T, out))) =
    (if reply_text a = None then svc_pending svc else removeAsk c (AskID a) (svc_pending svc))"
  and apply_one_posted: "posted (fst (snd (apply_one c a (svc, T, out)))) =
    posted T @ (case reply_text a of None \<Rightarrow> [] | Some resp \<Rightarrow> [(SessionID a, AskID a, resp)])"
  by (auto simp: apply_one_def reply_text_def Let_def split: option.splits)

lemma fold_apply:
  assumes "distinct (map AskID asks)"
  shows "inner (svc_pending (fst (fold (apply_one c) asks (svc, T, out)))) c =
      filter (\<lambda>(k, _). k \<notin> AskID ` set (filter (\<lambda>a. reply_text a \<noteq> None) asks)) (inner (svc_pending svc) c) \<and>
    set (posted (fst (snd (fold (apply_one c) asks (svc, T, out))))) =
      set (posted T) \<union> {(SessionID a, AskID a, resp) | a resp. a \<in> set asks \<and> reply_text a = Some resp} \<and>
    (registry_ok (svc_pending svc) \<longrightarrow> registry_ok (svc_pending (fst (fold (apply_one c) asks (svc, T, out)))))"
  using assms
proof (induction asks arbitrary: svc T out)
  case (Cons a asks)
  obtain svc1 T1 out1 where s1: "apply_one c a (svc, T, out) = (svc1, T1, out1)" by (metis prod_cases3)
  have p: "svc_pending svc1 = (if reply_text a = None then svc_pending svc else removeAsk c (AskID a) (svc_pending svc))"
    "posted T1 = posted T @ (case reply_text a of None \<Rightarrow> [] | Some resp \<Rightarrow> [(SessionID a, AskID a, resp)])"
    using apply_one_pending [of c a svc T out] apply_one_posted [of c a svc T out] by (simp_all add: s1)
  have del: "AList.delete k m = filter (\<lambda>(k', _). k' \<noteq> k) m" for k and m :: "pendingAsk gomap"
    by (auto simp: AList.delete_eq case_prod_unfold intro!: filter_cong)
  have "inner (svc_pending svc1) c = filter (\<lambda>(k, _). reply_text a \<noteq> None \<longrightarrow> k \<noteq> AskID a) (inner (svc_pending svc) c)"
    using p(1) by (simp add: inner_remove del case_prod_unfold)
  moreover have "registry_ok (svc_pending svc) \<longrightarrow> registry_ok (svc_pending svc1)"
    using p(1) registry_ok_remove by simp
  ultimately show ?case using Cons.IH [of svc1 T1 out1] Cons.prems p(2) s1
    by (auto simp: case_prod_unfold intro!: filter_cong split: option.splits)
qed simp

lemma apply_delivers:
  assumes "registry_ok (svc_pending svc)" and "applyClientReplies c svc T = (svc', T', out)"
  shows "registry_ok (svc_pending svc')" and "undelivered c svc' = []"
    and "a \<in> set (undelivered c svc) \<Longrightarrow> reply_text a = Some resp \<Longrightarrow> (SessionID a, AskID a, resp) \<in> set (posted T')"
proof -
  let ?asks = "listAsks c (svc_pending svc)"
  let ?f = "fold (apply_one c) ?asks (svc, T, [])"
  have f: "svc' = fst ?f" "posted T' = posted (fst (snd ?f))"
    using assms(2) by (auto simp: applyClientReplies_def settleMonitor_def split: prod.splits)
  note F = fold_apply [OF registry_ok_keys [OF assms(1)], of c c svc T "[]", folded f]
  show "registry_ok (svc_pending svc')" using F assms(1) by blast
  have "reply_text a = None" if "a \<in> set (listAsks c (svc_pending svc'))" for a
  proof (rule ccontr)
    assume r: "reply_text a \<noteq> None"
    from that obtain k where k: "(k, a) \<in> set (inner (svc_pending svc) c)"
      "k \<notin> AskID ` set (filter (\<lambda>a. reply_text a \<noteq> None) ?asks)"
      using F by (auto simp: listAsks_def)
    then have "AskID a = k" "a \<in> set ?asks" using assms(1) by (auto simp: registry_ok_def listAsks_def rev_image_eqI)
    then show False using k(2) r by auto
  qed
  then show "undelivered c svc' = []" by (simp add: undelivered_def filter_empty_conv)
  show "a \<in> set (undelivered c svc) \<Longrightarrow> reply_text a = Some resp \<Longrightarrow> (SessionID a, AskID a, resp) \<in> set (posted T')"
    using F by (auto simp: undelivered_def)
qed

lemma reply_keeps_registry:
  assumes "registry_ok (svc_pending svc)" and "ReplyPermissionAsk tenant owns now c i ch ans svc = (res, svc')"
  shows "registry_ok (svc_pending svc')"
proof -
  have id: "AskID a = k" if "getAsk c' k (svc_pending svc) = Some a" for c' k a
    using that assms(1) by (auto simp: getAsk_def registry_ok_def dest: map_of_SomeD)
  show ?thesis using assms
    by (auto simp: ReplyPermissionAsk_def Let_def clientReply_def recordClientAnswer_def id intro!: registry_ok_set
        split: if_splits option.splits)
qed

lemma approve_registry:
  assumes "registry_ok (svc_pending svc)"
  shows "registry_ok (svc_pending (snd (fold (approve_one c) asks (n, svc))))"
    and "n \<le> fst (fold (approve_one c) asks (n, svc))"
    and "fst (fold (approve_one c) asks (n, svc)) = n \<Longrightarrow> snd (fold (approve_one c) asks (n, svc)) = svc"
proof -
  show "registry_ok (svc_pending (snd (fold (approve_one c) asks (n, svc))))"
    using assms by (induction asks arbitrary: n svc) (auto simp: approve_one_cleared registry_ok_set)
  have le: "n \<le> fst (fold (approve_one c) asks (n, svc))" for n svc
    by (induction asks arbitrary: n svc) (auto simp: approve_one_cleared intro: Suc_leD)
  then show "n \<le> fst (fold (approve_one c) asks (n, svc))" .
  show "fst (fold (approve_one c) asks (n, svc)) = n \<Longrightarrow> snd (fold (approve_one c) asks (n, svc)) = svc"
  proof (induction asks arbitrary: n svc)
    case (Cons a asks)
    have "Suc n \<le> fst (fold (approve_one c) asks (Suc n, svc'))" for svc'
      by (induction asks arbitrary: n svc') (auto simp: approve_one_cleared intro: Suc_leD)
    then show ?case using Cons by (auto simp: approve_one_cleared split: if_splits) (metis Suc_n_not_le_n)
  qed simp
qed

lemma drain_inv_world: "world_step c s s' \<Longrightarrow> drain_inv c s \<Longrightarrow> drain_inv c s'"
proof (induction rule: world_step.induct)
  case (reply tenant owns now i ch ans s r svc')
  then show ?case using reply_keeps_registry [OF _ reply.hyps(1)] by (simp add: drain_inv_def)
next
  case (approve s n svc')
  then have "(n, svc') = (0, d_svc s) \<or>
      (n, svc') = fold (approve_one c) (listAsks c (svc_pending (d_svc s))) (0, d_svc s)"
    by (auto simp: approvePendingForFullsend_def split: if_splits)
  then show ?case
  proof
    assume f: "(n, svc') = fold (approve_one c) (listAsks c (svc_pending (d_svc s))) (0, d_svc s)"
    have ok: "registry_ok (svc_pending (d_svc s))" using approve.prems by (simp add: drain_inv_def)
    show ?thesis
      using approve_registry [OF ok, where c = c and asks = "listAsks c (svc_pending (d_svc s))" and n = 0, folded f] approve.prems
      by (cases n) (auto simp: drain_inv_def)
  qed (use approve.prems in \<open>auto simp: drain_inv_def\<close>)
next
  case (card a s)
  let ?r = "svc_pending (d_svc s)"
  have "reply_text a = None"
    using card.hyps(1) by (simp add: reply_text_def clientAnswerValue_def clientChoice_def isOpen_def)
  then have "undelivered c ((d_svc s)\<lparr>svc_pending := putAsk c a ?r\<rparr>) = []" if "undelivered c (d_svc s) = []"
    using that set_update_subset [of "AskID a" a "inner ?r c"]
    by (auto simp: undelivered_def listAsks_def putAsk_def filter_empty_conv)
  then show ?case using card.prems by (auto simp: drain_inv_def registry_ok_put)
qed

lemma drain_inv_loop: "loop_step c s s' \<Longrightarrow> drain_inv c s \<Longrightarrow> drain_inv c s'"
  by (induction rule: loop_step.induct) (auto simp: drain_inv_def dest: apply_delivers(1,2))

text \<open>C28. While a turn runs no reply that says something is lost. However clients, FULLSEND and the turn interleave
  (the end of the turn is not among the steps), once a reply was recorded on a card the signal for it is on its way: the
  turn's own steps, with no further input, reach a state in which no answered card is left and every recorded reply that names a
  choice or carries a text has been posted to the engine. A permission reply whose choice is unspecified has nothing to
  post and is not covered.\<close>

theorem reply_never_lost:
  assumes "drain_start c s0" and "(\<lambda>s s'. world_step c s s' \<or> loop_step c s s')\<^sup>*\<^sup>* s0 s"
  shows "\<exists>s'. (loop_step c)\<^sup>*\<^sup>* s s' \<and> undelivered c (d_svc s') = [] \<and>
    (\<forall>a resp. a \<in> set (undelivered c (d_svc s)) \<and> reply_text a = Some resp \<longrightarrow>
      (SessionID a, AskID a, resp) \<in> set (posted (d_turn s')))"
proof -
  have "drain_inv c s0" using assms(1) by (simp add: drain_start_def drain_inv_def undelivered_def)
  with assms(2) have inv: "drain_inv c s"
    by (induction rule: rtranclp_induct) (auto intro: drain_inv_world drain_inv_loop)
  have deliver: "\<exists>s'. (loop_step c)\<^sup>*\<^sup>* t s' \<and> undelivered c (d_svc s') = [] \<and>
      (\<forall>a resp. a \<in> set (undelivered c (d_svc t)) \<and> reply_text a = Some resp \<longrightarrow>
        (SessionID a, AskID a, resp) \<in> set (posted (d_turn s')))" if "draining t" "drain_inv c t" for t
  proof -
    obtain svc' T' out where a: "applyClientReplies c (d_svc t) (d_turn t) = (svc', T', out)" by (metis prod_cases3)
    have ok: "registry_ok (svc_pending (d_svc t))" using that(2) by (simp add: drain_inv_def)
    show ?thesis using loop_step.deliver [OF that(1) a] apply_delivers [OF ok a]
      by (intro exI [of _ "t\<lparr>d_svc := svc', d_turn := T', draining := False\<rparr>"]) auto
  qed
  have wake: "\<exists>s'. (loop_step c)\<^sup>*\<^sup>* t s' \<and> undelivered c (d_svc s') = [] \<and>
      (\<forall>a resp. a \<in> set (undelivered c (d_svc t)) \<and> reply_text a = Some resp \<longrightarrow>
        (SessionID a, AskID a, resp) \<in> set (posted (d_turn s')))" if "signal t" "\<not> draining t" "drain_inv c t" for t
    using deliver [of "t\<lparr>signal := False, draining := True\<rparr>"] loop_step.receive [OF that(1,2), of c]
      drain_inv_loop [OF loop_step.receive [OF that(1,2), of c] that(3)]
    by (auto intro: converse_rtranclp_into_rtranclp)
  consider "undelivered c (d_svc s) = []" | "draining s" | "signal s" "\<not> draining s"
    | n where "senders s = Suc n" "\<not> draining s"
    using inv by (cases "senders s") (auto simp: drain_inv_def)
  then show ?thesis
  proof cases
    case (4 n)
    note st = loop_step.send [OF 4(1), of c]
    show ?thesis using wake [of "s\<lparr>signal := True, senders := n\<rparr>"] drain_inv_loop [OF st inv] st 4(2)
      by (auto intro: converse_rtranclp_into_rtranclp)
  qed (use deliver wake inv in auto)
qed

definition idle_drain :: "Service \<Rightarrow> drain" where
  "idle_drain svc = \<lparr>d_svc = svc, d_turn = new_turn, signal = False, senders = 0, draining = False\<rparr>"

definition denied_service :: Service where
  "denied_service = snd (ReplyPermissionAsk True (\<lambda>_. True) 7 ''c'' ''a1'' DENY [] sample_service)"

theorem reply_never_lost_witness:
  "\<exists>s'. (loop_step ''c'')\<^sup>*\<^sup>* ((idle_drain denied_service)\<lparr>senders := 1\<rparr>) s' \<and>
     (''s'', ''a1'', ''reject'') \<in> set (posted (d_turn s'))"
proof -
  let ?s0 = "idle_drain new_service" and ?s1 = "idle_drain sample_service"
  let ?s2 = "(idle_drain denied_service)\<lparr>senders := 1\<rparr>"
  let ?R = "\<lambda>s s'. world_step ''c'' s s' \<or> loop_step ''c'' s s'"
  have "drain_start ''c'' ?s0"
    by (simp add: drain_start_def idle_drain_def new_service_def newPendingAskRegistry_def registry_ok_def listAsks_def)
  moreover have step1: "?R ?s0 ?s1"
    using world_step.card [of sample_ask ?s0 "''c''"]
    by (simp add: idle_drain_def isOpen_def sample_ask_def sample_service_def new_service_def newPendingAskRegistry_def)
  moreover have step2: "?R ?s1 ?s2"
  proof -
    have "case fst (ReplyPermissionAsk True (\<lambda>_. True) 7 ''c'' ''a1'' DENY [] sample_service) of
        Inr r \<Rightarrow> Applied r | Inl _ \<Rightarrow> False" by code_simp
    then obtain r where "ReplyPermissionAsk True (\<lambda>_. True) 7 ''c'' ''a1'' DENY [] sample_service = (Inr r, denied_service)" "Applied r"
      unfolding denied_service_def by (cases "ReplyPermissionAsk True (\<lambda>_. True) 7 ''c'' ''a1'' DENY [] sample_service")
        (auto split: sum.splits)
    then show ?thesis using world_step.reply [of True "\<lambda>_. True" 7 "''c''" "''a1''" DENY "[]" ?s1 r denied_service]
      by (simp add: idle_drain_def)
  qed
  moreover have "?R\<^sup>*\<^sup>* ?s0 ?s2" 
    by (rule converse_rtranclp_into_rtranclp [where r = ?R and b = ?s1], rule step1, rule r_into_rtranclp [where r = ?R], rule step2)
  ultimately obtain s' where s': "(loop_step ''c'')\<^sup>*\<^sup>* ?s2 s'"
    "\<forall>a resp. a \<in> set (undelivered ''c'' (d_svc ?s2)) \<and> reply_text a = Some resp \<longrightarrow>
      (SessionID a, AskID a, resp) \<in> set (posted (d_turn s'))"
    using reply_never_lost [of "''c''" ?s0 ?s2] by blast
  have "map (\<lambda>a. (SessionID a, AskID a, reply_text a)) (undelivered ''c'' denied_service) = [(''s'', ''a1'', Some ''reject'')]"
    by code_simp
  then obtain a where "a \<in> set (undelivered ''c'' (d_svc ?s2))" "SessionID a = ''s''" "AskID a = ''a1''" "reply_text a = Some ''reject''"
    by (cases "undelivered ''c'' denied_service") (auto simp: idle_drain_def)
  then have "(''s'', ''a1'', ''reject'') \<in> set (posted (d_turn s'))" using s'(2) by metis
  then show ?thesis using s'(1) by blast
qed

end
