(* ===== verification/Tx_Store.thy ===== *)
theory Tx_Store
  imports Go_Prelude
begin

text \<open>
  Database transactions as the services use them (\<open>internal/db/db.go\<close>): a body of statements run between
  \<open>BeginTenantTx\<close> and \<open>Commit\<close>, with a deferred \<open>Rollback\<close>. A body is a state transformer with an error
  result. Any statement may fail for reasons outside the program (a lost connection, a timeout, a
  constraint); which ones do is an argument. As in PostgreSQL a failed statement aborts the
  transaction: every later statement fails too, and so does the commit, whether or not the code
  looked at the first error. A query without a row is no failure. Transactions run one after the
  other; the committed store between them is the shared state.
\<close>

named_theorems robust_intros \<open>rules by which a body inherits the transaction laws\<close>
named_theorems tx_run \<open>equations that run a body on a healthy database\<close>

datatype db_error = ErrNotFound | SqlFailed | TxAborted | CommitRolledBack | Refused string | GoPanic

record 's tx =
  work :: 's
  aborted :: bool
  stmts :: nat
  ids :: nat

text \<open>What surrounds a transaction: the failing statements, the identifiers \<open>NewID\<close> hands out, and the
  clock, read once per operation since its readings only fill timestamp columns.\<close>

record dbenv =
  fails :: "nat \<Rightarrow> bool"
  ulid :: "nat \<Rightarrow> string"
  now :: int

type_synonym ('s, 'a) dbop = "'s tx \<Rightarrow> (db_error + 'a) \<times> 's tx"

definition ret :: "'a \<Rightarrow> ('s, 'a) dbop" where
  "ret x t = (Inr x, t)"

definition raise :: "db_error \<Rightarrow> ('s, 'a) dbop" where
  "raise e t = (Inl e, t)"

text \<open>\<open>attempt m k\<close> is a call whose error the code inspects or drops; \<open>andThen m k\<close> one whose error it
  returns.\<close>

definition attempt :: "('s, 'a) dbop \<Rightarrow> (db_error + 'a \<Rightarrow> ('s, 'b) dbop) \<Rightarrow> ('s, 'b) dbop" where
  "attempt m k t = (case m t of (r, t') \<Rightarrow> k r t')"

definition andThen :: "('s, 'a) dbop \<Rightarrow> ('a \<Rightarrow> ('s, 'b) dbop) \<Rightarrow> ('s, 'b) dbop" where
  "andThen m k = attempt m (\<lambda>r. case r of Inl e \<Rightarrow> raise e | Inr x \<Rightarrow> k x)"

definition ignoring :: "('s, 'a) dbop \<Rightarrow> ('s, 'b) dbop \<Rightarrow> ('s, 'b) dbop" where
  "ignoring m k = attempt m (\<lambda>_. k)"

definition sql :: "'e dbenv_scheme \<Rightarrow> ('s \<Rightarrow> (db_error + 'a) \<times> 's) \<Rightarrow> ('s, 'a) dbop" where
  "sql E q t =
     (let t' = t\<lparr>stmts := Suc (stmts t)\<rparr>
      in if aborted t then (Inl TxAborted, t')
         else if fails E (stmts t) then (Inl SqlFailed, t'\<lparr>aborted := True\<rparr>)
         else (case q (work t) of
                 (Inl SqlFailed, _) \<Rightarrow> (Inl SqlFailed, t'\<lparr>aborted := True\<rparr>)
               | (r, w) \<Rightarrow> (r, t'\<lparr>work := w\<rparr>)))"

text \<open>Statements on a table of the store. An update or select by primary key reports \<open>ErrNotFound\<close> when no
  row matches; an insert fails when the key is taken.\<close>

definition sql_get :: "'e dbenv_scheme \<Rightarrow> ('s \<Rightarrow> 'r list) \<Rightarrow> ('r \<Rightarrow> bool) \<Rightarrow> ('s, 'r) dbop" where
  "sql_get E tbl P = sql E (\<lambda>s. (case find P (tbl s) of None \<Rightarrow> Inl ErrNotFound | Some r \<Rightarrow> Inr r, s))"

definition sql_rows :: "'e dbenv_scheme \<Rightarrow> ('s \<Rightarrow> 'a) \<Rightarrow> ('s, 'a) dbop" where
  "sql_rows E query = sql E (\<lambda>s. (Inr (query s), s))"

definition update_rows :: "('r \<Rightarrow> bool) \<Rightarrow> ('r \<Rightarrow> 'r) \<Rightarrow> 'r list \<Rightarrow> 'r list" where
  "update_rows P f rows = map (\<lambda>r. if P r then f r else r) rows"

definition sql_update :: "'e dbenv_scheme \<Rightarrow> ('s \<Rightarrow> 'r list) \<Rightarrow> (('r list \<Rightarrow> 'r list) \<Rightarrow> 's \<Rightarrow> 's) \<Rightarrow>
    ('r \<Rightarrow> bool) \<Rightarrow> ('r \<Rightarrow> 'r) \<Rightarrow> ('s, 'r) dbop" where
  "sql_update E tbl upd P f =
     sql E (\<lambda>s. case find P (tbl s) of
                  None \<Rightarrow> (Inl ErrNotFound, s)
                | Some r \<Rightarrow> (Inr (f r), upd (update_rows P f) s))"

definition sql_insert :: "'e dbenv_scheme \<Rightarrow> ('s \<Rightarrow> 'r list) \<Rightarrow> (('r list \<Rightarrow> 'r list) \<Rightarrow> 's \<Rightarrow> 's) \<Rightarrow>
    ('r \<Rightarrow> string) \<Rightarrow> 'r \<Rightarrow> ('s, 'r) dbop" where
  "sql_insert E tbl upd key row =
     sql E (\<lambda>s. if key row \<in> key ` set (tbl s) then (Inl SqlFailed, s)
                else (Inr row, upd (\<lambda>rows. rows @ [row]) s))"

definition sql_delete :: "'e dbenv_scheme \<Rightarrow> ('s \<Rightarrow> 'r list) \<Rightarrow> (('r list \<Rightarrow> 'r list) \<Rightarrow> 's \<Rightarrow> 's) \<Rightarrow>
    ('r \<Rightarrow> bool) \<Rightarrow> ('s, nat) dbop" where
  "sql_delete E tbl upd P =
     sql E (\<lambda>s. (Inr (length (filter P (tbl s))), upd (filter (\<lambda>r. \<not> P r)) s))"

text \<open>\<open>ORDER BY key DESC LIMIT 1\<close>; rows with equal keys come in table order.\<close>

fun newest :: "('r \<Rightarrow> int) \<Rightarrow> 'r list \<Rightarrow> 'r option" where
  "newest key [] = None"
| "newest key (r # rs) =
     (case newest key rs of None \<Rightarrow> Some r | Some r' \<Rightarrow> if key r < key r' then Some r' else Some r)"

definition sql_newest :: "'e dbenv_scheme \<Rightarrow> ('s \<Rightarrow> 'r list) \<Rightarrow> ('r \<Rightarrow> int) \<Rightarrow> ('r \<Rightarrow> bool) \<Rightarrow> ('s, 'r) dbop" where
  "sql_newest E tbl key P =
     sql E (\<lambda>s. (case newest key (filter P (tbl s)) of None \<Rightarrow> Inl ErrNotFound | Some r \<Rightarrow> Inr r, s))"

definition NewID :: "'e dbenv_scheme \<Rightarrow> ('s, string) dbop" where
  "NewID E t = (Inr (ulid E (ids t)), t\<lparr>ids := Suc (ids t)\<rparr>)"

text \<open>How a body that did not fail ends: with a commit, or by returning to the deferred rollback.\<close>

datatype 'a ending = Commit 'a | Discard 'a

definition begin_tx :: "'s \<Rightarrow> nat \<Rightarrow> 's tx" where
  "begin_tx s n = \<lparr>work = s, aborted = False, stmts = 1, ids = n\<rparr>"

text \<open>\<open>BeginTenantTx\<close> is itself a statement, number 0; the commit is the one after the body's last.\<close>

definition in_tx :: "'e dbenv_scheme \<Rightarrow> ('s, 'a ending) dbop \<Rightarrow> 's \<Rightarrow> nat \<Rightarrow> (db_error + 'a) \<times> 's \<times> nat" where
  "in_tx E body s n =
     (if fails E 0 then (Inl SqlFailed, s, n)
      else (case body (begin_tx s n) of
              (Inl e, t) \<Rightarrow> (Inl e, s, ids t)
            | (Inr (Discard x), t) \<Rightarrow> (Inr x, s, ids t)
            | (Inr (Commit x), t) \<Rightarrow>
                if aborted t then (Inl CommitRolledBack, s, ids t)
                else if fails E (stmts t) then (Inl SqlFailed, s, ids t)
                else (Inr x, work t, ids t)))"

subsection \<open>Failures never leave half a transaction\<close>

definition calm :: "'e dbenv_scheme \<Rightarrow> 'e dbenv_scheme" where
  "calm E = E\<lparr>fails := \<lambda>_. False\<rparr>"

lemma calm_fields [simp]: "fails (calm E) n = False" "ulid (calm E) = ulid E" "now (calm E) = now E"
  "dbenv.more (calm E) = dbenv.more E" "calm (calm E) = calm E"
  by (simp_all add: calm_def)

text \<open>
  The two laws of a body: once aborted it stays so, and a run that is not aborted went as it would
  have without any failure.
\<close>

definition robust :: "('e dbenv_scheme \<Rightarrow> ('s, 'a) dbop) \<Rightarrow> bool" where
  "robust m \<longleftrightarrow> (\<forall>E t. aborted t \<longrightarrow> aborted (snd (m E t))) \<and>
     (\<forall>E t. aborted (snd (m E t)) \<or> m E t = m (calm E) t)"

lemma robust_ret [robust_intros]: "(\<And>E. f (calm E) = f E) \<Longrightarrow> robust (\<lambda>E. ret (f E))"
  by (simp add: robust_def ret_def)

lemma robust_raise [robust_intros]: "robust (\<lambda>E. raise e)"
  by (simp add: robust_def raise_def)

lemma robust_attempt [robust_intros]:
  assumes "robust m" and "\<And>r. robust (\<lambda>E. k E r)"
  shows "robust (\<lambda>E. attempt (m E) (k E))"
  unfolding robust_def
proof (intro conjI allI impI)
  fix E :: "'a dbenv_scheme" and t :: "'b tx"
  show "aborted t \<Longrightarrow> aborted (snd (attempt (m E) (k E) t))"
    using assms by (auto simp: attempt_def robust_def split: prod.splits) (metis snd_conv)
  obtain r t' where mt: "m E t = (r, t')" by fastforce
  show "aborted (snd (attempt (m E) (k E) t)) \<or> attempt (m E) (k E) t = attempt (m (calm E)) (k (calm E)) t"
  proof (cases "aborted t'")
    case True
    then have "aborted (snd (k E r t'))" using assms(2) [of r] by (simp add: robust_def)
    then show ?thesis using mt by (simp add: attempt_def)
  next
    case False
    then have "m (calm E) t = (r, t')" using assms(1) mt by (metis robust_def snd_conv)
    then show ?thesis using mt assms(2) [of r] by (auto simp: attempt_def robust_def)
  qed
qed

lemma robust_sum [robust_intros]:
  "(\<And>e. robust (\<lambda>E. f E e)) \<Longrightarrow> (\<And>x. robust (\<lambda>E. g E x)) \<Longrightarrow> robust (\<lambda>E. case r of Inl e \<Rightarrow> f E e | Inr x \<Rightarrow> g E x)"
  by (cases r) simp_all

lemma robust_option [robust_intros]:
  "robust f \<Longrightarrow> (\<And>x. robust (\<lambda>E. g E x)) \<Longrightarrow> robust (\<lambda>E. case r of None \<Rightarrow> f E | Some x \<Rightarrow> g E x)"
  by (cases r) simp_all

lemma robust_prod [robust_intros]:
  "(\<And>x y. robust (\<lambda>E. g E x y)) \<Longrightarrow> robust (\<lambda>E. case p of (x, y) \<Rightarrow> g E x y)"
  by (cases p) simp

lemma robust_if [robust_intros]:
  "robust f \<Longrightarrow> robust g \<Longrightarrow> robust (\<lambda>E. if b then f E else g E)"
  by (cases b) simp_all

lemma robust_andThen [robust_intros]:
  "robust m \<Longrightarrow> (\<And>x. robust (\<lambda>E. k E x)) \<Longrightarrow> robust (\<lambda>E. andThen (m E) (k E))"
  unfolding andThen_def by (intro robust_intros)

lemma robust_ignoring [robust_intros]: "robust m \<Longrightarrow> robust k \<Longrightarrow> robust (\<lambda>E. ignoring (m E) (k E))"
  unfolding ignoring_def by (intro robust_intros)

lemma robust_sql [robust_intros]:
  assumes "\<And>E. q (calm E) = q E"
  shows "robust (\<lambda>E. sql E (q E))"
  using assms by (auto simp: robust_def sql_def Let_def split: prod.splits sum.splits db_error.splits)

lemma robust_NewID [robust_intros]: "robust NewID"
  by (simp add: robust_def NewID_def)

lemma robust_tables [robust_intros]:
  "robust (\<lambda>E. sql_get E tbl P)" "robust (\<lambda>E. sql_rows E query)" "robust (\<lambda>E. sql_newest E tbl key P)"
  "robust (\<lambda>E. sql_delete E tbl upd P)"
  unfolding sql_get_def sql_rows_def sql_newest_def sql_delete_def by (rule robust_sql, simp)+

lemma robust_sql_update [robust_intros]:
  assumes "\<And>E. f (calm E) = f E"
  shows "robust (\<lambda>E. sql_update E tbl upd P (f E))"
  unfolding sql_update_def by (rule robust_sql) (unfold assms, rule refl)

lemma robust_sql_insert [robust_intros]:
  assumes "\<And>E. row (calm E) = row E"
  shows "robust (\<lambda>E. sql_insert E tbl upd key (row E))"
  unfolding sql_insert_def by (rule robust_sql) (unfold assms, rule refl)

text \<open>A transaction either leaves the store as it was, or ends as if nothing had failed.\<close>

definition all_or_nothing :: "('e dbenv_scheme \<Rightarrow> ('s, 'a ending) dbop) \<Rightarrow> bool" where
  "all_or_nothing body \<longleftrightarrow> (\<forall>E s n. fst (snd (in_tx E (body E) s n)) = s \<or>
     in_tx E (body E) s n = in_tx (calm E) (body (calm E)) s n)"

locale tx_body =
  fixes body :: "'e dbenv_scheme \<Rightarrow> ('s, 'a ending) dbop"
  assumes laws: "robust body"
begin

lemma atomic: "all_or_nothing body"
  unfolding all_or_nothing_def
proof (intro allI)
  fix E s n
  have "aborted (snd (body E (begin_tx s n))) \<or> body E (begin_tx s n) = body (calm E) (begin_tx s n)"
    using laws by (simp add: robust_def)
  then show "fst (snd (in_tx E (body E) s n)) = s \<or> in_tx E (body E) s n = in_tx (calm E) (body (calm E)) s n"
    by (auto simp: in_tx_def split: prod.splits sum.splits ending.splits)
qed

lemma settled: "in_tx E (body E) s n = in_tx (calm E) (body (calm E)) s n \<or> fst (snd (in_tx E (body E) s n)) = s"
  using atomic unfolding all_or_nothing_def by blast

end

lemma in_tx_error: "in_tx E body s n = (Inl e, s', n') \<Longrightarrow> s' = s"
  by (auto simp: in_tx_def split: prod.splits sum.splits ending.splits if_splits)

lemma in_tx_ok:
  assumes "in_tx E body s n = (Inr x, s', n')"
  obtains (kept) t where "body (begin_tx s n) = (Inr (Commit x), t)" "\<not> aborted t" "s' = work t"
    | (dropped) t where "body (begin_tx s n) = (Inr (Discard x), t)" "s' = s"
  using assms by (auto simp: in_tx_def split: prod.splits sum.splits ending.splits if_splits)

subsection \<open>Statements on a healthy database\<close>

lemma begin_tx_simps [simp]: "work (begin_tx s n) = s" "\<not> aborted (begin_tx s n)"
  by (simp_all add: begin_tx_def)

lemma calm_get [tx_run]:
  "\<not> aborted t \<Longrightarrow> sql_get (calm E) tbl P t =
    (case find P (tbl (work t)) of None \<Rightarrow> Inl ErrNotFound | Some r \<Rightarrow> Inr r, t\<lparr>stmts := Suc (stmts t)\<rparr>)"
  by (simp add: sql_get_def sql_def Let_def split: option.split)

lemma calm_newest [tx_run]:
  "\<not> aborted t \<Longrightarrow> sql_newest (calm E) tbl key P t =
    (case newest key (filter P (tbl (work t))) of None \<Rightarrow> Inl ErrNotFound | Some r \<Rightarrow> Inr r, t\<lparr>stmts := Suc (stmts t)\<rparr>)"
  by (simp add: sql_newest_def sql_def Let_def split: option.split)

lemma calm_update [tx_run]:
  "\<not> aborted t \<Longrightarrow> sql_update (calm E) tbl upd P f t =
    (case find P (tbl (work t)) of None \<Rightarrow> (Inl ErrNotFound, t\<lparr>stmts := Suc (stmts t)\<rparr>)
     | Some r \<Rightarrow> (Inr (f r), t\<lparr>stmts := Suc (stmts t), work := upd (update_rows P f) (work t)\<rparr>))"
  by (simp add: sql_update_def sql_def Let_def split: option.split)

lemma calm_insert [tx_run]:
  "\<not> aborted t \<Longrightarrow> key row \<notin> key ` set (tbl (work t)) \<Longrightarrow> sql_insert (calm E) tbl upd key row t =
    (Inr row, t\<lparr>stmts := Suc (stmts t), work := upd (\<lambda>rs. rs @ [row]) (work t)\<rparr>)"
  by (simp add: sql_insert_def sql_def Let_def)

lemma find_narrow: "find P xs = Some x \<Longrightarrow> Q x \<Longrightarrow> (\<And>y. Q y \<Longrightarrow> P y) \<Longrightarrow> find Q xs = Some x"
  by (induction xs) (auto split: if_splits)

lemma newest_found: "r \<in> set rs \<Longrightarrow> \<exists>x. newest key rs = Some x"
  by (induction rs) (auto split: option.splits)

text \<open>A statement that gave a result left the transaction alive.\<close>

lemma sql_alive: "sql E q t = (Inr x, t') \<Longrightarrow> \<not> aborted t'"
  by (auto simp: sql_def Let_def split: if_splits prod.splits sum.splits db_error.splits)

subsection \<open>Hoare triples\<close>

text \<open>
  \<open>hoare P m Q X\<close>: from a store with \<open>P\<close>, whatever fails, \<open>m\<close> ends with a result and store in \<open>Q\<close>, or with an
  error and a store in \<open>X\<close>. A failing statement changes nothing, so the rules need no care for it.
\<close>

named_theorems hoare_rules \<open>rules of the triples\<close>

definition hoare :: "('s \<Rightarrow> bool) \<Rightarrow> ('s, 'a) dbop \<Rightarrow> ('a \<Rightarrow> 's \<Rightarrow> bool) \<Rightarrow> ('s \<Rightarrow> bool) \<Rightarrow> bool" where
  "hoare P m Q X \<longleftrightarrow> (\<forall>t. P (work t) \<longrightarrow>
     (case fst (m t) of Inr x \<Rightarrow> Q x (work (snd (m t))) | Inl _ \<Rightarrow> X (work (snd (m t)))))"

lemma hoare_conseq:
  "hoare P' m Q' X' \<Longrightarrow> (\<And>s. P s \<Longrightarrow> P' s) \<Longrightarrow> (\<And>x s. Q' x s \<Longrightarrow> Q x s) \<Longrightarrow> (\<And>s. X' s \<Longrightarrow> X s) \<Longrightarrow> hoare P m Q X"
  unfolding hoare_def by (simp split: sum.splits) blast

text \<open>A fact that follows from the precondition alone may be assumed.\<close>

lemma hoare_pure: "(\<And>s. P s \<Longrightarrow> A) \<Longrightarrow> (A \<Longrightarrow> hoare P m Q X) \<Longrightarrow> hoare P m Q X"
  unfolding hoare_def by blast

lemma hoare_each: "(\<And>s0. hoare (\<lambda>s. s = s0 \<and> P s) m Q X) \<Longrightarrow> hoare P m Q X"
  unfolding hoare_def by blast

lemma hoare_ret: "(\<And>s. P s \<Longrightarrow> Q x s) \<Longrightarrow> hoare P (ret x) Q X"
  by (simp add: hoare_def ret_def)

lemma hoare_raise: "(\<And>s. P s \<Longrightarrow> X s) \<Longrightarrow> hoare P (raise e) Q X"
  by (simp add: hoare_def raise_def)

lemma hoare_attempt:
  "hoare P m R Y \<Longrightarrow> (\<And>x. hoare (R x) (k (Inr x)) Q X) \<Longrightarrow> (\<And>e. hoare Y (k (Inl e)) Q X) \<Longrightarrow>
    hoare P (attempt m k) Q X"
  unfolding hoare_def attempt_def
  apply (intro allI impI)
  subgoal for t by (cases "fst (m t)") (fastforce simp: split_def split: sum.splits)+
  done

lemma hoare_andThen:
  assumes "hoare P m R X" and "\<And>x. hoare (R x) (k x) Q X"
  shows "hoare P (andThen m k) Q X"
  unfolding andThen_def by (rule hoare_attempt [OF assms(1)]) (auto intro: assms(2) hoare_raise)

lemma hoare_ignoring: "hoare P m (\<lambda>_. R) R \<Longrightarrow> hoare R k Q X \<Longrightarrow> hoare P (ignoring m k) Q X"
  unfolding ignoring_def by (rule hoare_attempt)

lemma hoare_sql:
  assumes "\<And>s r s'. P s \<Longrightarrow> q s = (r, s') \<Longrightarrow>
    (case r of Inr x \<Rightarrow> Q x s' | Inl e \<Rightarrow> e \<noteq> SqlFailed \<longrightarrow> X s')"
    and "\<And>s. P s \<Longrightarrow> X s"
  shows "hoare P (sql E q) Q X"
  unfolding hoare_def
proof (intro allI impI)
  fix t :: "'a tx" assume P: "P (work t)"
  obtain r s' where q: "q (work t) = (r, s')" by fastforce
  show "case fst (sql E q t) of Inl x \<Rightarrow> X (work (snd (sql E q t))) | Inr x \<Rightarrow> Q x (work (snd (sql E q t)))"
    using assms(1) [OF P q] assms(2) [OF P] q by (auto simp: sql_def Let_def split: sum.splits db_error.splits)
qed

lemma hoare_get: "hoare P (sql_get E tbl Pr) (\<lambda>r s. P s \<and> r \<in> set (tbl s) \<and> Pr r) P"
  unfolding sql_get_def by (rule hoare_sql) (auto simp: find_Some_iff split: option.splits)

text \<open>A lookup whose caller tells a missing row from other errors.\<close>

lemma hoare_get_attempt:
  assumes "\<And>r. hoare (\<lambda>s. P s \<and> r \<in> set (tbl s) \<and> Pr r) (k (Inr r)) Q X"
    and "hoare (\<lambda>s. P s \<and> (\<forall>r \<in> set (tbl s). \<not> Pr r)) (k (Inl ErrNotFound)) Q X"
    and "\<And>e. e \<noteq> ErrNotFound \<Longrightarrow> hoare P (k (Inl e)) Q X"
  shows "hoare P (attempt (sql_get E tbl Pr) k) Q X"
  unfolding hoare_def
proof (intro allI impI)
  fix t :: "'b tx" assume P: "P (work t)"
  define t' where "t' = snd (sql_get E tbl Pr t)"
  have w: "work t' = work t"
    by (auto simp: t'_def sql_get_def sql_def Let_def split: option.splits sum.splits db_error.splits)
  have run: "attempt (sql_get E tbl Pr) k t = k (fst (sql_get E tbl Pr t)) t'"
    by (simp add: attempt_def split_def t'_def)
  have res: "fst (sql_get E tbl Pr t) = (if aborted t then Inl TxAborted else if fails E (stmts t) then Inl SqlFailed
      else case find Pr (tbl (work t)) of None \<Rightarrow> Inl ErrNotFound | Some r \<Rightarrow> Inr r)"
    by (simp add: sql_get_def sql_def Let_def split: option.split)
  consider (row) r where "fst (sql_get E tbl Pr t) = Inr r" "r \<in> set (tbl (work t))" "Pr r"
    | (none) "fst (sql_get E tbl Pr t) = Inl ErrNotFound" "\<forall>r \<in> set (tbl (work t)). \<not> Pr r"
    | (err) e where "fst (sql_get E tbl Pr t) = Inl e" "e \<noteq> ErrNotFound"
  proof (cases "aborted t \<or> fails E (stmts t)")
    case True
    then show ?thesis using err res by (auto split: if_splits)
  next
    case False
    then show ?thesis using row none res by (cases "find Pr (tbl (work t))") (auto simp: find_None_iff find_Some_iff)
  qed
  then show "case fst (attempt (sql_get E tbl Pr) k t) of
      Inl x \<Rightarrow> X (work (snd (attempt (sql_get E tbl Pr) k t))) | Inr x \<Rightarrow> Q x (work (snd (attempt (sql_get E tbl Pr) k t)))"
  proof cases
    case row
    then show ?thesis using assms(1) [of r] P w unfolding hoare_def run row(1) by simp
  next
    case none
    then show ?thesis using assms(2) P w unfolding hoare_def run none(1) by simp
  next
    case err
    then show ?thesis using assms(3) [of e] P w unfolding hoare_def run err(1) by simp
  qed
qed

lemma newest_in: "newest key rs = Some r \<Longrightarrow> r \<in> set rs"
  by (induction rs arbitrary: r) (auto split: option.splits if_splits)

lemma hoare_newest: "hoare P (sql_newest E tbl key Pr) (\<lambda>r s. P s \<and> r \<in> set (tbl s) \<and> Pr r) P"
  unfolding sql_newest_def by (rule hoare_sql) (auto dest!: newest_in split: option.splits)

lemma hoare_rows: "hoare P (sql_rows E query) (\<lambda>x s. P s \<and> x = query s) P"
  unfolding sql_rows_def by (rule hoare_sql) auto

lemma hoare_NewID: "hoare P (NewID E) (\<lambda>_. P) X"
  by (simp add: hoare_def NewID_def)

lemma hoare_update:
  assumes "\<And>s r. P s \<Longrightarrow> r \<in> set (tbl s) \<Longrightarrow> Pr r \<Longrightarrow> Q (f r) (upd (update_rows Pr f) s)" and "\<And>s. P s \<Longrightarrow> X s"
  shows "hoare P (sql_update E tbl upd Pr f) Q X"
  unfolding sql_update_def by (rule hoare_sql) (use assms in \<open>auto simp: find_Some_iff split: option.splits\<close>)

lemma hoare_insert:
  assumes "\<And>s. P s \<Longrightarrow> key row \<notin> key ` set (tbl s) \<Longrightarrow> Q row (upd (\<lambda>rs. rs @ [row]) s)" and "\<And>s. P s \<Longrightarrow> X s"
  shows "hoare P (sql_insert E tbl upd key row) Q X"
  unfolding sql_insert_def by (rule hoare_sql) (use assms in \<open>auto split: if_splits\<close>)

lemma hoare_delete:
  assumes "\<And>s. P s \<Longrightarrow> Q (length (filter Pr (tbl s))) (upd (filter (\<lambda>r. \<not> Pr r)) s)" and "\<And>s. P s \<Longrightarrow> X s"
  shows "hoare P (sql_delete E tbl upd Pr) Q X"
  unfolding sql_delete_def by (rule hoare_sql) (use assms in auto)

text \<open>The contract of a body with an invariant of the store: it holds again wherever the body commits.\<close>

locale keeps_invariant =
  fixes inv :: "'s \<Rightarrow> bool" and body :: "('s, 'a ending) dbop"
  assumes triple: "hoare inv body (\<lambda>x s. case x of Commit _ \<Rightarrow> inv s | Discard _ \<Rightarrow> True) (\<lambda>_. True)"
begin

lemma in_tx_inv: "inv s \<Longrightarrow> inv (fst (snd (in_tx E body s n)))"
  using triple unfolding hoare_def
  by (auto simp: in_tx_def begin_tx_def dest!: spec [of _ "begin_tx s n"] split: prod.splits sum.splits ending.splits)

end

end
