(* ===== verification/Domain_Types.thy ===== *)
theory Domain_Types
  imports Go_Prelude
begin

text \<open>
  The status and kind constants of \<open>internal/domain\<close> that the modelled services compare, with the
  functions over them. The database stores them as text, so they are strings here too.
\<close>

abbreviation WorkItemPending :: string where "WorkItemPending \<equiv> ''pending''"
abbreviation WorkItemReady :: string where "WorkItemReady \<equiv> ''ready''"
abbreviation WorkItemRunning :: string where "WorkItemRunning \<equiv> ''running''"
abbreviation WorkItemSucceeded :: string where "WorkItemSucceeded \<equiv> ''succeeded''"
abbreviation WorkItemFailed :: string where "WorkItemFailed \<equiv> ''failed''"
abbreviation WorkItemCancelled :: string where "WorkItemCancelled \<equiv> ''cancelled''"
abbreviation WorkItemRecovering :: string where "WorkItemRecovering \<equiv> ''recovering''"
abbreviation WorkItemSkipped :: string where "WorkItemSkipped \<equiv> ''skipped''"
abbreviation WorkItemArchived :: string where "WorkItemArchived \<equiv> ''archived''"

abbreviation RecoveryPending :: string where "RecoveryPending \<equiv> ''pending''"
abbreviation RecoveryRunning :: string where "RecoveryRunning \<equiv> ''running''"
abbreviation RecoveryResumed :: string where "RecoveryResumed \<equiv> ''resumed''"
abbreviation RecoveryEscalated :: string where "RecoveryEscalated \<equiv> ''escalated''"
abbreviation RecoveryFailed :: string where "RecoveryFailed \<equiv> ''failed''"
abbreviation RecoveryCancelled :: string where "RecoveryCancelled \<equiv> ''cancelled''"
abbreviation RecoveryBlocked :: string where "RecoveryBlocked \<equiv> ''blocked''"

abbreviation RecoveryStepPending :: string where "RecoveryStepPending \<equiv> ''pending''"
abbreviation RecoveryStepRunning :: string where "RecoveryStepRunning \<equiv> ''running''"
abbreviation RecoveryStepSucceeded :: string where "RecoveryStepSucceeded \<equiv> ''succeeded''"
abbreviation RecoveryStepFailed :: string where "RecoveryStepFailed \<equiv> ''failed''"
abbreviation RecoveryStepSkipped :: string where "RecoveryStepSkipped \<equiv> ''skipped''"

abbreviation RecoveryStepCapture :: string where "RecoveryStepCapture \<equiv> ''capture''"
abbreviation RecoveryStepSummarize :: string where "RecoveryStepSummarize \<equiv> ''summarize''"
abbreviation RecoveryStepPreserve :: string where "RecoveryStepPreserve \<equiv> ''preserve''"
abbreviation RecoveryStepReview :: string where "RecoveryStepReview \<equiv> ''review''"
abbreviation RecoveryStepPlan :: string where "RecoveryStepPlan \<equiv> ''plan''"
abbreviation RecoveryStepResume :: string where "RecoveryStepResume \<equiv> ''resume''"

abbreviation ResumptionPathCheckpoint :: string where "ResumptionPathCheckpoint \<equiv> ''checkpoint''"
abbreviation ResumptionPathSummarizeResume :: string where "ResumptionPathSummarizeResume \<equiv> ''summarize_resume''"

abbreviation PlanPending :: string where "PlanPending \<equiv> ''pending''"
abbreviation PlanApproved :: string where "PlanApproved \<equiv> ''approved''"
abbreviation PlanRejected :: string where "PlanRejected \<equiv> ''rejected''"

abbreviation RecoveryLevelL1 :: int where "RecoveryLevelL1 \<equiv> 1"
abbreviation RecoveryLevelL2 :: int where "RecoveryLevelL2 \<equiv> 2"
abbreviation RecoveryLevelL3 :: int where "RecoveryLevelL3 \<equiv> 3"

definition DefaultRecoverySteps :: "string list" where
  "DefaultRecoverySteps =
     [RecoveryStepCapture, RecoveryStepSummarize, RecoveryStepPreserve,
      RecoveryStepReview, RecoveryStepPlan, RecoveryStepResume]"

definition IsRecoveryKind :: "string \<Rightarrow> bool" where
  "IsRecoveryKind kind \<longleftrightarrow>
     kind = ''recovery_stop'' \<or> kind = ''recovery_summarize_restart'' \<or>
     kind = ''recovery_human_escalation'' \<or> kind = ''recovery_retry_n''"

text \<open>\<open>None\<close> is the error return.\<close>

definition NormalizeWorkItemKind :: "string \<Rightarrow> string option" where
  "NormalizeWorkItemKind kind =
     (let normalized = ToLower (TrimSpace kind)
      in if normalized = ''epic'' \<or> normalized = ''feature'' \<or> normalized = ''task'' \<or> normalized = ''subtask''
         then Some normalized else None)"

definition WorkItemIsTerminalArchivable :: "string \<Rightarrow> bool" where
  "WorkItemIsTerminalArchivable status \<longleftrightarrow>
     status = WorkItemSucceeded \<or> status = WorkItemFailed \<or> status = WorkItemCancelled \<or> status = WorkItemSkipped"

definition WorkItemIsTerminalSuccess :: "string \<Rightarrow> bool" where
  "WorkItemIsTerminalSuccess status \<longleftrightarrow> status = WorkItemSucceeded \<or> status = WorkItemSkipped"

definition WorkItemIsTerminalNonReplayable :: "string \<Rightarrow> bool" where
  "WorkItemIsTerminalNonReplayable status \<longleftrightarrow>
     status = WorkItemSucceeded \<or> status = WorkItemSkipped \<or> status = WorkItemCancelled \<or> status = WorkItemArchived"

definition NormalizeRecurringOutputsMode :: "string \<Rightarrow> string" where
  "NormalizeRecurringOutputsMode mode =
     (let m = ToLower (TrimSpace mode) in if m = ''idea'' \<or> m = ''none'' then m else ''standard'')"

text \<open>The normalised kind is canonical, so normalising it again changes nothing.\<close>

lemma NormalizeWorkItemKind_canonical:
  assumes "NormalizeWorkItemKind kind = Some k"
  shows "NormalizeWorkItemKind k = Some k \<and> \<not> IsRecoveryKind k"
proof -
  consider "k = ''epic''" | "k = ''feature''" | "k = ''task''" | "k = ''subtask''"
    using assms by (auto simp: NormalizeWorkItemKind_def Let_def split: if_splits)
  then show ?thesis by cases (simp only:, code_simp)+
qed

end
