(* ===== verification/Recovery_Store.thy ===== *)
theory Recovery_Store
  imports Tx_Store Domain_Types Go_Numbers Complex_Main
begin

text \<open>
  The tables the recovery engine works on and the access functions of \<open>internal/db\<close> it calls
  (\<open>recovery.go\<close>, and from \<open>work_item.go\<close>, \<open>execution.go\<close>, \<open>workflow.go\<close>, \<open>usage.go\<close> and \<open>outbox.go\<close> the
  queries of the engine). A row has the columns the engine reads or writes; \<open>created_at\<close> and
  \<open>updated_at\<close>, filled by the server, are kept only where a query orders by them. A \<open>jsonb\<close> column is the
  value it holds. \<open>float64\<close> values are exact rationals, which they are for token counts below \<open>2 ^ 52\<close>,
  since the engine only multiplies by a quarter and compares with three halves.
\<close>

record RecoveryExecutionRow =
  rx_ID :: string
  rx_TenantID :: string
  rx_ProjectID :: string
  rx_TaskID :: string
  FailedExecutionID :: string
  rx_TriggerReason :: string
  Level :: int
  rx_Status :: string
  Strategy :: string
  ResumptionPath :: string
  BudgetTokensLimit :: int
  BudgetTokensUsed :: int
  BudgetCostLimitUSD :: rat
  BudgetRelaxFraction :: rat
  NeedsHumanApproval :: bool
  ContinuationPlanID :: string
  MaxRetries :: int
  rx_Summary :: string
  rx_Version :: int
  TriggeredAt :: int
  rx_EndedAt :: "int option"

record RecoveryStepRunRow =
  sr_ID :: string
  sr_TenantID :: string
  sr_RecoveryID :: string
  sr_StepID :: string
  sr_StepName :: string
  sr_Status :: string
  sr_Result :: json
  sr_TriggerReason :: string
  AffectedRef :: string
  sr_Action :: string
  sr_StartedAt :: "int option"
  sr_EndedAt :: "int option"
  sr_Version :: int

record ContinuationPlanRow =
  plan_ID :: string
  plan_TenantID :: string
  plan_RecoveryID :: string
  plan_Remaining :: string
  ContextSummary :: string
  plan_Status :: string
  ApprovedBy :: string
  DecidedAt :: "int option"

record WorkItemRow =
  wi_ID :: string
  wi_TenantID :: string
  wi_ProjectID :: string
  ParentID :: "string option"
  wi_Kind :: string
  Title :: string
  wi_Status :: string
  Budgets :: string
  Results :: json
  wi_Version :: int

record ExecutionRow =
  ex_ID :: string
  ex_TenantID :: string
  ex_TaskID :: string
  WorkerID :: string
  WorkerVersion :: int
  AdapterID :: "string option"
  ex_Status :: string
  HealthState :: string
  ex_StartedAt :: "int option"
  ex_EndedAt :: "int option"
  TokenUsage :: int
  CostUSD :: rat
  CheckpointRef :: "string option"
  ex_WorkflowRunID :: string
  WorkflowStepID :: string
  ErrorMessage :: string
  ex_CreatedAt :: int

record WorkflowStepRunRow =
  ws_ID :: string
  ws_TenantID :: string
  ws_WorkflowRunID :: string
  ws_StepID :: string
  ws_Status :: string
  ws_Result :: json
  ws_Version :: int
  ws_CreatedAt :: int

record UsageRow =
  us_TenantID :: string
  us_ExecutionID :: string
  TotalTokens :: int
  us_CostUSD :: rat

record ProjectRow =
  pr_ID :: string
  pr_TenantID :: string
  ProjectDir :: string

record OutboxRow =
  ob_ID :: string
  EventType :: string
  AggregateType :: string
  AggregateID :: string
  Payload :: json

record AuditEntry =
  au_TenantID :: string
  au_Action :: string
  au_TargetType :: string
  au_TargetID :: string
  Before :: "json option"
  After :: "json option"

record rstore =
  recoveries :: "RecoveryExecutionRow list"
  stepRuns :: "RecoveryStepRunRow list"
  plans :: "ContinuationPlanRow list"
  workItems :: "WorkItemRow list"
  executions :: "ExecutionRow list"
  wfStepRuns :: "WorkflowStepRunRow list"
  usageRows :: "UsageRow list"
  projects :: "ProjectRow list"
  outbox :: "OutboxRow list"
  auditLog :: "AuditEntry list"

text \<open>What the engine takes from outside: PostgreSQL's reading of a text as \<open>jsonb\<close>, the decoder of the
  budgets column, the decimal, timestamp and error renderings (an error with the step that wraps it), and
  what fails while a summary is written to the
  facts file (beginning and querying its two transactions, creating the directory, writing).\<close>

record recenv = dbenv +
  jsonb_valid :: "string \<Rightarrow> bool"
  decodeBudgets :: "string \<Rightarrow> (int \<times> rat) option"
  fixed4 :: "rat \<Rightarrow> string"
  floatText :: "rat \<Rightarrow> string"
  timeText :: "int \<Rightarrow> string"
  stepErrorText :: "string \<Rightarrow> db_error \<Rightarrow> string"
  innerBeginFails :: "nat \<Rightarrow> bool"
  innerQueryFails :: "nat \<Rightarrow> bool"
  mkdirFails :: bool
  writeFails :: bool

type_synonym 'a rop = "(rstore, 'a) dbop"

lemma calm_recenv [simp]: "jsonb_valid (calm E) = jsonb_valid E" "decodeBudgets (calm E) = decodeBudgets E"
  "fixed4 (calm E) = fixed4 E" "floatText (calm E) = floatText E" "timeText (calm E) = timeText E"
  "stepErrorText (calm E) = stepErrorText E"
  "innerBeginFails (calm E) = innerBeginFails E" "innerQueryFails (calm E) = innerQueryFails E"
  "mkdirFails (calm E) = mkdirFails E" "writeFails (calm E) = writeFails E"
  by (simp_all add: calm_def)

subsection \<open>Recoveries\<close>

definition terminal_recovery :: "string \<Rightarrow> bool" where
  "terminal_recovery st \<longleftrightarrow>
     st = RecoveryResumed \<or> st = RecoveryFailed \<or> st = RecoveryCancelled \<or> st = RecoveryEscalated"

definition active_recovery :: "string \<Rightarrow> bool" where
  "active_recovery st \<longleftrightarrow> st = RecoveryPending \<or> st = RecoveryRunning \<or> st = RecoveryBlocked"

text \<open>The strategy is not among the inserted columns: the row returned carries the column's default.\<close>

definition CreateRecoveryExecution :: "'e recenv_scheme \<Rightarrow> RecoveryExecutionRow \<Rightarrow> RecoveryExecutionRow rop" where
  "CreateRecoveryExecution E r =
     (let r = (if MaxRetries r \<le> 0 then r\<lparr>MaxRetries := 5\<rparr> else r)
      in sql_insert E recoveries recoveries_update rx_ID
           (r\<lparr>Strategy := ''summarize_restart'', rx_Version := 1, rx_EndedAt := None\<rparr>))"

definition GetRecoveryExecution :: "'e recenv_scheme \<Rightarrow> string \<Rightarrow> string \<Rightarrow> RecoveryExecutionRow rop" where
  "GetRecoveryExecution E tenantID rid = sql_get E recoveries (\<lambda>r. rx_ID r = rid \<and> rx_TenantID r = tenantID)"

definition ListPendingRecoveries :: "'e recenv_scheme \<Rightarrow> string \<Rightarrow> RecoveryExecutionRow list rop" where
  "ListPendingRecoveries E tenantID =
     sql_rows E (\<lambda>s. sort_key TriggeredAt
       (filter (\<lambda>r. rx_TenantID r = tenantID \<and> active_recovery (rx_Status r)) (recoveries s)))"

definition GetActiveRecoveryForTask :: "'e recenv_scheme \<Rightarrow> string \<Rightarrow> string \<Rightarrow> RecoveryExecutionRow rop" where
  "GetActiveRecoveryForTask E tenantID taskID =
     sql_newest E recoveries TriggeredAt
       (\<lambda>r. rx_TenantID r = tenantID \<and> rx_TaskID r = taskID \<and> active_recovery (rx_Status r))"

definition GetLatestRecoveryForExecution :: "'e recenv_scheme \<Rightarrow> string \<Rightarrow> string \<Rightarrow> string \<Rightarrow> RecoveryExecutionRow rop" where
  "GetLatestRecoveryForExecution E tenantID taskID failedExecID =
     sql_newest E recoveries TriggeredAt
       (\<lambda>r. rx_TenantID r = tenantID \<and> rx_TaskID r = taskID \<and> FailedExecutionID r = failedExecID)"

text \<open>The fields an update may set, those the engine uses; \<open>None\<close> leaves the column alone.\<close>

record UpdateRecoveryExecutionFields =
  f_Status :: "string option"
  f_BudgetRelaxFraction :: "rat option"
  f_NeedsHumanApproval :: "bool option"
  f_ContinuationPlanID :: "string option"
  f_Summary :: "string option"
  f_Level :: "int option"
  f_EndedAt :: "int option"

definition no_fields :: UpdateRecoveryExecutionFields where
  "no_fields = \<lparr>f_Status = None, f_BudgetRelaxFraction = None, f_NeedsHumanApproval = None,
     f_ContinuationPlanID = None, f_Summary = None, f_Level = None, f_EndedAt = None\<rparr>"

definition set_to :: "'a option \<Rightarrow> 'a \<Rightarrow> 'a" where
  "set_to f old = (case f of None \<Rightarrow> old | Some v \<Rightarrow> v)"

lemma set_to_simps [simp]: "set_to None old = old" "set_to (Some v) old = v"
  by (simp_all add: set_to_def)

definition put_fields :: "UpdateRecoveryExecutionFields \<Rightarrow> RecoveryExecutionRow \<Rightarrow> RecoveryExecutionRow" where
  "put_fields f r = r\<lparr>
     rx_Status := set_to (f_Status f) (rx_Status r),
     BudgetRelaxFraction := set_to (f_BudgetRelaxFraction f) (BudgetRelaxFraction r),
     NeedsHumanApproval := set_to (f_NeedsHumanApproval f) (NeedsHumanApproval r),
     ContinuationPlanID := set_to (f_ContinuationPlanID f) (ContinuationPlanID r),
     rx_Summary := set_to (f_Summary f) (rx_Summary r),
     Level := set_to (f_Level f) (Level r),
     rx_EndedAt := (case f_EndedAt f of None \<Rightarrow> rx_EndedAt r | Some v \<Rightarrow> Some v),
     rx_Version := rx_Version r + 1\<rparr>"

definition UpdateRecoveryExecution :: "'e recenv_scheme \<Rightarrow> string \<Rightarrow> string \<Rightarrow> int \<Rightarrow> UpdateRecoveryExecutionFields \<Rightarrow>
    RecoveryExecutionRow rop" where
  "UpdateRecoveryExecution E tenantID rid expectedVersion f =
     sql_update E recoveries recoveries_update
       (\<lambda>r. rx_TenantID r = tenantID \<and> rx_ID r = rid \<and> rx_Version r = expectedVersion) (put_fields f)"

definition DeleteRecoveryExecution :: "'e recenv_scheme \<Rightarrow> string \<Rightarrow> string \<Rightarrow> unit rop" where
  "DeleteRecoveryExecution E tenantID rid =
     andThen (sql_delete E plans plans_update (\<lambda>p. plan_TenantID p = tenantID \<and> plan_RecoveryID p = rid)) (\<lambda>_.
     andThen (sql_delete E stepRuns stepRuns_update (\<lambda>s. sr_TenantID s = tenantID \<and> sr_RecoveryID s = rid)) (\<lambda>_.
     andThen (sql_delete E recoveries recoveries_update (\<lambda>r. rx_TenantID r = tenantID \<and> rx_ID r = rid)) (\<lambda>n.
     if n = 0 then raise ErrNotFound else ret ())))"

subsection \<open>Step runs and plans\<close>

definition CreateRecoveryStepRun :: "'e recenv_scheme \<Rightarrow> RecoveryStepRunRow \<Rightarrow> RecoveryStepRunRow rop" where
  "CreateRecoveryStepRun E s =
     sql_insert E stepRuns stepRuns_update sr_ID (s\<lparr>sr_Version := 1, sr_EndedAt := None\<rparr>)"

text \<open>All step runs of a recovery are inserted in one transaction and carry the same \<open>created_at\<close>, so
  the order of the list says nothing; the engine indexes it by step.\<close>

definition ListRecoveryStepRuns :: "'e recenv_scheme \<Rightarrow> string \<Rightarrow> string \<Rightarrow> RecoveryStepRunRow list rop" where
  "ListRecoveryStepRuns E tenantID recoveryID =
     sql_rows E (\<lambda>s. filter (\<lambda>r. sr_TenantID r = tenantID \<and> sr_RecoveryID r = recoveryID) (stepRuns s))"

record UpdateRecoveryStepRunFields =
  g_Status :: "string option"
  g_Result :: "json option"
  g_Action :: "string option"
  g_StartedAt :: "int option"
  g_EndedAt :: "int option"

definition put_step_fields :: "UpdateRecoveryStepRunFields \<Rightarrow> RecoveryStepRunRow \<Rightarrow> RecoveryStepRunRow" where
  "put_step_fields f s = s\<lparr>
     sr_Status := set_to (g_Status f) (sr_Status s),
     sr_Result := set_to (g_Result f) (sr_Result s),
     sr_Action := set_to (g_Action f) (sr_Action s),
     sr_StartedAt := (case g_StartedAt f of None \<Rightarrow> sr_StartedAt s | Some v \<Rightarrow> Some v),
     sr_EndedAt := (case g_EndedAt f of None \<Rightarrow> sr_EndedAt s | Some v \<Rightarrow> Some v),
     sr_Version := sr_Version s + 1\<rparr>"

definition UpdateRecoveryStepRun :: "'e recenv_scheme \<Rightarrow> string \<Rightarrow> string \<Rightarrow> int \<Rightarrow> UpdateRecoveryStepRunFields \<Rightarrow>
    RecoveryStepRunRow rop" where
  "UpdateRecoveryStepRun E tenantID sid expectedVersion f =
     sql_update E stepRuns stepRuns_update
       (\<lambda>s. sr_TenantID s = tenantID \<and> sr_ID s = sid \<and> sr_Version s = expectedVersion) (put_step_fields f)"

text \<open>\<open>remaining\<close> is sent as text and read by the server as \<open>jsonb\<close>: malformed text fails the statement.\<close>

definition CreateContinuationPlan :: "'e recenv_scheme \<Rightarrow> ContinuationPlanRow \<Rightarrow> ContinuationPlanRow rop" where
  "CreateContinuationPlan E p =
     sql E (\<lambda>s. if \<not> jsonb_valid E (plan_Remaining p) \<or> plan_ID p \<in> plan_ID ` set (plans s)
                then (Inl SqlFailed, s) else (Inr p, s\<lparr>plans := plans s @ [p]\<rparr>))"

definition UpdateContinuationPlanStatus :: "'e recenv_scheme \<Rightarrow> string \<Rightarrow> string \<Rightarrow> string \<Rightarrow> string \<Rightarrow> ContinuationPlanRow rop" where
  "UpdateContinuationPlanStatus E tenantID pid status approvedBy =
     sql_update E plans plans_update (\<lambda>p. plan_TenantID p = tenantID \<and> plan_ID p = pid)
       (\<lambda>p. p\<lparr>plan_Status := status, ApprovedBy := approvedBy, DecidedAt := Some (now E)\<rparr>)"

subsection \<open>Work items, executions, workflow step runs\<close>

definition GetWorkItem :: "'e recenv_scheme \<Rightarrow> string \<Rightarrow> string \<Rightarrow> WorkItemRow rop" where
  "GetWorkItem E tenantID wid = sql_get E workItems (\<lambda>w. wi_ID w = wid \<and> wi_TenantID w = tenantID)"

text \<open>The engine sets the status of a work item, or its status and results.\<close>

definition UpdateWorkItem :: "'e recenv_scheme \<Rightarrow> string \<Rightarrow> string \<Rightarrow> int \<Rightarrow> string \<Rightarrow> json option \<Rightarrow> WorkItemRow rop" where
  "UpdateWorkItem E tenantID wid expectedVersion status results =
     sql_update E workItems workItems_update
       (\<lambda>w. wi_TenantID w = tenantID \<and> wi_ID w = wid \<and> wi_Version w = expectedVersion)
       (\<lambda>w. w\<lparr>wi_Status := status, Results := set_to results (Results w), wi_Version := wi_Version w + 1\<rparr>)"

definition GetExecution :: "'e recenv_scheme \<Rightarrow> string \<Rightarrow> string \<Rightarrow> ExecutionRow rop" where
  "GetExecution E tenantID xid = sql_get E executions (\<lambda>x. ex_ID x = xid \<and> ex_TenantID x = tenantID)"

definition latestExecution :: "'e recenv_scheme \<Rightarrow> string \<Rightarrow> string \<Rightarrow> ExecutionRow option rop" where
  "latestExecution E tenantID taskID =
     sql_rows E (\<lambda>s. newest ex_CreatedAt (filter (\<lambda>x. ex_TenantID x = tenantID \<and> ex_TaskID x = taskID) (executions s)))"

definition GetWorkflowStepRun :: "'e recenv_scheme \<Rightarrow> string \<Rightarrow> string \<Rightarrow> WorkflowStepRunRow rop" where
  "GetWorkflowStepRun E tenantID wid = sql_get E wfStepRuns (\<lambda>w. ws_ID w = wid \<and> ws_TenantID w = tenantID)"

definition GetWorkflowStepRunByStep :: "'e recenv_scheme \<Rightarrow> string \<Rightarrow> string \<Rightarrow> string \<Rightarrow> WorkflowStepRunRow rop" where
  "GetWorkflowStepRunByStep E tenantID runID stepID =
     sql_newest E wfStepRuns ws_CreatedAt
       (\<lambda>w. ws_TenantID w = tenantID \<and> ws_WorkflowRunID w = runID \<and> ws_StepID w = stepID)"

definition UpdateWorkflowStepRun :: "'e recenv_scheme \<Rightarrow> string \<Rightarrow> string \<Rightarrow> int \<Rightarrow> json \<Rightarrow> WorkflowStepRunRow rop" where
  "UpdateWorkflowStepRun E tenantID wid expectedVersion result =
     sql_update E wfStepRuns wfStepRuns_update
       (\<lambda>w. ws_TenantID w = tenantID \<and> ws_ID w = wid \<and> ws_Version w = expectedVersion)
       (\<lambda>w. w\<lparr>ws_Result := result, ws_Version := ws_Version w + 1\<rparr>)"

definition SumUsageForExecution :: "'e recenv_scheme \<Rightarrow> string \<Rightarrow> string \<Rightarrow> (int \<times> rat) rop" where
  "SumUsageForExecution E tenantID executionID =
     (if tenantID = [] \<or> executionID = [] then raise (Refused ''tenant_id and execution_id required'')
      else sql_rows E (\<lambda>s.
        (let us = filter (\<lambda>u. us_TenantID u = tenantID \<and> us_ExecutionID u = executionID) (usageRows s)
         in (sum_list (map TotalTokens us), sum_list (map us_CostUSD us)))))"

definition EnqueueOutbox :: "'e recenv_scheme \<Rightarrow> OutboxRow \<Rightarrow> unit rop" where
  "EnqueueOutbox E row =
     andThen (if ob_ID row = [] then NewID E else ret (ob_ID row)) (\<lambda>oid.
     andThen (sql_insert E outbox outbox_update ob_ID (row\<lparr>ob_ID := oid\<rparr>)) (\<lambda>_. ret ()))"

definition audit_Record :: "'e recenv_scheme \<Rightarrow> AuditEntry \<Rightarrow> unit rop" where
  "audit_Record E e =
     (if au_TenantID e = [] then raise (Refused ''audit: tenant required'')
      else if au_Action e = [] then raise (Refused ''audit: action required'')
      else sql E (\<lambda>s. (Inr (), s\<lparr>auditLog := auditLog s @ [e]\<rparr>)))"

end
