(* ===== verification/Recovery_Engine.thy ===== *)
theory Recovery_Engine
  imports Recovery_Store "HOL-Library.AList"
begin

text \<open>
  The recovery engine (\<open>internal/recovery/engine.go\<close>): the trigger that records a recovery for a failed
  execution and seeds its six steps, the reconciler that runs them, the escalation, and the operator's
  decisions. Every definition ending in a transaction returns a body (\<open>Commit\<close> or \<open>Discard\<close>); the
  operations proper run it against a world of committed tables and files. Log output is left out.
\<close>

subsection \<open>Which strategy a failure calls for\<close>

definition deterministicStopErrorPatterns :: "string list" where
  "deterministicStopErrorPatterns =
     [''model ref '' @ [CHR 0x22, CHR 0x22] @ '' has no provider/model'', ''has no provider/model'', ''adapter kind'',
      ''no suitable adapter'', ''no suitable worker'', ''credential'', ''authentication failed'',
      ''runtime image not found'', ''runtime image is not ready'', ''image pull failed'', ''failed_to_start'',
      ''no provider'']"

definition isDeterministicStopError :: "string \<Rightarrow> bool" where
  "isDeterministicStopError errText \<longleftrightarrow>
     errText \<noteq> [] \<and>
     list_ex (\<lambda>p. Contains (ToLower errText) (ToLower p) \<and> length p > 0) deterministicStopErrorPatterns"

definition strategyForWorkItem :: "string \<Rightarrow> string" where
  "strategyForWorkItem kind =
     (if kind = ''recovery_stop'' then ''stop''
      else if kind = ''recovery_human_escalation'' then ''human_escalation''
      else if kind = ''recovery_retry_n'' then ''retry_n''
      else ''summarize_restart'')"

definition strategyForFailure :: "ExecutionRow option \<Rightarrow> string \<Rightarrow> string" where
  "strategyForFailure exec kind =
     (case exec of
        Some x \<Rightarrow> if isDeterministicStopError (ErrorMessage x) then ''stop'' else strategyForWorkItem kind
      | None \<Rightarrow> strategyForWorkItem kind)"

subsection \<open>Helpers\<close>

definition stepName :: "string \<Rightarrow> string" where
  "stepName stepID =
     (if stepID = RecoveryStepCapture then ''Capture state''
      else if stepID = RecoveryStepSummarize then ''Summarize completed work''
      else if stepID = RecoveryStepPreserve then ''Preserve artifacts''
      else if stepID = RecoveryStepReview then ''Review against acceptance criteria''
      else if stepID = RecoveryStepPlan then ''Produce continuation plan''
      else if stepID = RecoveryStepResume then ''Resume execution''
      else stepID)"

definition stepAction :: "string \<Rightarrow> string" where
  "stepAction stepID =
     (if stepID = RecoveryStepCapture then ''snapshot execution state + telemetry''
      else if stepID = RecoveryStepSummarize then ''produce concise summary of completed work''
      else if stepID = RecoveryStepPreserve then ''write artifacts + traces + summary to durable storage''
      else if stepID = RecoveryStepReview then ''validate completed work against acceptance criteria''
      else if stepID = RecoveryStepPlan then ''produce continuation plan + bounded auto-relax''
      else if stepID = RecoveryStepResume then ''hand off to scheduler for replacement dispatch''
      else stepID)"

definition adapterRef :: "ExecutionRow \<Rightarrow> string" where
  "adapterRef x = (case AdapterID x of Some a \<Rightarrow> a | None \<Rightarrow> [])"

text \<open>A quarter of the budget; the conversion to \<open>int64\<close> truncates towards zero.\<close>

definition deriveRecoveryBudget :: "'e recenv_scheme \<Rightarrow> string \<Rightarrow> int \<times> rat" where
  "deriveRecoveryBudget E taskBudgets =
     (if taskBudgets = [] then (0, 0)
      else (case decodeBudgets E taskBudgets of
              None \<Rightarrow> (0, 0)
            | Some (tokenLimit, costLimit) \<Rightarrow> (go_quot tokenLimit 4, costLimit / 4)))"

definition enqueueRecoveryEvent :: "'e recenv_scheme \<Rightarrow> string \<Rightarrow> RecoveryExecutionRow \<Rightarrow> string \<Rightarrow> string \<Rightarrow> string \<Rightarrow>
    string \<Rightarrow> string \<Rightarrow> unit rop" where
  "enqueueRecoveryEvent E eventType rec stepID stepRunID triggerReason action aref =
     EnqueueOutbox E \<lparr>ob_ID = [], EventType = eventType, AggregateType = ''recovery'', AggregateID = rx_ID rec,
       Payload = JMap ([(''event_type'', JString eventType), (''tenant_id'', JString (rx_TenantID rec)),
         (''project_id'', JString (rx_ProjectID rec)), (''recovery_id'', JString (rx_ID rec)),
         (''task_id'', JString (rx_TaskID rec)), (''failed_execution_id'', JString (FailedExecutionID rec)),
         (''recovery_status'', JString (rx_Status rec)), (''trigger_reason'', JString triggerReason),
         (''action'', JString action), (''adapter_ref'', JString aref), (''level'', JNumber (fmt_d (Level rec))),
         (''occurred_at'', JString (timeText E (now E)))]
         @ (if stepID \<noteq> [] then [(''step_id'', JString stepID)] else [])
         @ (if stepRunID \<noteq> [] then [(''step_run_id'', JString stepRunID)] else []))\<rparr>"

text \<open>An entry without snapshots takes the ones the engine observed.\<close>

definition recordAuditEntry :: "'e recenv_scheme \<Rightarrow> AuditEntry option \<Rightarrow> json option \<Rightarrow> json option \<Rightarrow> unit rop" where
  "recordAuditEntry E entry bef aft =
     (case entry of
        None \<Rightarrow> ret ()
      | Some e \<Rightarrow>
          audit_Record E (e\<lparr>Before := (if Before e = None then bef else Before e),
                            After := (if After e = None then aft else After e)\<rparr>))"

definition SnapshotStatus :: "string \<Rightarrow> json option" where
  "SnapshotStatus st = Some (JMap [(''status'', JString st)])"

definition stepRunForFailedExecution :: "'e recenv_scheme \<Rightarrow> string \<Rightarrow> string \<Rightarrow> WorkflowStepRunRow option rop" where
  "stepRunForFailedExecution E tenantID failedExecID =
     (if failedExecID = [] then ret None
      else attempt (GetExecution E tenantID failedExecID) (\<lambda>r. case r of
        Inl _ \<Rightarrow> ret None
      | Inr x \<Rightarrow>
          if ex_WorkflowRunID x = [] \<or> WorkflowStepID x = [] then ret None
          else attempt (GetWorkflowStepRunByStep E tenantID (ex_WorkflowRunID x) (WorkflowStepID x)) (\<lambda>r.
            case r of Inl _ \<Rightarrow> ret None | Inr sr \<Rightarrow> ret (Some sr))))"

text \<open>The walk up the parent chain, at most 32 steps; a failing or empty lookup ends it.\<close>

fun parent_chain :: "'e recenv_scheme \<Rightarrow> string \<Rightarrow> nat \<Rightarrow> string \<Rightarrow> string list rop" where
  "parent_chain E tenantID 0 cur = ret []"
| "parent_chain E tenantID (Suc n) cur =
     attempt (sql_get E workItems (\<lambda>w. wi_ID w = cur \<and> wi_TenantID w = tenantID)) (\<lambda>r. case r of
       Inl _ \<Rightarrow> ret []
     | Inr w \<Rightarrow>
         (case ParentID w of
            None \<Rightarrow> ret []
          | Some p \<Rightarrow> if p = [] then ret []
              else andThen (parent_chain E tenantID n p) (\<lambda>ps. ret (p # ps))))"

definition countTaskChainRecoveries :: "'e recenv_scheme \<Rightarrow> string \<Rightarrow> string \<Rightarrow> nat rop" where
  "countTaskChainRecoveries E tenantID taskID =
     andThen (parent_chain E tenantID 32 taskID) (\<lambda>ancestors.
     sql_rows E (\<lambda>s. length (filter (\<lambda>r. rx_TenantID r = tenantID \<and> rx_TaskID r \<in> set (taskID # ancestors) \<and>
       (rx_Status r = RecoveryResumed \<or> rx_Status r = RecoveryFailed)) (recoveries s))))"

definition defaultMaxRetries :: nat where
  "defaultMaxRetries = 5"

subsection \<open>The trigger\<close>

definition seed_row :: "string \<Rightarrow> string \<Rightarrow> string \<Rightarrow> string \<Rightarrow> string \<Rightarrow> string \<Rightarrow> string \<Rightarrow> RecoveryStepRunRow" where
  "seed_row resumptionPath tenantID recoveryID triggerReason failedExecID sid stepID =
     (let skip = (resumptionPath = ResumptionPathCheckpoint \<and>
                  (stepID = RecoveryStepSummarize \<or> stepID = RecoveryStepPlan))
      in \<lparr>sr_ID = sid, sr_TenantID = tenantID, sr_RecoveryID = recoveryID, sr_StepID = stepID,
          sr_StepName = stepName stepID, sr_Status = (if skip then RecoveryStepSkipped else RecoveryStepPending),
          sr_Result = JMap [], sr_TriggerReason = triggerReason, AffectedRef = failedExecID,
          sr_Action = (if skip then ''skipped (direct checkpoint replay)'' else []),
          sr_StartedAt = None, sr_EndedAt = None, sr_Version = 0\<rparr>)"

fun seed_steps :: "'e recenv_scheme \<Rightarrow> (string \<Rightarrow> string \<Rightarrow> RecoveryStepRunRow) \<Rightarrow> string list \<Rightarrow> unit rop" where
  "seed_steps E mk [] = ret ()"
| "seed_steps E mk (stepID # rest) =
     andThen (NewID E) (\<lambda>sid.
     andThen (CreateRecoveryStepRun E (mk sid stepID)) (\<lambda>_.
     seed_steps E mk rest))"

definition resolve_step_run :: "'e recenv_scheme \<Rightarrow> string \<Rightarrow> string \<Rightarrow> string \<Rightarrow> WorkflowStepRunRow option rop" where
  "resolve_step_run E tenantID failedExecID stepRunID =
     (if stepRunID \<noteq> [] then
        attempt (GetWorkflowStepRun E tenantID stepRunID) (\<lambda>r. case r of
          Inr sr \<Rightarrow> ret (Some sr)
        | Inl _ \<Rightarrow> stepRunForFailedExecution E tenantID failedExecID)
      else stepRunForFailedExecution E tenantID failedExecID)"

text \<open>The recovery already on record that makes the trigger a no-op.\<close>

definition existing_recovery :: "'e recenv_scheme \<Rightarrow> string \<Rightarrow> string \<Rightarrow> string \<Rightarrow> WorkflowStepRunRow option \<Rightarrow>
    RecoveryExecutionRow rop" where
  "existing_recovery E tenantID taskID failedExecID stepRun =
     (case stepRun of
        Some _ \<Rightarrow> GetLatestRecoveryForExecution E tenantID taskID failedExecID
      | None \<Rightarrow> GetActiveRecoveryForTask E tenantID taskID)"

definition new_recovery :: "'e recenv_scheme \<Rightarrow> string \<Rightarrow> string \<Rightarrow> string \<Rightarrow> string \<Rightarrow> int \<Rightarrow> WorkItemRow \<Rightarrow>
    ExecutionRow \<Rightarrow> RecoveryExecutionRow" where
  "new_recovery E rid tenantID failedExecID triggerReason level task exec =
     (let budget = deriveRecoveryBudget E (Budgets task)
      in \<lparr>rx_ID = rid, rx_TenantID = tenantID, rx_ProjectID = wi_ProjectID task, rx_TaskID = wi_ID task,
          FailedExecutionID = failedExecID, rx_TriggerReason = triggerReason, Level = level,
          rx_Status = RecoveryPending, Strategy = strategyForFailure (Some exec) (wi_Kind task),
          ResumptionPath = (case CheckpointRef exec of
             Some c \<Rightarrow> if c \<noteq> [] then ResumptionPathCheckpoint else ResumptionPathSummarizeResume
           | None \<Rightarrow> ResumptionPathSummarizeResume),
          BudgetTokensLimit = fst budget, BudgetTokensUsed = 0, BudgetCostLimitUSD = snd budget,
          BudgetRelaxFraction = 0, NeedsHumanApproval = False, ContinuationPlanID = [],
          MaxRetries = int defaultMaxRetries, rx_Summary = [], rx_Version = 0, TriggeredAt = now E, rx_EndedAt = None\<rparr>)"

definition retry_level :: "nat \<Rightarrow> int \<Rightarrow> int" where
  "retry_level retryCount level =
     (if retryCount \<ge> defaultMaxRetries \<and> level < RecoveryLevelL3 then RecoveryLevelL3 else level)"

definition create_recovery :: "'e recenv_scheme \<Rightarrow> string \<Rightarrow> string \<Rightarrow> string \<Rightarrow> string \<Rightarrow> int \<Rightarrow> AuditEntry option \<Rightarrow>
    WorkflowStepRunRow option \<Rightarrow> unit ending rop" where
  "create_recovery E tenantID taskID failedExecID triggerReason level auditEntry stepRun =
     andThen (GetWorkItem E tenantID taskID) (\<lambda>task.
     andThen (GetExecution E tenantID failedExecID) (\<lambda>exec.
     attempt (countTaskChainRecoveries E tenantID taskID) (\<lambda>c.
     andThen (NewID E) (\<lambda>recoveryID.
     (let row = new_recovery E recoveryID tenantID failedExecID triggerReason
                  (retry_level (case c of Inl _ \<Rightarrow> 0 | Inr n \<Rightarrow> n) level) task exec
      in andThen (CreateRecoveryExecution E row) (\<lambda>created.
         andThen (seed_steps E (seed_row (ResumptionPath row) tenantID recoveryID triggerReason failedExecID)
                    DefaultRecoverySteps) (\<lambda>_.
         andThen (if stepRun = None then
                    andThen (UpdateWorkItem E tenantID taskID (wi_Version task) WorkItemRecovering None) (\<lambda>_. ret ())
                  else ret ()) (\<lambda>_.
         andThen (enqueueRecoveryEvent E ''recovery.triggered'' created [] [] triggerReason
                    ''triggered recovery workflow'' (adapterRef exec)) (\<lambda>_.
         andThen (recordAuditEntry E auditEntry None None) (\<lambda>_.
         ret (Commit ())))))))))))"

definition trigger :: "'e recenv_scheme \<Rightarrow> string \<Rightarrow> string \<Rightarrow> string \<Rightarrow> string \<Rightarrow> string \<Rightarrow> int \<Rightarrow> AuditEntry option \<Rightarrow>
    unit ending rop" where
  "trigger E tenantID taskID failedExecID stepRunID triggerReason level auditEntry =
     andThen (resolve_step_run E tenantID failedExecID stepRunID) (\<lambda>stepRun.
     attempt (existing_recovery E tenantID taskID failedExecID stepRun) (\<lambda>r. case r of
       Inr _ \<Rightarrow> ret (Discard ())
     | Inl _ \<Rightarrow> create_recovery E tenantID taskID failedExecID triggerReason level auditEntry stepRun))"

definition TriggerOnFailure :: "'e recenv_scheme \<Rightarrow> string \<Rightarrow> string \<Rightarrow> string \<Rightarrow> string \<Rightarrow> string \<Rightarrow> AuditEntry option \<Rightarrow>
    unit ending rop" where
  "TriggerOnFailure E tenantID taskID failedExecID stepRunID triggerReason auditEntry =
     trigger E tenantID taskID failedExecID stepRunID triggerReason RecoveryLevelL1 auditEntry"

subsection \<open>The steps\<close>

definition spend :: "'e recenv_scheme \<Rightarrow> string \<Rightarrow> ExecutionRow \<Rightarrow> (int \<times> rat) rop" where
  "spend E tenantID exec =
     attempt (SumUsageForExecution E tenantID (ex_ID exec)) (\<lambda>r. case r of
       Inl _ \<Rightarrow> ret (TokenUsage exec, CostUSD exec)
     | Inr tc \<Rightarrow> ret tc)"

definition json_time :: "'e recenv_scheme \<Rightarrow> int option \<Rightarrow> json" where
  "json_time E i = (case i of None \<Rightarrow> JNull | Some n \<Rightarrow> JString (timeText E n))"

definition stepCapture :: "'e recenv_scheme \<Rightarrow> string \<Rightarrow> RecoveryExecutionRow \<Rightarrow> (RecoveryExecutionRow \<times> json) rop" where
  "stepCapture E tenantID rec =
     andThen (GetExecution E tenantID (FailedExecutionID rec)) (\<lambda>exec.
     andThen (spend E tenantID exec) (\<lambda>(tokens, cost).
     ret (rec, JMap [(''execution_id'', JString (ex_ID exec)), (''status'', JString (ex_Status exec)),
       (''health_state'', JString (HealthState exec)), (''token_usage'', JNumber (fmt_d tokens)),
       (''cost_usd'', JNumber (floatText E cost)), (''worker_id'', JString (WorkerID exec)),
       (''worker_version'', JNumber (fmt_d (WorkerVersion exec))),
       (''started_at'', json_time E (ex_StartedAt exec)), (''ended_at'', json_time E (ex_EndedAt exec))])))"

definition summary_text :: "'e recenv_scheme \<Rightarrow> ExecutionRow \<Rightarrow> int \<Rightarrow> rat \<Rightarrow> string" where
  "summary_text E exec tokens cost =
     ''Execution '' @ ex_ID exec @ '' failed after '' @ fmt_d tokens @ '' tokens ($'' @ fixed4 E cost
       @ ''). Worker '' @ WorkerID exec @ '' v'' @ fmt_d (WorkerVersion exec) @ ''. Resuming from captured state.''"

definition stepSummarize :: "'e recenv_scheme \<Rightarrow> string \<Rightarrow> RecoveryExecutionRow \<Rightarrow> (RecoveryExecutionRow \<times> json) rop" where
  "stepSummarize E tenantID rec =
     andThen (GetExecution E tenantID (FailedExecutionID rec)) (\<lambda>exec.
     andThen (spend E tenantID exec) (\<lambda>(tokens, cost).
     (let summary = summary_text E exec tokens cost
      in andThen (UpdateRecoveryExecution E tenantID (rx_ID rec) (rx_Version rec) (no_fields\<lparr>f_Summary := Some summary\<rparr>)) (\<lambda>updated.
         ret (updated, JMap [(''summary'', JString summary)])))))"

definition stepPreserve :: "RecoveryExecutionRow \<Rightarrow> (RecoveryExecutionRow \<times> json) rop" where
  "stepPreserve rec = ret (rec, JMap [(''preserved'', JString ''summary+snapshot persisted on recovery row'')])"

definition stepReview :: "RecoveryExecutionRow \<Rightarrow> (RecoveryExecutionRow \<times> json) rop" where
  "stepReview rec = ret (rec, JMap [(''verdict'', JString ''accept'')])"

text \<open>The relaxed fraction and whether a human has to approve.\<close>

definition relax :: "RecoveryExecutionRow \<Rightarrow> rat \<times> bool" where
  "relax rec =
     (if BudgetTokensUsed rec > BudgetTokensLimit rec \<and> BudgetTokensLimit rec > 0 then
        (if BudgetRelaxFraction rec < 1/4 then 1/4 else BudgetRelaxFraction rec,
         NeedsHumanApproval rec \<or> of_int (BudgetTokensUsed rec) / of_int (BudgetTokensLimit rec) > (3/2 :: rat))
      else (BudgetRelaxFraction rec, NeedsHumanApproval rec))"

text \<open>The remaining work is built by formatting, without escaping the title.\<close>

definition quoted :: "string \<Rightarrow> string" where
  "quoted s = CHR 0x22 # s @ [CHR 0x22]"

definition plan_remaining_text :: "WorkItemRow \<Rightarrow> string" where
  "plan_remaining_text task =
     ''[{'' @ quoted ''task_id'' @ '':'' @ quoted (wi_ID task) @ '','' @ quoted ''title'' @ '':''
       @ quoted (Title task) @ ''}]''"

definition stepPlan :: "'e recenv_scheme \<Rightarrow> string \<Rightarrow> RecoveryExecutionRow \<Rightarrow> (RecoveryExecutionRow \<times> json) rop" where
  "stepPlan E tenantID rec =
     andThen (GetWorkItem E tenantID (rx_TaskID rec)) (\<lambda>task.
     (let (relaxFraction, needsHuman) = relax rec
      in andThen (NewID E) (\<lambda>planID.
         andThen (CreateContinuationPlan E \<lparr>plan_ID = planID, plan_TenantID = tenantID, plan_RecoveryID = rx_ID rec,
           plan_Remaining = plan_remaining_text task, ContextSummary = rx_Summary rec,
           plan_Status = (if needsHuman then PlanPending else PlanApproved), ApprovedBy = [], DecidedAt = None\<rparr>) (\<lambda>_.
         andThen (UpdateRecoveryExecution E tenantID (rx_ID rec) (rx_Version rec)
           (no_fields\<lparr>f_ContinuationPlanID := Some planID, f_BudgetRelaxFraction := Some relaxFraction,
              f_NeedsHumanApproval := Some needsHuman,
              f_Status := Some (if needsHuman then RecoveryBlocked else rx_Status rec)\<rparr>)) (\<lambda>updated.
         ignoring (if needsHuman then
             enqueueRecoveryEvent E ''recovery.blocked'' updated RecoveryStepPlan [] (rx_TriggerReason updated)
               ''budget exceeds 150% - human approval required'' []
           else enqueueRecoveryEvent E ''recovery.plan.produced'' updated RecoveryStepPlan [] (rx_TriggerReason updated)
               ''continuation plan produced'' [])
         (ret (updated, JMap [(''plan_id'', JString planID), (''needs_human'', JBool needsHuman),
           (''budget_relax'', JNumber (floatText E relaxFraction)), (''remaining_work'', JString (Title task))])))))))"

definition stepResume :: "RecoveryExecutionRow \<Rightarrow> (RecoveryExecutionRow \<times> json) rop" where
  "stepResume rec = ret (rec, JMap [
     (''handoff'', JString ''task transitioned to ready; TaskReconciler will dispatch the replacement''),
     (''plan_id'', JString (ContinuationPlanID rec)), (''summary'', JString (rx_Summary rec))])"

definition step_logic :: "'e recenv_scheme \<Rightarrow> string \<Rightarrow> RecoveryExecutionRow \<Rightarrow> string \<Rightarrow> (RecoveryExecutionRow \<times> json) rop" where
  "step_logic E tenantID rec stepID =
     (if stepID = RecoveryStepCapture then stepCapture E tenantID rec
      else if stepID = RecoveryStepSummarize then stepSummarize E tenantID rec
      else if stepID = RecoveryStepPreserve then stepPreserve rec
      else if stepID = RecoveryStepReview then stepReview rec
      else if stepID = RecoveryStepPlan then stepPlan E tenantID rec
      else if stepID = RecoveryStepResume then stepResume rec
      else ret (rec, JMap []))"

definition step_running :: "'e recenv_scheme \<Rightarrow> string \<Rightarrow> UpdateRecoveryStepRunFields" where
  "step_running E stepID = \<lparr>g_Status = Some RecoveryStepRunning, g_Result = None, g_Action = Some (stepAction stepID),
     g_StartedAt = Some (now E), g_EndedAt = None\<rparr>"

definition step_ended :: "'e recenv_scheme \<Rightarrow> string \<Rightarrow> json \<Rightarrow> UpdateRecoveryStepRunFields" where
  "step_ended E status result = \<lparr>g_Status = Some status, g_Result = Some result, g_Action = None,
     g_StartedAt = None, g_EndedAt = Some (now E)\<rparr>"

definition runStep :: "'e recenv_scheme \<Rightarrow> string \<Rightarrow> RecoveryExecutionRow \<Rightarrow> RecoveryStepRunRow \<Rightarrow>
    (RecoveryExecutionRow \<times> RecoveryStepRunRow) rop" where
  "runStep E tenantID rec sr =
     andThen (UpdateRecoveryStepRun E tenantID (sr_ID sr) (sr_Version sr) (step_running E (sr_StepID sr))) (\<lambda>sr.
     ignoring (enqueueRecoveryEvent E ''recovery.step.started'' rec (sr_StepID sr) (sr_ID sr) (rx_TriggerReason rec)
       (stepAction (sr_StepID sr)) [])
     (attempt (step_logic E tenantID rec (sr_StepID sr)) (\<lambda>r. case r of
        Inl e \<Rightarrow>
          andThen (UpdateRecoveryStepRun E tenantID (sr_ID sr) (sr_Version sr) (step_ended E RecoveryStepFailed (JMap []))) (\<lambda>failed.
          ignoring (enqueueRecoveryEvent E ''recovery.step.failed'' rec (sr_StepID failed) (sr_ID failed) (rx_TriggerReason rec)
            (''step failed: '' @ stepErrorText E (sr_StepID failed) e) [])
          (ret (rec, failed)))
      | Inr (rec, stepResult) \<Rightarrow>
          andThen (UpdateRecoveryStepRun E tenantID (sr_ID sr) (sr_Version sr) (step_ended E RecoveryStepSucceeded stepResult)) (\<lambda>succeeded.
          ignoring (enqueueRecoveryEvent E ''recovery.step.completed'' rec (sr_StepID succeeded) (sr_ID succeeded) (rx_TriggerReason rec)
            (stepAction (sr_StepID succeeded)) [])
          (ret (rec, succeeded))))))"

subsection \<open>The step DAG\<close>

type_synonym runMap = "(string \<rightharpoonup> RecoveryStepRunRow)"

definition step_passed :: "string \<Rightarrow> bool" where
  "step_passed st \<longleftrightarrow> st = RecoveryStepSucceeded \<or> st = RecoveryStepSkipped"

definition priorStepsSucceeded :: "string \<Rightarrow> runMap \<Rightarrow> bool" where
  "priorStepsSucceeded stepID runs =
     list_all (\<lambda>sid. case runs sid of None \<Rightarrow> True | Some sr \<Rightarrow> step_passed (sr_Status sr))
       (takeWhile (\<lambda>sid. sid \<noteq> stepID) DefaultRecoverySteps)"

definition run_by_step :: "RecoveryStepRunRow list \<Rightarrow> runMap" where
  "run_by_step rows = fold (\<lambda>sr m. m(sr_StepID sr \<mapsto> sr)) rows (\<lambda>_. None)"

fun step_loop :: "'e recenv_scheme \<Rightarrow> string \<Rightarrow> string list \<Rightarrow> RecoveryExecutionRow \<Rightarrow> runMap \<Rightarrow>
    (RecoveryExecutionRow \<times> runMap) rop" where
  "step_loop E tenantID [] rec runs = ret (rec, runs)"
| "step_loop E tenantID (stepID # rest) rec runs =
     (case runs stepID of
        None \<Rightarrow> step_loop E tenantID rest rec runs
      | Some sr \<Rightarrow>
          if step_passed (sr_Status sr) \<or> sr_Status sr = RecoveryStepFailed then step_loop E tenantID rest rec runs
          else if \<not> priorStepsSucceeded stepID runs then ret (rec, runs)
          else andThen (runStep E tenantID rec sr) (\<lambda>(rec, sr).
            step_loop E tenantID rest rec (runs(stepID \<mapsto> sr))))"

definition step_states :: "runMap \<Rightarrow> string list" where
  "step_states runs = map sr_Status (List.map_filter runs DefaultRecoverySteps)"

definition anyFailed :: "runMap \<Rightarrow> bool" where
  "anyFailed runs = list_ex (\<lambda>st. st = RecoveryStepFailed) (step_states runs)"

definition allDone :: "runMap \<Rightarrow> bool" where
  "allDone runs = list_all (\<lambda>st. step_passed st \<or> st = RecoveryStepFailed) (step_states runs)"

subsection \<open>Strategies\<close>

text \<open>The result says whether the strategy settled the recovery by itself.\<close>

definition applyStrategy :: "'e recenv_scheme \<Rightarrow> string \<Rightarrow> RecoveryExecutionRow \<Rightarrow> bool rop" where
  "applyStrategy E tenantID rec =
     (if Strategy rec = ''stop'' then
        andThen (UpdateRecoveryExecution E tenantID (rx_ID rec) (rx_Version rec) (no_fields\<lparr>
          f_Status := Some RecoveryFailed, f_EndedAt := Some (now E),
          f_Summary := Some ''recovery strategy = stop: workflow abandoned cleanly''\<rparr>)) (\<lambda>rec.
        andThen (attempt (GetWorkItem E tenantID (rx_TaskID rec)) (\<lambda>r. case r of
            Inl _ \<Rightarrow> ret ()
          | Inr task \<Rightarrow> andThen (UpdateWorkItem E tenantID (rx_TaskID rec) (wi_Version task) WorkItemCancelled None) (\<lambda>_. ret ()))) (\<lambda>_.
        ignoring (enqueueRecoveryEvent E ''recovery.escalated'' rec [] [] (rx_TriggerReason rec) ''strategy=stop; workflow abandoned'' [])
        (ret True)))
      else if Strategy rec = ''human_escalation'' then
        andThen (UpdateRecoveryExecution E tenantID (rx_ID rec) (rx_Version rec) (no_fields\<lparr>
          f_Status := Some RecoveryBlocked, f_EndedAt := Some (now E), f_NeedsHumanApproval := Some True,
          f_Summary := Some ''recovery strategy = human_escalation: blocked at L3 awaiting human approval''\<rparr>)) (\<lambda>rec.
        ignoring (enqueueRecoveryEvent E ''recovery.blocked'' rec [] [] (rx_TriggerReason rec) ''strategy=human_escalation; blocked at L3'' [])
        (ret True))
      else if Strategy rec = ''retry_n'' then
        andThen (GetWorkItem E tenantID (rx_TaskID rec)) (\<lambda>task.
        andThen (UpdateWorkItem E tenantID (rx_TaskID rec) (wi_Version task) WorkItemReady None) (\<lambda>_.
        andThen (UpdateRecoveryExecution E tenantID (rx_ID rec) (rx_Version rec) (no_fields\<lparr>
          f_Status := Some RecoveryResumed, f_EndedAt := Some (now E),
          f_Summary := Some ''recovery strategy = retry_n: task requeued immediately, no capture step''\<rparr>)) (\<lambda>rec.
        ignoring (enqueueRecoveryEvent E ''recovery.resumed'' rec [] [] (rx_TriggerReason rec) ''strategy=retry_n; task requeued'' [])
        (ret True))))
      else ret False)"

subsection \<open>Resuming and escalating\<close>

text \<open>
  Decoding a column into a fresh map: an object gives its members, a JSON \<open>null\<close> resets the map to nil,
  so that the next assignment panics, and anything else leaves the map empty.
\<close>

definition decode_map :: "json \<Rightarrow> (string \<times> json) list option" where
  "decode_map v = (case v of JMap fs \<Rightarrow> Some fs | JNull \<Rightarrow> None | _ \<Rightarrow> Some [])"

definition published :: "RecoveryExecutionRow \<Rightarrow> ExecutionRow option \<Rightarrow> (string \<times> json) list \<Rightarrow> (string \<times> json) list" where
  "published rec failedExec fs =
     (let fs = (if rx_Summary rec \<noteq> [] then AList.update ''_recovery_summary'' (JString (rx_Summary rec)) fs else fs);
          fs = AList.update ''_recovery_execution_id'' (JString (FailedExecutionID rec)) fs;
          fs = AList.update ''_recovery_worker_id'' (JString (case failedExec of None \<Rightarrow> [] | Some x \<Rightarrow> WorkerID x)) fs;
          fs = AList.update ''_recovery_worker_version'' (JNumber (fmt_d (case failedExec of None \<Rightarrow> 0 | Some x \<Rightarrow> WorkerVersion x))) fs
      in AList.update ''_recovery_adapter'' (JString (case failedExec of None \<Rightarrow> [] | Some x \<Rightarrow> adapterRef x)) fs)"

definition failed_exec :: "'e recenv_scheme \<Rightarrow> string \<Rightarrow> RecoveryExecutionRow \<Rightarrow> ExecutionRow option rop" where
  "failed_exec E tenantID rec =
     attempt (GetExecution E tenantID (FailedExecutionID rec)) (\<lambda>r. case r of Inl _ \<Rightarrow> ret None | Inr x \<Rightarrow> ret (Some x))"

definition resume_step_run :: "'e recenv_scheme \<Rightarrow> string \<Rightarrow> RecoveryExecutionRow \<Rightarrow> WorkflowStepRunRow \<Rightarrow> unit rop" where
  "resume_step_run E tenantID rec stepRun =
     (case decode_map (ws_Result stepRun) of
        None \<Rightarrow> raise GoPanic
      | Some fs \<Rightarrow>
          andThen (failed_exec E tenantID rec) (\<lambda>x.
          andThen (UpdateWorkflowStepRun E tenantID (ws_ID stepRun) (ws_Version stepRun) (JMap (published rec x fs))) (\<lambda>_. ret ())))"

definition resume_task :: "'e recenv_scheme \<Rightarrow> string \<Rightarrow> RecoveryExecutionRow \<Rightarrow> unit rop" where
  "resume_task E tenantID rec =
     attempt (GetWorkItem E tenantID (rx_TaskID rec)) (\<lambda>r. case r of
       Inl _ \<Rightarrow> ret ()
     | Inr task \<Rightarrow>
         (case decode_map (Results task) of
            None \<Rightarrow> raise GoPanic
          | Some fs \<Rightarrow>
              andThen (failed_exec E tenantID rec) (\<lambda>x.
              ignoring (UpdateWorkItem E tenantID (rx_TaskID rec) (wi_Version task) WorkItemReady (Some (JMap (published rec x fs))))
              (ret ()))))"

text \<open>The recovery whose summary is folded into the facts file before the commit.\<close>

definition resume :: "'e recenv_scheme \<Rightarrow> string \<Rightarrow> RecoveryExecutionRow \<Rightarrow> RecoveryExecutionRow rop" where
  "resume E tenantID rec =
     andThen (UpdateRecoveryExecution E tenantID (rx_ID rec) (rx_Version rec)
       (no_fields\<lparr>f_Status := Some RecoveryResumed, f_EndedAt := Some (now E)\<rparr>)) (\<lambda>rec.
     andThen (stepRunForFailedExecution E tenantID (FailedExecutionID rec)) (\<lambda>stepRun.
     andThen (case stepRun of Some sr \<Rightarrow> resume_step_run E tenantID rec sr | None \<Rightarrow> resume_task E tenantID rec) (\<lambda>_.
     ignoring (enqueueRecoveryEvent E ''recovery.resumed'' rec [] [] (rx_TriggerReason rec) ''recovery completed; task resumed to ready'' [])
     (ret rec))))"

definition escalate :: "'e recenv_scheme \<Rightarrow> string \<Rightarrow> RecoveryExecutionRow \<Rightarrow> unit rop" where
  "escalate E tenantID rec =
     (if Level rec = RecoveryLevelL1 then
        andThen (UpdateRecoveryExecution E tenantID (rx_ID rec) (rx_Version rec) (no_fields\<lparr>
          f_Level := Some RecoveryLevelL2, f_Status := Some RecoveryEscalated, f_EndedAt := Some (now E)\<rparr>)) (\<lambda>updated.
        ignoring (enqueueRecoveryEvent E ''recovery.escalated'' updated [] [] (rx_TriggerReason rec) ''escalated L1->L2 (recovery stalled)'' [])
        (ret ()))
      else if Level rec = RecoveryLevelL2 then
        andThen (UpdateRecoveryExecution E tenantID (rx_ID rec) (rx_Version rec) (no_fields\<lparr>
          f_Level := Some RecoveryLevelL3, f_Status := Some RecoveryBlocked, f_NeedsHumanApproval := Some True\<rparr>)) (\<lambda>updated.
        andThen (attempt (GetWorkItem E tenantID (rx_TaskID rec)) (\<lambda>r. case r of
            Inl _ \<Rightarrow> ret ()
          | Inr task \<Rightarrow> ignoring (UpdateWorkItem E tenantID (rx_TaskID rec) (wi_Version task) WorkItemRecovering None) (ret ()))) (\<lambda>_.
        ignoring (enqueueRecoveryEvent E ''recovery.escalated'' updated [] [] (rx_TriggerReason rec)
          ''escalated L2->L3 (human approval required; task paused)'' [])
        (ret ())))
      else
        andThen (UpdateRecoveryExecution E tenantID (rx_ID rec) (rx_Version rec) (no_fields\<lparr>
          f_Status := Some RecoveryFailed, f_EndedAt := Some (now E)\<rparr>)) (\<lambda>updated.
        ignoring (enqueueRecoveryEvent E ''recovery.failed'' updated [] [] (rx_TriggerReason rec) ''recovery failed at L3'' [])
        (ret ())))"

definition run_dag :: "'e recenv_scheme \<Rightarrow> string \<Rightarrow> RecoveryExecutionRow \<Rightarrow> RecoveryExecutionRow option ending rop" where
  "run_dag E tenantID rec =
     andThen (if rx_Status rec = RecoveryPending then
                UpdateRecoveryExecution E tenantID (rx_ID rec) (rx_Version rec) (no_fields\<lparr>f_Status := Some RecoveryRunning\<rparr>)
              else ret rec) (\<lambda>rec.
     andThen (ListRecoveryStepRuns E tenantID (rx_ID rec)) (\<lambda>rows.
     andThen (step_loop E tenantID DefaultRecoverySteps rec (run_by_step rows)) (\<lambda>(rec, runs).
     if allDone runs \<and> \<not> anyFailed runs then
       andThen (resume E tenantID rec) (\<lambda>rec. ret (Commit (Some rec)))
     else if anyFailed runs then
       andThen (escalate E tenantID rec) (\<lambda>_. ret (Commit None))
     else ret (Commit None))))"

definition progress_body :: "'e recenv_scheme \<Rightarrow> string \<Rightarrow> string \<Rightarrow> RecoveryExecutionRow option ending rop" where
  "progress_body E tenantID recoveryID =
     attempt (GetRecoveryExecution E tenantID recoveryID) (\<lambda>r. case r of
       Inl e \<Rightarrow> if e = ErrNotFound then ret (Discard None) else raise e
     | Inr rec \<Rightarrow>
         if terminal_recovery (rx_Status rec) then ret (Discard None)
         else if rx_Status rec = RecoveryBlocked then ret (Discard None)
         else andThen (applyStrategy E tenantID rec) (\<lambda>handled.
           if handled then ret (Commit None) else run_dag E tenantID rec))"

subsection \<open>The world around the transactions\<close>

record rworld =
  committed :: rstore
  nextID :: nat
  files :: "string \<rightharpoonup> string"

definition run_op :: "'e recenv_scheme \<Rightarrow> 'a ending rop \<Rightarrow> rworld \<Rightarrow> (db_error + 'a) \<times> rworld" where
  "run_op E body w =
     (case in_tx E body (committed w) (nextID w) of (r, s, n) \<Rightarrow> (r, w\<lparr>committed := s, nextID := n\<rparr>))"

definition newline :: char where
  "newline = CHR 0x0A"

definition facts_text :: "string \<Rightarrow> string \<Rightarrow> string option" where
  "facts_text existing line =
     (if list_ex (\<lambda>l. TrimSpace l = line) (split_on newline existing) then None
      else Some (TrimSpace ((if existing \<noteq> [] then existing @ (if HasSuffix existing [newline] then [] else [newline]) else [])
                            @ line @ [newline])))"

text \<open>
  The fold opens two transactions of its own, on the committed tables. When one cannot be begun the
  code calls \<open>Rollback\<close> on a nil transaction, which panics.
\<close>

definition foldRecoverySummaryToFacts :: "'e recenv_scheme \<Rightarrow> string \<Rightarrow> RecoveryExecutionRow \<Rightarrow> rstore \<Rightarrow>
    (string \<rightharpoonup> string) \<Rightarrow> (db_error + (string \<rightharpoonup> string))" where
  "foldRecoverySummaryToFacts E tenantID rec s fs =
     (if rx_Summary rec = [] then Inr fs
      else if innerBeginFails E 0 then Inl GoPanic
      else (case (if innerQueryFails E 0 then None
                  else find (\<lambda>p. pr_ID p = rx_ProjectID rec \<and> pr_TenantID p = tenantID) (projects s)) of
              None \<Rightarrow> Inr fs
            | Some p \<Rightarrow>
                if ProjectDir p = [] then Inr fs
                else if innerBeginFails E 1 then Inl GoPanic
                else (case (if innerQueryFails E 1 then None
                            else find (\<lambda>x. ex_ID x = FailedExecutionID rec \<and> ex_TenantID x = tenantID) (executions s)) of
                        None \<Rightarrow> Inr fs
                      | Some x \<Rightarrow>
                          if ex_WorkflowRunID x = [] then Inr fs
                          else if mkdirFails E then Inr fs
                          else (let path = PathJoin [PathJoin [ProjectDir p, ''.orchicon'', ex_WorkflowRunID x], ''facts_learned'']
                                in case facts_text (case fs path of None \<Rightarrow> [] | Some t \<Rightarrow> t)
                                          (''FACTS LEARNED (from Recovery): '' @ rx_Summary rec) of
                                     None \<Rightarrow> Inr fs
                                   | Some t \<Rightarrow> if writeFails E then Inr fs else Inr (fs(path \<mapsto> t))))))"

text \<open>The files are written before the commit, so a commit that fails leaves them behind.\<close>

definition progressRecovery :: "'e recenv_scheme \<Rightarrow> string \<Rightarrow> string \<Rightarrow> rworld \<Rightarrow> (db_error + unit) \<times> rworld" where
  "progressRecovery E tenantID recoveryID w =
     (let folded = (if fails E 0 then Inr (files w)
                    else (case progress_body E tenantID recoveryID (begin_tx (committed w) (nextID w)) of
                            (Inr (Commit (Some rec)), _) \<Rightarrow> foldRecoverySummaryToFacts E tenantID rec (committed w) (files w)
                          | _ \<Rightarrow> Inr (files w)))
      in case folded of
           Inl e \<Rightarrow> (Inl e, w\<lparr>nextID := ids (snd (progress_body E tenantID recoveryID (begin_tx (committed w) (nextID w))))\<rparr>)
         | Inr fs \<Rightarrow> (case run_op E (progress_body E tenantID recoveryID) w of
                        (Inl e, w) \<Rightarrow> (Inl e, w\<lparr>files := fs\<rparr>)
                      | (Inr _, w) \<Rightarrow> (Inr (), w\<lparr>files := fs\<rparr>)))"

subsection \<open>The scan\<close>

definition isPoisonedRecoveryTx :: "db_error \<Rightarrow> bool" where
  "isPoisonedRecoveryTx e \<longleftrightarrow> e = TxAborted"

definition quarantine_body :: "'e recenv_scheme \<Rightarrow> string \<Rightarrow> string \<Rightarrow> unit ending rop" where
  "quarantine_body E tenantID recoveryID =
     andThen (GetRecoveryExecution E tenantID recoveryID) (\<lambda>rec.
     if terminal_recovery (rx_Status rec) then ret (Discard ())
     else andThen (UpdateRecoveryExecution E tenantID recoveryID (rx_Version rec)
            (no_fields\<lparr>f_Status := Some RecoveryFailed, f_EndedAt := Some (now E)\<rparr>)) (\<lambda>_. ret (Commit ())))"

text \<open>Each transaction of a scan has its own surroundings: two per recovery, the pass and the quarantine. A panic ends the scan.\<close>

fun scan_loop :: "(nat \<Rightarrow> 'e recenv_scheme) \<Rightarrow> string \<Rightarrow> nat \<Rightarrow> RecoveryExecutionRow list \<Rightarrow> rworld \<Rightarrow>
    (db_error + unit) \<times> rworld" where
  "scan_loop Es tenantID k [] w = (Inr (), w)"
| "scan_loop Es tenantID k (rec # rest) w =
     (case progressRecovery (Es k) tenantID (rx_ID rec) w of
        (Inr _, w) \<Rightarrow> scan_loop Es tenantID (k + 2) rest w
      | (Inl e, w) \<Rightarrow>
          if e = GoPanic then (Inl GoPanic, w)
          else if isPoisonedRecoveryTx e then
            scan_loop Es tenantID (k + 2) rest (snd (run_op (Es (k + 1)) (quarantine_body (Es (k + 1)) tenantID (rx_ID rec)) w))
          else scan_loop Es tenantID (k + 2) rest w)"

definition scanRecoveries :: "(nat \<Rightarrow> 'e recenv_scheme) \<Rightarrow> string \<Rightarrow> rworld \<Rightarrow> (db_error + unit) \<times> rworld" where
  "scanRecoveries Es tenantID w =
     (case run_op (Es 0) (andThen (ListPendingRecoveries (Es 0) tenantID) (\<lambda>rs. ret (Discard rs))) w of
        (Inl e, w) \<Rightarrow> (Inl e, w)
      | (Inr rs, w) \<Rightarrow> scan_loop Es tenantID 1 rs w)"

definition Reconcile :: "(nat \<Rightarrow> 'e recenv_scheme) \<Rightarrow> string \<Rightarrow> rworld \<Rightarrow> (db_error + unit) \<times> rworld" where
  "Reconcile Es key w =
     (if key = [] then scanRecoveries Es ''tnt_dev'' w else progressRecovery (Es 0) ''tnt_dev'' key w)"

subsection \<open>Decisions of the operator\<close>

definition MarkTaskSucceeded :: "'e recenv_scheme \<Rightarrow> string \<Rightarrow> string \<Rightarrow> string \<Rightarrow> string \<Rightarrow> string \<Rightarrow> AuditEntry option \<Rightarrow>
    string ending rop" where
  "MarkTaskSucceeded E tenantID taskID actorType actorID reason auditEntry =
     andThen (GetWorkItem E tenantID taskID) (\<lambda>task.
     if wi_Status task = WorkItemSucceeded then ret (Discard [])
     else
       andThen (UpdateWorkItem E tenantID taskID (wi_Version task) WorkItemSucceeded None) (\<lambda>_.
       andThen (NewID E) (\<lambda>auditID.
       andThen (EnqueueOutbox E \<lparr>ob_ID = auditID, EventType = ''task.succeeded'', AggregateType = ''work_item'',
         AggregateID = taskID, Payload = JMap [(''event_type'', JString ''task.succeeded''), (''tenant_id'', JString tenantID),
           (''task_id'', JString taskID), (''actor_type'', JString actorType), (''actor_id'', JString actorID),
           (''reason'', JString reason), (''occurred_at'', JString (timeText E (now E)))]\<rparr>) (\<lambda>_.
       andThen (attempt (GetActiveRecoveryForTask E tenantID taskID) (\<lambda>r. case r of
           Inl _ \<Rightarrow> ret ()
         | Inr rec \<Rightarrow>
             andThen (UpdateRecoveryExecution E tenantID (rx_ID rec) (rx_Version rec)
               (no_fields\<lparr>f_Status := Some RecoveryResumed, f_EndedAt := Some (now E)\<rparr>)) (\<lambda>updated.
             ignoring (enqueueRecoveryEvent E ''recovery.resumed'' updated [] [] (rx_TriggerReason rec)
               (''task marked succeeded by '' @ actorType @ ''/'' @ actorID) [])
             (ret ())))) (\<lambda>_.
       andThen (recordAuditEntry E auditEntry (SnapshotStatus (wi_Status task)) (SnapshotStatus WorkItemSucceeded)) (\<lambda>_.
       ret (Commit auditID)))))))"

definition decide_plan :: "'e recenv_scheme \<Rightarrow> string \<Rightarrow> string \<Rightarrow> string \<Rightarrow> string \<Rightarrow> UpdateRecoveryExecutionFields \<Rightarrow>
    string \<Rightarrow> string \<Rightarrow> AuditEntry option \<Rightarrow> (ContinuationPlanRow \<times> RecoveryExecutionRow) ending rop" where
  "decide_plan E tenantID recoveryID status actor chg event action auditEntry =
     andThen (GetRecoveryExecution E tenantID recoveryID) (\<lambda>rec.
     if ContinuationPlanID rec = [] then raise (Refused ''no continuation plan for recovery'')
     else
       andThen (UpdateContinuationPlanStatus E tenantID (ContinuationPlanID rec) status actor) (\<lambda>plan.
       andThen (UpdateRecoveryExecution E tenantID recoveryID (rx_Version rec) chg) (\<lambda>updated.
       ignoring (enqueueRecoveryEvent E event updated [] [] (rx_TriggerReason rec) action [])
       (andThen (recordAuditEntry E auditEntry (SnapshotStatus (rx_Status rec)) (SnapshotStatus (rx_Status updated))) (\<lambda>_.
       ret (Commit (plan, updated)))))))"

definition ApproveContinuationPlan :: "'e recenv_scheme \<Rightarrow> string \<Rightarrow> string \<Rightarrow> string \<Rightarrow> AuditEntry option \<Rightarrow>
    (ContinuationPlanRow \<times> RecoveryExecutionRow) ending rop" where
  "ApproveContinuationPlan E tenantID recoveryID actor auditEntry =
     decide_plan E tenantID recoveryID PlanApproved actor
       (no_fields\<lparr>f_Status := Some RecoveryRunning, f_NeedsHumanApproval := Some False\<rparr>)
       ''recovery.plan.approved'' (''continuation plan approved by '' @ actor) auditEntry"

definition RejectContinuationPlan :: "'e recenv_scheme \<Rightarrow> string \<Rightarrow> string \<Rightarrow> string \<Rightarrow> string \<Rightarrow> AuditEntry option \<Rightarrow>
    (ContinuationPlanRow \<times> RecoveryExecutionRow) ending rop" where
  "RejectContinuationPlan E tenantID recoveryID actor reason auditEntry =
     decide_plan E tenantID recoveryID PlanRejected actor
       (no_fields\<lparr>f_Status := Some RecoveryFailed, f_EndedAt := Some (now E)\<rparr>)
       ''recovery.plan.rejected'' (''continuation plan rejected by '' @ actor @ '': '' @ reason) auditEntry"

end
