(* ===== verification/Recovery_Service.thy ===== *)
theory Recovery_Service
  imports Recovery_Engine
begin

text \<open>
  The recovery RPCs (\<open>internal/recovery/service.go\<close>) over the engine: validation of the request, the
  operator's actions, and the response codes. The tenant and the acting identity come from the request
  context. Text fields are valid UTF-8, so their runes are the bytes that do not continue one. The
  read-only RPCs return rows as they are and are represented by the engine's queries.
\<close>

datatype rpc_code = CodeInternal | CodeInvalidArgument | CodeNotFound | CodeFailedPrecondition

record rpc_ctx =
  ctx_tenant :: string
  ctx_actor :: AuditEntry

definition RuneCount :: "string \<Rightarrow> nat" where
  "RuneCount s = length (filter (\<lambda>c. (of_char c :: nat) < 128 \<or> (of_char c :: nat) \<ge> 192) s)"

definition maxReasonLen :: nat where "maxReasonLen = 1000"
definition maxActorLen :: nat where "maxActorLen = 200"

definition validateTextField :: "string \<Rightarrow> nat \<Rightarrow> string option" where
  "validateTextField s limit = (let s = TrimSpace s in if RuneCount s > limit then None else Some s)"

definition mapDBError :: "db_error \<Rightarrow> rpc_code" where
  "mapDBError e = (if e = ErrNotFound then CodeNotFound else CodeInternal)"

definition actorEntry :: "rpc_ctx \<Rightarrow> string \<Rightarrow> string \<Rightarrow> string \<Rightarrow> json option \<Rightarrow> json option \<Rightarrow> AuditEntry" where
  "actorEntry ctx action targetType targetID b a =
     (let e = ctx_actor ctx
      in e\<lparr>au_TenantID := (if au_TenantID e = [] then ctx_tenant ctx else au_TenantID e), au_Action := action,
           au_TargetType := targetType, au_TargetID := targetID, Before := b, After := a\<rparr>)"

definition engine_result :: "(db_error + 'a) \<times> rworld \<Rightarrow> (rpc_code + 'a) \<times> rworld" where
  "engine_result x = (case x of (Inl _, w) \<Rightarrow> (Inl CodeInternal, w) | (Inr y, w) \<Rightarrow> (Inr y, w))"

text \<open>Three transactions: the lookup of the execution, the engine's trigger, and the read back.\<close>

definition TriggerRecovery :: "(nat \<Rightarrow> 'e recenv_scheme) \<Rightarrow> rpc_ctx \<Rightarrow> string \<Rightarrow> string \<Rightarrow> rworld \<Rightarrow>
    (rpc_code + RecoveryExecutionRow) \<times> rworld" where
  "TriggerRecovery Es ctx taskId reason w =
     (let ten = ctx_tenant ctx
      in if ten = [] then (Inl CodeInternal, w)
         else if taskId = [] then (Inl CodeInvalidArgument, w)
         else (case validateTextField reason maxReasonLen of
                 None \<Rightarrow> (Inl CodeInvalidArgument, w)
               | Some r \<Rightarrow>
                   (let why = (if r = [] then ''manual'' else r)
                    in case run_op (Es 0) (andThen (latestExecution (Es 0) ten taskId) (\<lambda>x. ret (Discard x))) w of
                         (Inl _, w) \<Rightarrow> (Inl CodeInternal, w)
                       | (Inr x, w) \<Rightarrow>
                           (let entry = actorEntry ctx ''recovery.triggered'' ''recovery'' taskId None
                              (Some (JMap [(''task_id'', JString taskId), (''trigger_reason'', JString why)]))
                            in case run_op (Es 1) (TriggerOnFailure (Es 1) ten taskId
                                      (case x of None \<Rightarrow> [] | Some e \<Rightarrow> ex_ID e) [] why (Some entry)) w of
                                 (Inl _, w) \<Rightarrow> (Inl CodeInternal, w)
                               | (Inr _, w) \<Rightarrow>
                                   (case run_op (Es 2) (andThen (GetActiveRecoveryForTask (Es 2) ten taskId) (\<lambda>r. ret (Discard r))) w of
                                      (Inl _, w) \<Rightarrow> (Inl (if fails (Es 2) 0 then CodeInternal else CodeNotFound), w)
                                    | (Inr rec, w) \<Rightarrow> (Inr rec, w))))))"

definition cancel_body :: "'e recenv_scheme \<Rightarrow> rpc_ctx \<Rightarrow> string \<Rightarrow> string \<Rightarrow> (rpc_code + RecoveryExecutionRow) ending rop" where
  "cancel_body E ctx rid reason =
     (let ten = ctx_tenant ctx
      in attempt (GetRecoveryExecution E ten rid) (\<lambda>r. case r of
           Inl e \<Rightarrow> ret (Discard (Inl (mapDBError e)))
         | Inr current \<Rightarrow>
             if rx_Status current = RecoveryResumed \<or> rx_Status current = RecoveryFailed \<or> rx_Status current = RecoveryCancelled
             then ret (Discard (Inl CodeFailedPrecondition))
             else attempt (UpdateRecoveryExecution E ten rid (rx_Version current)
                    (no_fields\<lparr>f_Status := Some RecoveryCancelled, f_EndedAt := Some (now E)\<rparr>)) (\<lambda>r. case r of
               Inl e \<Rightarrow> ret (Discard (Inl (mapDBError e)))
             | Inr updated \<Rightarrow>
                 andThen (attempt (GetWorkItem E ten (rx_TaskID updated)) (\<lambda>r. case r of
                     Inl _ \<Rightarrow> ret ()
                   | Inr task \<Rightarrow> ignoring (UpdateWorkItem E ten (rx_TaskID updated) (wi_Version task) WorkItemReady None) (ret ()))) (\<lambda>_.
                 ignoring (enqueueRecoveryEvent E ''recovery.cancelled'' updated [] [] (rx_TriggerReason current)
                   (''cancelled by operator: '' @ reason) [])
                 (attempt (audit_Record E (actorEntry ctx ''recovery.cancelled'' ''recovery'' (rx_ID updated)
                     (SnapshotStatus (rx_Status current)) (SnapshotStatus (rx_Status updated)))) (\<lambda>r. case r of
                   Inl _ \<Rightarrow> ret (Discard (Inl CodeInternal))
                 | Inr _ \<Rightarrow> ret (Commit (Inr updated))))))))"

definition delete_body :: "'e recenv_scheme \<Rightarrow> rpc_ctx \<Rightarrow> string \<Rightarrow> (rpc_code + unit) ending rop" where
  "delete_body E ctx rid =
     (let ten = ctx_tenant ctx
      in attempt (GetRecoveryExecution E ten rid) (\<lambda>r. case r of
           Inl e \<Rightarrow> ret (Discard (Inl (mapDBError e)))
         | Inr current \<Rightarrow>
             attempt (DeleteRecoveryExecution E ten rid) (\<lambda>r. case r of
               Inl e \<Rightarrow> ret (Discard (Inl (mapDBError e)))
             | Inr _ \<Rightarrow>
                 attempt (audit_Record E (actorEntry ctx ''recovery.deleted'' ''recovery'' (rx_ID current)
                     (SnapshotStatus (rx_Status current)) None)) (\<lambda>r. case r of
                   Inl _ \<Rightarrow> ret (Discard (Inl CodeInternal))
                 | Inr _ \<Rightarrow> ret (Commit (Inr ()))))))"

definition flatten_result :: "(db_error + (rpc_code + 'a)) \<times> rworld \<Rightarrow> (rpc_code + 'a) \<times> rworld" where
  "flatten_result x = (case x of (Inl _, w) \<Rightarrow> (Inl CodeInternal, w) | (Inr y, w) \<Rightarrow> (y, w))"

definition CancelRecovery :: "'e recenv_scheme \<Rightarrow> rpc_ctx \<Rightarrow> string \<Rightarrow> string \<Rightarrow> rworld \<Rightarrow> (rpc_code + RecoveryExecutionRow) \<times> rworld" where
  "CancelRecovery E ctx rid reason w =
     (if ctx_tenant ctx = [] then (Inl CodeInternal, w)
      else if rid = [] then (Inl CodeInvalidArgument, w)
      else (case validateTextField reason maxReasonLen of
              None \<Rightarrow> (Inl CodeInvalidArgument, w)
            | Some r \<Rightarrow> flatten_result (run_op E (cancel_body E ctx rid r) w)))"

definition DeleteRecovery :: "'e recenv_scheme \<Rightarrow> rpc_ctx \<Rightarrow> string \<Rightarrow> rworld \<Rightarrow> (rpc_code + unit) \<times> rworld" where
  "DeleteRecovery E ctx rid w =
     (if ctx_tenant ctx = [] then (Inl CodeInternal, w)
      else if rid = [] then (Inl CodeInvalidArgument, w)
      else flatten_result (run_op E (delete_body E ctx rid) w))"

definition ApproveContinuationPlan_rpc :: "'e recenv_scheme \<Rightarrow> rpc_ctx \<Rightarrow> string \<Rightarrow> string \<Rightarrow> rworld \<Rightarrow>
    (rpc_code + ContinuationPlanRow \<times> RecoveryExecutionRow) \<times> rworld" where
  "ApproveContinuationPlan_rpc E ctx rid actor w =
     (if ctx_tenant ctx = [] then (Inl CodeInternal, w)
      else if rid = [] then (Inl CodeInvalidArgument, w)
      else (case validateTextField actor maxActorLen of
              None \<Rightarrow> (Inl CodeInvalidArgument, w)
            | Some who \<Rightarrow>
                if who = [] then (Inl CodeInvalidArgument, w)
                else engine_result (run_op E (ApproveContinuationPlan E (ctx_tenant ctx) rid who
                  (Some (actorEntry ctx ''recovery.continuation_plan_approved'' ''recovery'' rid None None))) w)))"

definition RejectContinuationPlan_rpc :: "'e recenv_scheme \<Rightarrow> rpc_ctx \<Rightarrow> string \<Rightarrow> string \<Rightarrow> string \<Rightarrow> rworld \<Rightarrow>
    (rpc_code + ContinuationPlanRow \<times> RecoveryExecutionRow) \<times> rworld" where
  "RejectContinuationPlan_rpc E ctx rid actor reason w =
     (if ctx_tenant ctx = [] then (Inl CodeInternal, w)
      else if rid = [] then (Inl CodeInvalidArgument, w)
      else (case validateTextField actor maxActorLen of
              None \<Rightarrow> (Inl CodeInvalidArgument, w)
            | Some who \<Rightarrow>
                if who = [] then (Inl CodeInvalidArgument, w)
                else (case validateTextField reason maxReasonLen of
                        None \<Rightarrow> (Inl CodeInvalidArgument, w)
                      | Some why \<Rightarrow>
                          engine_result (run_op E (RejectContinuationPlan E (ctx_tenant ctx) rid who why
                            (Some (actorEntry ctx ''recovery.continuation_plan_rejected'' ''recovery'' rid None None))) w))))"

definition MarkTaskSucceeded_rpc :: "'e recenv_scheme \<Rightarrow> rpc_ctx \<Rightarrow> string \<Rightarrow> string \<Rightarrow> string \<Rightarrow> string \<Rightarrow> rworld \<Rightarrow>
    (rpc_code + string) \<times> rworld" where
  "MarkTaskSucceeded_rpc E ctx taskId actorType actorId reason w =
     (if ctx_tenant ctx = [] then (Inl CodeInternal, w)
      else if taskId = [] then (Inl CodeInvalidArgument, w)
      else (case (validateTextField actorType maxActorLen, validateTextField actorId maxActorLen, validateTextField reason maxReasonLen) of
              (Some kind, Some who, Some why) \<Rightarrow>
                engine_result (run_op E (MarkTaskSucceeded E (ctx_tenant ctx) taskId (if kind = [] then ''human'' else kind) who why
                  (Some (actorEntry ctx ''recovery.task_marked_succeeded'' ''recovery'' taskId None None))) w)
            | _ \<Rightarrow> (Inl CodeInvalidArgument, w)))"

end
