(* ===== verification/Recovery_Inv.thy ===== *)
theory Recovery_Inv
  imports Recovery_Service
begin

text \<open>
  What holds of the recovery tables after any history of the engine's operations. The invariant is kept
  through triples: an assertion about the recoveries and their step runs survives every statement on
  another table, and the pass over the steps has an assertion of its own that pins the recovery row it
  works on and keeps the map of step runs in agreement with the table.
\<close>

type_synonym rcore = "RecoveryExecutionRow list \<times> RecoveryStepRunRow list"

definition core :: "rstore \<Rightarrow> rcore" where
  "core s = (recoveries s, stepRuns s)"

abbreviation keeps :: "(rcore \<Rightarrow> bool) \<Rightarrow> 'a rop \<Rightarrow> bool" where
  "keeps P m \<equiv> hoare (\<lambda>s. P (core s)) m (\<lambda>_ s. P (core s)) (\<lambda>s. P (core s))"

named_theorems core_keeps \<open>operations that touch neither recoveries nor step runs\<close>

lemma core_simps [simp]:
  "core (workItems_update f s) = core s" "core (wfStepRuns_update g s) = core s" "core (plans_update h s) = core s"
  "core (outbox_update i s) = core s" "core (auditLog_update j s) = core s"
  "core (recoveries_update k s) = (k (recoveries s), stepRuns s)" "core (stepRuns_update l s) = (recoveries s, l (stepRuns s))"
  by (simp_all add: core_def)

lemma keeps_ret [core_keeps]: "keeps P (ret x)"
  by (rule hoare_ret)

lemma keeps_raise [core_keeps]: "keeps P (raise e)"
  by (rule hoare_raise)

lemma keeps_attempt [core_keeps]: "keeps P m \<Longrightarrow> (\<And>r. keeps P (k r)) \<Longrightarrow> keeps P (attempt m k)"
  by (rule hoare_attempt)

lemma keeps_andThen [core_keeps]: "keeps P m \<Longrightarrow> (\<And>x. keeps P (k x)) \<Longrightarrow> keeps P (andThen m k)"
  by (rule hoare_andThen)

lemma keeps_ignoring [core_keeps]: "keeps P m \<Longrightarrow> keeps P k \<Longrightarrow> keeps P (ignoring m k)"
  by (rule hoare_ignoring)

lemma keeps_cases [core_keeps]:
  "(\<And>e. keeps P (f e)) \<Longrightarrow> (\<And>x. keeps P (g x)) \<Longrightarrow> keeps P (case r of Inl e \<Rightarrow> f e | Inr x \<Rightarrow> g x)"
  "keeps P n \<Longrightarrow> (\<And>x. keeps P (h x)) \<Longrightarrow> keeps P (case o1 of None \<Rightarrow> n | Some x \<Rightarrow> h x)"
  "keeps P a \<Longrightarrow> keeps P b \<Longrightarrow> keeps P (if c then a else b)"
  "(\<And>x y. keeps P (i x y)) \<Longrightarrow> keeps P (case pr of (x, y) \<Rightarrow> i x y)"
  by (simp_all split: sum.split option.split prod.split)

lemma keeps_sql_get [core_keeps]: "keeps P (sql_get E tbl Pr)"
  by (rule hoare_conseq [OF hoare_get]) auto

lemma keeps_queries [core_keeps]:
  "keeps P (sql_rows E query)" "keeps P (sql_newest E tbl key Pr)" "keeps P (NewID E)"
  by (rule hoare_conseq [OF hoare_rows], auto, rule hoare_conseq [OF hoare_newest], auto, rule hoare_NewID)

lemma keeps_gets [core_keeps]:
  "keeps P (GetRecoveryExecution E ten rid)" "keeps P (GetWorkItem E ten tid)" "keeps P (GetExecution E ten xid)"
  "keeps P (GetWorkflowStepRun E ten sid)" "keeps P (GetWorkflowStepRunByStep E ten run sid)"
  "keeps P (SumUsageForExecution E ten xid)" "keeps P (GetActiveRecoveryForTask E ten tid)"
  "keeps P (GetLatestRecoveryForExecution E ten tid xid)"
  unfolding GetRecoveryExecution_def GetWorkItem_def GetExecution_def GetWorkflowStepRun_def GetWorkflowStepRunByStep_def
    SumUsageForExecution_def GetActiveRecoveryForTask_def GetLatestRecoveryForExecution_def
  by (intro core_keeps)+

lemma keeps_writes [core_keeps]:
  "keeps P (UpdateWorkItem E ten tid v st js)" "keeps P (UpdateWorkflowStepRun E ten wid v j)"
  "keeps P (UpdateContinuationPlanStatus E ten pid st who)"
  unfolding UpdateWorkItem_def UpdateWorkflowStepRun_def UpdateContinuationPlanStatus_def
  by (rule hoare_update; simp)+

lemma keeps_plan [core_keeps]: "keeps P (CreateContinuationPlan E p)"
  unfolding CreateContinuationPlan_def by (rule hoare_sql) (auto split: if_splits)

lemma keeps_audit [core_keeps]: "keeps P (audit_Record E a)" "keeps P (recordAuditEntry E ao b c)"
proof -
  show a: "keeps P (audit_Record E a)" for a
    unfolding audit_Record_def by (intro core_keeps hoare_sql) auto
  show "keeps P (recordAuditEntry E ao b c)" unfolding recordAuditEntry_def by (intro core_keeps a)
qed

lemma keeps_outbox [core_keeps]: "keeps P (EnqueueOutbox E row)"
  unfolding EnqueueOutbox_def by (intro core_keeps hoare_insert) simp_all

lemma keeps_event [core_keeps]: "keeps P (enqueueRecoveryEvent E ev rec sid rid why act ref)"
  unfolding enqueueRecoveryEvent_def by (intro core_keeps)

lemma keeps_stepRunFor [core_keeps]: "keeps P (stepRunForFailedExecution E ten xid)"
  unfolding stepRunForFailedExecution_def by (intro core_keeps)

subsection \<open>The invariant\<close>

text \<open>
  A recovery row that never asks for a human: the default strategy, nothing used, no approval wanted,
  not blocked, and at level two only after it ended, without a plan that could be approved.
\<close>

definition quiet :: "RecoveryExecutionRow \<Rightarrow> bool" where
  "quiet r \<longleftrightarrow> Strategy r = ''summarize_restart'' \<and> BudgetTokensUsed r = 0 \<and> \<not> NeedsHumanApproval r \<and>
     rx_Status r \<noteq> RecoveryBlocked \<and>
     (Level r = RecoveryLevelL2 \<longrightarrow> ContinuationPlanID r = [] \<and> terminal_recovery (rx_Status r))"

definition rows_of :: "RecoveryStepRunRow list \<Rightarrow> RecoveryExecutionRow \<Rightarrow> RecoveryStepRunRow list" where
  "rows_of srs r = filter (\<lambda>sr. sr_TenantID sr = rx_TenantID r \<and> sr_RecoveryID sr = rx_ID r) srs"

definition step_row_ok :: "RecoveryExecutionRow list \<Rightarrow> RecoveryStepRunRow \<Rightarrow> bool" where
  "step_row_ok rs sr \<longleftrightarrow> sr_StepID sr \<in> set DefaultRecoverySteps \<and>
     (sr_StepID sr = RecoveryStepResume \<longrightarrow> sr_Status sr \<noteq> RecoveryStepFailed) \<and>
     (\<exists>r \<in> set rs. rx_TenantID r = sr_TenantID sr \<and> rx_ID r = sr_RecoveryID sr)"

definition planned_ok :: "RecoveryStepRunRow list \<Rightarrow> RecoveryExecutionRow \<Rightarrow> bool" where
  "planned_ok srs r \<longleftrightarrow> (ContinuationPlanID r \<noteq> [] \<longrightarrow> (\<forall>sr \<in> set (rows_of srs r). step_passed (sr_Status sr)))"

definition tables_ok :: "rcore \<Rightarrow> bool" where
  "tables_ok c \<longleftrightarrow> (case c of (rs, srs) \<Rightarrow>
     distinct (map rx_ID rs) \<and> distinct (map sr_ID srs) \<and>
     (\<forall>r \<in> set rs. quiet r \<and> distinct (map sr_StepID (rows_of srs r))) \<and>
     (\<forall>sr \<in> set srs. step_row_ok rs sr))"

definition rinv :: "rcore \<Rightarrow> bool" where
  "rinv c \<longleftrightarrow> tables_ok c \<and> (\<forall>r \<in> set (fst c). planned_ok (snd c) r)"

subsection \<open>Updating one row\<close>

lemma map_update_rows: "(\<And>r. k (f r) = k r) \<Longrightarrow> map k (update_rows P f rows) = map k rows"
  by (simp add: update_rows_def)

lemma update_rows_one:
  assumes "distinct (map key rows)" and "x \<in> set rows" and "P x" and "\<And>r. P r \<Longrightarrow> key r = key x"
  shows "set (update_rows P f rows) = insert (f x) (set rows - {x})"
proof -
  have "P r \<longleftrightarrow> r = x" if "r \<in> set rows" for r
    using that assms by (metis inj_onD distinct_map)
  then show ?thesis using assms(2) by (auto simp: update_rows_def)
qed

lemma put_fields_keys [simp]:
  "rx_ID (put_fields f r) = rx_ID r" "rx_TenantID (put_fields f r) = rx_TenantID r"
  "rx_TaskID (put_fields f r) = rx_TaskID r" "FailedExecutionID (put_fields f r) = FailedExecutionID r"
  "Strategy (put_fields f r) = Strategy r" "BudgetTokensUsed (put_fields f r) = BudgetTokensUsed r"
  "rx_Status (put_fields f r) = set_to (f_Status f) (rx_Status r)"
  "ContinuationPlanID (put_fields f r) = set_to (f_ContinuationPlanID f) (ContinuationPlanID r)"
  "NeedsHumanApproval (put_fields f r) = set_to (f_NeedsHumanApproval f) (NeedsHumanApproval r)"
  "Level (put_fields f r) = set_to (f_Level f) (Level r)"
  "rows_of srs (put_fields f r) = rows_of srs r"
  by (simp_all add: put_fields_def rows_of_def)

lemma put_step_keys [simp]:
  "sr_ID (put_step_fields f r) = sr_ID r" "sr_TenantID (put_step_fields f r) = sr_TenantID r"
  "sr_RecoveryID (put_step_fields f r) = sr_RecoveryID r" "sr_StepID (put_step_fields f r) = sr_StepID r"
  "sr_Status (put_step_fields f r) = set_to (g_Status f) (sr_Status r)"
  by (simp_all add: put_step_fields_def)

lemma no_fields_simps [simp]:
  "f_Status no_fields = None" "f_BudgetRelaxFraction no_fields = None" "f_NeedsHumanApproval no_fields = None"
  "f_ContinuationPlanID no_fields = None" "f_Summary no_fields = None" "f_Level no_fields = None" "f_EndedAt no_fields = None"
  by (simp_all add: no_fields_def)

text \<open>The tables after the row of one recovery changed, with its key kept.\<close>

definition rec_at :: "string \<Rightarrow> RecoveryExecutionRow \<Rightarrow> RecoveryExecutionRow \<Rightarrow> bool" where
  "rec_at ten rec r \<longleftrightarrow> rx_TenantID r = ten \<and> rx_ID r = rx_ID rec \<and> rx_Version r = rx_Version rec"

lemma rec_update_set:
  assumes "tables_ok (rs, srs)" and "rec \<in> set rs" and "rx_TenantID rec = ten"
  shows "set (update_rows (rec_at ten rec) f rs) = insert (f rec) (set rs - {rec})"
  using assms by (intro update_rows_one [of rx_ID]) (auto simp: tables_ok_def rec_at_def)

lemma rec_update_tables:
  assumes ok: "tables_ok (rs, srs)" and rec: "rec \<in> set rs" "rx_TenantID rec = ten" and q: "quiet (put_fields f rec)"
  shows "tables_ok (update_rows (rec_at ten rec) (put_fields f) rs, srs)"
proof -
  let ?rs = "update_rows (rec_at ten rec) (put_fields f) rs"
  have set: "set ?rs = insert (put_fields f rec) (set rs - {rec})" by (rule rec_update_set [OF ok rec])
  have "map rx_ID ?rs = map rx_ID rs" by (rule map_update_rows) simp
  then have "distinct (map rx_ID ?rs)" using ok by (simp add: tables_ok_def)
  moreover have "step_row_ok ?rs sr" if "step_row_ok rs sr" for sr
    using that unfolding step_row_ok_def set by (metis DiffI insert_iff put_fields_keys(1,2) singletonD)
  ultimately show ?thesis using ok q rec(1) by (auto simp: tables_ok_def set)
qed

definition step_at :: "string \<Rightarrow> RecoveryStepRunRow \<Rightarrow> RecoveryStepRunRow \<Rightarrow> bool" where
  "step_at ten sr r \<longleftrightarrow> sr_TenantID r = ten \<and> sr_ID r = sr_ID sr \<and> sr_Version r = sr_Version sr"

lemma rows_of_update:
  "rows_of (update_rows P (put_step_fields g) srs) r = update_rows P (put_step_fields g) (rows_of srs r)"
  by (induction srs) (auto simp: rows_of_def update_rows_def)

lemma step_update_set:
  assumes "tables_ok (rs, srs)" and "sr \<in> set srs" and "sr_TenantID sr = ten"
  shows "set (update_rows (step_at ten sr) (put_step_fields g) srs) = insert (put_step_fields g sr) (set srs - {sr})"
  using assms by (intro update_rows_one [of sr_ID]) (auto simp: tables_ok_def step_at_def)

lemma step_update_tables:
  assumes ok: "tables_ok (rs, srs)" and sr: "sr \<in> set srs" "sr_TenantID sr = ten"
    and g: "sr_StepID sr = RecoveryStepResume \<Longrightarrow> g_Status g \<noteq> Some RecoveryStepFailed"
  shows "tables_ok (rs, update_rows (step_at ten sr) (put_step_fields g) srs)"
proof -
  let ?srs = "update_rows (step_at ten sr) (put_step_fields g) srs"
  have set: "set ?srs = insert (put_step_fields g sr) (set srs - {sr})" by (rule step_update_set [OF ok sr])
  have "map sr_ID ?srs = map sr_ID srs" by (rule map_update_rows) simp
  moreover have "map sr_StepID (rows_of ?srs r) = map sr_StepID (rows_of srs r)" for r
    unfolding rows_of_update by (rule map_update_rows) simp
  moreover have "step_row_ok rs (put_step_fields g sr)"
    using ok sr g by (cases "g_Status g") (auto simp: tables_ok_def step_row_ok_def)
  ultimately show ?thesis using ok by (auto simp: tables_ok_def set)
qed

subsection \<open>The pass over the steps\<close>

definition sync :: "runMap \<Rightarrow> RecoveryStepRunRow list \<Rightarrow> bool" where
  "sync runs rows \<longleftrightarrow> (\<forall>sr. sr \<in> set rows \<longleftrightarrow> runs (sr_StepID sr) = Some sr) \<and>
     (\<forall>sid sr. runs sid = Some sr \<longrightarrow> sr_StepID sr = sid)"

definition pass_ok :: "string \<Rightarrow> RecoveryExecutionRow \<Rightarrow> runMap \<Rightarrow> rcore \<Rightarrow> bool" where
  "pass_ok ten rec runs c \<longleftrightarrow> tables_ok c \<and> rec \<in> set (fst c) \<and> rx_TenantID rec = ten \<and> Level rec \<noteq> RecoveryLevelL2 \<and>
     sync runs (rows_of (snd c) rec) \<and> (\<forall>r \<in> set (fst c). r \<noteq> rec \<longrightarrow> planned_ok (snd c) r)"

lemma run_by_step_notin: "sid \<notin> sr_StepID ` set rows \<Longrightarrow> fold (\<lambda>sr m. m(sr_StepID sr \<mapsto> sr)) rows m sid = m sid"
  by (induction rows arbitrary: m) auto

lemma run_by_step_in:
  "distinct (map sr_StepID rows) \<Longrightarrow> sr \<in> set rows \<Longrightarrow> fold (\<lambda>sr m. m(sr_StepID sr \<mapsto> sr)) rows m (sr_StepID sr) = Some sr"
  by (induction rows arbitrary: m) (auto simp: run_by_step_notin)

lemma run_by_step_Some:
  "fold (\<lambda>sr m. m(sr_StepID sr \<mapsto> sr)) rows m sid = Some sr \<Longrightarrow> (sr \<in> set rows \<and> sr_StepID sr = sid) \<or> m sid = Some sr"
proof (induction rows arbitrary: m)
  case (Cons x rows)
  from Cons.IH [of "m(sr_StepID x \<mapsto> x)"] Cons.prems show ?case by (auto split: if_splits)
qed simp

lemma sync_run_by_step: "distinct (map sr_StepID rows) \<Longrightarrow> sync (run_by_step rows) rows"
  unfolding sync_def run_by_step_def
  using run_by_step_in [of rows _ "\<lambda>_. None"] run_by_step_Some [of rows "\<lambda>_. None"] by auto

lemma pass_row:
  assumes "pass_ok ten rec runs (rs, srs)" and "runs sid = Some sr"
  shows "sr \<in> set srs \<and> sr_TenantID sr = ten \<and> sr_RecoveryID sr = rx_ID rec \<and> sr_StepID sr = sid \<and>
    sid \<in> set DefaultRecoverySteps \<and> (sid = RecoveryStepResume \<longrightarrow> sr_Status sr \<noteq> RecoveryStepFailed)"
proof -
  have "sr_StepID sr = sid" "sr \<in> set (rows_of srs rec)" using assms by (auto simp: pass_ok_def sync_def)
  then show ?thesis using assms(1) by (auto simp: pass_ok_def rows_of_def tables_ok_def step_row_ok_def)
qed

lemma sync_update:
  assumes "sync runs rows" and "runs sid = Some sr" and "sr_StepID sr' = sid"
    and "set rows' = insert sr' (set rows - {sr})"
  shows "sync (runs(sid \<mapsto> sr')) rows'"
proof -
  have rows: "x \<in> set rows \<longleftrightarrow> runs (sr_StepID x) = Some x" for x using assms(1) by (simp add: sync_def)
  have sid: "sr_StepID x = i" if "runs i = Some x" for i x using assms(1) that by (simp add: sync_def)
  have "x \<in> set rows' \<longleftrightarrow> (runs(sid \<mapsto> sr')) (sr_StepID x) = Some x" for x
  proof (cases "sr_StepID x = sid")
    case True
    then show ?thesis using rows [of x] assms(2) by (simp add: assms(4)) blast
  next
    case False
    then have "x \<noteq> sr'" "x \<noteq> sr" using assms(3) sid [OF assms(2)] by auto
    then show ?thesis using False rows [of x] by (simp add: assms(4))
  qed
  then show ?thesis using assms(3) sid by (simp add: sync_def)
qed

lemma planned_update:
  assumes "set srs' = insert sr' (set srs - {sr})" and "sr_RecoveryID sr' = rx_ID rec" and "sr_RecoveryID sr = rx_ID rec"
    and "rx_ID r \<noteq> rx_ID rec"
  shows "planned_ok srs' r \<longleftrightarrow> planned_ok srs r"
proof -
  have "sr_RecoveryID sr' \<noteq> rx_ID r" "sr_RecoveryID sr \<noteq> rx_ID r" using assms(2-4) by metis+
  then have "set (rows_of srs' r) = set (rows_of srs r)" unfolding rows_of_def set_filter assms(1) by blast
  then show ?thesis by (simp add: planned_ok_def)
qed

lemma pass_update_step:
  assumes "runs sid = Some sr" and g: "sid = RecoveryStepResume \<Longrightarrow> g_Status g \<noteq> Some RecoveryStepFailed"
  shows "hoare (\<lambda>s. pass_ok ten rec runs (core s)) (UpdateRecoveryStepRun E ten (sr_ID sr) (sr_Version sr) g)
    (\<lambda>sr' s. sr' = put_step_fields g sr \<and> pass_ok ten rec (runs(sid \<mapsto> sr')) (core s)) (\<lambda>_. True)"
  unfolding UpdateRecoveryStepRun_def step_at_def [symmetric]
proof (rule hoare_update)
  fix s x assume P: "pass_ok ten rec runs (core s)" and x: "x \<in> set (stepRuns s)" "step_at ten sr x"
  have P: "pass_ok ten rec runs (recoveries s, stepRuns s)" using P by (simp add: core_def)
  note row = pass_row [OF P assms(1)]
  have ok: "tables_ok (recoveries s, stepRuns s)" using P by (simp add: pass_ok_def)
  let ?srs = "update_rows (step_at ten sr) (put_step_fields g) (stepRuns s)"
  have set: "set ?srs = insert (put_step_fields g sr) (set (stepRuns s) - {sr})"
    using step_update_set [OF ok] row by blast
  have "x = sr" using x row ok by (auto simp: step_at_def tables_ok_def distinct_map dest: inj_onD)
  have "distinct (map sr_ID (rows_of (stepRuns s) rec))" using ok by (auto simp: tables_ok_def rows_of_def distinct_map_filter)
  moreover have "sr \<in> set (rows_of (stepRuns s) rec)" using row P by (auto simp: rows_of_def pass_ok_def)
  ultimately have "set (rows_of ?srs rec) = insert (put_step_fields g sr) (set (rows_of (stepRuns s) rec) - {sr})"
    unfolding rows_of_update using row by (intro update_rows_one [of sr_ID]) (auto simp: step_at_def)
  then have "sync (runs(sid \<mapsto> put_step_fields g sr)) (rows_of ?srs rec)"
    using P row assms(1) by (intro sync_update [of runs "rows_of (stepRuns s) rec"]) (auto simp: pass_ok_def)
  moreover have "planned_ok ?srs r" if "r \<in> set (recoveries s)" "r \<noteq> rec" for r
  proof -
    have "rx_ID r \<noteq> rx_ID rec" using that P ok by (auto simp: tables_ok_def pass_ok_def distinct_map dest: inj_onD)
    then show ?thesis using planned_update [OF set] row that P by (auto simp: pass_ok_def)
  qed
  moreover have "tables_ok (recoveries s, ?srs)" using step_update_tables [OF ok] row g by blast
  ultimately show "put_step_fields g x = put_step_fields g sr \<and> pass_ok ten rec (runs(sid \<mapsto> put_step_fields g x))
      (core (stepRuns_update (update_rows (step_at ten sr) (put_step_fields g)) s))"
    using P \<open>x = sr\<close> by (simp add: pass_ok_def)
qed simp

lemma pass_update_rec:
  assumes "quiet (put_fields f rec)" and "Level (put_fields f rec) \<noteq> RecoveryLevelL2"
  shows "hoare (\<lambda>s. pass_ok ten rec runs (core s)) (UpdateRecoveryExecution E ten (rx_ID rec) (rx_Version rec) f)
    (\<lambda>rec' s. rec' = put_fields f rec \<and> pass_ok ten rec' runs (core s)) (\<lambda>s. pass_ok ten rec runs (core s))"
  unfolding UpdateRecoveryExecution_def rec_at_def [symmetric]
proof (rule hoare_update)
  fix s x assume P: "pass_ok ten rec runs (core s)" and x: "x \<in> set (recoveries s)" "rec_at ten rec x"
  then have ok: "tables_ok (recoveries s, stepRuns s)" and rec: "rec \<in> set (recoveries s)" "rx_TenantID rec = ten"
    by (auto simp: pass_ok_def core_def)
  have "x = rec" using x rec ok by (auto simp: rec_at_def tables_ok_def distinct_map dest: inj_onD)
  then show "put_fields f x = put_fields f rec \<and>
      pass_ok ten (put_fields f x) runs (core (recoveries_update (update_rows (rec_at ten rec) (put_fields f)) s))"
    using P rec assms rec_update_set [OF ok rec, of "put_fields f"] rec_update_tables [OF ok rec assms(1)]
    by (auto simp: pass_ok_def core_def)
qed

lemma pass_quiet: "pass_ok ten rec runs (core s) \<Longrightarrow> quiet rec"
  by (auto simp: pass_ok_def tables_ok_def)

lemma relax_quiet: "quiet rec \<Longrightarrow> relax rec = (BudgetRelaxFraction rec, False)"
  by (auto simp: relax_def quiet_def)

lemma pass_spend: "keeps (pass_ok ten rec runs) (spend E ten x)"
  unfolding spend_def by (intro core_keeps)

text \<open>Sequencing rules: after a statement that keeps the assertion, and after an update of the recovery.\<close>

lemma core_andThen:
  "keeps P m \<Longrightarrow> (\<And>x. hoare (\<lambda>s. P (core s)) (k x) Q X) \<Longrightarrow> (\<And>s. P (core s) \<Longrightarrow> X s) \<Longrightarrow>
    hoare (\<lambda>s. P (core s)) (andThen m k) Q X"
  by (rule hoare_andThen [where R = "\<lambda>_ s. P (core s)"]) (auto elim: hoare_conseq)

lemma core_ignoring:
  "keeps P m \<Longrightarrow> hoare (\<lambda>s. P (core s)) k Q X \<Longrightarrow> hoare (\<lambda>s. P (core s)) (ignoring m k) Q X"
  by (rule hoare_ignoring)

lemma pass_andThen_rec:
  assumes "quiet (put_fields f rec)" and "Level (put_fields f rec) \<noteq> RecoveryLevelL2"
    and "hoare (\<lambda>s. pass_ok ten (put_fields f rec) runs (core s)) (k (put_fields f rec)) Q X"
    and "\<And>s. pass_ok ten rec runs (core s) \<Longrightarrow> X s"
  shows "hoare (\<lambda>s. pass_ok ten rec runs (core s))
    (andThen (UpdateRecoveryExecution E ten (rx_ID rec) (rx_Version rec) f) k) Q X"
proof (rule hoare_andThen)
  show "hoare (\<lambda>s. pass_ok ten rec runs (core s)) (UpdateRecoveryExecution E ten (rx_ID rec) (rx_Version rec) f)
    (\<lambda>rec' s. rec' = put_fields f rec \<and> pass_ok ten rec' runs (core s)) X"
    by (rule hoare_conseq [OF pass_update_rec [OF assms(1,2)]]) (use assms(4) in auto)
  show "hoare (\<lambda>s. x = put_fields f rec \<and> pass_ok ten x runs (core s)) (k x) Q X" for x
    by (rule hoare_pure [where A = "x = put_fields f rec"]) (use assms(3) in \<open>auto elim: hoare_conseq\<close>)
qed

lemma pass_andThen_step:
  assumes "runs sid = Some sr" and "sid = RecoveryStepResume \<Longrightarrow> g_Status g \<noteq> Some RecoveryStepFailed"
    and "hoare (\<lambda>s. pass_ok ten rec (runs(sid \<mapsto> put_step_fields g sr)) (core s)) (k (put_step_fields g sr)) Q (\<lambda>_. True)"
  shows "hoare (\<lambda>s. pass_ok ten rec runs (core s))
    (andThen (UpdateRecoveryStepRun E ten (sr_ID sr) (sr_Version sr) g) k) Q (\<lambda>_. True)"
proof (rule hoare_andThen)
  show "hoare (\<lambda>s. pass_ok ten rec runs (core s)) (UpdateRecoveryStepRun E ten (sr_ID sr) (sr_Version sr) g)
    (\<lambda>sr' s. sr' = put_step_fields g sr \<and> pass_ok ten rec (runs(sid \<mapsto> sr')) (core s)) (\<lambda>_. True)"
    using assms(1,2) by (rule pass_update_step [where sid = sid and runs = runs])
  show "hoare (\<lambda>s. x = put_step_fields g sr \<and> pass_ok ten rec (runs(sid \<mapsto> x)) (core s)) (k x) Q (\<lambda>_. True)" for x
    by (rule hoare_pure [where A = "x = put_step_fields g sr"]) (use assms(3) in \<open>auto elim: hoare_conseq\<close>)
qed

lemma pass_summarize:
  assumes "quiet rec" and "Level rec \<noteq> RecoveryLevelL2"
  shows "hoare (\<lambda>s. pass_ok ten rec runs (core s)) (stepSummarize E ten rec)
    (\<lambda>(rec', _) s. pass_ok ten rec' runs (core s) \<and> rx_ID rec' = rx_ID rec \<and> ContinuationPlanID rec' = ContinuationPlanID rec)
    (\<lambda>s. pass_ok ten rec runs (core s))"
  unfolding stepSummarize_def Let_def split_def
  by (intro core_andThen core_keeps pass_spend pass_andThen_rec hoare_ret) (use assms in \<open>auto simp: quiet_def\<close>)

lemma pass_plan:
  assumes q: "quiet rec" and l: "Level rec \<noteq> RecoveryLevelL2"
  shows "hoare (\<lambda>s. pass_ok ten rec runs (core s)) (stepPlan E ten rec)
    (\<lambda>(rec', _) s. pass_ok ten rec' runs (core s) \<and> rx_ID rec' = rx_ID rec) (\<lambda>s. pass_ok ten rec runs (core s))"
  unfolding stepPlan_def relax_quiet [OF q] Let_def split
  by (intro core_andThen core_ignoring core_keeps pass_andThen_rec hoare_ret) (use q l in \<open>auto simp: quiet_def\<close>)

lemma pass_step_logic:
  "hoare (\<lambda>s. pass_ok ten rec runs (core s)) (step_logic E ten rec sid)
    (\<lambda>(rec', _) s. pass_ok ten rec' runs (core s) \<and> rx_ID rec' = rx_ID rec \<and>
      (sid \<noteq> RecoveryStepPlan \<longrightarrow> ContinuationPlanID rec' = ContinuationPlanID rec))
    (\<lambda>s. pass_ok ten rec runs (core s) \<and> sid \<noteq> RecoveryStepResume)"
proof (rule hoare_pure [where A = "quiet rec \<and> Level rec \<noteq> RecoveryLevelL2"])
  show "pass_ok ten rec runs (core s) \<Longrightarrow> quiet rec \<and> Level rec \<noteq> RecoveryLevelL2" for s
    using pass_quiet by (auto simp: pass_ok_def)
  assume A: "quiet rec \<and> Level rec \<noteq> RecoveryLevelL2"
  have same: "hoare (\<lambda>s. pass_ok ten rec runs (core s)) (stepCapture E ten rec)
      (\<lambda>(rec', _) s. pass_ok ten rec' runs (core s) \<and> rx_ID rec' = rx_ID rec \<and> ContinuationPlanID rec' = ContinuationPlanID rec)
      (\<lambda>s. pass_ok ten rec runs (core s))"
    unfolding stepCapture_def split_def by (intro core_andThen core_keeps pass_spend hoare_ret) auto
  show ?thesis
    unfolding step_logic_def stepPreserve_def stepReview_def stepResume_def
    using pass_plan [of rec ten runs E] pass_summarize [of rec ten runs E] same A
    by (auto intro!: hoare_ret elim!: hoare_conseq split: if_splits)
qed

definition step_end :: "string \<Rightarrow> RecoveryExecutionRow \<Rightarrow> RecoveryExecutionRow \<Rightarrow> RecoveryStepRunRow \<Rightarrow> bool" where
  "step_end sid rec rec' sr' \<longleftrightarrow> rx_ID rec' = rx_ID rec \<and>
     (sr_Status sr' = RecoveryStepSucceeded \<and> (sid \<noteq> RecoveryStepPlan \<longrightarrow> ContinuationPlanID rec' = ContinuationPlanID rec) \<or>
      sr_Status sr' = RecoveryStepFailed \<and> rec' = rec \<and> sid \<noteq> RecoveryStepResume)"

lemma pass_runStep:
  assumes run: "runs sid = Some sr"
  shows "hoare (\<lambda>s. pass_ok ten rec runs (core s)) (runStep E ten rec sr)
    (\<lambda>(rec', sr') s. pass_ok ten rec' (runs(sid \<mapsto> sr')) (core s) \<and> step_end sid rec rec' sr') (\<lambda>_. True)"
proof (rule hoare_pure [where A = "sr_StepID sr = sid"])
  show "pass_ok ten rec runs (core s) \<Longrightarrow> sr_StepID sr = sid" for s
    using pass_row [of ten rec runs "recoveries s" "stepRuns s" sid sr] run by (simp add: core_def)
  assume sid: "sr_StepID sr = sid"
  let ?sr1 = "put_step_fields (step_running E sid) sr" and ?runs1 = "runs(sid \<mapsto> put_step_fields (step_running E sid) sr)"
  have st: "g_Status (step_running E x) = Some RecoveryStepRunning" "g_Status (step_ended E y j) = Some y" for x y j
    by (simp_all add: step_running_def step_ended_def)
  have failed: "hoare (\<lambda>s. pass_ok ten rec ?runs1 (core s) \<and> sid \<noteq> RecoveryStepResume)
      (andThen (UpdateRecoveryStepRun E ten (sr_ID ?sr1) (sr_Version ?sr1) (step_ended E RecoveryStepFailed (JMap []))) (\<lambda>failed.
        ignoring (enqueueRecoveryEvent E ev rec (sr_StepID failed) (sr_ID failed) why (act failed) ref) (ret (rec, failed))))
      (\<lambda>(rec', sr') s. pass_ok ten rec' (runs(sid \<mapsto> sr')) (core s) \<and> step_end sid rec rec' sr') (\<lambda>_. True)" for ev why act ref
  proof (rule hoare_pure [where A = "sid \<noteq> RecoveryStepResume"])
    assume "sid \<noteq> RecoveryStepResume"
    then show ?thesis
      by (intro hoare_conseq [OF pass_andThen_step [where runs = ?runs1 and sid = sid]])
        (auto simp: st step_end_def intro!: core_ignoring core_keeps hoare_ret)
  qed simp
  have succeeded: "hoare (\<lambda>s. pass_ok ten rec' ?runs1 (core s) \<and> rx_ID rec' = rx_ID rec \<and>
        (sid \<noteq> RecoveryStepPlan \<longrightarrow> ContinuationPlanID rec' = ContinuationPlanID rec))
      (andThen (UpdateRecoveryStepRun E ten (sr_ID ?sr1) (sr_Version ?sr1) (step_ended E RecoveryStepSucceeded j)) (\<lambda>ok.
        ignoring (enqueueRecoveryEvent E ev rec' (sr_StepID ok) (sr_ID ok) why (act ok) ref) (ret (rec', ok))))
      (\<lambda>(rec', sr') s. pass_ok ten rec' (runs(sid \<mapsto> sr')) (core s) \<and> step_end sid rec rec' sr') (\<lambda>_. True)" for rec' j ev why act ref
  proof (rule hoare_pure [where A = "rx_ID rec' = rx_ID rec \<and> (sid \<noteq> RecoveryStepPlan \<longrightarrow> ContinuationPlanID rec' = ContinuationPlanID rec)"])
    assume "rx_ID rec' = rx_ID rec \<and> (sid \<noteq> RecoveryStepPlan \<longrightarrow> ContinuationPlanID rec' = ContinuationPlanID rec)"
    then show ?thesis
      by (intro hoare_conseq [OF pass_andThen_step [where runs = ?runs1 and sid = sid]])
        (auto simp: st step_end_def intro!: core_ignoring core_keeps hoare_ret)
  qed simp
  show ?thesis
    unfolding runStep_def sid
    apply (rule pass_andThen_step [where sid = sid and runs = runs])
      apply (rule run)
     apply (simp add: st)
    apply (rule core_ignoring, intro core_keeps)
    unfolding put_step_keys(4) sid
    apply (rule hoare_attempt [OF pass_step_logic])
    subgoal for x by (cases x) (simp only: sum.case prod.case, rule succeeded)
    subgoal by (simp only: sum.case, rule failed)
    done
qed

text \<open>
  A recovery with a plan has every step but the last behind it, so a failed step means there is no plan.
\<close>

definition plan_kept :: "RecoveryExecutionRow \<Rightarrow> runMap \<Rightarrow> bool" where
  "plan_kept rec runs \<longleftrightarrow> (ContinuationPlanID rec \<noteq> [] \<longrightarrow>
     (\<forall>sid sr. runs sid = Some sr \<longrightarrow> step_passed (sr_Status sr) \<or> sid = RecoveryStepResume \<and> sr_Status sr \<noteq> RecoveryStepFailed))"

definition settled :: "string list \<Rightarrow> runMap \<Rightarrow> bool" where
  "settled steps runs \<longleftrightarrow> (\<forall>sid \<in> set steps. \<forall>sr. runs sid = Some sr \<longrightarrow> step_passed (sr_Status sr) \<or> sr_Status sr = RecoveryStepFailed)"

definition some_failed :: "runMap \<Rightarrow> bool" where
  "some_failed runs \<longleftrightarrow> (\<exists>sid sr. runs sid = Some sr \<and> sr_Status sr = RecoveryStepFailed)"

lemma step_passed_simps [simp]: "step_passed RecoveryStepSucceeded" "step_passed RecoveryStepSkipped"
  "\<not> step_passed RecoveryStepFailed" "\<not> step_passed RecoveryStepPending" "\<not> step_passed RecoveryStepRunning"
  by (simp_all add: step_passed_def)

lemma plan_kept_step:
  assumes run: "runs sid = Some sr" "\<not> step_passed (sr_Status sr)" "sr_Status sr \<noteq> RecoveryStepFailed"
    and kept: "plan_kept rec runs" and prior: "priorStepsSucceeded sid runs" and "end": "step_end sid rec rec' sr'"
    and dom: "\<And>i x. runs i = Some x \<Longrightarrow> i \<in> set DefaultRecoverySteps \<and> (i = RecoveryStepResume \<longrightarrow> sr_Status x \<noteq> RecoveryStepFailed)"
  shows "plan_kept rec' (runs(sid \<mapsto> sr'))"
proof -
  consider (ok) "sr_Status sr' = RecoveryStepSucceeded" "sid \<noteq> RecoveryStepPlan" "ContinuationPlanID rec' = ContinuationPlanID rec"
    | (plan) "sr_Status sr' = RecoveryStepSucceeded" "sid = RecoveryStepPlan"
    | (failed) "rec' = rec" "sid \<noteq> RecoveryStepResume"
    using "end" by (auto simp: step_end_def)
  then show ?thesis
  proof cases
    case ok
    then show ?thesis using kept by (simp add: plan_kept_def)
  next
    case plan
    have "step_passed (sr_Status x)" if "runs i = Some x" "i \<noteq> RecoveryStepPlan" "i \<noteq> RecoveryStepResume" for i x
      using prior plan(2) that dom [OF that(1)]
      by (auto simp: priorStepsSucceeded_def DefaultRecoverySteps_def)
    then show ?thesis using plan dom by (auto simp: plan_kept_def)
  next
    case failed
    then have "ContinuationPlanID rec = []" using kept run by (auto simp: plan_kept_def)
    then show ?thesis using failed by (simp add: plan_kept_def)
  qed
qed

lemma distinct_steps: "distinct DefaultRecoverySteps"
  by (simp add: DefaultRecoverySteps_def)

lemma prior_settled:
  assumes "pre @ sid # rest = DefaultRecoverySteps" and "settled pre runs" and "\<not> priorStepsSucceeded sid runs"
  shows "some_failed runs"
proof -
  have "sid \<notin> set pre" using distinct_steps unfolding assms(1) [symmetric] by auto
  then have "takeWhile (\<lambda>x. x \<noteq> sid) DefaultRecoverySteps = pre"
    unfolding assms(1) [symmetric] by (subst takeWhile_append2) auto
  then obtain i x where "i \<in> set pre" "runs i = Some x" "\<not> step_passed (sr_Status x)"
    using assms(3) by (auto simp: priorStepsSucceeded_def list_all_iff split: option.splits)
  then show ?thesis using assms(2) unfolding settled_def some_failed_def by blast
qed

lemma pass_loop_step:
  assumes run: "runs sid = Some sr" "\<not> step_passed (sr_Status sr)" "sr_Status sr \<noteq> RecoveryStepFailed"
    and kept: "plan_kept rec runs" and prior: "priorStepsSucceeded sid runs"
    and cont: "\<And>rec' sr'. step_end sid rec rec' sr' \<Longrightarrow> plan_kept rec' (runs(sid \<mapsto> sr')) \<Longrightarrow>
      hoare (\<lambda>s. pass_ok ten rec' (runs(sid \<mapsto> sr')) (core s)) (k rec' sr') Q (\<lambda>_. True)"
  shows "hoare (\<lambda>s. pass_ok ten rec runs (core s)) (andThen (runStep E ten rec sr) (\<lambda>(r, x). k r x)) Q (\<lambda>_. True)"
proof (rule hoare_pure [where A = "\<forall>i x. runs i = Some x \<longrightarrow> i \<in> set DefaultRecoverySteps \<and> (i = RecoveryStepResume \<longrightarrow> sr_Status x \<noteq> RecoveryStepFailed)"])
  show "pass_ok ten rec runs (core s) \<Longrightarrow> \<forall>i x. runs i = Some x \<longrightarrow>
      i \<in> set DefaultRecoverySteps \<and> (i = RecoveryStepResume \<longrightarrow> sr_Status x \<noteq> RecoveryStepFailed)" for s
    using pass_row unfolding core_def by blast
  assume dom: "\<forall>i x. runs i = Some x \<longrightarrow> i \<in> set DefaultRecoverySteps \<and> (i = RecoveryStepResume \<longrightarrow> sr_Status x \<noteq> RecoveryStepFailed)"
  have "hoare (\<lambda>s. pass_ok ten rec' (runs(sid \<mapsto> sr')) (core s) \<and> step_end sid rec rec' sr') (k rec' sr') Q (\<lambda>_. True)" for rec' sr'
  proof (rule hoare_pure [where A = "step_end sid rec rec' sr'"])
    assume e: "step_end sid rec rec' sr'"
    have "plan_kept rec' (runs(sid \<mapsto> sr'))" by (rule plan_kept_step [OF run kept prior e]) (use dom in blast)
    from cont [OF e this] show "hoare (\<lambda>s. pass_ok ten rec' (runs(sid \<mapsto> sr')) (core s) \<and> step_end sid rec rec' sr') (k rec' sr') Q (\<lambda>_. True)"
      by (rule hoare_conseq) auto
  qed simp
  then show ?thesis
    by (intro hoare_andThen [where R = "\<lambda>(rec', sr') s. pass_ok ten rec' (runs(sid \<mapsto> sr')) (core s) \<and> step_end sid rec rec' sr'"]
        pass_runStep [where runs = runs and sid = sid] run(1)) (auto simp: split_def)
qed

lemma pass_step_loop:
  assumes "pre @ steps = DefaultRecoverySteps" and "plan_kept rec runs" and "settled pre runs"
  shows "hoare (\<lambda>s. pass_ok ten rec runs (core s)) (step_loop E ten steps rec runs)
    (\<lambda>(rec', runs') s. pass_ok ten rec' runs' (core s) \<and> rx_ID rec' = rx_ID rec \<and> plan_kept rec' runs' \<and>
      (settled DefaultRecoverySteps runs' \<or> some_failed runs')) (\<lambda>_. True)"
  using assms
proof (induction steps arbitrary: pre rec runs)
  case Nil
  then show ?case by (auto intro!: hoare_ret)
next
  case (Cons sid steps)
  have pre: "(pre @ [sid]) @ steps = DefaultRecoverySteps" using Cons.prems(1) by simp
  show ?case
  proof (cases "case runs sid of None \<Rightarrow> True | Some sr \<Rightarrow> step_passed (sr_Status sr) \<or> sr_Status sr = RecoveryStepFailed")
    case True
    then have "settled (pre @ [sid]) runs" using Cons.prems(3) by (auto simp: settled_def split: option.splits)
    from Cons.IH [OF pre Cons.prems(2) this] True show ?thesis by (auto split: option.splits)
  next
    case False
    then obtain sr where sr: "runs sid = Some sr" "\<not> step_passed (sr_Status sr)" "sr_Status sr \<noteq> RecoveryStepFailed"
      by (auto split: option.splits)
    show ?thesis
    proof (cases "priorStepsSucceeded sid runs")
      case False
      then have "some_failed runs" using prior_settled [OF _ Cons.prems(3)] Cons.prems(1) by blast
      then show ?thesis using False sr Cons.prems(2) by (auto intro!: hoare_ret)
    next
      case True
      have settled: "settled (pre @ [sid]) (runs(sid \<mapsto> sr'))" if "step_end sid rec rec' sr'" for rec' sr'
        using that Cons.prems(3) by (auto simp: settled_def step_end_def)
      have loop: "step_loop E ten (sid # steps) rec runs =
          andThen (runStep E ten rec sr) (\<lambda>(r, x). step_loop E ten steps r (runs(sid \<mapsto> x)))"
        using sr True by simp
      show ?thesis unfolding loop
      proof (rule pass_loop_step [OF sr Cons.prems(2) True])
        fix rec' sr' assume step: "step_end sid rec rec' sr'" "plan_kept rec' (runs(sid \<mapsto> sr'))"
        from step(1) have same: "rx_ID rec' = rx_ID rec" by (simp add: step_end_def)
        show "hoare (\<lambda>s. pass_ok ten rec' (runs(sid \<mapsto> sr')) (core s)) (step_loop E ten steps rec' (runs(sid \<mapsto> sr')))
            (\<lambda>(rec', runs') s. pass_ok ten rec' runs' (core s) \<and> rx_ID rec' = rx_ID rec \<and> plan_kept rec' runs' \<and>
              (settled DefaultRecoverySteps runs' \<or> some_failed runs')) (\<lambda>_. True)"
          using Cons.IH [OF pre step(2) settled [OF step(1)]] unfolding same .
      qed
    qed
  qed
qed

end
