(* ===== verification/Recovery_Atomic.thy ===== *)
theory Recovery_Atomic
  imports Recovery_Engine
begin

text \<open>
  Every operation of the recovery engine keeps the laws of a transaction body (\<open>tx_body\<close>), although it
  drops the errors of many of its statements: no failure of the database leaves a half-done recovery.
\<close>

lemma robust_Let [robust_intros]: "(\<And>x. robust (\<lambda>E. m E x)) \<Longrightarrow> robust (\<lambda>E. let x = v in m E x)"
  by simp

lemma robust_queries [robust_intros]:
  "robust (\<lambda>E. GetRecoveryExecution E ten rid)" "robust (\<lambda>E. GetActiveRecoveryForTask E ten tid)"
  "robust (\<lambda>E. GetLatestRecoveryForExecution E ten tid xid)" "robust (\<lambda>E. ListPendingRecoveries E ten)"
  "robust (\<lambda>E. ListRecoveryStepRuns E ten rid)" "robust (\<lambda>E. GetWorkItem E ten tid)"
  "robust (\<lambda>E. GetExecution E ten xid)" "robust (\<lambda>E. GetWorkflowStepRun E ten sid)"
  "robust (\<lambda>E. GetWorkflowStepRunByStep E ten run sid)" "robust (\<lambda>E. SumUsageForExecution E ten xid)"
  unfolding GetRecoveryExecution_def GetActiveRecoveryForTask_def GetLatestRecoveryForExecution_def
    ListPendingRecoveries_def ListRecoveryStepRuns_def GetWorkItem_def GetExecution_def GetWorkflowStepRun_def
    GetWorkflowStepRunByStep_def SumUsageForExecution_def
  by (intro robust_intros)+

lemma robust_updates [robust_intros]:
  "(\<And>E. f (calm E) = f E) \<Longrightarrow> robust (\<lambda>E. UpdateRecoveryExecution E ten rid v (f E))"
  "(\<And>E. g (calm E) = g E) \<Longrightarrow> robust (\<lambda>E. UpdateRecoveryStepRun E ten sid v (g E))"
  "robust (\<lambda>E. UpdateWorkItem E ten tid v st js)" "robust (\<lambda>E. UpdateWorkflowStepRun E ten tid v j)"
  "robust (\<lambda>E. UpdateContinuationPlanStatus E ten pid st who)"
  unfolding UpdateRecoveryExecution_def UpdateRecoveryStepRun_def UpdateWorkItem_def UpdateWorkflowStepRun_def
    UpdateContinuationPlanStatus_def
  by (rule robust_sql_update, simp)+

lemma robust_inserts [robust_intros]:
  "(\<And>E. r (calm E) = r E) \<Longrightarrow> robust (\<lambda>E. CreateRecoveryExecution E (r E))"
  "(\<And>E. s (calm E) = s E) \<Longrightarrow> robust (\<lambda>E. CreateRecoveryStepRun E (s E))" "robust (\<lambda>E. CreateContinuationPlan E p)"
  "(\<And>E. ob (calm E) = ob E) \<Longrightarrow> robust (\<lambda>E. EnqueueOutbox E (ob E))"
  "robust (\<lambda>E. audit_Record E a)" "robust (\<lambda>E. recordAuditEntry E ao b c)"
proof -
  show "(\<And>E. r (calm E) = r E) \<Longrightarrow> robust (\<lambda>E. CreateRecoveryExecution E (r E))" for r
    unfolding CreateRecoveryExecution_def Let_def by (rule robust_sql_insert) simp
  show "(\<And>E. s (calm E) = s E) \<Longrightarrow> robust (\<lambda>E. CreateRecoveryStepRun E (s E))" for s
    unfolding CreateRecoveryStepRun_def by (rule robust_sql_insert) simp
  show "robust (\<lambda>E. CreateContinuationPlan E p)" unfolding CreateContinuationPlan_def by (rule robust_sql) simp
  show "robust (\<lambda>E. EnqueueOutbox E (ob E))" if "\<And>E. ob (calm E) = ob E" for ob
    unfolding EnqueueOutbox_def
  proof (intro robust_andThen robust_ret robust_sql_insert)
    have "(\<lambda>E. if ob_ID (ob E) = [] then NewID E else ret (ob_ID (ob E))) =
      (\<lambda>E t. if ob_ID (ob E) = [] then NewID E t else ret (ob_ID (ob E)) t)" by (simp add: fun_eq_iff)
    then show "robust (\<lambda>E. if ob_ID (ob E) = [] then NewID E else ret (ob_ID (ob E)))"
      using that by (simp add: robust_def NewID_def ret_def)
  qed (simp_all add: that)
  show rec: "robust (\<lambda>E. audit_Record E a)" for a unfolding audit_Record_def by (intro robust_intros) simp_all
  show "robust (\<lambda>E. recordAuditEntry E ao b c)"
    unfolding recordAuditEntry_def by (intro robust_intros rec) simp_all
qed

lemma robust_event [robust_intros]:
  "(\<And>E. act (calm E) = act E) \<Longrightarrow> robust (\<lambda>E. enqueueRecoveryEvent E ev rec sid rid why (act E) ref)"
  unfolding enqueueRecoveryEvent_def by (rule robust_inserts(4)) simp

lemma robust_seed [robust_intros]: "(\<And>E. mk (calm E) = mk E) \<Longrightarrow> robust (\<lambda>E. seed_steps E (mk E) steps)"
proof (induction steps)
  case (Cons sid steps)
  show ?case unfolding seed_steps.simps by (intro robust_intros Cons) (simp_all add: Cons.prems)
qed (auto intro!: robust_intros)

lemma robust_parent_chain [robust_intros]: "robust (\<lambda>E. parent_chain E ten n cur)"
  by (induction n arbitrary: cur) (auto intro!: robust_intros)

lemma robust_stepRunFor [robust_intros]: "robust (\<lambda>E. stepRunForFailedExecution E ten xid)"
  unfolding stepRunForFailedExecution_def by (intro robust_intros) simp_all

lemma new_recovery_calm [simp]: "new_recovery (calm E) = new_recovery E"
  by (simp add: new_recovery_def deriveRecoveryBudget_def fun_eq_iff)

lemma robust_trigger [robust_intros]: "robust (\<lambda>E. trigger E ten tid xid sid why level entry)"
  unfolding trigger_def resolve_step_run_def existing_recovery_def create_recovery_def countTaskChainRecoveries_def Let_def
  by (intro robust_intros) simp_all

lemma json_time_calm [simp]: "json_time (calm E) = json_time E"
  by (simp add: json_time_def fun_eq_iff split: option.splits)

lemma robust_steps [robust_intros]: "robust (\<lambda>E. step_logic E ten rec sid)"
  unfolding step_logic_def stepCapture_def stepSummarize_def stepPreserve_def stepReview_def stepPlan_def stepResume_def
    spend_def Let_def
  by (intro robust_intros) (simp_all add: summary_text_def)

lemma step_fields_calm [simp]: "step_running (calm E) = step_running E" "step_ended (calm E) = step_ended E"
  by (simp_all add: step_running_def step_ended_def fun_eq_iff)

lemma robust_runStep [robust_intros]: "robust (\<lambda>E. runStep E ten rec sr)"
  unfolding runStep_def by (intro robust_intros) simp_all

lemma robust_step_loop [robust_intros]: "robust (\<lambda>E. step_loop E ten steps rec runs)"
proof (induction steps arbitrary: rec runs)
  case (Cons sid steps)
  show ?case unfolding step_loop.simps by (intro robust_intros Cons.IH) simp_all
qed (auto intro!: robust_intros)

lemma robust_progress [robust_intros]: "robust (\<lambda>E. progress_body E ten rid)"
  unfolding progress_body_def applyStrategy_def run_dag_def resume_def escalate_def resume_step_run_def resume_task_def
    failed_exec_def
  by (intro robust_intros) simp_all

lemma robust_decide_plan [robust_intros]:
  "(\<And>E. f (calm E) = f E) \<Longrightarrow> robust (\<lambda>E. decide_plan E ten rid st who (f E) ev act entry)"
  unfolding decide_plan_def by (intro robust_intros) simp_all

lemma robust_decisions [robust_intros]:
  "robust (\<lambda>E. ApproveContinuationPlan E ten rid who entry)" "robust (\<lambda>E. RejectContinuationPlan E ten rid who why entry)"
  "robust (\<lambda>E. MarkTaskSucceeded E ten tid kind who why entry)" "robust (\<lambda>E. quarantine_body E ten rid)"
  unfolding ApproveContinuationPlan_def RejectContinuationPlan_def MarkTaskSucceeded_def quarantine_body_def
  by (intro robust_intros; simp)+

end
