(* ===== verification/Recovery_Laws.thy ===== *)
theory Recovery_Laws
  imports Recovery_Inv Recovery_Atomic
begin

text \<open>
  The engine's operations keep the invariant, and what follows from it: the histories of the recovery
  tables, in which no recovery is ever blocked for a human.
\<close>

abbreviation commits :: "'a ending \<Rightarrow> rstore \<Rightarrow> bool" where
  "commits x s \<equiv> (case x of Commit _ \<Rightarrow> rinv (core s) | Discard _ \<Rightarrow> True)"

subsection \<open>A pass of the reconciler\<close>

text \<open>What a pass leaves when it commits: the invariant, and its recovery at an end.\<close>

definition ended :: "string \<Rightarrow> rcore \<Rightarrow> bool" where
  "ended rid c \<longleftrightarrow> rinv c \<and> (\<forall>r \<in> set (fst c). rx_ID r = rid \<longrightarrow> terminal_recovery (rx_Status r))"

abbreviation finishes :: "string \<Rightarrow> 'a ending \<Rightarrow> rstore \<Rightarrow> bool" where
  "finishes rid x s \<equiv> (case x of Commit _ \<Rightarrow> ended rid (core s) | Discard _ \<Rightarrow> False)"

lemma core_commit: "hoare (\<lambda>s. ended rid (core s)) (ret (Commit x)) (finishes rid) (\<lambda>_. True)"
  by (rule hoare_ret) simp

lemma planned_put: "ContinuationPlanID r' = ContinuationPlanID r \<Longrightarrow> rx_ID r' = rx_ID r \<Longrightarrow> rx_TenantID r' = rx_TenantID r \<Longrightarrow>
    planned_ok srs r' = planned_ok srs r"
  by (simp add: planned_ok_def rows_of_def)

lemma pass_andThen_end:
  assumes "quiet (put_fields f rec)" and "\<And>c. pass_ok ten rec runs c \<Longrightarrow> planned_ok (snd c) (put_fields f rec)"
    and "terminal_recovery (rx_Status (put_fields f rec))"
    and "hoare (\<lambda>s. ended (rx_ID rec) (core s)) (k (put_fields f rec)) Q (\<lambda>_. True)"
  shows "hoare (\<lambda>s. pass_ok ten rec runs (core s))
    (andThen (UpdateRecoveryExecution E ten (rx_ID rec) (rx_Version rec) f) k) Q (\<lambda>_. True)"
proof (rule hoare_andThen [where R = "\<lambda>x s. x = put_fields f rec \<and> ended (rx_ID rec) (core s)"])
  show "hoare (\<lambda>s. pass_ok ten rec runs (core s)) (UpdateRecoveryExecution E ten (rx_ID rec) (rx_Version rec) f)
      (\<lambda>x s. x = put_fields f rec \<and> ended (rx_ID rec) (core s)) (\<lambda>_. True)"
    unfolding UpdateRecoveryExecution_def rec_at_def [symmetric]
  proof (rule hoare_update)
    fix s x assume P: "pass_ok ten rec runs (core s)" and x: "x \<in> set (recoveries s)" "rec_at ten rec x"
    then have ok: "tables_ok (recoveries s, stepRuns s)" and rec: "rec \<in> set (recoveries s)" "rx_TenantID rec = ten"
      by (auto simp: pass_ok_def core_def)
    have "x = rec" using x rec ok by (auto simp: rec_at_def tables_ok_def distinct_map dest: inj_onD)
    moreover have "planned_ok (stepRuns s) r" if "r \<in> insert (put_fields f rec) (set (recoveries s) - {rec})" for r
      using that P assms(2) [OF P] by (auto simp: pass_ok_def core_def)
    moreover have "terminal_recovery (rx_Status r)"
      if "r \<in> insert (put_fields f rec) (set (recoveries s) - {rec})" "rx_ID r = rx_ID rec" for r
      using that assms(3) rec(1) ok by (auto simp: tables_ok_def distinct_map dest: inj_onD)
    ultimately show "put_fields f x = put_fields f rec \<and>
        ended (rx_ID rec) (core (recoveries_update (update_rows (rec_at ten rec) (put_fields f)) s))"
      using rec_update_set [OF ok rec, of "put_fields f"] rec_update_tables [OF ok rec assms(1)]
      by (simp add: rinv_def ended_def)
  qed simp
  show "hoare (\<lambda>s. x = put_fields f rec \<and> ended (rx_ID rec) (core s)) (k x) Q (\<lambda>_. True)" for x
    by (rule hoare_pure [where A = "x = put_fields f rec"]) (use assms(4) in \<open>auto elim: hoare_conseq\<close>)
qed

lemma step_states_iff: "st \<in> set (step_states runs) \<longleftrightarrow> (\<exists>sid \<in> set DefaultRecoverySteps. \<exists>sr. runs sid = Some sr \<and> sr_Status sr = st)"
proof -
  have "st \<in> set (map sr_Status (List.map_filter runs xs)) \<longleftrightarrow> (\<exists>sid \<in> set xs. \<exists>sr. runs sid = Some sr \<and> sr_Status sr = st)" for xs
    by (induction xs) (auto split: option.splits)
  then show ?thesis unfolding step_states_def .
qed

lemma all_passed:
  assumes "pass_ok ten rec runs c" and "allDone runs" and "\<not> anyFailed runs" and "sr \<in> set (rows_of (snd c) rec)"
  shows "step_passed (sr_Status sr)"
proof -
  have run: "runs (sr_StepID sr) = Some sr" using assms(1,4) unfolding pass_ok_def sync_def by blast
  have "pass_ok ten rec runs (fst c, snd c)" using assms(1) by simp
  then have "sr_StepID sr \<in> set DefaultRecoverySteps" using pass_row [of ten rec runs "fst c" "snd c" "sr_StepID sr" sr] run by blast
  then have "sr_Status sr \<in> set (step_states runs)" using run unfolding step_states_iff by blast
  then show ?thesis using assms(2,3) unfolding allDone_def anyFailed_def list_all_iff list_ex_iff by blast
qed

lemma pass_resume:
  assumes "quiet rec" and "allDone runs" and "\<not> anyFailed runs" and "Level rec \<noteq> RecoveryLevelL2"
  shows "hoare (\<lambda>s. pass_ok ten rec runs (core s)) (andThen (resume E ten rec) (\<lambda>rec. ret (Commit (Some rec))))
    (finishes (rx_ID rec)) (\<lambda>_. True)"
proof -
  have "hoare (\<lambda>s. pass_ok ten rec runs (core s)) (resume E ten rec) (\<lambda>_ s. ended (rx_ID rec) (core s)) (\<lambda>_. True)"
    unfolding resume_def
  proof (rule pass_andThen_end)
    show "quiet (put_fields (no_fields\<lparr>f_Status := Some RecoveryResumed, f_EndedAt := Some (now E)\<rparr>) rec)"
      using assms by (simp add: quiet_def)
    show "planned_ok (snd c) (put_fields (no_fields\<lparr>f_Status := Some RecoveryResumed, f_EndedAt := Some (now E)\<rparr>) rec)"
      if "pass_ok ten rec runs c" for c using all_passed [OF that assms(2,3)] by (simp add: planned_ok_def)
    show "terminal_recovery (rx_Status (put_fields (no_fields\<lparr>f_Status := Some RecoveryResumed, f_EndedAt := Some (now E)\<rparr>) rec))"
      by (simp add: terminal_recovery_def)
  qed (intro core_andThen core_ignoring core_keeps hoare_ret; (unfold resume_step_run_def resume_task_def failed_exec_def)?;
    (intro core_keeps)?; simp)
  then show ?thesis by (rule hoare_andThen) (rule core_commit)
qed

lemma some_failed_no_plan: "anyFailed runs \<Longrightarrow> plan_kept rec runs \<Longrightarrow> ContinuationPlanID rec = []"
  unfolding anyFailed_def list_ex_iff plan_kept_def using step_states_iff [of RecoveryStepFailed runs]
  by (metis step_passed_simps(3))

lemma planned_empty: "ContinuationPlanID r = [] \<Longrightarrow> planned_ok srs r"
  by (simp add: planned_ok_def)

lemma pass_escalate:
  assumes "quiet rec" and "anyFailed runs" and "plan_kept rec runs" and "Level rec \<noteq> RecoveryLevelL2"
  shows "hoare (\<lambda>s. pass_ok ten rec runs (core s)) (andThen (escalate E ten rec) (\<lambda>_. ret (Commit None)))
    (finishes (rx_ID rec)) (\<lambda>_. True)"
proof -
  have plan: "ContinuationPlanID rec = []" using some_failed_no_plan [OF assms(2,3)] .
  have "hoare (\<lambda>s. pass_ok ten rec runs (core s)) (escalate E ten rec) (\<lambda>_ s. ended (rx_ID rec) (core s)) (\<lambda>_. True)"
    unfolding escalate_def using assms(4)
    by (auto intro!: pass_andThen_end core_ignoring core_keeps hoare_ret planned_empty
        simp: plan assms(1) [unfolded quiet_def] quiet_def terminal_recovery_def)
  then show ?thesis by (rule hoare_andThen) (rule core_commit)
qed

text \<open>The assertion with which an operation holds a row it has read.\<close>

definition holds_row :: "string \<Rightarrow> RecoveryExecutionRow \<Rightarrow> rcore \<Rightarrow> bool" where
  "holds_row ten rec c \<longleftrightarrow> rinv c \<and> rec \<in> set (fst c) \<and> rx_TenantID rec = ten"

lemma holds_row_quiet: "holds_row ten rec c \<Longrightarrow> quiet rec"
  by (cases c) (auto simp: holds_row_def rinv_def tables_ok_def)

lemma holds_row_get:
  "hoare (\<lambda>s. rinv (core s)) (GetRecoveryExecution E ten rid) (\<lambda>rec s. holds_row ten rec (core s) \<and> rx_ID rec = rid) (\<lambda>s. rinv (core s))"
  unfolding GetRecoveryExecution_def by (rule hoare_conseq [OF hoare_get]) (auto simp: holds_row_def core_def)

lemma holds_row_update:
  assumes "quiet (put_fields f rec)" and "f_ContinuationPlanID f = None"
  shows "hoare (\<lambda>s. holds_row ten rec (core s)) (UpdateRecoveryExecution E ten (rx_ID rec) (rx_Version rec) f)
    (\<lambda>rec' s. rec' = put_fields f rec \<and> holds_row ten rec' (core s)) (\<lambda>s. holds_row ten rec (core s))"
  unfolding UpdateRecoveryExecution_def rec_at_def [symmetric]
proof (rule hoare_update)
  fix s x assume P: "holds_row ten rec (core s)" and x: "x \<in> set (recoveries s)" "rec_at ten rec x"
  then have ok: "tables_ok (recoveries s, stepRuns s)" and rec: "rec \<in> set (recoveries s)" "rx_TenantID rec = ten"
    and planned: "\<forall>r \<in> set (recoveries s). planned_ok (stepRuns s) r"
    by (auto simp: holds_row_def rinv_def core_def)
  have "x = rec" using x rec ok by (auto simp: rec_at_def tables_ok_def distinct_map dest: inj_onD)
  moreover have "planned_ok (stepRuns s) (put_fields f rec)"
    using planned rec(1) planned_put [of "put_fields f rec" rec] assms(2) by simp
  ultimately show "put_fields f x = put_fields f rec \<and>
      holds_row ten (put_fields f x) (core (recoveries_update (update_rows (rec_at ten rec) (put_fields f)) s))"
    using rec_update_set [OF ok rec, of "put_fields f"] rec_update_tables [OF ok rec assms(1)] rec planned
    by (simp add: holds_row_def rinv_def)
qed

lemma holds_row_andThen:
  assumes "quiet (put_fields f rec)" and "f_ContinuationPlanID f = None"
    and "hoare (\<lambda>s. holds_row ten (put_fields f rec) (core s)) (k (put_fields f rec)) Q (\<lambda>_. True)"
  shows "hoare (\<lambda>s. holds_row ten rec (core s)) (andThen (UpdateRecoveryExecution E ten (rx_ID rec) (rx_Version rec) f) k) Q (\<lambda>_. True)"
proof (rule hoare_andThen [where R = "\<lambda>rec' s. rec' = put_fields f rec \<and> holds_row ten rec' (core s)"])
  show "hoare (\<lambda>s. holds_row ten rec (core s)) (UpdateRecoveryExecution E ten (rx_ID rec) (rx_Version rec) f)
      (\<lambda>rec' s. rec' = put_fields f rec \<and> holds_row ten rec' (core s)) (\<lambda>_. True)"
    by (rule hoare_conseq [OF holds_row_update [OF assms(1,2)]]) auto
  show "hoare (\<lambda>s. x = put_fields f rec \<and> holds_row ten x (core s)) (k x) Q (\<lambda>_. True)" for x
    by (rule hoare_pure [where A = "x = put_fields f rec"]) (use assms(3) in \<open>auto elim: hoare_conseq\<close>)
qed

lemma holds_row_rinv: "hoare (\<lambda>s. rinv (core s)) m Q X \<Longrightarrow> hoare (\<lambda>s. holds_row ten rec (core s)) m Q X"
  by (erule hoare_conseq) (auto simp: holds_row_def)

lemma pass_start:
  assumes "holds_row ten rec (core s)" and "Level rec \<noteq> RecoveryLevelL2" and "rows = rows_of (stepRuns s) rec"
  shows "pass_ok ten rec (run_by_step rows) (core s) \<and> plan_kept rec (run_by_step rows)"
proof -
  have rec: "rec \<in> set (recoveries s)" and ok: "tables_ok (recoveries s, stepRuns s)"
    and planned: "\<forall>r \<in> set (recoveries s). planned_ok (stepRuns s) r"
    using assms(1) by (auto simp: holds_row_def rinv_def core_def)
  have sync: "sync (run_by_step rows) rows"
    by (rule sync_run_by_step) (use ok rec assms(3) in \<open>auto simp: tables_ok_def\<close>)
  then have "plan_kept rec (run_by_step rows)"
    using planned rec assms(3) unfolding plan_kept_def planned_ok_def sync_def by metis
  then show ?thesis using sync ok rec planned assms by (simp add: pass_ok_def holds_row_def core_def)
qed

lemma dag_finish:
  assumes "plan_kept rec runs" and "settled DefaultRecoverySteps runs \<or> some_failed runs"
  shows "hoare (\<lambda>s. pass_ok ten rec runs (core s))
    (if allDone runs \<and> \<not> anyFailed runs then andThen (resume E ten rec) (\<lambda>rec. ret (Commit (Some rec)))
     else if anyFailed runs then andThen (escalate E ten rec) (\<lambda>_. ret (Commit None))
     else ret (Commit None)) (finishes (rx_ID rec)) (\<lambda>_. True)"
proof (rule hoare_pure [where A = "quiet rec \<and> Level rec \<noteq> RecoveryLevelL2 \<and> (\<forall>sid sr. runs sid = Some sr \<longrightarrow> sid \<in> set DefaultRecoverySteps)"])
  show "pass_ok ten rec runs (core s) \<Longrightarrow>
      quiet rec \<and> Level rec \<noteq> RecoveryLevelL2 \<and> (\<forall>sid sr. runs sid = Some sr \<longrightarrow> sid \<in> set DefaultRecoverySteps)" for s
    using pass_quiet pass_row [of ten rec runs "recoveries s" "stepRuns s"] by (auto simp: pass_ok_def core_def)
  assume A: "quiet rec \<and> Level rec \<noteq> RecoveryLevelL2 \<and> (\<forall>sid sr. runs sid = Some sr \<longrightarrow> sid \<in> set DefaultRecoverySteps)"
  have "allDone runs" if "\<not> anyFailed runs"
  proof -
    have "\<not> some_failed runs" using that A unfolding some_failed_def anyFailed_def list_ex_iff
      by (metis step_states_iff)
    then have "settled DefaultRecoverySteps runs" using assms(2) by blast
    then show ?thesis unfolding allDone_def list_all_iff settled_def by (metis step_states_iff)
  qed
  then show ?thesis using pass_resume [of rec runs ten E] pass_escalate [of rec runs ten E] A assms(1) by auto
qed

text \<open>The pass after the recovery was put in the running state.\<close>

lemma pass_steps_finish:
  assumes "plan_kept rec (run_by_step rows)"
  shows "hoare (\<lambda>s. pass_ok ten rec (run_by_step rows) (core s))
    (andThen (step_loop E ten DefaultRecoverySteps rec (run_by_step rows)) (\<lambda>(rec, runs).
       if allDone runs \<and> \<not> anyFailed runs then andThen (resume E ten rec) (\<lambda>rec. ret (Commit (Some rec)))
       else if anyFailed runs then andThen (escalate E ten rec) (\<lambda>_. ret (Commit None))
       else ret (Commit None))) (finishes (rx_ID rec)) (\<lambda>_. True)"
proof (rule hoare_andThen)
  show "hoare (\<lambda>s. pass_ok ten rec (run_by_step rows) (core s)) (step_loop E ten DefaultRecoverySteps rec (run_by_step rows))
      (\<lambda>(rec', runs') s. pass_ok ten rec' runs' (core s) \<and> rx_ID rec' = rx_ID rec \<and> plan_kept rec' runs' \<and>
        (settled DefaultRecoverySteps runs' \<or> some_failed runs')) (\<lambda>_. True)"
    by (rule pass_step_loop [of "[]"]) (use assms in \<open>simp_all add: settled_def\<close>)
  fix x :: "RecoveryExecutionRow \<times> runMap"
  obtain r runs where x: "x = (r, runs)" by (cases x)
  show "hoare ((\<lambda>(rec', runs') s. pass_ok ten rec' runs' (core s) \<and> rx_ID rec' = rx_ID rec \<and> plan_kept rec' runs' \<and>
        (settled DefaultRecoverySteps runs' \<or> some_failed runs')) x)
      (case x of (rec, runs) \<Rightarrow>
         if allDone runs \<and> \<not> anyFailed runs then andThen (resume E ten rec) (\<lambda>rec. ret (Commit (Some rec)))
         else if anyFailed runs then andThen (escalate E ten rec) (\<lambda>_. ret (Commit None))
         else ret (Commit None)) (finishes (rx_ID rec)) (\<lambda>_. True)"
    unfolding x prod.case
  proof (rule hoare_pure [where A = "rx_ID r = rx_ID rec \<and> plan_kept r runs \<and> (settled DefaultRecoverySteps runs \<or> some_failed runs)"])
    assume A: "rx_ID r = rx_ID rec \<and> plan_kept r runs \<and> (settled DefaultRecoverySteps runs \<or> some_failed runs)"
    then have "plan_kept r runs" "settled DefaultRecoverySteps runs \<or> some_failed runs" by auto
    from dag_finish [OF this, of ten E] show "hoare (\<lambda>s. pass_ok ten r runs (core s) \<and> rx_ID r = rx_ID rec \<and> plan_kept r runs \<and>
        (settled DefaultRecoverySteps runs \<or> some_failed runs))
      (if allDone runs \<and> \<not> anyFailed runs then andThen (resume E ten r) (\<lambda>rec. ret (Commit (Some rec)))
       else if anyFailed runs then andThen (escalate E ten r) (\<lambda>_. ret (Commit None))
       else ret (Commit None)) (finishes (rx_ID rec)) (\<lambda>_. True)"
      by (rule hoare_conseq) (use A in \<open>auto split: ending.splits\<close>)
  qed auto
qed

lemma pass_rows:
  assumes "Level r \<noteq> RecoveryLevelL2"
  shows "hoare (\<lambda>s. holds_row ten r (core s)) (andThen (ListRecoveryStepRuns E ten (rx_ID r)) (\<lambda>rows.
    andThen (step_loop E ten DefaultRecoverySteps r (run_by_step rows)) (\<lambda>(rec, runs).
       if allDone runs \<and> \<not> anyFailed runs then andThen (resume E ten rec) (\<lambda>rec. ret (Commit (Some rec)))
       else if anyFailed runs then andThen (escalate E ten rec) (\<lambda>_. ret (Commit None))
       else ret (Commit None)))) (finishes (rx_ID r)) (\<lambda>_. True)"
proof (rule hoare_andThen [where R = "\<lambda>rows s. pass_ok ten r (run_by_step rows) (core s) \<and> plan_kept r (run_by_step rows)"])
  show "hoare (\<lambda>s. holds_row ten r (core s)) (ListRecoveryStepRuns E ten (rx_ID r))
      (\<lambda>rows s. pass_ok ten r (run_by_step rows) (core s) \<and> plan_kept r (run_by_step rows)) (\<lambda>_. True)"
    unfolding ListRecoveryStepRuns_def
    by (rule hoare_conseq [OF hoare_rows]) (use pass_start assms in \<open>auto simp: holds_row_def rows_of_def\<close>)
  fix rows
  show "hoare (\<lambda>s. pass_ok ten r (run_by_step rows) (core s) \<and> plan_kept r (run_by_step rows))
      (andThen (step_loop E ten DefaultRecoverySteps r (run_by_step rows)) (\<lambda>(rec, runs).
       if allDone runs \<and> \<not> anyFailed runs then andThen (resume E ten rec) (\<lambda>rec. ret (Commit (Some rec)))
       else if anyFailed runs then andThen (escalate E ten rec) (\<lambda>_. ret (Commit None))
       else ret (Commit None))) (finishes (rx_ID r)) (\<lambda>_. True)"
    by (rule hoare_pure [where A = "plan_kept r (run_by_step rows)"], simp, drule pass_steps_finish, erule hoare_conseq) auto
qed

lemma run_dag_keeps:
  assumes "\<not> terminal_recovery (rx_Status rec)"
  shows "hoare (\<lambda>s. holds_row ten rec (core s)) (run_dag E ten rec) (finishes (rx_ID rec)) (\<lambda>_. True)"
proof (rule hoare_pure [where A = "quiet rec"])
  assume q: "quiet rec"
  then have l: "Level rec \<noteq> RecoveryLevelL2" using assms by (auto simp: quiet_def)
  show ?thesis
  proof (cases "rx_Status rec = RecoveryPending")
    case True
    show ?thesis unfolding run_dag_def if_P [OF True]
      by (rule holds_row_andThen) (use q l in \<open>simp add: quiet_def\<close>, simp, rule hoare_conseq [OF pass_rows], auto simp: l split: ending.splits)
  next
    case False
    have "hoare (\<lambda>s. holds_row ten rec (core s)) (ret rec) (\<lambda>x s. x = rec \<and> holds_row ten rec (core s)) (\<lambda>_. True)"
      by (rule hoare_ret) simp
    then show ?thesis unfolding run_dag_def if_not_P [OF False]
    proof (rule hoare_andThen)
      show "hoare (\<lambda>s. x = rec \<and> holds_row ten rec (core s)) (andThen (ListRecoveryStepRuns E ten (rx_ID x)) (\<lambda>rows.
          andThen (step_loop E ten DefaultRecoverySteps x (run_by_step rows)) (\<lambda>(rec, runs).
           if allDone runs \<and> \<not> anyFailed runs then andThen (resume E ten rec) (\<lambda>rec. ret (Commit (Some rec)))
           else if anyFailed runs then andThen (escalate E ten rec) (\<lambda>_. ret (Commit None))
           else ret (Commit None)))) (finishes (rx_ID rec)) (\<lambda>_. True)" for x
        by (rule hoare_pure [where A = "x = rec"]) (use pass_rows [OF l] in \<open>auto elim: hoare_conseq\<close>)
    qed
  qed
qed (use holds_row_quiet in blast)

lemma applyStrategy_quiet: "quiet rec \<Longrightarrow> applyStrategy E ten rec = ret False"
  by (simp add: applyStrategy_def quiet_def)

text \<open>Where a pass is discarded its recovery had ended before, or does not exist.\<close>

definition over :: "string \<Rightarrow> string \<Rightarrow> rstore \<Rightarrow> bool" where
  "over ten rid s \<longleftrightarrow> (\<forall>r \<in> set (recoveries s). rx_ID r = rid \<and> rx_TenantID r = ten \<longrightarrow> terminal_recovery (rx_Status r))"

lemma over_row: "rinv (core s) \<Longrightarrow> r \<in> set (recoveries s) \<Longrightarrow> terminal_recovery (rx_Status r) \<Longrightarrow> over ten (rx_ID r) s"
  by (auto simp: over_def rinv_def tables_ok_def core_def distinct_map dest: inj_onD)

lemma progress_ends:
  "hoare (\<lambda>s. s = s0 \<and> rinv (core s)) (progress_body E ten rid)
    (\<lambda>x s. case x of Commit _ \<Rightarrow> ended rid (core s) | Discard _ \<Rightarrow> over ten rid s0) (\<lambda>_. True)"
  (is "hoare ?P _ ?Q _")
  unfolding progress_body_def GetRecoveryExecution_def
proof (rule hoare_get_attempt, unfold sum.case)
  show "hoare (\<lambda>s. ?P s \<and> (\<forall>r \<in> set (recoveries s). \<not> (rx_ID r = rid \<and> rx_TenantID r = ten)))
      (if ErrNotFound = ErrNotFound then ret (Discard None) else raise ErrNotFound) ?Q (\<lambda>_. True)"
    by (auto intro!: hoare_ret simp: over_def)
  show "e \<noteq> ErrNotFound \<Longrightarrow> hoare ?P (if e = ErrNotFound then ret (Discard None) else raise e) ?Q (\<lambda>_. True)" for e
    by (simp add: hoare_raise)
  fix rec
  show "hoare (\<lambda>s. ?P s \<and> rec \<in> set (recoveries s) \<and> rx_ID rec = rid \<and> rx_TenantID rec = ten)
      (if terminal_recovery (rx_Status rec) then ret (Discard None)
         else if rx_Status rec = RecoveryBlocked then ret (Discard None)
         else andThen (applyStrategy E ten rec) (\<lambda>handled.
           if handled then ret (Commit None) else run_dag E ten rec)) ?Q (\<lambda>_. True)"
  proof (rule hoare_pure [where A = "quiet rec \<and> rx_ID rec = rid"])
    show "?P s \<and> rec \<in> set (recoveries s) \<and> rx_ID rec = rid \<and> rx_TenantID rec = ten \<Longrightarrow> quiet rec \<and> rx_ID rec = rid" for s
      by (auto simp: rinv_def tables_ok_def core_def)
    assume A: "quiet rec \<and> rx_ID rec = rid"
    then have q: "quiet rec" and unblocked: "rx_Status rec \<noteq> RecoveryBlocked" by (auto simp: quiet_def)
    have skip: "andThen (ret False) (\<lambda>handled. if handled then ret (Commit None) else run_dag E ten rec) = run_dag E ten rec"
      by (simp add: fun_eq_iff andThen_def attempt_def ret_def)
    have dag: "hoare (\<lambda>s. ?P s \<and> rec \<in> set (recoveries s) \<and> rx_ID rec = rid \<and> rx_TenantID rec = ten) (run_dag E ten rec) ?Q (\<lambda>_. True)"
      if "\<not> terminal_recovery (rx_Status rec)"
      by (rule hoare_conseq [OF run_dag_keeps [OF that]]) (use A in \<open>auto simp: holds_row_def core_def split: ending.splits\<close>)
    show "hoare (\<lambda>s. ?P s \<and> rec \<in> set (recoveries s) \<and> rx_ID rec = rid \<and> rx_TenantID rec = ten)
      (if terminal_recovery (rx_Status rec) then ret (Discard None)
         else if rx_Status rec = RecoveryBlocked then ret (Discard None)
         else andThen (applyStrategy E ten rec) (\<lambda>handled.
           if handled then ret (Commit None) else run_dag E ten rec)) ?Q (\<lambda>_. True)"
      unfolding applyStrategy_quiet [OF q] skip using dag unblocked
      by (auto intro!: hoare_ret dest: over_row)
  qed
qed

lemma progress_keeps: "hoare (\<lambda>s. rinv (core s)) (progress_body E ten rid) commits (\<lambda>_. True)"
proof (rule hoare_each)
  show "hoare (\<lambda>s. s = s0 \<and> rinv (core s)) (progress_body E ten rid) commits (\<lambda>_. True)" for s0
    by (rule hoare_conseq [OF progress_ends]) (auto simp: ended_def split: ending.splits)
qed

subsection \<open>Operations on a recovery that was just read\<close>

lemma hoare_if: "hoare P m Q X \<Longrightarrow> hoare P n Q X \<Longrightarrow> hoare P (if c then m else n) Q X"
  by simp

lemma core_attempt:
  "keeps P m \<Longrightarrow> (\<And>r. hoare (\<lambda>s. P (core s)) (k r) Q X) \<Longrightarrow> hoare (\<lambda>s. P (core s)) (attempt m k) Q X"
  by (rule hoare_attempt)

lemma row_attempt:
  assumes "\<And>rec. quiet rec \<Longrightarrow> rx_ID rec = rid \<Longrightarrow> hoare (\<lambda>s. holds_row ten rec (core s)) (k (Inr rec)) Q (\<lambda>_. True)"
    and "\<And>e. hoare (\<lambda>s. rinv (core s)) (k (Inl e)) Q (\<lambda>_. True)"
  shows "hoare (\<lambda>s. rinv (core s)) (attempt (GetRecoveryExecution E ten rid) k) Q (\<lambda>_. True)"
proof (rule hoare_attempt [OF holds_row_get])
  show "hoare (\<lambda>s. holds_row ten rec (core s) \<and> rx_ID rec = rid) (k (Inr rec)) Q (\<lambda>_. True)" for rec
    by (rule hoare_pure [where A = "quiet rec \<and> rx_ID rec = rid"])
      (use holds_row_quiet in blast, use assms(1) in \<open>auto elim: hoare_conseq\<close>)
qed (rule assms(2))

lemma row_andThen:
  assumes "\<And>rec. quiet rec \<Longrightarrow> rx_ID rec = rid \<Longrightarrow> hoare (\<lambda>s. holds_row ten rec (core s)) (k rec) Q (\<lambda>_. True)"
  shows "hoare (\<lambda>s. rinv (core s)) (andThen (GetRecoveryExecution E ten rid) k) Q (\<lambda>_. True)"
  unfolding andThen_def by (rule row_attempt) (use assms in \<open>auto intro: hoare_raise\<close>)

text \<open>The change of a row that has been read, followed by work on other tables.\<close>

lemma row_update_attempt:
  assumes "quiet (put_fields f rec)" and "f_ContinuationPlanID f = None" and "rx_ID rec = rid" and "rx_Version rec = v"
    and "\<And>rec. hoare (\<lambda>s. rinv (core s)) (k (Inr rec)) Q (\<lambda>_. True)" and "\<And>e. hoare (\<lambda>s. rinv (core s)) (k (Inl e)) Q (\<lambda>_. True)"
  shows "hoare (\<lambda>s. holds_row ten rec (core s)) (attempt (UpdateRecoveryExecution E ten rid v f) k) Q (\<lambda>_. True)"
proof (rule hoare_attempt)
  show "hoare (\<lambda>s. holds_row ten rec (core s)) (UpdateRecoveryExecution E ten rid v f) (\<lambda>_ s. rinv (core s)) (\<lambda>s. rinv (core s))"
    unfolding assms(3,4) [symmetric] by (rule hoare_conseq [OF holds_row_update [OF assms(1,2)]]) (auto simp: holds_row_def)
qed (rule assms)+

lemma row_update_andThen:
  assumes "quiet (put_fields f rec)" and "f_ContinuationPlanID f = None" and "rx_ID rec = rid" and "rx_Version rec = v"
    and "\<And>rec. hoare (\<lambda>s. rinv (core s)) (k rec) Q (\<lambda>_. True)"
  shows "hoare (\<lambda>s. holds_row ten rec (core s)) (andThen (UpdateRecoveryExecution E ten rid v f) k) Q (\<lambda>_. True)"
  unfolding andThen_def by (rule row_update_attempt) (use assms in \<open>auto intro: hoare_raise\<close>)

lemma quarantine_keeps: "hoare (\<lambda>s. rinv (core s)) (quarantine_body E ten rid) commits (\<lambda>_. True)"
  unfolding quarantine_body_def
  by (rule row_andThen) (auto intro!: hoare_ret row_update_andThen simp: quiet_def terminal_recovery_def)

lemma decide_plan_keeps:
  assumes "\<And>rec. quiet rec \<Longrightarrow> ContinuationPlanID rec \<noteq> [] \<Longrightarrow> quiet (put_fields chg rec)" and "f_ContinuationPlanID chg = None"
  shows "hoare (\<lambda>s. rinv (core s)) (decide_plan E ten rid st who chg ev act entry) commits (\<lambda>_. True)"
  unfolding decide_plan_def
proof (rule row_andThen)
  fix rec assume rec: "quiet rec" "rx_ID rec = rid"
  show "hoare (\<lambda>s. holds_row ten rec (core s))
     (if ContinuationPlanID rec = [] then raise (Refused ''no continuation plan for recovery'')
     else
       andThen (UpdateContinuationPlanStatus E ten (ContinuationPlanID rec) st who) (\<lambda>plan.
       andThen (UpdateRecoveryExecution E ten rid (rx_Version rec) chg) (\<lambda>updated.
       ignoring (enqueueRecoveryEvent E ev updated [] [] (rx_TriggerReason rec) act [])
       (andThen (recordAuditEntry E entry (SnapshotStatus (rx_Status rec)) (SnapshotStatus (rx_Status updated))) (\<lambda>_.
       ret (Commit (plan, updated))))))) commits (\<lambda>_. True)"
  proof (cases "ContinuationPlanID rec = []")
    case False
    then show ?thesis unfolding if_not_P [OF False]
      by (intro core_andThen [where P = "holds_row ten rec"] row_update_andThen)
        (use assms rec in \<open>auto intro!: core_andThen core_ignoring core_keeps hoare_ret\<close>)
  qed (simp add: hoare_raise)
qed

lemma approve_plan_keeps: "hoare (\<lambda>s. rinv (core s)) (ApproveContinuationPlan E ten rid who entry) commits (\<lambda>_. True)"
  unfolding ApproveContinuationPlan_def by (rule decide_plan_keeps) (auto simp: quiet_def)

lemma reject_plan_keeps: "hoare (\<lambda>s. rinv (core s)) (RejectContinuationPlan E ten rid who why entry) commits (\<lambda>_. True)"
  unfolding RejectContinuationPlan_def by (rule decide_plan_keeps) (auto simp: quiet_def)

lemma cancel_keeps: "hoare (\<lambda>s. rinv (core s)) (cancel_body E ctx rid why) commits (\<lambda>_. True)"
  unfolding cancel_body_def Let_def
proof (rule row_attempt, unfold sum.case)
  show "hoare (\<lambda>s. rinv (core s)) (ret (Discard (Inl (mapDBError e)))) commits (\<lambda>_. True)" for e by (rule hoare_ret) simp
qed (auto intro!: hoare_ret row_update_attempt core_andThen [where P = rinv] core_ignoring [where P = rinv]
      core_attempt [where P = rinv] core_keeps simp: quiet_def terminal_recovery_def split: sum.split)

lemma mark_keeps: "hoare (\<lambda>s. rinv (core s)) (MarkTaskSucceeded E ten tid kind who why entry) commits (\<lambda>_. True)"
proof -
  have active: "hoare (\<lambda>s. rinv (core s)) (GetActiveRecoveryForTask E ten tid)
      (\<lambda>rec s. holds_row ten rec (core s) \<and> quiet rec) (\<lambda>s. rinv (core s))"
    unfolding GetActiveRecoveryForTask_def
    by (rule hoare_conseq [OF hoare_newest]) (auto simp: holds_row_def core_def rinv_def tables_ok_def)
  have resumed: "keeps rinv (attempt (GetActiveRecoveryForTask E ten tid) (\<lambda>r. case r of
           Inl _ \<Rightarrow> ret ()
         | Inr rec \<Rightarrow>
             andThen (UpdateRecoveryExecution E ten (rx_ID rec) (rx_Version rec)
               (no_fields\<lparr>f_Status := Some RecoveryResumed, f_EndedAt := Some (now E)\<rparr>)) (\<lambda>updated.
             ignoring (enqueueRecoveryEvent E ''recovery.resumed'' updated [] [] (rx_TriggerReason rec)
               (''task marked succeeded by '' @ kind @ ''/'' @ who) [])
             (ret ()))))" (is "keeps rinv (attempt _ ?k)")
  proof (rule hoare_attempt [OF active])
    show "hoare (\<lambda>s. holds_row ten rec (core s) \<and> quiet rec) (?k (Inr rec)) (\<lambda>_ s. rinv (core s)) (\<lambda>s. rinv (core s))" for rec
      unfolding sum.case
    proof (rule hoare_andThen, rule hoare_pure [where A = "quiet rec"])
      assume "quiet rec"
      then have "quiet (put_fields (no_fields\<lparr>f_Status := Some RecoveryResumed, f_EndedAt := Some (now E)\<rparr>) rec)"
        by (auto simp: quiet_def terminal_recovery_def)
      from holds_row_update [OF this, of ten E]
      show "hoare (\<lambda>s. holds_row ten rec (core s) \<and> quiet rec) (UpdateRecoveryExecution E ten (rx_ID rec) (rx_Version rec)
          (no_fields\<lparr>f_Status := Some RecoveryResumed, f_EndedAt := Some (now E)\<rparr>)) (\<lambda>_ s. rinv (core s)) (\<lambda>s. rinv (core s))"
        by (rule hoare_conseq) (auto simp: holds_row_def)
    qed (auto intro: core_keeps)
  qed (simp add: keeps_ret)
  show ?thesis unfolding MarkTaskSucceeded_def
    by (intro core_andThen [where P = rinv] hoare_if hoare_ret resumed core_keeps TrueI) simp_all
qed

lemma rows_of_filter: "rows_of (filter P srs) r = filter P (rows_of srs r)"
  by (simp add: rows_of_def conj_commute)

lemma delete_steps_rinv: "rinv (rs, srs) \<Longrightarrow> rinv (rs, filter P srs)"
  by (auto simp: rinv_def tables_ok_def planned_ok_def rows_of_filter distinct_map_filter)

lemma delete_row_rinv:
  assumes "rinv (rs, srs)" and "\<forall>sr \<in> set srs. \<not> (sr_TenantID sr = ten \<and> sr_RecoveryID sr = rid)"
  shows "rinv (filter (\<lambda>r. \<not> (rx_TenantID r = ten \<and> rx_ID r = rid)) rs, srs)"
  using assms by (fastforce simp: rinv_def tables_ok_def step_row_ok_def distinct_map_filter)

lemma delete_keeps: "hoare (\<lambda>s. rinv (core s)) (delete_body E ctx rid) commits (\<lambda>_. True)"
proof -
  let ?ten = "ctx_tenant ctx"
  let ?clear = "\<lambda>c. rinv c \<and> (\<forall>sr \<in> set (snd c). \<not> (sr_TenantID sr = ?ten \<and> sr_RecoveryID sr = rid))"
  have "keeps rinv (DeleteRecoveryExecution E ?ten rid)" unfolding DeleteRecoveryExecution_def
    apply (rule hoare_andThen [where R = "\<lambda>_ s. rinv (core s)"])
     apply (rule hoare_delete; simp)
    apply (rule hoare_andThen [where R = "\<lambda>_ s. ?clear (core s)"])
     apply (rule hoare_delete; auto simp: core_def delete_steps_rinv)
    apply (rule hoare_andThen [where R = "\<lambda>_ s. rinv (core s)"])
     apply (rule hoare_delete; use delete_row_rinv in \<open>simp add: core_def\<close>)
    apply (intro core_keeps)
    done
  then show ?thesis unfolding delete_body_def Let_def
    by (auto intro!: core_attempt [where P = rinv] core_keeps hoare_ret split: sum.split)
qed

end
