(* ===== verification/Recovery_Sample.thy ===== *)
theory Recovery_Sample
  imports Recovery_Service
begin

text \<open>
  A small installation on which the recovery operations are evaluated: a project with one failed
  execution of a task, a healthy database, and identifiers in sequence. \<open>jsonb\<close> texts are judged by
  whether their quotes pair up, which is enough to tell the plans that the engine writes apart.
\<close>

definition sample_env :: recenv where
  "sample_env = \<lparr>fails = \<lambda>_. False, ulid = \<lambda>n. ''id-'' @ fmt_d (int n), now = 7,
     jsonb_valid = \<lambda>t. even (length (filter (\<lambda>c. c = CHR 0x22) t)), decodeBudgets = \<lambda>_. Some (400, 2),
     fixed4 = \<lambda>_. ''0.0000'', floatText = \<lambda>_. ''0'', timeText = fmt_d, stepErrorText = \<lambda>_ _. ''not found'', innerBeginFails = \<lambda>_. False,
     innerQueryFails = \<lambda>_. False, mkdirFails = False, writeFails = False\<rparr>"

definition sample_task :: WorkItemRow where
  "sample_task = \<lparr>wi_ID = ''tk'', wi_TenantID = ''tnt_dev'', wi_ProjectID = ''pr'', ParentID = None, wi_Kind = ''task'',
     Title = ''build'', wi_Status = WorkItemFailed, Budgets = ''b'', Results = JMap [], wi_Version = 1\<rparr>"

definition sample_exec :: ExecutionRow where
  "sample_exec = \<lparr>ex_ID = ''ex'', ex_TenantID = ''tnt_dev'', ex_TaskID = ''tk'', WorkerID = ''w'', WorkerVersion = 1,
     AdapterID = None, ex_Status = ''failed'', HealthState = ''unknown'', ex_StartedAt = None, ex_EndedAt = None, TokenUsage = 3,
     CostUSD = 0, CheckpointRef = None, ex_WorkflowRunID = [], WorkflowStepID = [], ErrorMessage = ''no suitable worker'',
     ex_CreatedAt = 1\<rparr>"

definition sample_world :: rworld where
  "sample_world = \<lparr>committed = \<lparr>recoveries = [], stepRuns = [], plans = [], workItems = [sample_task],
     executions = [sample_exec], wfStepRuns = [], usageRows = [], projects = [], outbox = [], auditLog = []\<rparr>,
     nextID = 0, files = (\<lambda>_. None)\<rparr>"

definition sample_triggered :: rworld where
  "sample_triggered = snd (run_op sample_env (TriggerOnFailure sample_env ''tnt_dev'' ''tk'' ''ex'' [] ''failed'' None) sample_world)"

lemma sample_rows:
  "map (\<lambda>r. (rx_ID r, rx_TenantID r, rx_Status r)) (recoveries (committed sample_triggered)) = [(''id-0'', ''tnt_dev'', RecoveryPending)]"
  by code_simp

lemma sample_trigger_ok:
  "fst (in_tx sample_env (TriggerOnFailure sample_env ''tnt_dev'' ''tk'' ''ex'' [] ''failed'' None)
     (committed sample_world) (nextID sample_world)) = Inr ()"
  by code_simp

lemma sample_row: "hd (recoveries (committed sample_triggered)) \<in> set (recoveries (committed sample_triggered))"
  using sample_rows by (intro hd_in_set) auto

lemma sample_pass:
  "map_prod id (\<lambda>w. map (\<lambda>r. (rx_ID r, rx_TenantID r, rx_Status r)) (recoveries (committed w)))
     (progressRecovery sample_env ''tnt_dev'' ''id-0'' sample_triggered) = (Inr (), [(''id-0'', ''tnt_dev'', RecoveryResumed)])"
  by code_simp

end
