(* ===== verification/Recovery_Reach.thy ===== *)
theory Recovery_Reach
  imports Recovery_Laws Recovery_Sample
begin

text \<open>
  The trigger keeps the invariant too; so every history of the recovery tables does, and with it the
  consequences: no recovery is ever blocked for a human.
\<close>

subsection \<open>The trigger\<close>

definition seeded :: "RecoveryExecutionRow \<Rightarrow> string list \<Rightarrow> rcore \<Rightarrow> bool" where
  "seeded r sids c \<longleftrightarrow> rinv c \<and> r \<in> set (fst c) \<and> ContinuationPlanID r = [] \<and>
     (\<forall>sr \<in> set (rows_of (snd c) r). sr_StepID sr \<in> set sids)"

lemma rows_of_append: "rows_of (srs @ srs') r = rows_of srs r @ rows_of srs' r"
  by (simp add: rows_of_def)

lemma step_row_mono: "step_row_ok rs sr \<Longrightarrow> set rs \<subseteq> set rs' \<Longrightarrow> step_row_ok rs' sr"
  by (auto simp: step_row_ok_def)

lemma insert_row_rinv:
  assumes "rinv (rs, srs)" and "quiet r" and "ContinuationPlanID r = []" and "rx_ID r \<notin> rx_ID ` set rs"
  shows "seeded r [] (rs @ [r], srs)"
proof -
  have ok: "tables_ok (rs, srs)" and planned: "\<forall>x \<in> set rs. planned_ok srs x" using assms(1) by (simp_all add: rinv_def)
  have none: "rows_of srs r = []"
    unfolding rows_of_def filter_empty_conv
  proof (intro ballI notI)
    fix sr assume "sr \<in> set srs" "sr_TenantID sr = rx_TenantID r \<and> sr_RecoveryID sr = rx_ID r"
    then obtain x where "x \<in> set rs" "rx_ID x = rx_ID r" using ok by (auto simp: tables_ok_def step_row_ok_def)
    then show False using assms(4) by (metis image_eqI)
  qed
  have "step_row_ok (rs @ [r]) sr" if "sr \<in> set srs" for sr
    by (rule step_row_mono [of rs]) (use that ok in \<open>auto simp: tables_ok_def\<close>)
  then have "tables_ok (rs @ [r], srs)"
    using ok assms(2,4) none by (simp add: tables_ok_def)
  then show ?thesis using planned none assms(3) by (simp add: seeded_def rinv_def planned_empty)
qed

lemma insert_step_rinv:
  assumes "seeded r sids (rs, srs)" and "sr_TenantID sr = rx_TenantID r" and "sr_RecoveryID sr = rx_ID r"
    and "sr_StepID sr \<in> set DefaultRecoverySteps" and "sr_StepID sr \<notin> set sids" and "sr_Status sr \<noteq> RecoveryStepFailed"
    and "sr_ID sr \<notin> sr_ID ` set srs"
  shows "seeded r (sids @ [sr_StepID sr]) (rs, srs @ [sr])"
proof -
  have r: "r \<in> set rs" and ok: "tables_ok (rs, srs)" and planned: "\<forall>x \<in> set rs. planned_ok srs x"
    and empty: "ContinuationPlanID r = []" and sids: "\<forall>x \<in> set (rows_of srs r). sr_StepID x \<in> set sids"
    using assms(1) by (auto simp: seeded_def rinv_def)
  have own: "rows_of [sr] x = (if x = r then [sr] else [])" if "x \<in> set rs" for x
    using that r ok assms(2,3) by (auto simp: rows_of_def tables_ok_def distinct_map dest: inj_onD)
  have "distinct (map sr_StepID (rows_of (srs @ [sr]) x)) \<and> planned_ok (srs @ [sr]) x" if x: "x \<in> set rs" for x
  proof -
    have "distinct (map sr_StepID (rows_of srs x))" "planned_ok srs x" using x ok planned by (auto simp: tables_ok_def)
    then show ?thesis using own [OF x] sids empty assms(5) by (auto simp: rows_of_append planned_ok_def)
  qed
  moreover have "step_row_ok rs sr" using assms r by (auto simp: step_row_ok_def)
  ultimately show ?thesis using assms(1,7) sids own [OF r] by (auto simp: seeded_def rinv_def tables_ok_def rows_of_append)
qed

lemma seed_steps_keeps:
  assumes "pre @ steps = DefaultRecoverySteps"
    and "\<And>i sid. sr_TenantID (mk i sid) = rx_TenantID r \<and> sr_RecoveryID (mk i sid) = rx_ID r \<and> sr_StepID (mk i sid) = sid \<and>
      sr_Status (mk i sid) \<noteq> RecoveryStepFailed"
  shows "hoare (\<lambda>s. seeded r pre (core s)) (seed_steps E mk steps) (\<lambda>_ s. rinv (core s)) (\<lambda>_. True)"
  using assms(1)
proof (induction steps arbitrary: pre)
  case Nil
  show ?case by (auto simp: seeded_def intro!: hoare_ret)
next
  case (Cons sid steps)
  have sid: "sid \<in> set DefaultRecoverySteps" "sid \<notin> set pre"
    using Cons.prems distinct_steps unfolding Cons.prems [symmetric] by auto
  have "hoare (\<lambda>s. seeded r pre (core s)) (CreateRecoveryStepRun E (mk i sid)) (\<lambda>_ s. seeded r (pre @ [sid]) (core s)) (\<lambda>_. True)" for i
    unfolding CreateRecoveryStepRun_def
  proof (rule hoare_insert)
    let ?sr = "(mk i sid)\<lparr>sr_Version := 1, sr_EndedAt := None\<rparr>"
    fix s assume "seeded r pre (core s)" "sr_ID ?sr \<notin> sr_ID ` set (stepRuns s)"
    then show "seeded r (pre @ [sid]) (core (stepRuns_update (\<lambda>rs. rs @ [?sr]) s))"
      using insert_step_rinv [of r pre "recoveries s" "stepRuns s" ?sr] assms(2) [of i sid] sid by (simp add: core_def)
  qed simp
  then show ?case unfolding seed_steps.simps
    by (intro hoare_andThen [where R = "\<lambda>_ s. seeded r pre (core s)"] hoare_andThen [where R = "\<lambda>_ s. seeded r (pre @ [sid]) (core s)"]
        hoare_NewID Cons.IH) (use Cons.prems in auto)
qed

lemma keeps_parent_chain [core_keeps]: "keeps P (parent_chain E ten n cur)"
  by (induction n arbitrary: cur) (auto intro!: core_keeps)

lemma keeps_count [core_keeps]: "keeps P (countTaskChainRecoveries E ten tid)"
  unfolding countTaskChainRecoveries_def by (intro core_keeps)

lemma keeps_resolve [core_keeps]: "keeps P (resolve_step_run E ten xid sid)" "keeps P (existing_recovery E ten tid xid srun)"
  unfolding resolve_step_run_def existing_recovery_def by (intro core_keeps)+

lemma retry_level_l1: "retry_level n RecoveryLevelL1 \<noteq> RecoveryLevelL2"
  by (simp add: retry_level_def)

lemma create_rows_keeps:
  assumes "level \<noteq> RecoveryLevelL2" and row: "row = new_recovery E rid ten xid why level task exec"
    and cont: "\<And>created. hoare (\<lambda>s. rinv (core s)) (k created) Q (\<lambda>_. True)"
  shows "hoare (\<lambda>s. rinv (core s)) (andThen (CreateRecoveryExecution E row) (\<lambda>created.
    andThen (seed_steps E (seed_row (ResumptionPath row) ten rid why xid) DefaultRecoverySteps) (\<lambda>_. k created))) Q (\<lambda>_. True)"
proof -
  let ?created = "row\<lparr>Strategy := ''summarize_restart'', rx_Version := 1, rx_EndedAt := None\<rparr>"
  have max: "\<not> MaxRetries row \<le> 0" by (simp add: row new_recovery_def defaultMaxRetries_def Let_def)
  have fields: "quiet ?created" "ContinuationPlanID ?created = []" "rx_ID ?created = rid" "rx_TenantID ?created = ten"
    using assms(1) by (auto simp: row new_recovery_def quiet_def Let_def)
  have ins: "hoare (\<lambda>s. rinv (core s)) (CreateRecoveryExecution E row) (\<lambda>_ s. seeded ?created [] (core s)) (\<lambda>_. True)"
    unfolding CreateRecoveryExecution_def Let_def if_not_P [OF max]
    by (rule hoare_insert) (use insert_row_rinv [OF _ fields(1,2)] fields(3) in \<open>simp_all add: core_def\<close>)
  have seed: "hoare (\<lambda>s. seeded ?created [] (core s)) (seed_steps E (seed_row (ResumptionPath row) ten rid why xid) DefaultRecoverySteps)
      (\<lambda>_ s. rinv (core s)) (\<lambda>_. True)"
    by (rule seed_steps_keeps) (use fields in \<open>simp_all add: seed_row_def Let_def\<close>)
  show ?thesis by (rule hoare_andThen [OF ins], rule hoare_andThen [OF seed], rule cont)
qed

lemma create_keeps:
  "hoare (\<lambda>s. rinv (core s)) (create_recovery E ten tid xid why RecoveryLevelL1 entry srun) commits (\<lambda>_. True)"
  unfolding create_recovery_def Let_def
  apply (rule core_andThen [where P = rinv], intro core_keeps)
   apply (rule core_andThen [where P = rinv], intro core_keeps)
    apply (rule core_attempt [where P = rinv], intro core_keeps)
    apply (rule core_andThen [where P = rinv], intro core_keeps)
     apply (rule create_rows_keeps [OF retry_level_l1 refl])
     apply (intro core_andThen [where P = rinv] core_keeps hoare_ret TrueI)
     apply simp_all
  done

lemma trigger_keeps: "hoare (\<lambda>s. rinv (core s)) (TriggerOnFailure E ten tid xid sid why entry) commits (\<lambda>_. True)"
  unfolding TriggerOnFailure_def trigger_def
  by (intro core_andThen [where P = rinv] core_attempt [where P = rinv] core_keeps)
    (auto intro!: create_keeps hoare_ret split: sum.split)

subsection \<open>The laws discharged for each operation\<close>

abbreviation recovery_inv :: "rstore \<Rightarrow> bool" where
  "recovery_inv s \<equiv> rinv (core s)"

interpretation trigger_inv: keeps_invariant recovery_inv "TriggerOnFailure E ten tid xid sid why entry"
  for E ten tid xid sid why entry
  by unfold_locales (rule trigger_keeps)

interpretation progress_inv: keeps_invariant recovery_inv "progress_body E ten rid" for E ten rid
  by unfold_locales (rule progress_keeps)

interpretation quarantine_inv: keeps_invariant recovery_inv "quarantine_body E ten rid" for E ten rid
  by unfold_locales (rule quarantine_keeps)

interpretation approve_inv: keeps_invariant recovery_inv "ApproveContinuationPlan E ten rid who entry" for E ten rid who entry
  by unfold_locales (rule approve_plan_keeps)

interpretation reject_inv: keeps_invariant recovery_inv "RejectContinuationPlan E ten rid who why entry" for E ten rid who why entry
  by unfold_locales (rule reject_plan_keeps)

interpretation mark_inv: keeps_invariant recovery_inv "MarkTaskSucceeded E ten tid kind who why entry" for E ten tid kind who why entry
  by unfold_locales (rule mark_keeps)

interpretation cancel_inv: keeps_invariant recovery_inv "cancel_body E ctx rid why" for E ctx rid why
  by unfold_locales (rule cancel_keeps)

interpretation delete_inv: keeps_invariant recovery_inv "delete_body E ctx rid" for E ctx rid
  by unfold_locales (rule delete_keeps)

lemmas in_tx_invs = trigger_inv.in_tx_inv progress_inv.in_tx_inv quarantine_inv.in_tx_inv approve_inv.in_tx_inv
  reject_inv.in_tx_inv mark_inv.in_tx_inv cancel_inv.in_tx_inv delete_inv.in_tx_inv

subsection \<open>Histories\<close>

abbreviation world_inv :: "rworld \<Rightarrow> bool" where
  "world_inv w \<equiv> recovery_inv (committed w)"

lemma run_op_committed: "committed (snd (run_op E body w)) = fst (snd (in_tx E body (committed w) (nextID w)))"
  by (simp add: run_op_def split_def)

lemma run_op_discard:
  "committed (snd (run_op E (andThen m (\<lambda>x. ret (Discard x))) w)) = committed w"
  unfolding run_op_committed
  by (auto simp: in_tx_def andThen_def attempt_def ret_def raise_def split: prod.splits sum.splits ending.splits)

lemma progressRecovery_committed:
  "committed (snd (progressRecovery E ten rid w)) = committed w \<or>
   committed (snd (progressRecovery E ten rid w)) = fst (snd (in_tx E (progress_body E ten rid) (committed w) (nextID w)))"
  using run_op_committed [of E "progress_body E ten rid" w]
  by (auto simp: progressRecovery_def Let_def split: prod.splits sum.splits)

lemma progressRecovery_inv: "world_inv w \<Longrightarrow> world_inv (snd (progressRecovery E ten rid w))"
  using progressRecovery_committed [of E ten rid w] progress_inv.in_tx_inv [of "committed w" E E ten rid "nextID w"] by auto

lemma scan_loop_inv: "world_inv w \<Longrightarrow> world_inv (snd (scan_loop Es ten k recs w))"
proof (induction recs arbitrary: k w)
  case (Cons rec recs)
  have quarantined: "world_inv w' \<Longrightarrow> world_inv (snd (run_op E (quarantine_body E ten rid) w'))" for w' E rid
    unfolding run_op_committed by (rule quarantine_inv.in_tx_inv)
  obtain r w' where pass: "progressRecovery (Es k) ten (rx_ID rec) w = (r, w')" by fastforce
  then have "world_inv w'" using progressRecovery_inv [OF Cons.prems, of "Es k" ten "rx_ID rec"] by simp
  then show ?case using pass by (cases r) (auto intro: Cons.IH quarantined)
qed simp

lemma Reconcile_inv: "world_inv w \<Longrightarrow> world_inv (snd (Reconcile Es key w))"
  using progressRecovery_inv [of w "Es 0"]
    run_op_discard [of "Es 0" "ListPendingRecoveries (Es 0) ''tnt_dev''" w]
  by (auto simp: Reconcile_def scanRecoveries_def split: prod.splits sum.splits intro!: scan_loop_inv)

text \<open>
  One step of the system, seen from the recovery tables: an operation of the engine or its service under
  any failures, or anything else the program does, which leaves the recoveries and their steps alone.
\<close>

inductive rstep :: "rworld \<Rightarrow> rworld \<Rightarrow> bool" where
  fail: "rstep w (snd (run_op (E :: recenv) (TriggerOnFailure E ten tid xid sid why entry) w))"
| reconcile: "rstep w (snd (Reconcile (Es :: nat \<Rightarrow> recenv) key w))"
| triggerRPC: "rstep w (snd (TriggerRecovery (Es :: nat \<Rightarrow> recenv) ctx tid why w))"
| approveRPC: "rstep w (snd (ApproveContinuationPlan_rpc (E :: recenv) ctx rid who w))"
| rejectRPC: "rstep w (snd (RejectContinuationPlan_rpc (E :: recenv) ctx rid who why w))"
| markRPC: "rstep w (snd (MarkTaskSucceeded_rpc (E :: recenv) ctx tid kind who why w))"
| cancelRPC: "rstep w (snd (CancelRecovery (E :: recenv) ctx rid why w))"
| deleteRPC: "rstep w (snd (DeleteRecovery (E :: recenv) ctx rid w))"
| other: "core (committed w') = core (committed w) \<Longrightarrow> rstep w w'"

inductive reachable :: "rworld \<Rightarrow> bool" where
  start: "recoveries (committed w) = [] \<Longrightarrow> stepRuns (committed w) = [] \<Longrightarrow> reachable w"
| step: "reachable w \<Longrightarrow> rstep w w' \<Longrightarrow> reachable w'"

lemma rpc_inv:
  assumes "world_inv w"
  shows "world_inv (snd (ApproveContinuationPlan_rpc E ctx rid who w))" "world_inv (snd (RejectContinuationPlan_rpc E ctx rid who why w))"
    "world_inv (snd (MarkTaskSucceeded_rpc E ctx tid kind who why w))" "world_inv (snd (CancelRecovery E ctx rid why w))"
    "world_inv (snd (DeleteRecovery E ctx rid w))"
proof -
  have engine: "snd (engine_result x) = snd x" for x :: "(db_error + 'b) \<times> rworld"
    by (auto simp: engine_result_def split: prod.split sum.split)
  have flat: "snd (flatten_result x) = snd x" for x :: "(db_error + (rpc_code + 'c)) \<times> rworld"
    by (auto simp: flatten_result_def split: prod.split sum.split)
  show "world_inv (snd (ApproveContinuationPlan_rpc E ctx rid who w))"
    using assms by (auto simp: ApproveContinuationPlan_rpc_def engine run_op_committed intro: in_tx_invs split: option.split)
  show "world_inv (snd (RejectContinuationPlan_rpc E ctx rid who why w))"
    using assms by (auto simp: RejectContinuationPlan_rpc_def engine run_op_committed intro: in_tx_invs split: option.split)
  show "world_inv (snd (MarkTaskSucceeded_rpc E ctx tid kind who why w))"
    using assms by (auto simp: MarkTaskSucceeded_rpc_def engine run_op_committed intro: in_tx_invs split: option.split)
  show "world_inv (snd (CancelRecovery E ctx rid why w))"
    using assms by (auto simp: CancelRecovery_def flat run_op_committed intro: in_tx_invs split: option.split)
  show "world_inv (snd (DeleteRecovery E ctx rid w))"
    using assms by (auto simp: DeleteRecovery_def flat run_op_committed intro: in_tx_invs)
qed

lemma run_op_read: "run_op E (andThen m (\<lambda>x. ret (Discard x))) w = (r, w') \<Longrightarrow> committed w' = committed w"
  using run_op_discard [of E m w] by simp

lemma run_op_trigger:
  "run_op E (TriggerOnFailure E ten tid xid sid why entry) w = (r, w') \<Longrightarrow> world_inv w \<Longrightarrow> world_inv w'"
  using trigger_inv.in_tx_inv [of "committed w" E E ten tid xid sid why entry "nextID w"]
    run_op_committed [of E "TriggerOnFailure E ten tid xid sid why entry" w] by simp

lemma TriggerRecovery_inv:
  assumes w: "world_inv w"
  shows "world_inv (snd (TriggerRecovery Es ctx tid why w))"
proof (cases "ctx_tenant ctx = [] \<or> tid = [] \<or> validateTextField why maxReasonLen = None")
  case True
  then show ?thesis using w by (auto simp: TriggerRecovery_def Let_def)
next
  case False
  then obtain v where v: "ctx_tenant ctx \<noteq> []" "tid \<noteq> []" "validateTextField why maxReasonLen = Some v" by blast
  let ?why = "if v = [] then ''manual'' else v"
  obtain r1 w1 where one: "run_op (Es 0) (andThen (latestExecution (Es 0) (ctx_tenant ctx) tid) (\<lambda>x. ret (Discard x))) w = (r1, w1)"
    by fastforce
  have w1: "world_inv w1" using run_op_read [OF one] w by simp
  show ?thesis
  proof (cases r1)
    case (Inr x)
    obtain r2 w2 where two: "run_op (Es 1) (TriggerOnFailure (Es 1) (ctx_tenant ctx) tid (case x of None \<Rightarrow> [] | Some e \<Rightarrow> ex_ID e) [] ?why
        (Some (actorEntry ctx ''recovery.triggered'' ''recovery'' tid None
          (Some (JMap [(''task_id'', JString tid), (''trigger_reason'', JString ?why)]))))) w1 = (r2, w2)" by fastforce
    obtain r3 w3 where three: "run_op (Es 2) (andThen (GetActiveRecoveryForTask (Es 2) (ctx_tenant ctx) tid) (\<lambda>r. ret (Discard r))) w2 = (r3, w3)"
      by fastforce
    have "world_inv w2" using run_op_trigger [OF two w1] .
    moreover have "world_inv w3" using run_op_read [OF three] calculation by simp
    ultimately show ?thesis unfolding TriggerRecovery_def Let_def
      by (simp only: v one two three Inr if_False option.case prod.case sum.case split: sum.split) simp
  qed (use v one w1 in \<open>simp add: TriggerRecovery_def\<close>)
qed

lemma rstep_inv: "rstep w w' \<Longrightarrow> world_inv w \<Longrightarrow> world_inv w'"
proof (induction rule: rstep.induct)
  case (fail w E ten tid xid sid why entry)
  then show ?case unfolding run_op_committed by (rule trigger_inv.in_tx_inv)
qed (simp_all add: Reconcile_inv TriggerRecovery_inv rpc_inv)

lemma reachable_inv: "reachable w \<Longrightarrow> world_inv w"
proof (induction rule: reachable.induct)
  case (start w)
  then show ?case by (simp add: core_def rinv_def tables_ok_def)
qed (rule rstep_inv)

lemma reachable_row:
  assumes "reachable w" and "rec \<in> set (recoveries (committed w))"
  shows "quiet rec \<and> planned_ok (stepRuns (committed w)) rec"
  using reachable_inv [OF assms(1)] assms(2) by (auto simp: rinv_def tables_ok_def core_def)

subsection \<open>The sample is reachable\<close>

lemma sample_reachable: "reachable sample_world" "reachable sample_triggered"
proof -
  show one: "reachable sample_world" by (rule reachable.start) (simp_all add: sample_world_def)
  then show "reachable sample_triggered" unfolding sample_triggered_def by (rule reachable.step) (rule rstep.fail)
qed

subsection \<open>Properties\<close>

text \<open>
  C5. In every state the system can reach, whatever database failures occurred on the way, every
  recovery carries the default strategy, is not blocked, does not wait for a human, and is at the second
  level only after it ended. So the strategies to stop, to retry at once and to hand over to a human,
  which the trigger computes from the failure, are never acted on.
\<close>

theorem never_blocked:
  assumes "reachable w" and "rec \<in> set (recoveries (committed w))"
  shows "Strategy rec = ''summarize_restart'' \<and> rx_Status rec \<noteq> RecoveryBlocked \<and> \<not> NeedsHumanApproval rec \<and>
    (Level rec = RecoveryLevelL2 \<longrightarrow> terminal_recovery (rx_Status rec))"
  using reachable_row [OF assms] by (auto simp: quiet_def)

theorem never_blocked_witness:
  "Strategy (hd (recoveries (committed sample_triggered))) = ''summarize_restart'' \<and>
   rx_Status (hd (recoveries (committed sample_triggered))) \<noteq> RecoveryBlocked"
  using never_blocked [OF sample_reachable(2) sample_row] by simp

text \<open>C23. In every state the modelled operations reach, whatever database failures occurred on the way, the step runs
  of a recovery are for different steps, and once the recovery has a continuation plan every one of them has succeeded
  or was skipped.\<close>

theorem plan_after_steps:
  assumes "reachable w" and "rec \<in> set (recoveries (committed w))"
  shows "distinct (map sr_StepID (rows_of (stepRuns (committed w)) rec)) \<and>
    (ContinuationPlanID rec \<noteq> [] \<longrightarrow> (\<forall>sr \<in> set (rows_of (stepRuns (committed w)) rec). step_passed (sr_Status sr)))"
  using reachable_row [OF assms] reachable_inv [OF assms(1)] assms(2)
  by (auto simp: planned_ok_def rinv_def tables_ok_def core_def)

theorem plan_after_steps_witness:
  "distinct (map sr_StepID (rows_of (stepRuns (committed sample_triggered)) (hd (recoveries (committed sample_triggered)))))"
  using plan_after_steps [OF sample_reachable(2) sample_row] by simp

lemma progressRecovery_ok:
  assumes "progressRecovery E ten rid w = (Inr (), w')"
  obtains x n where "in_tx E (progress_body E ten rid) (committed w) (nextID w) = (Inr x, committed w', n)"
  using assms by (auto simp: progressRecovery_def run_op_def Let_def split: prod.splits sum.splits)

text \<open>
  C6. One pass is enough: from any reachable state, a pass of the reconciler over a recovery that reports
  no error leaves that recovery resumed, failed or escalated (or it had been cancelled before). No
  recovery is left pending or running by a pass.
\<close>

theorem one_pass_ends:
  assumes "reachable w" and "progressRecovery E ten rid w = (Inr (), w')"
    and "r \<in> set (recoveries (committed w'))" and "rx_ID r = rid" and "rx_TenantID r = ten"
  shows "terminal_recovery (rx_Status r)"
proof -
  have inv: "rinv (core (committed w))" by (rule reachable_inv [OF assms(1)])
  obtain x n where "in_tx E (progress_body E ten rid) (committed w) (nextID w) = (Inr x, committed w', n)"
    by (rule progressRecovery_ok [OF assms(2)])
  then show ?thesis
  proof (cases rule: in_tx_ok)
    case (kept t)
    have "ended rid (core (work t))"
      using progress_ends [of "committed w" E ten rid] inv kept(1)
      unfolding hoare_def by (auto simp: begin_tx_def dest!: spec [of _ "begin_tx (committed w) (nextID w)"])
    then show ?thesis using assms(3,4) kept(3) by (simp add: ended_def core_def)
  next
    case (dropped t)
    have "over ten rid (committed w)"
      using progress_ends [of "committed w" E ten rid] inv dropped(1)
      unfolding hoare_def by (auto simp: begin_tx_def dest!: spec [of _ "begin_tx (committed w) (nextID w)"])
    then show ?thesis using assms(3-5) dropped(2) by (auto simp: over_def)
  qed
qed

theorem one_pass_ends_witness:
  "terminal_recovery (rx_Status (hd (recoveries (committed
     (snd (progressRecovery sample_env ''tnt_dev'' ''id-0'' sample_triggered))))))"
proof -
  obtain r w' where pass: "progressRecovery sample_env ''tnt_dev'' ''id-0'' sample_triggered = (r, w')" by fastforce
  then have w': "r = Inr ()" "map (\<lambda>r. (rx_ID r, rx_TenantID r, rx_Status r)) (recoveries (committed w')) =
      [(''id-0'', ''tnt_dev'', RecoveryResumed)]" using sample_pass by simp_all
  then obtain x where x: "recoveries (committed w') = [x]" "rx_ID x = ''id-0''" "rx_TenantID x = ''tnt_dev''" by auto
  show ?thesis using one_pass_ends [OF sample_reachable(2) pass [unfolded w'(1)], of x] x by (simp add: pass)
qed

end
