(* ===== verification/Recovery_Effects.thy ===== *)
theory Recovery_Effects
  imports Recovery_Inv Recovery_Atomic Recovery_Sample
begin

text \<open>
  What the recovery operations do to the committed tables: none of them leaves half of its work behind,
  reporting the same failure twice records one recovery, and the facts file grows by a summary once.
\<close>

subsection \<open>Transactions\<close>

lemma robust_cancel [robust_intros]: "robust (\<lambda>E. cancel_body E ctx rid why)"
  unfolding cancel_body_def Let_def by (intro robust_intros) simp_all

lemma robust_delete [robust_intros]: "robust (\<lambda>E. delete_body E ctx rid)"
  unfolding delete_body_def DeleteRecoveryExecution_def Let_def by (intro robust_intros) simp_all

lemma robust_TriggerOnFailure [robust_intros]: "robust (\<lambda>E. TriggerOnFailure E ten tid xid sid why entry)"
  unfolding TriggerOnFailure_def by (rule robust_trigger)

interpretation trigger_tx: tx_body "\<lambda>E. TriggerOnFailure E ten tid xid sid why entry" for ten tid xid sid why entry
  by unfold_locales (intro robust_intros)

interpretation progress_tx: tx_body "\<lambda>E. progress_body E ten rid" for ten rid
  by unfold_locales (intro robust_intros)

interpretation quarantine_tx: tx_body "\<lambda>E. quarantine_body E ten rid" for ten rid
  by unfold_locales (intro robust_intros)

interpretation approve_tx: tx_body "\<lambda>E. ApproveContinuationPlan E ten rid who entry" for ten rid who entry
  by unfold_locales (intro robust_intros)

interpretation reject_tx: tx_body "\<lambda>E. RejectContinuationPlan E ten rid who why entry" for ten rid who why entry
  by unfold_locales (intro robust_intros)

interpretation mark_tx: tx_body "\<lambda>E. MarkTaskSucceeded E ten tid kind who why entry" for ten tid kind who why entry
  by unfold_locales (intro robust_intros)

interpretation cancel_tx: tx_body "\<lambda>E. cancel_body E ctx rid why" for ctx rid why
  by unfold_locales (intro robust_intros)

interpretation delete_tx: tx_body "\<lambda>E. delete_body E ctx rid" for ctx rid
  by unfold_locales (intro robust_intros)

text \<open>
  As far as the database goes, every operation on the recovery tables is all or nothing: whichever
  statements fail, including those whose errors the code drops, the committed tables are afterwards
  either what they were, or what the operation makes of them on a healthy database. The facts file,
  which a pass writes before it commits, is outside the statement.
\<close>

theorem recovery_atomic:
  "all_or_nothing (\<lambda>E. TriggerOnFailure E ten tid xid sid why entry) \<and> all_or_nothing (\<lambda>E. progress_body E ten rid) \<and>
   all_or_nothing (\<lambda>E. quarantine_body E ten rid) \<and> all_or_nothing (\<lambda>E. ApproveContinuationPlan E ten rid who entry) \<and>
   all_or_nothing (\<lambda>E. RejectContinuationPlan E ten rid who why entry) \<and>
   all_or_nothing (\<lambda>E. MarkTaskSucceeded E ten tid kind who why entry) \<and>
   all_or_nothing (\<lambda>E. cancel_body E ctx rid why) \<and> all_or_nothing (\<lambda>E. delete_body E ctx rid)"
  by (intro conjI trigger_tx.atomic progress_tx.atomic quarantine_tx.atomic approve_tx.atomic reject_tx.atomic
      mark_tx.atomic cancel_tx.atomic delete_tx.atomic)

subsection \<open>Triggering twice\<close>

lemma calm_resolve:
  assumes "\<not> aborted t" and "\<not> aborted u" and "work u = work t"
  shows "\<exists>sr t' u'. resolve_step_run (calm E) ten xid sid t = (Inr sr, t') \<and> resolve_step_run (calm F) ten xid sid u = (Inr sr, u') \<and>
    \<not> aborted t' \<and> work t' = work t \<and> \<not> aborted u' \<and> work u' = work t"
  using assms
  by (auto simp: resolve_step_run_def stepRunForFailedExecution_def attempt_def ret_def GetWorkflowStepRun_def GetExecution_def
      GetWorkflowStepRunByStep_def tx_run split: option.splits)

lemma calm_existing:
  assumes "\<not> aborted t" and "\<not> aborted u" and "work u = work t"
  shows "fst (existing_recovery (calm E) ten tid xid sr t) = fst (existing_recovery (calm F) ten tid xid sr u)"
  using assms by (simp add: existing_recovery_def GetLatestRecoveryForExecution_def GetActiveRecoveryForTask_def tx_run split: option.split)

text \<open>The row that answers a later trigger.\<close>

definition on_record :: "string \<Rightarrow> string \<Rightarrow> string \<Rightarrow> rcore \<Rightarrow> bool" where
  "on_record ten tid xid c \<longleftrightarrow> (\<exists>r \<in> set (fst c). rx_TenantID r = ten \<and> rx_TaskID r = tid \<and> FailedExecutionID r = xid \<and>
     active_recovery (rx_Status r))"

lemma on_record_found:
  assumes "on_record ten tid xid (core (work t))" and "\<not> aborted t"
  shows "\<exists>r t'. existing_recovery (calm E) ten tid xid sr t = (Inr r, t')"
proof -
  obtain r where r: "r \<in> set (recoveries (work t))" "rx_TenantID r = ten" "rx_TaskID r = tid" "FailedExecutionID r = xid"
    "active_recovery (rx_Status r)" using assms(1) by (auto simp: on_record_def core_def)
  have some: "\<exists>x. newest TriggeredAt (filter P (recoveries (work t))) = Some x" if "P r" for P
    by (rule newest_found [of r]) (use r that in simp)
  obtain x where "newest TriggeredAt (filter (\<lambda>r. rx_TenantID r = ten \<and> rx_TaskID r = tid \<and> FailedExecutionID r = xid)
      (recoveries (work t))) = Some x"
    using some [of "\<lambda>r. rx_TenantID r = ten \<and> rx_TaskID r = tid \<and> FailedExecutionID r = xid"] r by blast
  moreover obtain y where "newest TriggeredAt (filter (\<lambda>r. rx_TenantID r = ten \<and> rx_TaskID r = tid \<and> active_recovery (rx_Status r))
      (recoveries (work t))) = Some y"
    using some [of "\<lambda>r. rx_TenantID r = ten \<and> rx_TaskID r = tid \<and> active_recovery (rx_Status r)"] r by blast
  ultimately show ?thesis using assms(2)
    by (simp add: existing_recovery_def GetLatestRecoveryForExecution_def GetActiveRecoveryForTask_def tx_run split: option.split)
qed

lemma keeps_seed: "keeps (on_record ten tid xid) (seed_steps E mk steps)"
proof (induction steps)
  case (Cons sid steps)
  have "keeps (on_record ten tid xid) (CreateRecoveryStepRun E sr)" for sr
    unfolding CreateRecoveryStepRun_def by (rule hoare_insert) (simp_all add: on_record_def core_def)
  then show ?case unfolding seed_steps.simps by (intro core_keeps Cons.IH)
qed (simp add: keeps_ret)

lemma any_andThen: "(\<And>x. hoare (\<lambda>_. True) (k x) Q (\<lambda>_. True)) \<Longrightarrow> hoare (\<lambda>_. True) (andThen m k) Q (\<lambda>_. True)"
  by (rule hoare_andThen [where R = "\<lambda>_ _. True"]) (auto simp: hoare_def split: sum.split)

lemma any_attempt: "(\<And>x. hoare (\<lambda>_. True) (k x) Q (\<lambda>_. True)) \<Longrightarrow> hoare (\<lambda>_. True) (attempt m k) Q (\<lambda>_. True)"
  by (rule hoare_attempt [where R = "\<lambda>_ _. True" and Y = "\<lambda>_. True"]) (auto simp: hoare_def split: sum.split)

lemma any_pre: "hoare (\<lambda>_. True) m Q X \<Longrightarrow> hoare P m Q X"
  by (erule hoare_conseq) auto

abbreviation records :: "string \<Rightarrow> string \<Rightarrow> string \<Rightarrow> unit ending \<Rightarrow> rstore \<Rightarrow> bool" where
  "records ten tid xid x s \<equiv> x = Commit () \<and> on_record ten tid xid (core s)"

lemma create_row_records:
  assumes "wi_ID task = tid"
    and "\<And>created. hoare (\<lambda>s. on_record ten tid xid (core s)) (k created) (records ten tid xid) (\<lambda>_. True)"
  shows "hoare (\<lambda>_. True) (andThen (CreateRecoveryExecution E (new_recovery E rid ten xid why level task exec)) k)
    (records ten tid xid) (\<lambda>_. True)"
proof (rule hoare_andThen [OF _ assms(2)])
  show "hoare (\<lambda>_. True) (CreateRecoveryExecution E (new_recovery E rid ten xid why level task exec))
      (\<lambda>_ s. on_record ten tid xid (core s)) (\<lambda>_. True)"
    unfolding CreateRecoveryExecution_def Let_def
    by (rule hoare_insert) (use assms(1) in \<open>auto simp: on_record_def core_def new_recovery_def Let_def active_recovery_def\<close>)
qed

lemma create_records:
  "hoare (\<lambda>_. True) (create_recovery E ten tid xid why level entry srun) (records ten tid xid) (\<lambda>_. True)"
proof -
  have found: "hoare (\<lambda>_. True) (GetWorkItem E ten tid) (\<lambda>task _. wi_ID task = tid) (\<lambda>_. True)"
    unfolding GetWorkItem_def by (rule hoare_conseq [OF hoare_get]) auto
  show ?thesis unfolding create_recovery_def Let_def
    apply (rule hoare_andThen [OF found])
    subgoal for task
      apply (rule hoare_pure [where A = "wi_ID task = tid"], assumption)
      apply (rule any_pre, rule any_andThen, rule any_attempt, rule any_andThen, rule create_row_records, assumption)
      apply (intro core_andThen [where P = "on_record ten tid xid"] keeps_seed core_keeps hoare_ret TrueI; simp)
      done
    done
qed

lemma trigger_records:
  "hoare (\<lambda>_. True) (TriggerOnFailure E ten tid xid sid why entry)
    (\<lambda>x s. case x of Commit _ \<Rightarrow> on_record ten tid xid (core s) | Discard _ \<Rightarrow> True) (\<lambda>_. True)"
  unfolding TriggerOnFailure_def trigger_def
  apply (rule any_andThen, rule any_attempt)
  subgoal for _ r
    by (cases r) (auto intro!: hoare_ret hoare_conseq [OF create_records])
  done

text \<open>A trigger without effect found a row, on a transaction that was still alive.\<close>

lemma trigger_discard:
  assumes "TriggerOnFailure E ten tid xid sid why entry t = (Inr (Discard ()), t')"
  obtains srun u r where "resolve_step_run E ten xid sid t = (Inr srun, u)" "existing_recovery E ten tid xid srun u = (Inr r, t')" "\<not> aborted t'"
proof -
  obtain rs u where one: "resolve_step_run E ten xid sid t = (rs, u)" by fastforce
  then obtain srun where srun: "rs = Inr srun"
    using assms by (cases rs) (auto simp: TriggerOnFailure_def trigger_def andThen_def attempt_def raise_def)
  obtain re v where two: "existing_recovery E ten tid xid srun u = (re, v)" by fastforce
  have run: "TriggerOnFailure E ten tid xid sid why entry t =
      (case re of Inr _ \<Rightarrow> ret (Discard ()) | Inl _ \<Rightarrow> create_recovery E ten tid xid why RecoveryLevelL1 entry srun) v"
    by (simp add: TriggerOnFailure_def trigger_def andThen_def attempt_def one two srun)
  show thesis
  proof (cases re)
    case (Inl e)
    then have "create_recovery E ten tid xid why RecoveryLevelL1 entry srun v = (Inr (Discard ()), t')" using assms run by simp
    then show ?thesis using create_records [of E ten tid xid why RecoveryLevelL1 entry srun] unfolding hoare_def by (auto dest: spec [of _ v])
  next
    case (Inr r)
    then have "v = t'" using assms run by (simp add: ret_def)
    moreover have "\<not> aborted v"
      using two Inr by (auto simp: existing_recovery_def GetLatestRecoveryForExecution_def GetActiveRecoveryForTask_def sql_newest_def
          dest!: sql_alive split: option.splits)
    ultimately show ?thesis using that one two srun Inr by simp
  qed
qed

lemma trigger_found:
  assumes "resolve_step_run E ten xid sid t = (Inr srun, u)" and "existing_recovery E ten tid xid srun u = (Inr r, v)"
  shows "TriggerOnFailure E ten tid xid sid why entry t = (Inr (Discard ()), v)"
  using assms by (simp add: TriggerOnFailure_def trigger_def andThen_def attempt_def ret_def)

lemma trigger_on_record:
  assumes "on_record ten tid xid (core s)"
  shows "\<exists>u. TriggerOnFailure (calm F) ten tid xid sid why entry (begin_tx s m) = (Inr (Discard ()), u)"
proof -
  obtain srun u where u: "resolve_step_run (calm F) ten xid sid (begin_tx s m) = (Inr srun, u)" "\<not> aborted u" "work u = s"
    using calm_resolve [of "begin_tx s m" "begin_tx s m" F ten xid sid F] by auto
  then obtain r v where "existing_recovery (calm F) ten tid xid srun u = (Inr r, v)"
    using on_record_found [of ten tid xid u F srun] assms by auto
  then show ?thesis using trigger_found [OF u(1)] by blast
qed

lemma trigger_found_again:
  assumes "TriggerOnFailure E ten tid xid sid why entry (begin_tx s n) = (Inr (Discard ()), t)"
  shows "\<exists>u. TriggerOnFailure (calm F) ten tid xid sid why2 entry2 (begin_tx s m) = (Inr (Discard ()), u)"
proof -
  have "\<not> aborted t" by (rule trigger_discard [OF assms])
  then have "TriggerOnFailure (calm E) ten tid xid sid why entry (begin_tx s n) = (Inr (Discard ()), t)"
    using robust_TriggerOnFailure [of ten tid xid sid why entry] assms unfolding robust_def by (metis snd_conv)
  then obtain srun u r where u: "resolve_step_run (calm E) ten xid sid (begin_tx s n) = (Inr srun, u)"
    "existing_recovery (calm E) ten tid xid srun u = (Inr r, t)" by (rule trigger_discard)
  then obtain u' where u': "resolve_step_run (calm F) ten xid sid (begin_tx s m) = (Inr srun, u')"
    and alive: "\<not> aborted u" "\<not> aborted u'" "work u' = work u"
    using calm_resolve [of "begin_tx s n" "begin_tx s m" E ten xid sid F] by auto
  then obtain v where "existing_recovery (calm F) ten tid xid srun u' = (Inr r, v)"
    using calm_existing [OF alive, of E ten tid xid srun F] u(2) by (metis fst_conv surj_pair)
  then show ?thesis using trigger_found [OF u'] by blast
qed

text \<open>
  C24. Reporting a failure is idempotent: once a trigger for a task and a failed execution has returned
  without an error, a second one for them changes nothing, with any reason, audit entry, clock or
  identifiers, and whatever fails in the database.
\<close>

theorem trigger_once:
  assumes "in_tx E (TriggerOnFailure E ten tid xid sid why entry) s n = (Inr (), s', n')"
  shows "fst (snd (in_tx F (TriggerOnFailure F ten tid xid sid why2 entry2) s' m)) = s'"
proof -
  from assms have "\<exists>u. TriggerOnFailure (calm F) ten tid xid sid why2 entry2 (begin_tx s' m) = (Inr (Discard ()), u)"
  proof (cases rule: in_tx_ok)
    case (kept t)
    have "on_record ten tid xid (core s')"
      using trigger_records [of E ten tid xid sid why entry] kept unfolding hoare_def by (auto dest: spec [of _ "begin_tx s n"])
    then show ?thesis by (rule trigger_on_record)
  next
    case (dropped t)
    then show ?thesis using trigger_found_again [OF dropped(1)] by simp
  qed
  then obtain u where "TriggerOnFailure (calm F) ten tid xid sid why2 entry2 (begin_tx s' m) = (Inr (Discard ()), u)" ..
  then have "fst (snd (in_tx (calm F) (TriggerOnFailure (calm F) ten tid xid sid why2 entry2) s' m)) = s'" by (simp add: in_tx_def)
  then show ?thesis using trigger_tx.settled [of F ten tid xid sid why2 entry2 s' m] by auto
qed

theorem trigger_once_witness:
  "committed (snd (run_op sample_env (TriggerOnFailure sample_env ''tnt_dev'' ''tk'' ''ex'' [] ''again'' None) sample_triggered)) =
   committed sample_triggered"
proof -
  obtain r s n where one: "in_tx sample_env (TriggerOnFailure sample_env ''tnt_dev'' ''tk'' ''ex'' [] ''failed'' None)
      (committed sample_world) (nextID sample_world) = (r, s, n)" using prod_cases3 by blast
  then have s: "committed sample_triggered = s" by (simp add: sample_triggered_def run_op_def)
  have "r = Inr ()" using sample_trigger_ok one by simp
  with one have "in_tx sample_env (TriggerOnFailure sample_env ''tnt_dev'' ''tk'' ''ex'' [] ''failed'' None)
      (committed sample_world) (nextID sample_world) = (Inr (), s, n)" by simp
  from trigger_once [OF this, of sample_env "''again''" None "nextID sample_triggered"] show ?thesis
    by (simp add: run_op_def s split_def)
qed

subsection \<open>Approving a plan\<close>

lemma find_keyed: "find P xs = Some x \<Longrightarrow> P x"
  by (metis find_Some_iff)

text \<open>
  Approving a continuation plan looks at the recovery's plan and not at its status: on a healthy
  database it sets any recovery that has one running again, also a recovery that was resumed, rejected
  or cancelled, and the next pass of the reconciler takes it up.
\<close>

theorem approve_reopens:
  assumes rec: "find (\<lambda>r. rx_ID r = rid \<and> rx_TenantID r = ten) (recoveries s) = Some rec" and "ContinuationPlanID rec \<noteq> []"
    and plan: "find (\<lambda>p. plan_TenantID p = ten \<and> plan_ID p = ContinuationPlanID rec) (plans s) = Some p"
    and "ulid E n \<noteq> []" and fresh: "ulid E n \<notin> ob_ID ` set (outbox s)"
  shows "\<exists>plan' rec' s' n'. in_tx (calm E) (ApproveContinuationPlan (calm E) ten rid who None) s n = (Inr (plan', rec'), s', n') \<and>
    plan_Status plan' = PlanApproved \<and> rec' \<in> set (recoveries s') \<and> rx_ID rec' = rid \<and> rx_Status rec' = RecoveryRunning"
proof -
  have id: "rx_ID rec = rid" "rx_TenantID rec = ten" using find_keyed [OF rec] by auto
  have at: "find (\<lambda>r. rx_TenantID r = ten \<and> rx_ID r = rid \<and> rx_Version r = rx_Version rec) (recoveries s) = Some rec"
    by (rule find_narrow [OF rec]) (use id in auto)
  have "rec \<in> set (recoveries s)" using rec by (metis find_Some_iff nth_mem)
  then show ?thesis
    unfolding ApproveContinuationPlan_def decide_plan_def in_tx_def
    using assms id at
    by (simp add: andThen_def attempt_def ignoring_def ret_def raise_def tx_run GetRecoveryExecution_def UpdateContinuationPlanStatus_def
        UpdateRecoveryExecution_def enqueueRecoveryEvent_def EnqueueOutbox_def NewID_def recordAuditEntry_def begin_tx_def)
      (force simp: update_rows_def)
qed

text \<open>A recovery that ended, with the plan it was resumed by.\<close>

definition sample_done :: rstore where
  "sample_done = (committed sample_world)\<lparr>
     recoveries := [put_fields (no_fields\<lparr>f_Status := Some RecoveryResumed, f_ContinuationPlanID := Some ''pl''\<rparr>)
       (new_recovery sample_env ''rc'' ''tnt_dev'' ''ex'' ''failed'' RecoveryLevelL1 sample_task sample_exec)],
     plans := [\<lparr>plan_ID = ''pl'', plan_TenantID = ''tnt_dev'', plan_RecoveryID = ''rc'', plan_Remaining = ''[]'', ContextSummary = [],
       plan_Status = PlanApproved, ApprovedBy = [], DecidedAt = None\<rparr>]\<rparr>"

theorem approve_reopens_witness:
  "\<exists>plan' rec' s' n'. in_tx (calm sample_env) (ApproveContinuationPlan (calm sample_env) ''tnt_dev'' ''rc'' ''op'' None) sample_done 0 =
      (Inr (plan', rec'), s', n') \<and>
    plan_Status plan' = PlanApproved \<and> rec' \<in> set (recoveries s') \<and> rx_ID rec' = ''rc'' \<and> rx_Status rec' = RecoveryRunning"
  by (rule approve_reopens [where E = sample_env and s = sample_done and rid = "''rc''" and ten = "''tnt_dev''"
      and rec = "hd (recoveries sample_done)" and p = "hd (plans sample_done)"])
    (simp_all add: sample_done_def sample_world_def sample_env_def new_recovery_def Let_def)

subsection \<open>The facts file\<close>

lemma trimmed_ends:
  assumes "TrimSpace l = l" and "l \<noteq> []"
  shows "\<not> is_space (hd l) \<and> \<not> is_space (last l)"
proof -
  have "length (dropWhile is_space l) \<ge> length (TrimSpace l)"
    by (simp add: TrimSpace_def) (metis length_dropWhile_le length_rev)
  then have l: "dropWhile is_space l = l"
    using assms(1) by (metis length_dropWhile_le le_antisym suffix_dropWhile suffix_def append_eq_append_conv self_append_conv2)
  then have "rev (dropWhile is_space (rev l)) = l" using assms(1) by (simp add: TrimSpace_def)
  then have "dropWhile is_space (rev l) = rev l" by (metis rev_rev_ident)
  then show ?thesis using l assms(2) by (simp add: dropWhile_eq_self_iff hd_rev)
qed

lemma TrimSpace_line:
  assumes "TrimSpace line = line" and "line \<noteq> []" and "is_space c"
  shows "TrimSpace (pre @ line @ [c]) = dropWhile is_space pre @ line"
proof -
  have ends: "\<not> is_space (hd line)" "\<not> is_space (last line)" using trimmed_ends [OF assms(1,2)] by auto
  have front: "dropWhile is_space (pre @ line @ [c]) = dropWhile is_space pre @ line @ [c]"
    using ends(1) assms(2) by (induction pre) (simp_all add: dropWhile_eq_self_iff)
  have rear: "dropWhile is_space (rev line @ ys) = rev line @ ys" for ys
    using ends(2) assms(2) by (cases "rev line") (auto simp: last_rev hd_rev dest: arg_cong [of "rev line" _ hd])
  show ?thesis unfolding TrimSpace_def front using assms(3) rear by simp
qed

text \<open>
  The facts file takes a recovery's summary once: after a line was written, the same line is found
  again and the next fold leaves the file alone. The line is one without surrounding blanks or line ends.
\<close>

theorem facts_once:
  assumes "TrimSpace line = line" and "line \<noteq> []" and "newline \<notin> set line" and "facts_text existing line = Some t"
  shows "facts_text t line = None"
proof -
  define pre where "pre = (if existing \<noteq> [] then existing @ (if HasSuffix existing [newline] then [] else [newline]) else [])"
  have "is_space newline" by (simp add: is_space_def newline_def)
  then have t: "t = dropWhile is_space pre @ line"
    using TrimSpace_line [OF assms(1,2), of newline pre] assms(4) by (simp add: facts_text_def pre_def split: if_splits)
  have "line \<in> set (split_on newline t)"
  proof (cases "dropWhile is_space pre = []")
    case True
    show ?thesis unfolding t True using split_on_id [OF assms(3)] by simp
  next
    case False
    then have "existing \<noteq> []" by (auto simp: pre_def split: if_splits)
    then have "pre \<noteq> [] \<and> last pre = newline"
      by (cases "rev existing") (auto simp: pre_def HasSuffix_def HasPrefix_def)
    then obtain p where "pre = p @ [newline]" by (metis append_butlast_last_id)
    then obtain q where "dropWhile is_space pre = q @ [newline]"
      using False by (metis append_butlast_last_id last_snoc suffix_dropWhile suffix_def last_append)
    then show ?thesis using t split_on_append_sep [of newline q line] split_on_id [OF assms(3)] by simp
  qed
  then show ?thesis using assms(1) by (auto simp: facts_text_def list_ex_iff)
qed

theorem facts_once_witness: "facts_text (the (facts_text ''old'' ''new'')) ''new'' = None"
proof -
  have "facts_text ''old'' ''new'' = Some (the (facts_text ''old'' ''new''))" by code_simp
  then show ?thesis by (intro facts_once [of "''new''" "''old''"]) (simp_all add: TrimSpace_def is_space_def newline_def)
qed

end
