(* ===== verification/Think_Split.thy ===== *)
theory Think_Split
  imports Go_Prelude
begin

text \<open>
  Inline reasoning. Some models write their chain of thought into the content stream between tags;
  three components route it away from the text. The native runtime's \<open>thinkSplitter\<close>
  (\<open>internal/orchicon/thinksplit.go\<close>) works on streamed chunks, and a tag may be cut anywhere by a
  chunk boundary; the OpenCode adapter's \<open>completedThinkDemux\<close>
  (\<open>internal/opencode/think_demux.go\<close>, \<open>think_tags.go\<close>) works on finished text parts with a table of
  spellings; the Ask service's \<open>thinkSegmenter\<close> is in \<open>Think_Segment\<close>. The reference is \<open>demux\<close>, which
  reads a whole text at once and says of every byte outside a tag whether it is text or reasoning.
  The queue a Go method appends to through a pointer is an argument and a result.
\<close>

subsection \<open>The streaming splitter\<close>

datatype Event = TextDelta string | ReasoningDelta string

record thinkSplitter =
  inThink :: bool
  holdback :: string

definition thinkOpenTag :: string where
  "thinkOpenTag = ''<'' @ ''think'' @ ''>''"

definition thinkCloseTag :: string where
  "thinkCloseTag = ''</'' @ ''think'' @ ''>''"

definition newThinkSplitter :: thinkSplitter where
  "newThinkSplitter = \<lparr>inThink = False, holdback = []\<rparr>"

fun holdback_loop :: "string \<Rightarrow> string \<Rightarrow> nat \<Rightarrow> nat" where
  "holdback_loop s tag 0 = 0"
| "holdback_loop s tag (Suc k) =
     (if HasPrefix tag (drop (length s - Suc k) s) then Suc k else holdback_loop s tag k)"

definition splitHoldback :: "string \<Rightarrow> string \<Rightarrow> nat" where
  "splitHoldback s tag =
     (let m = length tag - 1; m = (if length s < m then length s else m) in holdback_loop s tag m)"

lemma Index_Some:
  "Index s sub = Some i \<Longrightarrow> HasPrefix (drop i s) sub \<and> i + length sub \<le> length s"
proof (induction s arbitrary: i)
  case Nil
  then show ?case by (subst (asm) Index.simps) (auto split: if_splits simp: HasPrefix_def)
next
  case (Cons c s)
  show ?case
  proof (cases "HasPrefix (c # s) sub")
    case True
    with Cons.prems show ?thesis
      by (subst (asm) Index.simps) (auto dest: HasPrefix_length)
  next
    case False
    with Cons.prems obtain j where "i = Suc j" "Index s sub = Some j"
      by (subst (asm) Index.simps) auto
    with Cons.IH show ?thesis by auto
  qed
qed

function feed_loop :: "thinkSplitter \<Rightarrow> string \<Rightarrow> Event list \<Rightarrow> thinkSplitter \<times> Event list" where
  "feed_loop t s queue =
     (if s = [] then (t, queue)
      else if inThink t then
        (case Index s thinkCloseTag of
           Some idx \<Rightarrow>
             feed_loop (t\<lparr>inThink := False\<rparr>) (drop (idx + length thinkCloseTag) s)
               (if idx > 0 then queue @ [ReasoningDelta (take idx s)] else queue)
         | None \<Rightarrow>
             (let keep = splitHoldback s thinkCloseTag;
                  emit = take (length s - keep) s;
                  queue = (if emit \<noteq> [] then queue @ [ReasoningDelta emit] else queue);
                  t = (if keep > 0 then t\<lparr>holdback := holdback t @ drop (length s - keep) s\<rparr> else t)
              in (t, queue)))
      else
        (case Index s thinkOpenTag of
           Some idx \<Rightarrow>
             feed_loop (t\<lparr>inThink := True\<rparr>) (drop (idx + length thinkOpenTag) s)
               (if idx > 0 then queue @ [TextDelta (take idx s)] else queue)
         | None \<Rightarrow>
             (let keep = splitHoldback s thinkOpenTag;
                  emit = take (length s - keep) s;
                  queue = (if emit \<noteq> [] then queue @ [TextDelta emit] else queue);
                  t = (if keep > 0 then t\<lparr>holdback := holdback t @ drop (length s - keep) s\<rparr> else t)
              in (t, queue))))"
  by pat_completeness auto
termination
  by (relation "measure (\<lambda>(_, s, _). length s)")
     (auto simp: thinkOpenTag_def thinkCloseTag_def)

declare feed_loop.simps [simp del]

definition feed :: "thinkSplitter \<Rightarrow> string \<Rightarrow> Event list \<Rightarrow> thinkSplitter \<times> Event list" where
  "feed t content queue =
     (if content = [] then (t, queue)
      else (let s = holdback t @ content in feed_loop (t\<lparr>holdback := []\<rparr>) s queue))"

definition drain :: "thinkSplitter \<Rightarrow> Event list \<Rightarrow> thinkSplitter \<times> Event list" where
  "drain t queue =
     (if holdback t = [] then (t, queue)
      else (let s = holdback t; t = t\<lparr>holdback := []\<rparr>
            in if inThink t then (t, queue @ [ReasoningDelta s]) else (t, queue @ [TextDelta s])))"

subsection \<open>The tag tables and the demultiplexer of finished parts\<close>

definition ThinkOpenTags :: "string list" where
  "ThinkOpenTags =
     [''|<thinking>'', ''<thinking>'', ''|think'', ''<think>'', ''<thought>'', ''<reasoning>'']"

definition ThinkCloseTags :: "string list" where
  "ThinkCloseTags =
     [''|</thinking>'', ''</thinking>'', ''|/think'', ''</think>'', ''</thought>'', ''</reasoning>'']"

definition any_tag_step :: "string \<Rightarrow> (nat \<times> nat) option \<Rightarrow> string \<Rightarrow> (nat \<times> nat) option" where
  "any_tag_step s best t =
     (case Index s t of
        None \<Rightarrow> best
      | Some i \<Rightarrow>
          (case best of
             None \<Rightarrow> Some (i, length t)
           | Some (idx, ln) \<Rightarrow> if i < idx then Some (i, length t) else best))"

definition indexAnyTag :: "string \<Rightarrow> string list \<Rightarrow> (nat \<times> nat) option" where
  "indexAnyTag s tags = foldl (any_tag_step s) None tags"

lemma indexAnyTag_Some:
  "indexAnyTag s tags = Some (i, n) \<Longrightarrow> \<exists>t \<in> set tags. Index s t = Some i \<and> n = length t"
  unfolding indexAnyTag_def
proof (induction tags arbitrary: i n rule: rev_induct)
  case (snoc t tags)
  then show ?case
    by (auto simp: any_tag_step_def split: option.splits if_splits)
qed simp

record completedThinkDemux =
  cInThink :: bool

definition newCompletedThinkDemux :: completedThinkDemux where
  "newCompletedThinkDemux = \<lparr>cInThink = False\<rparr>"

function segment_loop ::
    "completedThinkDemux \<Rightarrow> string \<Rightarrow> string \<Rightarrow> string list \<Rightarrow> completedThinkDemux \<times> string \<times> string list" where
  "segment_loop d rest out bodies =
     (if rest = [] then (d, out, bodies)
      else if cInThink d then
        (case indexAnyTag rest ThinkCloseTags of
           Some (idx, ln) \<Rightarrow>
             segment_loop (d\<lparr>cInThink := False\<rparr>) (drop (idx + ln) rest) out
               (if take idx rest \<noteq> [] then bodies @ [take idx rest] else bodies)
         | None \<Rightarrow> (d, out, bodies @ [rest]))
      else
        (case indexAnyTag rest ThinkOpenTags of
           Some (idx, ln) \<Rightarrow>
             segment_loop (d\<lparr>cInThink := True\<rparr>) (drop (idx + ln) rest) (out @ take idx rest) bodies
         | None \<Rightarrow> (d, out @ rest, bodies)))"
  by pat_completeness auto
termination
  by (relation "measure (\<lambda>(_, s, _). length s)")
     (auto dest!: indexAnyTag_Some simp: ThinkOpenTags_def ThinkCloseTags_def)

declare segment_loop.simps [simp del]

definition segment :: "completedThinkDemux \<Rightarrow> string \<Rightarrow> completedThinkDemux \<times> string \<times> string list" where
  "segment d text = segment_loop d text [] []"

subsection \<open>The reference: reading the whole text at once\<close>

text \<open>
  \<open>demux tags m s\<close> starts in mode \<open>m\<close> (inside a block or not) and looks for the nearest tag that ends
  the mode; every byte before it belongs to the mode, the tag to neither. The result is the mode
  at the end and the bytes with their modes.
\<close>

type_synonym marked = "(bool \<times> char) list"

function demux :: "(bool \<Rightarrow> string list) \<Rightarrow> bool \<Rightarrow> string \<Rightarrow> bool \<times> marked" where
  "demux tags m s =
     (case indexAnyTag s (tags m) of
        None \<Rightarrow> (m, map (Pair m) s)
      | Some (i, n) \<Rightarrow>
          if n = 0 then (m, map (Pair m) s)
          else (let (m', out) = demux tags (\<not> m) (drop (i + n) s) in (m', map (Pair m) (take i s) @ out)))"
  by pat_completeness auto
termination
proof (relation "measure (\<lambda>(_, _, s). length s)", goal_cases)
  case (2 tags m s x i n)
  then obtain t where "Index s t = Some i" "n = length t" by (auto dest: indexAnyTag_Some)
  then show ?case using 2 Index_Some [of s t i] by (cases t) auto
qed simp

declare demux.simps [simp del]

definition splitter_tags :: "bool \<Rightarrow> string list" where
  "splitter_tags m = [if m then thinkCloseTag else thinkOpenTag]"

definition table_tags :: "bool \<Rightarrow> string list" where
  "table_tags m = (if m then ThinkCloseTags else ThinkOpenTags)"

definition side :: "bool \<Rightarrow> marked \<Rightarrow> string" where
  "side m xs = map snd (filter (\<lambda>x. fst x = m) xs)"

fun event_bytes :: "Event \<Rightarrow> marked" where
  "event_bytes (TextDelta s) = map (Pair False) s"
| "event_bytes (ReasoningDelta s) = map (Pair True) s"

definition bytes :: "Event list \<Rightarrow> marked" where
  "bytes q = concat (map event_bytes q)"

fun event_nonempty :: "Event \<Rightarrow> bool" where
  "event_nonempty (TextDelta s) = (s \<noteq> [])"
| "event_nonempty (ReasoningDelta s) = (s \<noteq> [])"

end
