(* ===== verification/Think_Laws.thy ===== *)
theory Think_Laws
  imports Think_Split
begin

text \<open>
  What the routing of inline reasoning guarantees. The centre is the splitter: however the provider
  cuts its stream into chunks, the bytes it hands on, each as text or as reasoning, are those of
  reading the whole stream at once. The law that makes it so, feeding two chunks is feeding their
  concatenation, is the interface \<open>chunked\<close>; the Ask service's segmenter provides it too.
\<close>

subsection \<open>Streams in chunks\<close>

locale chunked =
  fixes feed_chunk :: "'s \<Rightarrow> string \<Rightarrow> 'e list \<Rightarrow> 's \<times> 'e list"
    and see :: "'e list \<Rightarrow> 'o list"
  assumes see_append: "see (p @ q) = see p @ see q"
    and feed_queue: "feed_chunk s x q = (fst (feed_chunk s x []), q @ snd (feed_chunk s x []))"
    and feed_nothing: "feed_chunk s [] q = (s, q)"
    and feed_join_state: "fst (feed_chunk s (x @ y) []) = fst (feed_chunk (fst (feed_chunk s x [])) y [])"
    and feed_join_see:
      "see (snd (feed_chunk s (x @ y) [])) =
         see (snd (feed_chunk s x [])) @ see (snd (feed_chunk (fst (feed_chunk s x [])) y []))"
begin

lemma feed_all:
  "fst (foldl (\<lambda>(s, q) x. feed_chunk s x q) (s, q) xs) = fst (feed_chunk s (concat xs) [])
   \<and> see (snd (foldl (\<lambda>(s, q) x. feed_chunk s x q) (s, q) xs)) = see q @ see (snd (feed_chunk s (concat xs) []))"
proof (induction xs arbitrary: s q)
  case Nil
  have "see [] = []" using see_append [of "[]" "[]"] by simp
  then show ?case by (simp add: feed_nothing)
next
  case (Cons x xs)
  show ?case
    using Cons.IH [of "fst (feed_chunk s x [])" "q @ snd (feed_chunk s x [])"]
    by (simp add: feed_queue [of s x q] feed_join_state feed_join_see see_append)
qed

end

subsection \<open>Searching a tag across a cut\<close>

lemma Index_Cons:
  "Index (c # s) sub = (if HasPrefix (c # s) sub then Some 0 else map_option Suc (Index s sub))"
  by (subst Index.simps) simp

lemma HasPrefix_drop_Index:
  assumes "Index s sub = None" and "i \<le> length s"
  shows "\<not> HasPrefix (drop i s) sub"
  using assms
proof (induction s arbitrary: i)
  case Nil
  then show ?case by (subst (asm) Index.simps) (auto split: if_splits)
next
  case (Cons c s)
  have "\<not> HasPrefix (c # s) sub" and "Index s sub = None"
    using Cons.prems(1) by (simp_all add: Index_Cons split: if_splits)
  then show ?case using Cons by (cases i) auto
qed

lemma Index_append_Some: "Index s sub = Some i \<Longrightarrow> Index (s @ t) sub = Some i"
proof (induction s arbitrary: i)
  case Nil
  then have "sub = []" by (subst (asm) Index.simps) (auto simp: HasPrefix_def split: if_splits)
  with Nil show ?case by (subst Index.simps, subst (asm) Index.simps) simp
next
  case (Cons c s)
  show ?case
  proof (cases "HasPrefix (c # s) sub")
    case True
    then have "HasPrefix ((c # s) @ t) sub" by (metis HasPrefix_append HasPrefix_trans)
    with True Cons.prems show ?thesis by (simp add: Index_Cons)
  next
    case False
    with Cons.prems obtain j where j: "i = Suc j" "Index s sub = Some j"
      by (auto simp: Index_Cons)
    have "\<not> HasPrefix (c # s @ t) sub"
    proof
      assume "HasPrefix (c # s @ t) sub"
      moreover have "length sub \<le> length (c # s)" using Index_Some [OF j(2)] by simp
      ultimately have "HasPrefix (c # s) sub"
        using take_append [of "length sub" "c # s" t] by (simp add: HasPrefix_def)
      with False show False ..
    qed
    with Cons.IH [OF j(2)] j(1) show ?thesis by (simp add: Index_Cons)
  qed
qed

lemma Index_past:
  assumes "\<And>i. i < length e \<Longrightarrow> \<not> HasPrefix (drop i e @ u) sub"
  shows "Index (e @ u) sub = map_option ((+) (length e)) (Index u sub)"
  using assms
proof (induction e)
  case Nil
  then show ?case by (cases "Index u sub") auto
next
  case (Cons c e)
  have "\<not> HasPrefix (c # e @ u) sub" using Cons.prems [of 0] by simp
  moreover have "Index (e @ u) sub = map_option ((+) (length e)) (Index u sub)"
    using Cons.IH Cons.prems [of "Suc i" for i] by auto
  ultimately show ?case by (cases "Index u sub") (simp_all add: Index_Cons)
qed

lemma holdback_loop_le: "holdback_loop s tag k \<le> k"
  by (induction k) (auto intro: le_SucI)

lemma holdback_loop_fits:
  "HasPrefix tag (drop (length s - holdback_loop s tag k) s)"
  by (induction k) auto

lemma holdback_loop_longest:
  "holdback_loop s tag k < j \<Longrightarrow> j \<le> k \<Longrightarrow> \<not> HasPrefix tag (drop (length s - j) s)"
  by (induction k) (auto simp: le_Suc_eq split: if_splits)

lemma splitHoldback_le: "splitHoldback s tag \<le> length s" "splitHoldback s tag \<le> length tag - 1"
  unfolding splitHoldback_def Let_def
  using holdback_loop_le [of s tag "length s"] holdback_loop_le [of s tag "length tag - 1"] by auto

lemma splitHoldback_fits: "HasPrefix tag (drop (length s - splitHoldback s tag) s)"
  unfolding splitHoldback_def Let_def by (rule holdback_loop_fits)

lemma splitHoldback_longest:
  assumes "splitHoldback s tag < j" and "j \<le> length s" and "j < length tag"
  shows "\<not> HasPrefix tag (drop (length s - j) s)"
  using assms holdback_loop_longest unfolding splitHoldback_def Let_def by (auto split: if_splits)

lemma splitHoldback_unique:
  assumes "k \<le> length s" and "k < length tag" and "HasPrefix tag (drop (length s - k) s)"
    and "\<And>j. k < j \<Longrightarrow> j \<le> length s \<Longrightarrow> j < length tag \<Longrightarrow> \<not> HasPrefix tag (drop (length s - j) s)"
  shows "splitHoldback s tag = k"
proof -
  have "\<not> splitHoldback s tag < k" using assms(1-3) splitHoldback_longest by blast
  moreover have "splitHoldback s tag < length tag" using splitHoldback_le(2) [of s tag] assms(2) by simp
  then have "\<not> k < splitHoldback s tag"
    using assms(4) splitHoldback_le(1) [of s tag] splitHoldback_fits [of tag s] by blast
  ultimately show ?thesis by simp
qed


lemma HasPrefix_appendD: "HasPrefix tag (x @ y) \<Longrightarrow> HasPrefix tag x"
  by (auto simp: HasPrefix_iff)

lemma HasPrefix_compare: "HasPrefix (x @ y) tag \<Longrightarrow> HasPrefix x tag \<or> HasPrefix tag x"
  by (auto simp: HasPrefix_iff append_eq_append_conv2)

text \<open>
  Text without the tag, cut before the longest end that may still grow into one: no occurrence of
  the tag starts in the part that is let go, whatever follows.
\<close>

definition let_go :: "string \<Rightarrow> string \<Rightarrow> string" where
  "let_go s tag = take (length s - splitHoldback s tag) s"

definition held :: "string \<Rightarrow> string \<Rightarrow> string" where
  "held s tag = drop (length s - splitHoldback s tag) s"

lemma let_go_held: "s = let_go s tag @ held s tag"
  and length_held: "length (held s tag) = splitHoldback s tag"
  using splitHoldback_le(1) [of s tag] by (auto simp: let_go_def held_def)

lemma drop_let_go:
  "i < length (let_go s tag) \<Longrightarrow> drop i s @ b = drop i (let_go s tag) @ held s tag @ b"
  using arg_cong [OF let_go_held [of s tag], of "\<lambda>s. drop i s @ b"] by simp

lemma not_begun:
  assumes no_tag: "Index s tag = None" and i: "i < length (let_go s tag)"
  shows "\<not> HasPrefix tag (drop i s)"
proof
  assume pre: "HasPrefix tag (drop i s)"
  have lo: "i < length s" "splitHoldback s tag < length s - i" using i by (auto simp: let_go_def)
  show False
  proof (cases "length s - i < length tag")
    case True
    then show False using splitHoldback_longest [of s tag "length s - i"] pre lo by simp
  next
    case False
    then have "drop i s = tag" using pre HasPrefix_length [OF pre] by (simp add: HasPrefix_def)
    then show False using HasPrefix_drop_Index [OF no_tag, of i] lo by simp
  qed
qed

lemma tag_later:
  assumes "Index s tag = None"
  shows "Index (s @ b) tag = map_option ((+) (length (let_go s tag))) (Index (held s tag @ b) tag)"
proof -
  have "\<not> HasPrefix (drop i (let_go s tag) @ held s tag @ b) tag" if i: "i < length (let_go s tag)" for i
  proof
    assume "HasPrefix (drop i (let_go s tag) @ held s tag @ b) tag"
    then have "HasPrefix (drop i s @ b) tag" using drop_let_go [OF i, of b] by simp
    moreover have "i \<le> length s" using i by (simp add: let_go_def)
    ultimately show False
      using HasPrefix_compare not_begun [OF assms i] HasPrefix_drop_Index [OF assms] by blast
  qed
  moreover have "s @ b = let_go s tag @ held s tag @ b" by (metis append_assoc let_go_held)
  ultimately show ?thesis using Index_past [of "let_go s tag" "held s tag @ b" tag] by presburger
qed

lemma held_later:
  assumes "Index s tag = None" and "tag \<noteq> []"
  shows "splitHoldback (s @ b) tag = splitHoldback (held s tag @ b) tag"
proof (rule splitHoldback_unique)
  define e where "e = let_go s tag"
  define u where "u = held s tag @ b"
  have su: "s @ b = e @ u" using let_go_held [of s tag] by (simp add: e_def u_def)
  let ?k = "splitHoldback u tag"
  have k: "?k \<le> length u" by (rule splitHoldback_le)
  then show "splitHoldback (held s tag @ b) tag \<le> length (s @ b)" by (simp only: su flip: u_def) simp
  show "splitHoldback (held s tag @ b) tag < length tag"
    using splitHoldback_le(2) [of "held s tag @ b" tag] assms(2) by (cases tag) auto
  show "HasPrefix tag (drop (length (s @ b) - splitHoldback (held s tag @ b) tag) (s @ b))"
    using splitHoldback_fits [of tag u] k by (simp add: su flip: u_def)
  fix j
  assume j: "splitHoldback (held s tag @ b) tag < j" "j \<le> length (s @ b)" "j < length tag"
  show "\<not> HasPrefix tag (drop (length (s @ b) - j) (s @ b))"
  proof (cases "j \<le> length u")
    case True
    then show ?thesis using splitHoldback_longest [of u tag j] j by (simp add: su flip: u_def)
  next
    case False
    define i where "i = length (s @ b) - j"
    have "i < length e" using False j(2) by (simp add: i_def su)
    then have i: "i < length (let_go s tag)" by (simp add: e_def)
    moreover have "i \<le> length s" using i by (simp add: let_go_def)
    then have "drop i (s @ b) = drop i s @ b" by simp
    ultimately show ?thesis using HasPrefix_appendD not_begun [OF assms(1) i] unfolding i_def by metis
  qed
qed

subsection \<open>The splitter, chunk by chunk\<close>

definition mode_tag :: "bool \<Rightarrow> string" where
  "mode_tag m = (if m then thinkCloseTag else thinkOpenTag)"

definition emitted :: "bool \<Rightarrow> string \<Rightarrow> Event list" where
  "emitted m x = (if x = [] then [] else [if m then ReasoningDelta x else TextDelta x])"

lemma bytes_simps [simp]:
  "bytes [] = []" "bytes (p @ q) = bytes p @ bytes q" "bytes (emitted m x) = map (Pair m) x"
  by (auto simp: bytes_def emitted_def)

lemma mode_tag_ne [simp]: "mode_tag m \<noteq> []"
  by (simp add: mode_tag_def thinkOpenTag_def thinkCloseTag_def)

lemma feed_loop_step:
  "feed_loop t s q =
     (if s = [] then (t, q)
      else (case Index s (mode_tag (inThink t)) of
              Some i \<Rightarrow> feed_loop (t\<lparr>inThink := \<not> inThink t\<rparr>) (drop (i + length (mode_tag (inThink t))) s)
                          (q @ emitted (inThink t) (take i s))
            | None \<Rightarrow>
                (let k = splitHoldback s (mode_tag (inThink t))
                 in (t\<lparr>holdback := holdback t @ drop (length s - k) s\<rparr>,
                     q @ emitted (inThink t) (take (length s - k) s)))))"
  by (subst feed_loop.simps) (auto simp: mode_tag_def emitted_def Let_def split: option.splits)

lemma feed_loop_queue:
  "feed_loop t s q = (fst (feed_loop t s []), q @ snd (feed_loop t s []))"
proof (induction s arbitrary: t q rule: length_induct)
  case (1 s)
  note IH = "1.IH" [rule_format]
  show ?case
  proof (cases "s = []")
    case True
    then show ?thesis by (simp add: feed_loop_step)
  next
    case s: False
    let ?m = "inThink t"
    show ?thesis
    proof (cases "Index s (mode_tag ?m)")
      case None
      with s show ?thesis by (simp add: feed_loop_step [of t s] Let_def)
    next
      case (Some i)
      have "length (drop (i + length (mode_tag ?m)) s) < length s" using s by (cases "mode_tag ?m") auto
      note IH' = IH [OF this, of "t\<lparr>inThink := \<not> ?m\<rparr>"]
      show ?thesis
        using s Some IH' [of "q @ emitted ?m (take i s)"] IH' [of "emitted ?m (take i s)"]
        by (simp add: feed_loop_step [of t s])
    qed
  qed
qed

lemma feed_loop_skip:
  assumes None: "Index s (mode_tag (inThink t)) = None"
    and ne: "held s (mode_tag (inThink t)) @ b \<noteq> []" and t: "holdback t = []"
  shows "fst (feed_loop t (s @ b) []) = fst (feed_loop t (held s (mode_tag (inThink t)) @ b) [])
       \<and> bytes (snd (feed_loop t (s @ b) [])) =
           map (Pair (inThink t)) (let_go s (mode_tag (inThink t))) @
           bytes (snd (feed_loop t (held s (mode_tag (inThink t)) @ b) []))"
proof -
  let ?m = "inThink t" and ?tag = "mode_tag (inThink t)"
  define e u where "e = let_go s ?tag" and "u = held s ?tag @ b"
  have sb: "s @ b = e @ u" unfolding e_def u_def by (metis append_assoc let_go_held)
  have later: "Index (e @ u) ?tag = map_option ((+) (length e)) (Index u ?tag)"
      "splitHoldback (e @ u) ?tag = splitHoldback u ?tag" "u \<noteq> []"
    using tag_later [OF None, of b] held_later [OF None mode_tag_ne, of b] ne
    by (simp_all add: sb flip: e_def u_def)
  show ?thesis
  proof (cases "Index u ?tag")
    case None
    moreover have "splitHoldback u ?tag \<le> length u" by (rule splitHoldback_le)
    ultimately show ?thesis
      using later by (simp add: sb feed_loop_step [of t "e @ u"] feed_loop_step [of t u] Let_def flip: e_def u_def)
  next
    case (Some i)
    let ?t = "t\<lparr>inThink := \<not> ?m\<rparr>" and ?s = "drop (i + length ?tag) u"
    show ?thesis
      using later Some feed_loop_queue [of ?t ?s "emitted ?m (e @ take i u)"]
        feed_loop_queue [of ?t ?s "emitted ?m (take i u)"]
      by (simp add: sb feed_loop_step [of t "e @ u"] feed_loop_step [of t u] add.assoc flip: e_def u_def)
  qed
qed

lemma feed_loop_join:
  assumes "holdback t = []"
  shows "fst (feed_loop t (s @ b) []) =
           fst (feed_loop (fst (feed_loop t s [])\<lparr>holdback := []\<rparr>) (holdback (fst (feed_loop t s [])) @ b) [])
       \<and> bytes (snd (feed_loop t (s @ b) [])) =
           bytes (snd (feed_loop t s [])) @
           bytes (snd (feed_loop (fst (feed_loop t s [])\<lparr>holdback := []\<rparr>) (holdback (fst (feed_loop t s [])) @ b) []))"
  using assms
proof (induction s arbitrary: t rule: length_induct)
  case (1 s)
  note IH = "1.IH" [rule_format] and t = "1.prems"
  have id: "t\<lparr>holdback := []\<rparr> = t" using t by simp
  let ?m = "inThink t" and ?tag = "mode_tag (inThink t)"
  show ?case
  proof (cases "s = []")
    case True
    then show ?thesis by (simp add: feed_loop_step [of t "[]"] t id)
  next
    case s: False
    show ?thesis
    proof (cases "Index s ?tag")
      case (Some i)
      let ?t = "t\<lparr>inThink := \<not> ?m\<rparr>" and ?s = "drop (i + length ?tag) s"
      have fits: "i + length ?tag \<le> length s" using Index_Some [OF Some] by simp
      have "length ?s < length s" using s by (cases ?tag) auto
      note IH' = IH [OF this, of ?t]
      have l: "feed_loop t (s @ b) [] =
                 (fst (feed_loop ?t (?s @ b) []), emitted ?m (take i s) @ snd (feed_loop ?t (?s @ b) []))"
        using s fits Index_append_Some [OF Some, of b] feed_loop_queue [of ?t "?s @ b" "emitted ?m (take i s)"]
        by (simp add: feed_loop_step [of t "s @ b"])
      have r: "feed_loop t s [] = (fst (feed_loop ?t ?s []), emitted ?m (take i s) @ snd (feed_loop ?t ?s []))"
        using s Some feed_loop_queue [of ?t ?s "emitted ?m (take i s)"] by (simp add: feed_loop_step [of t s])
      show ?thesis using IH' t by (simp add: l r)
    next
      case None
      let ?h = "held s ?tag" and ?e = "let_go s ?tag"
      have r: "feed_loop t s [] = (t\<lparr>holdback := ?h\<rparr>, emitted ?m ?e)"
        using s None t by (simp add: feed_loop_step [of t s] Let_def held_def let_go_def)
      show ?thesis
      proof (cases "?h @ b = []")
        case True
        then show ?thesis using t by (simp add: r id feed_loop_step [of t "[]"])
      next
        case ne: False
        show ?thesis using feed_loop_skip [OF None ne t] by (simp add: r id)
      qed
    qed
  qed
qed

lemma feed_state_queue:
  "feed t x q = (fst (feed t x []), q @ snd (feed t x []))"
  using feed_loop_queue [of "t\<lparr>holdback := []\<rparr>" "holdback t @ x" q] by (simp add: feed_def)

interpretation splitter: chunked feed bytes
proof (unfold_locales, goal_cases)
  case (2 t x q)
  show ?case by (rule feed_state_queue)
next
  case (4 t x y)
  then show ?case using feed_loop_join [of "t\<lparr>holdback := []\<rparr>" "holdback t @ x" y]
    by (cases "x = []"; cases "y = []") (simp_all add: feed_def)
next
  case (5 t x y)
  then show ?case using feed_loop_join [of "t\<lparr>holdback := []\<rparr>" "holdback t @ x" y]
    by (cases "x = []"; cases "y = []") (simp_all add: feed_def)
qed (simp_all add: feed_def)

lemma indexAnyTag_one [simp]: "indexAnyTag s [t] = map_option (\<lambda>i. (i, length t)) (Index s t)"
  by (auto simp: indexAnyTag_def any_tag_step_def split: option.splits)

lemma splitter_tags_eq: "splitter_tags m = [mode_tag m]"
  by (simp add: splitter_tags_def mode_tag_def)

lemma demux_Nil [simp]: "demux splitter_tags m [] = (m, [])" "demux table_tags m [] = (m, [])"
  by (auto simp: demux.simps [of _ m "[]"] splitter_tags_eq [of m] split: option.splits
      dest!: indexAnyTag_Some Index_Some)

lemma feed_loop_demux:
  assumes "holdback t = []"
  shows "demux splitter_tags (inThink t) s =
           (inThink (fst (feed_loop t s [])),
            bytes (snd (feed_loop t s [])) @
            map (Pair (inThink (fst (feed_loop t s [])))) (holdback (fst (feed_loop t s []))))"
  using assms
proof (induction s arbitrary: t rule: length_induct)
  case (1 s)
  note IH = "1.IH" [rule_format] and t = "1.prems"
  let ?m = "inThink t" and ?tag = "mode_tag (inThink t)"
  show ?case
  proof (cases "s = []")
    case True
    then show ?thesis by (simp add: feed_loop_step [of t "[]"] t)
  next
    case s: False
    show ?thesis
    proof (cases "Index s ?tag")
      case None
      have "map (Pair ?m) s = map (Pair ?m) (let_go s ?tag) @ map (Pair ?m) (held s ?tag)"
        by (metis let_go_held map_append)
      with None s t show ?thesis
        by (simp add: feed_loop_step [of t s] demux.simps [of splitter_tags ?m s] splitter_tags_eq [of ?m] Let_def let_go_def held_def)
    next
      case (Some i)
      let ?t = "t\<lparr>inThink := \<not> ?m\<rparr>" and ?s = "drop (i + length ?tag) s"
      have "length ?s < length s" using s by (cases ?tag) auto
      with IH [of ?s ?t] t
      have "demux splitter_tags (\<not> ?m) ?s =
              (inThink (fst (feed_loop ?t ?s [])), bytes (snd (feed_loop ?t ?s [])) @
               map (Pair (inThink (fst (feed_loop ?t ?s [])))) (holdback (fst (feed_loop ?t ?s []))))" by simp
      with Some s show ?thesis
        using feed_loop_queue [of ?t ?s "emitted ?m (take i s)"]
        by (simp add: feed_loop_step [of t s] demux.simps [of splitter_tags ?m s] splitter_tags_eq [of ?m])
    qed
  qed
qed

lemma feed_loop_held_short:
  "holdback t = [] \<Longrightarrow>
   length (holdback (fst (feed_loop t s q))) < length (mode_tag (inThink (fst (feed_loop t s q))))"
proof (induction s arbitrary: t q rule: length_induct)
  case (1 s)
  show ?case
  proof (cases "s = []")
    case True
    then show ?thesis using 1 by (simp add: feed_loop_step [of t "[]"])
  next
    case s: False
    let ?tag = "mode_tag (inThink t)"
    have "splitHoldback s ?tag < length ?tag" using splitHoldback_le(2) [of s ?tag] by (cases ?tag) auto
    moreover have "length (drop (i + length ?tag) s) < length s" for i using s by (cases ?tag) auto
    ultimately show ?thesis
      using 1 s splitHoldback_le(1) [of s ?tag]
      by (simp add: feed_loop_step [of t s] Let_def split: option.splits)
  qed
qed

lemma emitted_nonempty [simp]: "list_all event_nonempty (emitted m x)"
  by (simp add: emitted_def)

lemma feed_loop_nonempty:
  "list_all event_nonempty q \<Longrightarrow> list_all event_nonempty (snd (feed_loop t s q))"
proof (induction s arbitrary: t q rule: length_induct)
  case (1 s)
  let ?tag = "mode_tag (inThink t)"
  have "length (drop (i + length ?tag) s) < length s" if "s \<noteq> []" for i using that by (cases ?tag) auto
  then show ?case
    using 1 by (simp add: feed_loop_step [of t s] Let_def split: option.splits)
qed

lemma feed_nonempty: "list_all event_nonempty q \<Longrightarrow> list_all event_nonempty (snd (feed t x q))"
  by (simp add: feed_def feed_loop_nonempty)

definition splitter_run :: "string list \<Rightarrow> thinkSplitter \<times> Event list" where
  "splitter_run chunks = foldl (\<lambda>(t, q) x. feed t x q) (newThinkSplitter, []) chunks"

lemma splitter_run_nonempty: "list_all event_nonempty (snd (splitter_run chunks))"
  unfolding splitter_run_def
  by (induction chunks rule: rev_induct) (auto simp: feed_nonempty split: prod.splits)

lemma splitter_run_read:
  assumes "splitter_run chunks = (t, q)" and "demux splitter_tags False (concat chunks) = (m, out)"
  shows "inThink t = m" and "bytes q @ map (Pair m) (holdback t) = out"
    and "length (holdback t) < length (mode_tag m)"
proof -
  let ?r = "feed newThinkSplitter (concat chunks) []"
  have all: "t = fst ?r" "bytes q = bytes (snd ?r)"
    using splitter.feed_all [of newThinkSplitter "[]" chunks] assms(1) by (simp_all add: splitter_run_def)
  have r: "?r = feed_loop newThinkSplitter (concat chunks) []"
    by (simp add: feed_def newThinkSplitter_def feed_loop_step [of _ "[]"] del: concat_eq_Nil_conv)
  have h: "holdback newThinkSplitter = []" "inThink newThinkSplitter = False"
    by (simp_all add: newThinkSplitter_def)
  note d = feed_loop_demux [OF h(1), of "concat chunks", unfolded h(2) assms(2)]
  show m: "inThink t = m" and "bytes q @ map (Pair m) (holdback t) = out"
    using d by (simp_all add: all r)
  show "length (holdback t) < length (mode_tag m)"
    using feed_loop_held_short [OF h(1), of "concat chunks" "[]"] m by (simp add: all r)
qed

text \<open>
  C14. However a provider cuts its content stream into chunks, the splitter routes every byte as
  reading the whole stream at once would: after \<open>drain\<close> the queued events hold, in order, exactly the
  bytes outside the tags, each as text or as reasoning. Before \<open>drain\<close> all but a tail shorter than
  the tag looked for has been handed on, and no event is empty.
\<close>

theorem splitter_any_chunks:
  "case splitter_run chunks of (t, q) \<Rightarrow>
   case drain t q of (t', q') \<Rightarrow>
   case demux splitter_tags False (concat chunks) of (m, out) \<Rightarrow>
     bytes q' = out \<and> inThink t' = m \<and> holdback t' = []
   \<and> bytes q @ map (Pair m) (holdback t) = out
   \<and> length (holdback t) < length (if m then thinkCloseTag else thinkOpenTag)
   \<and> list_all event_nonempty q'"
proof -
  obtain t q m out where r: "splitter_run chunks = (t, q)"
    and d: "demux splitter_tags False (concat chunks) = (m, out)" by (metis surj_pair)
  note read = splitter_run_read [OF r d]
  have "list_all event_nonempty q" using splitter_run_nonempty [of chunks] r by simp
  then show ?thesis
    using read by (auto simp: r d drain_def Let_def mode_tag_def bytes_def)
qed

end
