(* ===== verification/Think_Segment.thy ===== *)
theory Think_Segment
  imports Think_Laws
begin

text \<open>
  The Ask service's segmenter of folded reasoning (\<open>internal/askorchicon/thinksegmenter.go\<close>), a state
  machine over the bytes of the live stream with the tag tables of \<open>Think_Split\<close>. Its three callbacks
  are the events it emits, in order: plain text, a piece of a block's body as it arrives, and the
  whole body once at the end of the block. A callback the caller left out drops its events.
\<close>

subsection \<open>The segmenter\<close>

datatype thinkSegState = thinkSegText | thinkSegInOpenTag | thinkSegInBody | thinkSegInCloseTag

record thinkSegmenter =
  seg_state :: thinkSegState
  seg_buf :: string
  pendingOpen :: string
  pendingClose :: string
  bodyStarted :: bool

datatype SegEvent = EmitText string | GrowThink string | CommitThink string

definition newSegmenter :: thinkSegmenter where
  "newSegmenter =
     \<lparr>seg_state = thinkSegText, seg_buf = [], pendingOpen = [], pendingClose = [], bodyStarted = False\<rparr>"

definition reset :: "thinkSegmenter \<Rightarrow> thinkSegmenter" where
  "reset seg =
     seg\<lparr>seg_state := thinkSegText, seg_buf := [], pendingOpen := [], pendingClose := [], bodyStarted := False\<rparr>"

definition isCompleteOpen :: "string \<Rightarrow> bool" where
  "isCompleteOpen s \<longleftrightarrow> list_ex (\<lambda>m. s = m) ThinkOpenTags"

definition couldBeOpenPrefix :: "string \<Rightarrow> bool" where
  "couldBeOpenPrefix s \<longleftrightarrow> list_ex (\<lambda>m. HasPrefix m s) ThinkOpenTags"

definition isCompleteClose :: "string \<Rightarrow> bool" where
  "isCompleteClose s \<longleftrightarrow> list_ex (\<lambda>m. s = m) ThinkCloseTags"

definition couldBeClosePrefix :: "string \<Rightarrow> bool" where
  "couldBeClosePrefix s \<longleftrightarrow> list_ex (\<lambda>m. HasPrefix m s) ThinkCloseTags"

definition commit :: "thinkSegmenter \<Rightarrow> SegEvent list \<Rightarrow> thinkSegmenter \<times> SegEvent list" where
  "commit seg evs =
     (let evs = (if seg_buf seg \<noteq> [] then evs @ [CommitThink (seg_buf seg)] else evs)
      in (seg\<lparr>seg_buf := [], pendingClose := [], bodyStarted := False\<rparr>, evs))"

definition tag_start :: "char \<Rightarrow> bool" where
  "tag_start c \<longleftrightarrow> c = CHR ''|'' \<or> c = CHR ''<''"

definition in_open :: "thinkSegmenter \<Rightarrow> char \<Rightarrow> SegEvent list \<Rightarrow> thinkSegmenter \<times> SegEvent list" where
  "in_open seg c evs =
     (let seg = seg\<lparr>pendingOpen := pendingOpen seg @ [c]\<rparr>; p = pendingOpen seg
      in if isCompleteOpen p then
           (seg\<lparr>seg_state := thinkSegInBody, pendingOpen := [], bodyStarted := True\<rparr>, evs)
         else if \<not> couldBeOpenPrefix p then
           (seg\<lparr>pendingOpen := [], seg_state := thinkSegText\<rparr>, evs @ [EmitText p])
         else (seg, evs))"

text \<open>
  Go's conversion of a single byte to a string, \<open>string(delta[i])\<close>, takes the byte as a code point and
  yields its UTF-8 encoding: one byte below 128, two bytes from there on.
\<close>

definition byte_string :: "char \<Rightarrow> string" where
  "byte_string c =
     (let n = (of_char c :: nat) in if n < 128 then [c] else [char_of (192 + n div 64), char_of (128 + n mod 64)])"

definition in_body :: "thinkSegmenter \<Rightarrow> char \<Rightarrow> SegEvent list \<Rightarrow> thinkSegmenter \<times> SegEvent list" where
  "in_body seg c evs =
     (if tag_start c then
        (seg\<lparr>seg_state := thinkSegInCloseTag, pendingClose := pendingClose seg @ [c]\<rparr>, evs)
      else (seg\<lparr>seg_buf := seg_buf seg @ [c]\<rparr>, evs @ [GrowThink (byte_string c)]))"

definition in_close :: "thinkSegmenter \<Rightarrow> char \<Rightarrow> SegEvent list \<Rightarrow> thinkSegmenter \<times> SegEvent list" where
  "in_close seg c evs =
     (let seg = seg\<lparr>pendingClose := pendingClose seg @ [c]\<rparr>; p = pendingClose seg
      in if isCompleteClose p then
           (let (seg, evs) = commit seg evs in (seg\<lparr>seg_state := thinkSegText\<rparr>, evs))
         else if \<not> couldBeClosePrefix p then
           (seg\<lparr>seg_buf := seg_buf seg @ p, pendingClose := [], seg_state := thinkSegInBody\<rparr>, evs @ [GrowThink p])
         else (seg, evs))"

text \<open>The scan of \<open>feed\<close> over \<open>delta\<close> from position \<open>i\<close>; the argument is what is left of the delta.\<close>

function seg_feed :: "thinkSegmenter \<Rightarrow> string \<Rightarrow> SegEvent list \<Rightarrow> thinkSegmenter \<times> SegEvent list" where
  "seg_feed seg [] evs = (seg, evs)"
| "seg_feed seg (c # rest) evs =
     (case seg_state seg of
        thinkSegText \<Rightarrow>
          (let plain_run = takeWhile (\<lambda>x. \<not> tag_start x) (c # rest)
           in if plain_run \<noteq> [] then
                seg_feed seg (drop (length plain_run) (c # rest)) (evs @ [EmitText plain_run])
              else seg_feed (seg\<lparr>seg_state := thinkSegInOpenTag, pendingOpen := pendingOpen seg @ [c]\<rparr>) rest evs)
      | thinkSegInOpenTag \<Rightarrow> (let (seg, evs) = in_open seg c evs in seg_feed seg rest evs)
      | thinkSegInBody \<Rightarrow> (let (seg, evs) = in_body seg c evs in seg_feed seg rest evs)
      | thinkSegInCloseTag \<Rightarrow> (let (seg, evs) = in_close seg c evs in seg_feed seg rest evs))"
  by pat_completeness auto
termination
  by (relation "measure (\<lambda>(_, s, _). length s)") (auto split: if_splits)

definition flushBody :: "thinkSegmenter \<Rightarrow> SegEvent list \<Rightarrow> thinkSegmenter \<times> SegEvent list" where
  "flushBody seg evs =
     (let (seg, evs) = (if bodyStarted seg then commit seg evs else (seg, evs)) in (reset seg, evs))"

definition seg_inThink :: "thinkSegmenter \<Rightarrow> bool" where
  "seg_inThink seg \<longleftrightarrow>
     seg_state seg = thinkSegInBody \<or> seg_state seg = thinkSegInCloseTag \<or> bodyStarted seg"

text \<open>
  The collector's reading of a finished text part (\<open>chat.go\<close>): a fresh segmenter is fed the whole
  part and flushed; what it emitted as text joins the reply, what it committed are the folded bodies.
\<close>

definition emitted_text :: "SegEvent list \<Rightarrow> string" where
  "emitted_text evs = concat (map (\<lambda>e. case e of EmitText s \<Rightarrow> s | _ \<Rightarrow> []) evs)"

definition committed_bodies :: "SegEvent list \<Rightarrow> string list" where
  "committed_bodies evs = concat (map (\<lambda>e. case e of CommitThink b \<Rightarrow> [b] | _ \<Rightarrow> []) evs)"

definition collect_text_part :: "string \<Rightarrow> string \<times> string list" where
  "collect_text_part text =
     (let (seg, evs) = seg_feed newSegmenter text []; (seg, evs) = flushBody seg evs
      in (emitted_text evs, committed_bodies evs))"

subsection \<open>Byte by byte\<close>

datatype seen = SeenText char | SeenThink char | SeenBody string

fun seen_in :: "SegEvent \<Rightarrow> seen list" where
  "seen_in (EmitText s) = map SeenText s"
| "seen_in (GrowThink s) = map SeenThink s"
| "seen_in (CommitThink b) = [SeenBody b]"

definition seen :: "SegEvent list \<Rightarrow> seen list" where
  "seen evs = concat (map seen_in evs)"

lemma seen_simps [simp]:
  "seen [] = []" "seen (p @ q) = seen p @ seen q" "seen (e # q) = seen_in e @ seen q"
  by (auto simp: seen_def)

definition seg_step :: "thinkSegmenter \<Rightarrow> char \<Rightarrow> thinkSegmenter \<times> SegEvent list" where
  "seg_step seg c =
     (case seg_state seg of
        thinkSegText \<Rightarrow>
          if tag_start c then (seg\<lparr>seg_state := thinkSegInOpenTag, pendingOpen := pendingOpen seg @ [c]\<rparr>, [])
          else (seg, [EmitText [c]])
      | thinkSegInOpenTag \<Rightarrow> in_open seg c []
      | thinkSegInBody \<Rightarrow> in_body seg c []
      | thinkSegInCloseTag \<Rightarrow> in_close seg c [])"

fun seg_steps :: "thinkSegmenter \<Rightarrow> string \<Rightarrow> thinkSegmenter \<times> seen list" where
  "seg_steps seg [] = (seg, [])"
| "seg_steps seg (c # s) =
     (let (seg, evs) = seg_step seg c; (seg, out) = seg_steps seg s in (seg, seen evs @ out))"

lemma in_queue:
  "in_open seg c evs = (fst (in_open seg c []), evs @ snd (in_open seg c []))"
  "in_body seg c evs = (fst (in_body seg c []), evs @ snd (in_body seg c []))"
  "in_close seg c evs = (fst (in_close seg c []), evs @ snd (in_close seg c []))"
  by (simp_all add: in_open_def in_body_def in_close_def commit_def Let_def)

declare seg_feed.simps(2) [simp del]

lemma seg_feed_one:
  "seg_state seg \<noteq> thinkSegText \<or> tag_start c \<Longrightarrow>
   seg_feed seg (c # rest) evs = seg_feed (fst (seg_step seg c)) rest (evs @ snd (seg_step seg c))"
  by (cases "seg_state seg")
     (simp_all add: seg_feed.simps(2) seg_step_def split_beta
       in_queue(1) [of seg c evs] in_queue(2) [of seg c evs] in_queue(3) [of seg c evs])

lemma seg_feed_run:
  "seg_state seg = thinkSegText \<Longrightarrow> \<not> tag_start c \<Longrightarrow>
   seg_feed seg (c # rest) evs =
     seg_feed seg (dropWhile (\<lambda>x. \<not> tag_start x) rest) (evs @ [EmitText (c # takeWhile (\<lambda>x. \<not> tag_start x) rest)])"
  by (simp add: seg_feed.simps(2) dropWhile_eq_drop)

lemma seg_feed_queue: "seg_feed seg s evs = (fst (seg_feed seg s []), evs @ snd (seg_feed seg s []))"
proof (induction s arbitrary: seg evs rule: length_induct)
  case (1 s)
  note IH = "1.IH" [rule_format]
  show ?case
  proof (cases s)
    case (Cons c rest)
    show ?thesis
    proof (cases "seg_state seg \<noteq> thinkSegText \<or> tag_start c")
      case True
      have "length rest < length s" by (simp add: Cons)
      note IH' = IH [OF this, of "fst (seg_step seg c)"]
      show ?thesis
        using IH' [of "evs @ snd (seg_step seg c)"] IH' [of "snd (seg_step seg c)"]
        by (simp add: Cons seg_feed_one [OF True])
    next
      case False
      let ?r = "dropWhile (\<lambda>x. \<not> tag_start x) rest"
        and ?e = "EmitText (c # takeWhile (\<lambda>x. \<not> tag_start x) rest)"
      have "length ?r < length s"
        using length_dropWhile_le [of "\<lambda>x. \<not> tag_start x" rest] Cons by simp
      note IH' = IH [OF this, of seg]
      show ?thesis
        using IH' [of "evs @ [?e]"] IH' [of "[?e]"] False
        by (simp add: Cons seg_feed_run)
    qed
  qed simp
qed

lemma seg_steps_append:
  "seg_steps seg (s @ t) =
     (fst (seg_steps (fst (seg_steps seg s)) t), snd (seg_steps seg s) @ snd (seg_steps (fst (seg_steps seg s)) t))"
  by (induction s arbitrary: seg) (simp_all add: split_beta)

lemma seg_steps_run:
  "seg_state seg = thinkSegText \<Longrightarrow> \<forall>c \<in> set s. \<not> tag_start c \<Longrightarrow> seg_steps seg s = (seg, map SeenText s)"
  by (induction s) (simp_all add: seg_step_def)

lemma seg_feed_steps: "(fst (seg_feed seg s []), seen (snd (seg_feed seg s []))) = seg_steps seg s"
proof (induction s arbitrary: seg rule: length_induct)
  case (1 s)
  note IH = "1.IH" [rule_format]
  show ?case
  proof (cases s)
    case (Cons c rest)
    show ?thesis
    proof (cases "seg_state seg \<noteq> thinkSegText \<or> tag_start c")
      case True
      have "length rest < length s" by (simp add: Cons)
      note IH' = IH [OF this, of "fst (seg_step seg c)", symmetric]
      show ?thesis
        using seg_feed_queue [of "fst (seg_step seg c)" rest "snd (seg_step seg c)"]
        by (simp add: Cons seg_feed_one [OF True] IH' split_beta)
    next
      case False
      let ?r = "dropWhile (\<lambda>x. \<not> tag_start x) rest" and ?w = "takeWhile (\<lambda>x. \<not> tag_start x) rest"
      have "length ?r < length s"
        using length_dropWhile_le [of "\<lambda>x. \<not> tag_start x" rest] Cons by simp
      note IH' = IH [OF this, of seg, symmetric]
      have run: "seg_steps seg (c # ?w) = (seg, map SeenText (c # ?w))"
        using False by (intro seg_steps_run) (auto dest: set_takeWhileD)
      have "seg_steps seg (c # rest) = seg_steps seg ((c # ?w) @ ?r)" by simp
      also have "\<dots> = (fst (seg_steps seg ?r), map SeenText (c # ?w) @ snd (seg_steps seg ?r))"
        by (subst seg_steps_append) (simp only: run fst_conv snd_conv)
      finally show ?thesis
        using False seg_feed_queue [of seg ?r "[EmitText (c # ?w)]"]
        by (simp add: Cons seg_feed_run IH')
    qed
  qed simp
qed

lemmas seg_feed_by_steps = seg_feed_steps [THEN arg_cong [where f = fst], simplified]
  seg_feed_steps [THEN arg_cong [where f = snd], simplified]

interpretation segmenter: chunked seg_feed seen
proof (unfold_locales, goal_cases)
  case (2 seg x q)
  show ?case by (rule seg_feed_queue)
qed (simp_all add: seg_feed_by_steps seg_steps_append)

end
