(* ===== verification/Think_Agree.thy ===== *)
theory Think_Agree
  imports Think_Segment
begin

text \<open>
  The three readers of inline reasoning side by side: the demultiplexer of finished parts refines the
  reference of \<open>Think_Split\<close>; on a stream whose text and reasoning hold no tag characters all three
  agree, however the stream is cut; and where they differ from the reference.
\<close>

subsection \<open>The demultiplexer of finished parts\<close>

lemma side_simps [simp]:
  "side m [] = []" "side m (xs @ ys) = side m xs @ side m ys"
  "side m (map (Pair m') s) = (if m = m' then s else [])"
  by (auto simp: side_def filter_map comp_def)

lemma table_tag_ne: "indexAnyTag s (table_tags m) = Some (i, n) \<Longrightarrow> n \<noteq> 0"
  by (auto simp: table_tags_def ThinkOpenTags_def ThinkCloseTags_def dest!: indexAnyTag_Some split: if_splits)

lemma table_demux_step:
  "demux table_tags m s =
     (case indexAnyTag s (table_tags m) of
        None \<Rightarrow> (m, map (Pair m) s)
      | Some (i, n) \<Rightarrow> (fst (demux table_tags (\<not> m) (drop (i + n) s)),
                       map (Pair m) (take i s) @ snd (demux table_tags (\<not> m) (drop (i + n) s))))"
  by (subst demux.simps) (auto split: option.splits prod.splits dest: table_tag_ne)

lemma segment_loop_step:
  "segment_loop d rest out bodies =
     (if rest = [] then (d, out, bodies)
      else (case indexAnyTag rest (table_tags (cInThink d)) of
              Some (i, n) \<Rightarrow>
                segment_loop (d\<lparr>cInThink := \<not> cInThink d\<rparr>) (drop (i + n) rest)
                  (if cInThink d then out else out @ take i rest)
                  (if cInThink d \<and> take i rest \<noteq> [] then bodies @ [take i rest] else bodies)
            | None \<Rightarrow> if cInThink d then (d, out, bodies @ [rest]) else (d, out @ rest, bodies)))"
  by (subst segment_loop.simps) (auto simp: table_tags_def split: option.splits)

lemma segment_loop_demux:
  "[] \<notin> set bodies \<Longrightarrow>
   case segment_loop d rest out bodies of (d', out', bodies') \<Rightarrow>
     cInThink d' = fst (demux table_tags (cInThink d) rest)
   \<and> out' = out @ side False (snd (demux table_tags (cInThink d) rest))
   \<and> concat bodies' = concat bodies @ side True (snd (demux table_tags (cInThink d) rest))
   \<and> [] \<notin> set bodies'"
proof (induction rest arbitrary: d out bodies rule: length_induct)
  case (1 rest)
  note IH = "1.IH" [rule_format]
  show ?case
  proof (cases "indexAnyTag rest (table_tags (cInThink d))")
    case None
    then show ?thesis
      using "1.prems" by (auto simp: segment_loop_step [of d rest] table_demux_step [of _ rest])
  next
    case (Some found)
    then obtain i n where at: "indexAnyTag rest (table_tags (cInThink d)) = Some (i, n)" by (cases found) auto
    have ne: "rest \<noteq> []" using at table_tag_ne [OF at] by (auto dest!: indexAnyTag_Some Index_Some)
    have "length (drop (i + n) rest) < length rest" using table_tag_ne [OF at] ne by (cases rest) auto
    note IH' = IH [OF this, of "if cInThink d \<and> take i rest \<noteq> [] then bodies @ [take i rest] else bodies"
        "d\<lparr>cInThink := \<not> cInThink d\<rparr>" "if cInThink d then out else out @ take i rest"]
    show ?thesis
      using IH' "1.prems" at ne
      by (cases "cInThink d"; cases "i = 0")
         (simp_all add: segment_loop_step [of d rest] table_demux_step [of _ rest] split_beta)
  qed
qed

text \<open>
  The demultiplexer of finished parts computes the reference: the clean text of a part is the
  bytes the reference marks as text, its bodies, none of them empty, concatenate to the bytes it marks as
  reasoning, and the mode it carries to the next part is the reference's.
\<close>

theorem segment_refines_demux:
  "case segment d text of (d', clean, bodies) \<Rightarrow>
   case demux table_tags (cInThink d) text of (m, out) \<Rightarrow>
     cInThink d' = m \<and> clean = side False out \<and> concat bodies = side True out \<and> [] \<notin> set bodies"
  using segment_loop_demux [of "[]" d "text" "[]"] by (simp add: segment_def split_beta)

subsection \<open>Streams without stray tag characters\<close>

definition plain_text :: "string \<Rightarrow> bool" where
  "plain_text s \<longleftrightarrow> (\<forall>c \<in> set s. \<not> tag_start c)"

type_synonym block = "string \<times> string \<times> string \<times> string"

fun render_block :: "block \<Rightarrow> string" where
  "render_block (t, op, b, cl) = t @ op @ b @ cl"

fun tagged_block :: "(bool \<Rightarrow> string list) \<Rightarrow> block \<Rightarrow> bool" where
  "tagged_block tags (t, op, b, cl) \<longleftrightarrow>
     plain_text t \<and> plain_text b \<and> op \<in> set (tags False) \<and> cl \<in> set (tags True)"

definition render :: "block list \<Rightarrow> string \<Rightarrow> string" where
  "render bs end_text = concat (map render_block bs) @ end_text"

definition block_texts :: "block list \<Rightarrow> string" where
  "block_texts bs = concat (map fst bs)"

definition block_bodies :: "block list \<Rightarrow> string list" where
  "block_bodies bs = filter (\<lambda>b. b \<noteq> []) (map (fst \<circ> snd \<circ> snd) bs)"

definition tag_table :: "string list \<Rightarrow> bool" where
  "tag_table tags \<longleftrightarrow>
     (\<forall>u \<in> set tags. u \<noteq> [] \<and> tag_start (hd u))
   \<and> (\<forall>u \<in> set tags. \<forall>v \<in> set tags. \<forall>r. HasPrefix (v @ r) u \<longrightarrow> u = v)"

lemma tag_tables: "tag_table (table_tags m)" "tag_table (splitter_tags m)"
  by (auto simp: tag_table_def table_tags_def splitter_tags_def ThinkOpenTags_def ThinkCloseTags_def
      thinkOpenTag_def thinkCloseTag_def tag_start_def HasPrefix_Cons)

lemma Index_plain:
  assumes "plain_text t" and "u \<noteq> []" and "tag_start (hd u)"
  shows "Index (t @ s) u = map_option ((+) (length t)) (Index s u)"
proof (rule Index_past)
  fix i assume "i < length t"
  then have "drop i t @ s = t ! i # drop (Suc i) t @ s" by (simp add: Cons_nth_drop_Suc [symmetric])
  moreover have "\<not> tag_start (t ! i)" using \<open>i < length t\<close> assms(1) by (simp add: plain_text_def)
  ultimately show "\<not> HasPrefix (drop i t @ s) u"
    using assms(2,3) by (cases u) (auto simp: HasPrefix_Cons)
qed

lemma any_tag_step_cases:
  "Index s u = None \<Longrightarrow> any_tag_step s best u = best"
  "Index s u = Some i \<Longrightarrow> any_tag_step s None u = Some (i, length u)"
  "Index s u = Some i \<Longrightarrow> any_tag_step s (Some (j, k)) u = (if i < j then Some (i, length u) else Some (j, k))"
  by (simp_all add: any_tag_step_def)

definition tag_later_than :: "nat \<Rightarrow> (nat \<times> nat) option \<Rightarrow> bool" where
  "tag_later_than n r \<longleftrightarrow> (\<forall>p. r = Some p \<longrightarrow> n < fst p)"

lemma any_tag_fold:
  assumes "\<And>u i. u \<in> set tags \<Longrightarrow> Index s u = Some i \<Longrightarrow> n < i \<or> i = n \<and> u = v"
    and "Index s v = Some n"
  shows "if v \<in> set tags then foldl (any_tag_step s) None tags = Some (n, length v)
         else tag_later_than n (foldl (any_tag_step s) None tags)"
  using assms(1)
proof (induction tags rule: rev_induct)
  case Nil
  then show ?case by (simp add: tag_later_than_def)
next
  case (snoc u tags)
  let ?r = "foldl (any_tag_step s) None tags"
  have IH: "if v \<in> set tags then ?r = Some (n, length v) else tag_later_than n ?r"
    using snoc.IH snoc.prems by auto
  show ?case
  proof (cases "Index s u")
    case None
    then have "u \<noteq> v" using assms(2) by auto
    with None IH show ?thesis by (simp add: any_tag_step_cases split: if_splits)
  next
    case (Some i)
    then have i: "n < i \<or> i = n \<and> u = v" using snoc.prems by simp
    then show ?thesis
      using IH Some assms(2) by (cases ?r) (auto simp: any_tag_step_cases tag_later_than_def split: if_splits)
  qed
qed

lemma indexAnyTag_after:
  assumes table: "tag_table tags" and v: "v \<in> set tags"
    and at: "\<And>u. u \<in> set tags \<Longrightarrow> Index (t @ v @ s) u = map_option ((+) (length t)) (Index (v @ s) u)"
  shows "indexAnyTag (t @ v @ s) tags = Some (length t, length v)"
proof -
  have zero: "Index (v @ s) v = Some 0" by (subst Index.simps) simp
  have "length t < i \<or> i = length t \<and> u = v" if u: "u \<in> set tags" "Index (t @ v @ s) u = Some i" for u i
  proof -
    obtain j where j: "Index (v @ s) u = Some j" "i = length t + j" using u at by auto
    then have "j = 0 \<Longrightarrow> u = v" using Index_Some [OF j(1)] table u(1) v by (auto simp: tag_table_def)
    with j show ?thesis by auto
  qed
  moreover have "Index (t @ v @ s) v = Some (length t)" using at [OF v] zero by simp
  ultimately show ?thesis using any_tag_fold [of tags "t @ v @ s" "length t" v] v by (simp add: indexAnyTag_def)
qed

lemma indexAnyTag_plain:
  "tag_table tags \<Longrightarrow> v \<in> set tags \<Longrightarrow> plain_text t \<Longrightarrow>
   indexAnyTag (t @ v @ s) tags = Some (length t, length v)"
  by (rule indexAnyTag_after) (auto simp: tag_table_def Index_plain)

lemma indexAnyTag_plain_None:
  assumes "tag_table tags" and "plain_text t"
  shows "indexAnyTag t tags = None"
proof (cases "indexAnyTag t tags")
  case (Some r)
  then obtain u where "u \<in> set tags" "Index t u = Some (fst r)" by (cases r) (auto dest: indexAnyTag_Some)
  moreover have "Index [] u = None" if "u \<noteq> []" using that by (subst Index.simps) (simp add: HasPrefix_def)
  ultimately show ?thesis
    using Index_plain [OF assms(2), of u "[]"] assms(1) by (auto simp: tag_table_def)
qed simp

lemma demux_plain:
  assumes "tag_table (tags m)" and "v \<in> set (tags m)" and "plain_text t"
  shows "demux tags m (t @ v @ s) = (fst (demux tags (\<not> m) s), map (Pair m) t @ snd (demux tags (\<not> m) s))"
  using assms by (subst demux.simps) (auto simp: indexAnyTag_plain tag_table_def split: prod.splits)

lemma demux_render:
  assumes tags: "\<And>m. tag_table (tags m)" and "list_all (tagged_block tags) bs" and "plain_text end_text"
  shows "fst (demux tags False (render bs end_text)) = False
       \<and> side False (snd (demux tags False (render bs end_text))) = block_texts bs @ end_text
       \<and> side True (snd (demux tags False (render bs end_text))) = concat (block_bodies bs)"
  using assms(2,3)
proof (induction bs)
  case Nil
  then show ?case
    by (subst (1 2 3) demux.simps)
       (simp add: indexAnyTag_plain_None tags render_def block_texts_def block_bodies_def)
next
  case (Cons block bs)
  obtain t op b cl where block: "block = (t, op, b, cl)" by (cases block)
  have "render (block # bs) end_text = t @ op @ b @ cl @ render bs end_text" by (simp add: render_def block)
  then show ?case
    using Cons tags by (simp add: block demux_plain block_texts_def block_bodies_def)
qed

subsection \<open>The segmenter on such streams\<close>

definition text_seen :: "seen list \<Rightarrow> string" where
  "text_seen xs = concat (map (\<lambda>x. case x of SeenText c \<Rightarrow> [c] | _ \<Rightarrow> []) xs)"

definition bodies_seen :: "seen list \<Rightarrow> string list" where
  "bodies_seen xs = concat (map (\<lambda>x. case x of SeenBody b \<Rightarrow> [b] | _ \<Rightarrow> []) xs)"

lemma seen_projections [simp]:
  "text_seen [] = []" "text_seen (xs @ ys) = text_seen xs @ text_seen ys"
  "text_seen (map SeenText s) = s" "text_seen (map SeenThink s) = []" "text_seen (SeenBody b # xs) = text_seen xs"
  "bodies_seen [] = []" "bodies_seen (xs @ ys) = bodies_seen xs @ bodies_seen ys"
  "bodies_seen (map SeenText s) = []" "bodies_seen (map SeenThink s) = []" "bodies_seen (SeenBody b # xs) = b # bodies_seen xs"
  by (induction s) (auto simp: text_seen_def bodies_seen_def)

lemma emitted_seen: "emitted_text evs = text_seen (seen evs) \<and> committed_bodies evs = bodies_seen (seen evs)"
proof (induction evs)
  case (Cons e evs)
  then show ?case by (cases e) (simp_all add: emitted_text_def committed_bodies_def)
qed (simp add: emitted_text_def committed_bodies_def)

definition in_body_of :: "string \<Rightarrow> thinkSegmenter" where
  "in_body_of b = newSegmenter\<lparr>seg_state := thinkSegInBody, seg_buf := b, bodyStarted := True\<rparr>"

lemmas seg_run = seg_step_def in_open_def in_close_def commit_def Let_def tag_start_def newSegmenter_def in_body_of_def
  isCompleteOpen_def couldBeOpenPrefix_def isCompleteClose_def couldBeClosePrefix_def
  ThinkOpenTags_def ThinkCloseTags_def HasPrefix_Cons

lemma seg_steps_open: "op \<in> set ThinkOpenTags \<Longrightarrow> seg_steps newSegmenter op = (in_body_of [], [])"
  by (simp add: ThinkOpenTags_def, elim disjE; simp add: seg_run)

lemma seg_steps_close:
  "cl \<in> set ThinkCloseTags \<Longrightarrow>
   seg_steps (in_body_of b) cl = (newSegmenter, if b = [] then [] else [SeenBody b])"
  by (simp add: ThinkCloseTags_def, elim disjE; simp add: seg_run in_body_def)

lemma seg_steps_text: "plain_text t \<Longrightarrow> seg_steps newSegmenter t = (newSegmenter, map SeenText t)"
  by (rule seg_steps_run) (auto simp: plain_text_def newSegmenter_def)

lemma seg_steps_body:
  "plain_text b \<Longrightarrow> seg_steps (in_body_of a) b = (in_body_of (a @ b), map SeenThink (concat (map byte_string b)))"
proof (induction b arbitrary: a)
  case (Cons c b)
  have "seg_step (in_body_of a) c = (in_body_of (a @ [c]), [GrowThink (byte_string c)])"
    using Cons.prems by (simp add: seg_step_def in_body_def in_body_of_def plain_text_def)
  with Cons show ?case by (simp add: plain_text_def)
qed simp

lemma seg_steps_render:
  assumes "list_all (tagged_block table_tags) bs" and "plain_text end_text"
  shows "fst (seg_steps newSegmenter (render bs end_text)) = newSegmenter
       \<and> text_seen (snd (seg_steps newSegmenter (render bs end_text))) = block_texts bs @ end_text
       \<and> bodies_seen (snd (seg_steps newSegmenter (render bs end_text))) = block_bodies bs"
  using assms
proof (induction bs)
  case Nil
  then show ?case by (simp add: render_def seg_steps_text block_texts_def block_bodies_def)
next
  case (Cons block bs)
  obtain t op b cl where block: "block = (t, op, b, cl)" by (cases block)
  have "render (block # bs) end_text = t @ op @ b @ cl @ render bs end_text" by (simp add: render_def block)
  then show ?case
    using Cons
    by (simp add: block seg_steps_append seg_steps_text seg_steps_open seg_steps_body seg_steps_close
        table_tags_def block_texts_def block_bodies_def)
qed

subsection \<open>Agreement\<close>

lemma render_Cons: "render ((t, op, b, cl) # bs) e = t @ op @ b @ cl @ render bs e"
  by (simp add: render_def)

lemma segment_loop_render:
  assumes "list_all (tagged_block table_tags) bs" and "plain_text e"
  shows "segment_loop \<lparr>cInThink = False\<rparr> (render bs e) out bodies =
           (\<lparr>cInThink = False\<rparr>, out @ block_texts bs @ e, bodies @ block_bodies bs)"
  using assms
proof (induction bs arbitrary: out bodies)
  case Nil
  then show ?case
    by (subst segment_loop_step)
       (simp add: indexAnyTag_plain_None tag_tables render_def block_texts_def block_bodies_def)
next
  case (Cons block bs)
  obtain t op b cl where block: "block = (t, op, b, cl)" by (cases block)
  have tags: "plain_text t" "plain_text b" "op \<in> set (table_tags False)" "cl \<in> set (table_tags True)"
    using Cons.prems by (simp_all add: block)
  then have ne: "op \<noteq> []" "cl \<noteq> []" using tag_tables(1) by (auto simp: tag_table_def)
  have "segment_loop \<lparr>cInThink = False\<rparr> (t @ op @ b @ cl @ render bs e) out bodies =
          segment_loop \<lparr>cInThink = False\<rparr> (render bs e) (out @ t) (if b = [] then bodies else bodies @ [b])"
    using tags ne
    by (simp add: segment_loop_step [of _ "t @ op @ b @ cl @ render bs e"] segment_loop_step [of _ "b @ cl @ render bs e"]
        indexAnyTag_plain tag_tables)
  then show ?case
    using Cons by (simp add: block render_Cons block_texts_def block_bodies_def)
qed

lemma collect_by_steps:
  "seg_steps newSegmenter s = (newSegmenter, out) \<Longrightarrow> collect_text_part s = (text_seen out, bodies_seen out)"
  using seg_feed_steps [of newSegmenter s]
  by (auto simp: collect_text_part_def flushBody_def split_beta newSegmenter_def emitted_seen)

text \<open>
  C31. Where the text and the reasoning of a stream hold no \<open><\<close> and no \<open>|\<close>, the Ask service's segmenter
  and the OpenCode adapter's demultiplexer agree, for every spelling of the tags in the shared table:
  the text is what stands outside the blocks and the bodies are the nonempty blocks, each once and in
  order; and the segmenter, fed the stream in any chunks, emits the same text and commits the same bodies.
\<close>

theorem readers_agree:
  assumes bs: "list_all (tagged_block table_tags) bs" and e: "plain_text e"
    and chunks: "concat chunks = render bs e"
  shows "segment newCompletedThinkDemux (render bs e) =
           (newCompletedThinkDemux, block_texts bs @ e, block_bodies bs)
       \<and> collect_text_part (render bs e) = (block_texts bs @ e, block_bodies bs)
       \<and> (case foldl (\<lambda>(seg, evs) d. seg_feed seg d evs) (newSegmenter, []) chunks of (seg, evs) \<Rightarrow>
            seg = newSegmenter \<and> emitted_text evs = block_texts bs @ e \<and> committed_bodies evs = block_bodies bs)"
proof (intro conjI)
  note run = seg_steps_render [OF bs e]
  show "segment newCompletedThinkDemux (render bs e) =
          (newCompletedThinkDemux, block_texts bs @ e, block_bodies bs)"
    using segment_loop_render [OF bs e, of "[]" "[]"] by (simp add: segment_def newCompletedThinkDemux_def)
  show "collect_text_part (render bs e) = (block_texts bs @ e, block_bodies bs)"
    using run collect_by_steps [of "render bs e"] by (metis prod.collapse)
  show "case foldl (\<lambda>(seg, evs) d. seg_feed seg d evs) (newSegmenter, []) chunks of (seg, evs) \<Rightarrow>
          seg = newSegmenter \<and> emitted_text evs = block_texts bs @ e \<and> committed_bodies evs = block_bodies bs"
    using run segmenter.feed_all [of newSegmenter "[]" chunks]
    by (auto simp: split_beta emitted_seen chunks seg_feed_by_steps)
qed

theorem readers_agree_witness:
  "segment newCompletedThinkDemux (render [(''a'', ''<thought>'', ''b'', ''|/think'')] ''c'') =
     (newCompletedThinkDemux, ''ac'', [''b''])
   \<and> collect_text_part (render [(''a'', ''<thought>'', ''b'', ''|/think'')] ''c'') = (''ac'', [''b''])"
  using readers_agree [of "[(''a'', ''<thought>'', ''b'', ''|/think'')]" "''c''" "[''a<tho'', ''ught>b|/thinkc'']"]
  by (simp add: plain_text_def tag_start_def table_tags_def ThinkOpenTags_def ThinkCloseTags_def render_def
      block_texts_def block_bodies_def)

text \<open>
  A stream built from text and reasoning blocks in the \<open>think\<close> tags comes back from the
  splitter: however it is cut into chunks, after \<open>drain\<close> the text events spell the text, the reasoning
  events the bodies.
\<close>

theorem splitter_roundtrip:
  assumes "list_all (tagged_block splitter_tags) bs" and "plain_text e" and "concat chunks = render bs e"
  shows "case splitter_run chunks of (t, q) \<Rightarrow>
         case drain t q of (t', q') \<Rightarrow>
           \<not> inThink t' \<and> side False (bytes q') = block_texts bs @ e \<and> side True (bytes q') = concat (block_bodies bs)"
proof -
  obtain t q m out where r: "splitter_run chunks = (t, q)"
    and d: "demux splitter_tags False (concat chunks) = (m, out)" by (metis surj_pair)
  have m: "\<not> m" "side False out = block_texts bs @ e" "side True out = concat (block_bodies bs)"
    using demux_render [of splitter_tags bs e] tag_tables(2) assms d by simp_all
  have "inThink (fst (drain t q)) = m" and "bytes (snd (drain t q)) = out"
    using splitter_run_read [OF r d] by (auto simp: drain_def Let_def bytes_def)
  with m r show ?thesis by (simp add: split_beta)
qed

theorem splitter_roundtrip_witness:
  "case splitter_run [''a<th'', ''ink>b</thin'', ''k>c''] of (t, q) \<Rightarrow>
   case drain t q of (t', q') \<Rightarrow>
     \<not> inThink t' \<and> side False (bytes q') = ''ac'' \<and> side True (bytes q') = ''b''"
  using splitter_roundtrip [of "[(''a'', thinkOpenTag, ''b'', thinkCloseTag)]" "''c''" "[''a<th'', ''ink>b</thin'', ''k>c'']"]
  by (simp add: plain_text_def tag_start_def splitter_tags_def thinkOpenTag_def thinkCloseTag_def render_def
      block_texts_def block_bodies_def)

subsection \<open>Where the segmenter departs from the reference\<close>

text \<open>
  A finished text part that ends in \<open>|\<close> or \<open><\<close>, such as the last row of a Markdown table, loses that
  byte: the segmenter holds it as the possible start of a tag and the flush at the end of the part drops it.
\<close>

theorem last_tag_start_lost:
  assumes "plain_text t" and "tag_start c"
  shows "collect_text_part (t @ [c]) = (t, []) \<and> demux table_tags False (t @ [c]) = (False, map (Pair False) (t @ [c]))"
proof
  let ?seg = "newSegmenter\<lparr>seg_state := thinkSegInOpenTag, pendingOpen := [c]\<rparr>"
  have "seg_steps newSegmenter [c] = (?seg, [])" using assms(2) by (simp add: seg_step_def newSegmenter_def)
  then have "seg_steps newSegmenter (t @ [c]) = (?seg, map SeenText t)"
    by (simp only: seg_steps_append seg_steps_text [OF assms(1)] fst_conv snd_conv append_Nil2)
  then have run: "fst (seg_feed newSegmenter (t @ [c]) []) = ?seg"
    "seen (snd (seg_feed newSegmenter (t @ [c]) [])) = map SeenText t"
    by (simp_all add: seg_feed_by_steps)
  show "collect_text_part (t @ [c]) = (t, [])"
    using run by (simp add: collect_text_part_def split_beta flushBody_def emitted_seen newSegmenter_def)
  have "Index (t @ [c]) u = None" if "u \<in> set (table_tags False)" for u
  proof -
    have u: "u \<noteq> []" "tag_start (hd u)" "length u > 1"
      using that by (auto simp: table_tags_def ThinkOpenTags_def tag_start_def)
    have "Index [c] u = None"
      using u(3) Index_Some [of "[c]" u] by (cases "Index [c] u") auto
    then show ?thesis using Index_plain [OF assms(1) u(1,2), of "[c]"] by simp
  qed
  then have "indexAnyTag (t @ [c]) (table_tags False) = None"
    by (cases "indexAnyTag (t @ [c]) (table_tags False)") (auto dest: indexAnyTag_Some)
  then show "demux table_tags False (t @ [c]) = (False, map (Pair False) (t @ [c]))" by (simp add: table_demux_step)
qed

theorem last_tag_start_lost_witness:
  "collect_text_part ''yes or no: |'' = (''yes or no: '', [])"
  using last_tag_start_lost [of "''yes or no: ''" "CHR ''|''"] by (simp add: plain_text_def tag_start_def)

text \<open>
  A stray \<open><\<close> right before an open tag hides it from the segmenter, which flushes both bytes as text and
  so misses the start of the tag: the whole reasoning, tags included, becomes reply text. The
  demultiplexer of finished parts routes the same bytes to the reasoning.
\<close>

theorem stray_byte_leaks_reasoning:
  assumes "plain_text t" and "plain_text b" and "b \<noteq> []"
  shows "collect_text_part (t @ ''<<think>'' @ b @ ''</think>'') = (t @ ''<<think>'' @ b @ ''</think>'', [])
       \<and> segment newCompletedThinkDemux (t @ ''<<think>'' @ b @ ''</think>'') = (newCompletedThinkDemux, t @ ''<'', [b])"
proof
  have p: "plain_text ''think>''" by (simp add: plain_text_def tag_start_def)
  have flush: "seg_steps newSegmenter ''<<'' = (newSegmenter, map SeenText ''<<'')"
    "seg_steps newSegmenter ''</'' = (newSegmenter, map SeenText ''</'')" by (simp_all add: seg_run)
  have "t @ ''<<think>'' @ b @ ''</think>'' = t @ ''<<'' @ ''think>'' @ b @ ''</'' @ ''think>''" by simp
  also have "seg_steps newSegmenter \<dots> = (newSegmenter, map SeenText (t @ ''<<'' @ ''think>'' @ b @ ''</'' @ ''think>''))"
    by (simp only: seg_steps_append seg_steps_text [OF assms(1)] seg_steps_text [OF assms(2)] seg_steps_text [OF p]
        flush fst_conv snd_conv map_append)
  finally show "collect_text_part (t @ ''<<think>'' @ b @ ''</think>'') = (t @ ''<<think>'' @ b @ ''</think>'', [])"
    using collect_by_steps by (fastforce simp del: map_append)
  show "segment newCompletedThinkDemux (t @ ''<<think>'' @ b @ ''</think>'') = (newCompletedThinkDemux, t @ ''<'', [b])"
  proof -
    have "Index (t @ ''<'' @ ''<think>'' @ s) u = map_option ((+) (length (t @ ''<''))) (Index (''<think>'' @ s) u)"
      if u: "u \<in> set (table_tags False)" for u s
    proof -
      have "u \<noteq> []" "tag_start (hd u)" "\<not> HasPrefix (''<'' @ ''<think>'' @ s) u"
        using u by (auto simp: table_tags_def ThinkOpenTags_def tag_start_def HasPrefix_Cons)
      then show ?thesis
        using Index_plain [OF assms(1), of u "''<'' @ ''<think>'' @ s"] Index_Cons [of "CHR ''<''" "''<think>'' @ s" u]
        by (cases "Index (''<think>'' @ s) u") simp_all
    qed
    then have "indexAnyTag ((t @ ''<'') @ ''<think>'' @ b @ ''</think>'') (table_tags False) = Some (length (t @ ''<''), 7)"
      using indexAnyTag_after [OF tag_tables(1) [of False], of "''<think>''" "t @ ''<''" "b @ ''</think>''"]
      by (simp add: table_tags_def ThinkOpenTags_def)
    moreover have "indexAnyTag (b @ ''</think>'' @ []) (table_tags True) = Some (length b, 8)"
      using indexAnyTag_plain [OF tag_tables(1) [of True], of "''</think>''" b "[]"] assms(2)
      by (simp add: table_tags_def ThinkCloseTags_def)
    ultimately show ?thesis
      using assms(3)
      by (simp add: segment_def newCompletedThinkDemux_def segment_loop_step [of _ "t @ CHR ''<'' # _"]
          segment_loop_step [of _ "b @ _"] segment_loop_step [of _ "[]"])
  qed
qed

end
