(* ===== verification/Ask_Collect.thy ===== *)
theory Ask_Collect
  imports Think_Agree
begin

text \<open>
  How the Ask service accumulates one attempt at an answer (\<open>internal/askorchicon/chat.go\<close>): streamed
  deltas go through the live segmenter into live buffers, finished parts into the durable reply and
  reasoning, and \<open>settleAttempt\<close> is the one exit that folds what is left of the stream. Publishing to
  the clients, the throttle of the mirror and the stall monitor have no effect on these buffers and are
  left out; the consent and tool events are in the \<open>Consent\<close> theories.
\<close>

record collector =
  sent :: bool
  reply :: string
  liveText :: string
  liveReasoning :: string
  segThink :: thinkSegmenter
  col_reasoning :: "string list"
  committedThink :: "string list"

definition new_attempt :: collector where
  "new_attempt =
     \<lparr>sent = False, reply = [], liveText = [], liveReasoning = [], segThink = newSegmenter,
      col_reasoning = [], committedThink = []\<rparr>"

definition commitThink :: "string \<Rightarrow> collector \<Rightarrow> collector" where
  "commitThink body c =
     (if body = [] then c
      else if body \<in> set (committedThink c) then c
      else c\<lparr>committedThink := body # committedThink c, col_reasoning := col_reasoning c @ [body]\<rparr>)"

text \<open>The three callbacks the delta arm hands to the segmenter.\<close>

fun on_segment :: "SegEvent \<Rightarrow> collector \<Rightarrow> collector" where
  "on_segment (EmitText t) c = c\<lparr>liveText := liveText c @ t\<rparr>"
| "on_segment (GrowThink b) c = c\<lparr>liveReasoning := liveReasoning c @ b\<rparr>"
| "on_segment (CommitThink b) c = commitThink b (c\<lparr>liveReasoning := []\<rparr>)"

definition on_delta :: "bool \<Rightarrow> string \<Rightarrow> collector \<Rightarrow> collector" where
  "on_delta isReasoning delta c =
     (if \<not> sent c then c
      else if isReasoning \<and> \<not> seg_inThink (segThink c) then c\<lparr>liveReasoning := liveReasoning c @ delta\<rparr>
      else (let (seg, evs) = seg_feed (segThink c) delta []
            in (fold on_segment evs c)\<lparr>segThink := seg\<rparr>))"

definition on_text_part :: "string \<Rightarrow> collector \<Rightarrow> collector" where
  "on_text_part part c =
     (if \<not> sent c then c
      else if part = [] then c
      else (let (clean, foldedBodies) = collect_text_part part;
                c = c\<lparr>liveText := [], liveReasoning := [], segThink := reset (segThink c)\<rparr>;
                c = fold commitThink foldedBodies c
            in if clean \<noteq> [] then c\<lparr>reply := reply c @ clean @ [CHR 0x0A, CHR 0x0A]\<rparr> else c))"

definition on_reasoning_part :: "string \<Rightarrow> collector \<Rightarrow> collector" where
  "on_reasoning_part part c =
     (if \<not> sent c then c
      else if part \<noteq> [] then c\<lparr>col_reasoning := col_reasoning c @ [part], liveReasoning := []\<rparr> else c)"

definition mirrorSnapshot :: "collector \<Rightarrow> string \<times> string list" where
  "mirrorSnapshot c =
     (reply c @ liveText c,
      if liveReasoning c \<noteq> [] then col_reasoning c @ [liveReasoning c] else col_reasoning c)"

definition foldReasoningTail :: "string \<Rightarrow> string \<Rightarrow> string" where
  "foldReasoningTail live_tail flushed =
     (if flushed = [] then live_tail
      else if HasSuffix live_tail flushed then TrimSuffix live_tail flushed
      else live_tail)"

definition settleAttempt :: "collector \<Rightarrow> string \<times> string list \<times> collector" where
  "settleAttempt c =
     (let live_tail = liveReasoning c;
          (seg, evs) = flushBody (segThink c) [];
          bodies = committed_bodies evs;
          flushed = (if bodies \<noteq> [] then last bodies else []);
          c = (fold commitThink bodies c)\<lparr>segThink := seg\<rparr>;
          rest = foldReasoningTail live_tail flushed;
          c = (if TrimSpace rest \<noteq> [] then c\<lparr>col_reasoning := col_reasoning c @ [rest]\<rparr> else c);
          c = c\<lparr>liveReasoning := []\<rparr>;
          answer = (if liveText c \<noteq> [] then reply c @ liveText c else reply c)
      in (answer, col_reasoning c, c))"

subsection \<open>A streamed answer\<close>

fun on_seen :: "seen \<Rightarrow> collector \<Rightarrow> collector" where
  "on_seen (SeenText x) c = c\<lparr>liveText := liveText c @ [x]\<rparr>"
| "on_seen (SeenThink x) c = c\<lparr>liveReasoning := liveReasoning c @ [x]\<rparr>"
| "on_seen (SeenBody b) c = commitThink b (c\<lparr>liveReasoning := []\<rparr>)"

definition as_bytes :: "string \<Rightarrow> string" where
  "as_bytes b = concat (map byte_string b)"

definition record_bodies :: "string list \<Rightarrow> string list \<Rightarrow> string list" where
  "record_bodies bodies old = fold (\<lambda>b acc. if b \<in> set acc then acc else acc @ [b]) bodies old"

definition body_known :: "collector \<Rightarrow> bool" where
  "body_known c \<longleftrightarrow> set (committedThink c) = set (col_reasoning c)"

lemma commitThink_frame [simp]:
  "sent (commitThink b c) = sent c" "reply (commitThink b c) = reply c" "liveText (commitThink b c) = liveText c"
  "liveReasoning (commitThink b c) = liveReasoning c" "segThink (commitThink b c) = segThink c"
  "commitThink b (c\<lparr>liveText := x\<rparr>) = (commitThink b c)\<lparr>liveText := x\<rparr>"
  "commitThink b (c\<lparr>liveReasoning := x\<rparr>) = (commitThink b c)\<lparr>liveReasoning := x\<rparr>"
  "commitThink b (c\<lparr>segThink := g\<rparr>) = (commitThink b c)\<lparr>segThink := g\<rparr>"
  by (simp_all add: commitThink_def)

lemma fold_commit_frame [simp]:
  "sent (fold commitThink bs c) = sent c" "reply (fold commitThink bs c) = reply c"
  "liveText (fold commitThink bs c) = liveText c" "liveReasoning (fold commitThink bs c) = liveReasoning c"
  "segThink (fold commitThink bs c) = segThink c"
  "fold commitThink bs (c\<lparr>liveText := x\<rparr>) = (fold commitThink bs c)\<lparr>liveText := x\<rparr>"
  "fold commitThink bs (c\<lparr>liveReasoning := y\<rparr>) = (fold commitThink bs c)\<lparr>liveReasoning := y\<rparr>"
  "fold commitThink bs (c\<lparr>segThink := g\<rparr>) = (fold commitThink bs c)\<lparr>segThink := g\<rparr>"
  by (induction bs arbitrary: c x) simp_all

lemma commitThink_known:
  "body_known c \<Longrightarrow> b \<noteq> [] \<Longrightarrow>
   body_known (commitThink b c) \<and> col_reasoning (commitThink b c) = record_bodies [b] (col_reasoning c)"
  by (auto simp: commitThink_def body_known_def record_bodies_def)

lemma fold_commit_known:
  "body_known c \<Longrightarrow> [] \<notin> set bs \<Longrightarrow>
   body_known (fold commitThink bs c) \<and> col_reasoning (fold commitThink bs c) = record_bodies bs (col_reasoning c)"
proof (induction bs arbitrary: c)
  case (Cons b bs)
  then show ?case using commitThink_known [of c b] by (auto simp: record_bodies_def)
qed (simp add: record_bodies_def)

lemma commitThink_keeps: "set (committedThink c) \<subseteq> set (committedThink (commitThink b c))"
  by (auto simp: commitThink_def)

lemma fold_commit_keeps: "set (committedThink c) \<subseteq> set (committedThink (fold commitThink bs c))"
proof (induction bs arbitrary: c)
  case (Cons b bs)
  then show ?case using commitThink_keeps [of c b] by fastforce
qed simp

lemma fold_commit_committed: "[] \<notin> set bs \<Longrightarrow> set bs \<subseteq> set (committedThink (fold commitThink bs c))"
proof (induction bs arbitrary: c)
  case (Cons b bs)
  have "b \<in> set (committedThink (commitThink b c))" using Cons.prems by (auto simp: commitThink_def)
  then show ?case using Cons fold_commit_keeps [of "commitThink b c" bs] by auto
qed simp

lemma fold_commit_again: "set bs \<subseteq> set (committedThink c) \<Longrightarrow> fold commitThink bs c = c"
  by (induction bs) (auto simp: commitThink_def)

lemma on_seen_frame:
  "sent (on_seen x c) = sent c" "on_seen x (c\<lparr>segThink := g\<rparr>) = (on_seen x c)\<lparr>segThink := g\<rparr>"
  by (cases x; simp)+

lemma fold_seen_frame [simp]:
  "sent (fold on_seen xs c) = sent c" "fold on_seen xs (c\<lparr>segThink := g\<rparr>) = (fold on_seen xs c)\<lparr>segThink := g\<rparr>"
  by (induction xs arbitrary: c) (simp_all add: on_seen_frame)

lemma on_seen_runs:
  "fold on_seen (map SeenText t) c = c\<lparr>liveText := liveText c @ t\<rparr>"
  "fold on_seen (map SeenThink t) c = c\<lparr>liveReasoning := liveReasoning c @ t\<rparr>"
  by (induction t arbitrary: c) simp_all

lemma fold_on_segment: "fold on_segment evs c = fold on_seen (seen evs) c"
proof (induction evs arbitrary: c)
  case (Cons e evs)
  then show ?case by (cases e) (simp_all add: on_seen_runs)
qed simp

lemma on_delta_chunks:
  assumes "sent c"
  shows "fold (on_delta False) chunks c =
           (fold on_seen (snd (seg_steps (segThink c) (concat chunks))) c)
             \<lparr>segThink := fst (seg_steps (segThink c) (concat chunks))\<rparr>"
  using assms
proof (induction chunks arbitrary: c)
  case (Cons d chunks)
  have "on_delta False d c =
          (fold on_seen (snd (seg_steps (segThink c) d)) c)\<lparr>segThink := fst (seg_steps (segThink c) d)\<rparr>"
    using Cons.prems seg_feed_by_steps [of "segThink c" d]
    by (simp add: on_delta_def split_beta fold_on_segment)
  with Cons show ?case by (simp add: seg_steps_append)
qed simp

fun seen_block :: "block \<Rightarrow> seen list" where
  "seen_block (t, op, b, cl) =
     map SeenText t @ map SeenThink (as_bytes b) @ (if b = [] then [] else [SeenBody b])"

lemma seg_steps_blocks:
  assumes "list_all (tagged_block table_tags) bs"
  shows "seg_steps newSegmenter (render bs s) =
           (fst (seg_steps newSegmenter s), concat (map seen_block bs) @ snd (seg_steps newSegmenter s))"
  using assms
proof (induction bs)
  case (Cons block bs)
  obtain t op b cl where block: "block = (t, op, b, cl)" by (cases block)
  show ?case
    using Cons
    by (simp add: block render_Cons seg_steps_append seg_steps_text seg_steps_open seg_steps_body seg_steps_close
        table_tags_def as_bytes_def)
qed (simp add: render_def)

lemma on_seen_blocks:
  "liveReasoning c = [] \<Longrightarrow>
   fold on_seen (concat (map seen_block bs)) c =
     (fold commitThink (block_bodies bs) c)\<lparr>liveText := liveText c @ block_texts bs\<rparr>"
proof (induction bs arbitrary: c)
  case (Cons block bs)
  obtain t op b cl where block: "block = (t, op, b, cl)" by (cases block)
  have [simp]: "c\<lparr>liveReasoning := []\<rparr> = c" using Cons.prems by simp
  have "fold on_seen (seen_block block) c = (commitThink b c)\<lparr>liveText := liveText c @ t\<rparr>"
    using Cons.prems by (simp add: block on_seen_runs commitThink_def [of "[]"] as_bytes_def)
  then show ?case
    using Cons by (simp add: block block_bodies_def block_texts_def commitThink_def [of "[]"])
qed (simp add: block_bodies_def block_texts_def)

definition stream_attempt :: "string list \<Rightarrow> collector" where
  "stream_attempt chunks = fold (on_delta False) chunks (new_attempt\<lparr>sent := True\<rparr>)"

lemma stream_attempt_eq:
  assumes "list_all (tagged_block table_tags) bs" and "concat chunks = render bs s"
    and "seg_steps newSegmenter s = (g, out)"
  shows "stream_attempt chunks =
           (fold on_seen out ((fold commitThink (block_bodies bs) (new_attempt\<lparr>sent := True\<rparr>))
              \<lparr>liveText := block_texts bs\<rparr>))\<lparr>segThink := g\<rparr>"
  using assms on_seen_blocks [of "new_attempt\<lparr>sent := True\<rparr>" bs]
  by (simp add: stream_attempt_def on_delta_chunks new_attempt_def seg_steps_blocks)

lemma block_bodies_ne: "[] \<notin> set (block_bodies bs)"
  by (auto simp: block_bodies_def)

lemma attempt_recorded:
  "[] \<notin> set bodies \<Longrightarrow>
   col_reasoning (fold commitThink bodies (new_attempt\<lparr>sent := True\<rparr>)) = record_bodies bodies []"
  using fold_commit_known [of "new_attempt\<lparr>sent := True\<rparr>" bodies] by (simp add: body_known_def new_attempt_def)

lemma flushBody_new [simp]: "flushBody newSegmenter [] = (newSegmenter, [])"
  by (simp add: flushBody_def newSegmenter_def reset_def)

lemma flushBody_open: "b \<noteq> [] \<Longrightarrow> flushBody (in_body_of b) [] = (newSegmenter, [CommitThink b])"
  by (simp add: flushBody_def newSegmenter_def reset_def in_body_of_def commit_def)

lemma render_open:
  assumes "plain_text t" and "op \<in> set ThinkOpenTags" and "plain_text b"
  shows "seg_steps newSegmenter (t @ op @ b) = (in_body_of b, map SeenText t @ map SeenThink (as_bytes b))"
  using assms by (simp add: seg_steps_append seg_steps_text seg_steps_open seg_steps_body as_bytes_def)




lemma byte_string_lead:
  assumes "192 \<le> (of_char x :: nat)"
  shows "byte_string x = [CHR 0xC3, char_of (128 + of_char x mod 64 :: nat)]"
proof -
  have "(of_char x :: nat) < 256" by (rule nat_of_char_less_256)
  then have "(of_char x :: nat) \<le> 255" by linarith
  then have "(of_char x :: nat) div 64 = 3"
    using assms div_le_mono [of 192 "of_char x :: nat" 64] div_le_mono [of "of_char x :: nat" 255 64] by simp
  moreover have "char_of (195 :: nat) = CHR 0xC3" by code_simp
  ultimately show ?thesis using assms by (simp add: byte_string_def Let_def)
qed

lemma as_bytes_longer: "length s \<le> length (as_bytes s)"
proof (induction s)
  case (Cons c s)
  have "length (byte_string c) \<ge> 1" by (simp add: byte_string_def Let_def)
  with Cons show ?case by (simp add: as_bytes_def)
qed simp

lemma garbled_rest:
  assumes "192 \<le> (of_char x :: nat)"
  shows "\<exists>rest. foldReasoningTail (as_bytes (x # b)) (x # b) = rest \<and> rest \<noteq> []
           \<and> hd rest = CHR 0xC3 \<and> TrimSpace rest \<noteq> []"
proof -
  let ?b = "x # b" and ?live = "as_bytes (x # b)"
  define rest where "rest = foldReasoningTail ?live ?b"
  obtain y where live: "?live = CHR 0xC3 # y # as_bytes b"
    using byte_string_lead [OF assms] by (simp add: as_bytes_def)
  then have "length ?live - length ?b > 0" using as_bytes_longer [of b] by simp
  then obtain n where n: "length ?live - length ?b = Suc n" by (cases "length ?live - length ?b") auto
  have "rest = ?live \<or> rest = take (length ?live - length ?b) ?live"
    unfolding rest_def foldReasoningTail_def TrimSuffix_def by simp
  then have rest: "rest \<noteq> [] \<and> hd rest = CHR 0xC3" unfolding n by (elim disjE) (simp_all add: live)
  then have "CHR 0xC3 \<in> set rest" by (metis hd_in_set)
  then have "TrimSpace rest \<noteq> []" by (rule TrimSpace_not_blank) (simp add: is_space_def)
  with rest show ?thesis unfolding rest_def by blast
qed

text \<open>
  The assumption on the open block is needed. The live buffer grows by \<open>string(delta[i])\<close>, which
  encodes each byte of a multi-byte character a second time, so for a body that starts with a
  non-ASCII character \<open>foldReasoningTail\<close> does not recognise the body the flush has committed and the
  garbled copy is recorded as one more reasoning entry.
\<close>

theorem open_block_recorded_twice:
  assumes bs: "list_all (tagged_block table_tags) bs" and op: "op \<in> set ThinkOpenTags"
    and plain: "plain_text t" "plain_text (x # b)" and lead: "192 \<le> (of_char x :: nat)"
    and chunks: "concat chunks = render bs (t @ op @ x # b)"
  shows "case settleAttempt (stream_attempt chunks) of (answer, reasoning, c) \<Rightarrow>
           \<exists>garbled. garbled \<noteq> [] \<and> hd garbled = CHR 0xC3 \<and>
             reasoning = record_bodies (block_bodies bs @ [x # b]) [] @ [garbled]"
proof -
  let ?c = "fold commitThink (block_bodies bs) (new_attempt\<lparr>sent := True\<rparr>)" and ?b = "x # b"
  let ?live = "as_bytes ?b"
  note eq = stream_attempt_eq [OF bs chunks render_open [OF plain(1) op plain(2)]]
  have c: "stream_attempt chunks =
        ?c\<lparr>liveText := block_texts bs @ t, liveReasoning := ?live, segThink := in_body_of ?b\<rparr>"
    by (simp add: eq on_seen_runs new_attempt_def)
  have rec: "col_reasoning (commitThink ?b ?c) = record_bodies (block_bodies bs @ [?b]) []"
    using attempt_recorded [of "block_bodies bs @ [?b]"] by (simp add: block_bodies_ne)
  obtain rest where rest: "foldReasoningTail ?live ?b = rest" "rest \<noteq> []" "hd rest = CHR 0xC3" "TrimSpace rest \<noteq> []"
    using garbled_rest [OF lead, of b] by blast
  have flush: "flushBody (in_body_of ?b) [] = (newSegmenter, [CommitThink ?b])" by (rule flushBody_open) simp
  have "fst (snd (settleAttempt (stream_attempt chunks))) = record_bodies (block_bodies bs @ [?b]) [] @ [rest]"
    using rec rest by (simp add: c settleAttempt_def flush committed_bodies_def new_attempt_def Let_def)
  then show ?thesis using rest by (auto simp: split_beta)
qed

theorem open_block_recorded_twice_witness:
  "case settleAttempt (stream_attempt [''<think>'' @ [CHR 0xC3, CHR 0xA9]]) of (answer, reasoning, c) \<Rightarrow>
     \<exists>garbled. garbled \<noteq> [] \<and> hd garbled = CHR 0xC3 \<and> reasoning = [[CHR 0xC3, CHR 0xA9], garbled]"
  using open_block_recorded_twice [of "[]" "''<think>''" "[]" "CHR 0xC3" "[CHR 0xA9]" "[''<think>'' @ [CHR 0xC3, CHR 0xA9]]"]
  by (simp add: plain_text_def tag_start_def ThinkOpenTags_def render_def block_bodies_def record_bodies_def)

text \<open>
  A finished text part replaces the deltas that built it and nothing is counted twice: after
  the deltas and the part the reply is the part's text, the live buffers are empty and the reasoning
  is what the deltas had already recorded.
\<close>

theorem part_subsumes_deltas:
  assumes bs: "list_all (tagged_block table_tags) bs" and e: "plain_text e"
    and chunks: "concat chunks = render bs e" and ne: "block_texts bs @ e \<noteq> []"
  shows "on_text_part (render bs e) (stream_attempt chunks) =
           (stream_attempt chunks)\<lparr>reply := block_texts bs @ e @ [CHR 0x0A, CHR 0x0A], liveText := []\<rparr>"
proof -
  let ?bodies = "block_bodies bs"
  let ?c = "fold commitThink ?bodies (new_attempt\<lparr>sent := True\<rparr>)"
  have c: "stream_attempt chunks = ?c\<lparr>liveText := block_texts bs @ e, segThink := newSegmenter\<rparr>"
    using stream_attempt_eq [OF bs chunks seg_steps_text [OF e]] by (simp add: on_seen_runs)
  have again: "fold commitThink ?bodies ?c = ?c"
    using fold_commit_again fold_commit_committed block_bodies_ne by blast
  have live: "liveReasoning ?c = []" "segThink ?c = newSegmenter" by (simp_all add: new_attempt_def)
  have "collect_text_part (render bs e) = (block_texts bs @ e, ?bodies)"
    using seg_steps_render [OF bs e] collect_by_steps [of "render bs e"] by (metis prod.collapse)
  moreover have "render bs e \<noteq> []" using ne by (fastforce simp: render_def block_texts_def)
  moreover have "reset newSegmenter = newSegmenter" by (simp add: reset_def newSegmenter_def)
  ultimately show ?thesis
    using ne again live by (simp add: c on_text_part_def new_attempt_def)
qed

end
