(* ===== verification/Stall_Monitor.thy ===== *)
theory Stall_Monitor
  imports Go_Prelude Go_Numbers "HOL-Library.Word"
begin

text \<open>
  The native runtime's progress monitor (\<open>internal/orchicon/progress.go\<close>): the clocks the session
  loop feeds, the check that a ticker runs against five windows, and the revival of an advisory stall.
  Instants and durations are nanoseconds as integers, and every operation takes the instant its
  \<open>now()\<close> returns; the mutex makes each operation atomic. The signature of a tool call is computed
  from its JSON arguments by \<open>toolCallSignature\<close>, which is not modelled: the operations take the
  signature. Go ranges over a map in an unspecified order: the order is an argument of the check.
\<close>

record stallWindows =
  noProgress :: int
  noFileDiff :: int
  textLoop :: int
  repetitionN :: int
  repetitionW :: int
  toolHang :: int

type_synonym history = "string \<Rightarrow> int list option"

record progressMonitor =
  windows :: stallWindows
  startedAt :: int
  lastStepFinish :: int
  lastFileDiff :: int
  lastMeaningfulAction :: int
  lastTokenCt :: "64 word"
  sigsErr :: history
  sigsAll :: history
  fired :: bool
  toolHangName :: string
  toolHangStart :: int
  toolInFlight :: bool
  toolHangFired :: bool
  warned :: bool

abbreviation second :: int where "second \<equiv> Second"

text \<open>
  The windows: an environment variable that is set wins over the tenant's setting, even one that does
  not parse, which stands for the built-in default. \<open>Parsed\<close> holds what Go's parser read.
\<close>

datatype env_var = Unset | Unparsable | Parsed int

record stall_env =
  NO_PROGRESS_WINDOW :: env_var
  NO_FILE_DIFF_WINDOW :: env_var
  TEXT_LOOP_WINDOW :: env_var
  REPETITION_COUNT :: env_var
  REPETITION_WINDOW :: env_var
  TOOL_HANG_WINDOW :: env_var
  OLD_TOOL_HANG_WINDOW :: env_var

definition envDuration :: "env_var \<Rightarrow> int \<Rightarrow> int" where
  "envDuration v fallback = (case v of Parsed d \<Rightarrow> d | _ \<Rightarrow> fallback)"

definition envInt :: "env_var \<Rightarrow> int \<Rightarrow> int" where
  "envInt v fallback = (case v of Parsed n \<Rightarrow> if n > 0 then n else fallback | _ \<Rightarrow> fallback)"

definition toolHangDefaultWindow :: "stall_env \<Rightarrow> int" where
  "toolHangDefaultWindow E =
     (case TOOL_HANG_WINDOW E of
        Parsed d \<Rightarrow> d
      | _ \<Rightarrow> (case OLD_TOOL_HANG_WINDOW E of Parsed d \<Rightarrow> d | _ \<Rightarrow> 180 * second))"

definition defaultStallWindows :: "stall_env \<Rightarrow> stallWindows" where
  "defaultStallWindows E =
     \<lparr>noProgress = envDuration (NO_PROGRESS_WINDOW E) (300 * second),
      noFileDiff = envDuration (NO_FILE_DIFF_WINDOW E) (15 * 60 * second),
      textLoop = envDuration (TEXT_LOOP_WINDOW E) (10 * 60 * second),
      repetitionN = envInt (REPETITION_COUNT E) 5,
      repetitionW = envDuration (REPETITION_WINDOW E) (300 * second),
      toolHang = toolHangDefaultWindow E\<rparr>"

definition or_setting :: "bool \<Rightarrow> int option \<Rightarrow> int \<Rightarrow> int" where
  "or_setting free setting otherwise = (case setting of Some n \<Rightarrow> if free then n else otherwise | None \<Rightarrow> otherwise)"

definition seconds :: "int option \<Rightarrow> int option" where
  "seconds = map_option (\<lambda>n. i64 (n * second))"

definition stallWindowsFromManifest ::
    "stall_env \<Rightarrow> int option \<Rightarrow> int option \<Rightarrow> int option \<Rightarrow> int option \<Rightarrow> int option \<Rightarrow> int option \<Rightarrow> stallWindows" where
  "stallWindowsFromManifest E noProgressSec noFileDiffSec textLoopSec repCount repWindowSec toolHangSec =
     (let w = defaultStallWindows E
      in w\<lparr>noProgress := or_setting (NO_PROGRESS_WINDOW E = Unset) (seconds noProgressSec) (noProgress w),
           noFileDiff := or_setting (NO_FILE_DIFF_WINDOW E = Unset) (seconds noFileDiffSec) (noFileDiff w),
           textLoop := or_setting (TEXT_LOOP_WINDOW E = Unset) (seconds textLoopSec) (textLoop w),
           repetitionN := or_setting (REPETITION_COUNT E = Unset) repCount (repetitionN w),
           repetitionW := or_setting (REPETITION_WINDOW E = Unset) (seconds repWindowSec) (repetitionW w),
           toolHang := or_setting (TOOL_HANG_WINDOW E = Unset \<and> OLD_TOOL_HANG_WINDOW E = Unset)
                         (seconds toolHangSec) (toolHang w)\<rparr>)"

definition newProgressMonitor :: "stallWindows \<Rightarrow> int \<Rightarrow> progressMonitor" where
  "newProgressMonitor w now =
     \<lparr>windows = w, startedAt = now, lastStepFinish = now, lastFileDiff = now, lastMeaningfulAction = now,
      lastTokenCt = 0, sigsErr = Map.empty, sigsAll = Map.empty, fired = False, toolHangName = [],
      toolHangStart = 0, toolInFlight = False, toolHangFired = False, warned = False\<rparr>"

definition trimWindow :: "int list \<Rightarrow> int \<Rightarrow> int list" where
  "trimWindow ts cutoff = filter (\<lambda>t. t > cutoff) ts"

definition appendInWindow :: "int list \<Rightarrow> int \<Rightarrow> int \<Rightarrow> int list" where
  "appendInWindow hist now cutoff = filter (\<lambda>t. t > cutoff) hist @ [now]"

definition entries :: "history \<Rightarrow> string \<Rightarrow> int list" where
  "entries h sig = (case h sig of Some ts \<Rightarrow> ts | None \<Rightarrow> [])"

subsection \<open>What the loop feeds\<close>

definition observeText :: "int \<Rightarrow> progressMonitor \<Rightarrow> progressMonitor" where
  "observeText now m = m\<lparr>lastStepFinish := now\<rparr>"

definition observeStepFinish :: "int \<Rightarrow> 64 word \<Rightarrow> progressMonitor \<Rightarrow> progressMonitor" where
  "observeStepFinish now tokens m =
     m\<lparr>lastStepFinish := now, lastMeaningfulAction := now, sigsErr := Map.empty, sigsAll := Map.empty,
       lastTokenCt := lastTokenCt m + tokens\<rparr>"

definition observeToolCall :: "int \<Rightarrow> string \<Rightarrow> bool \<Rightarrow> progressMonitor \<Rightarrow> progressMonitor" where
  "observeToolCall now sig isError m =
     (let m = m\<lparr>lastMeaningfulAction := now, toolInFlight := False\<rparr>;
          cutoff = now - repetitionW (windows m);
          m = (if isError
               then m\<lparr>sigsErr := (sigsErr m)(sig \<mapsto> appendInWindow (entries (sigsErr m) sig) now cutoff)\<rparr>
               else m\<lparr>sigsErr := Map.empty\<rparr>)
      in m\<lparr>sigsAll := (sigsAll m)(sig \<mapsto> appendInWindow (entries (sigsAll m) sig) now cutoff)\<rparr>)"

definition observeToolStart :: "int \<Rightarrow> string \<Rightarrow> progressMonitor \<Rightarrow> progressMonitor" where
  "observeToolStart now name m =
     (let m = (if name \<noteq> [] then m\<lparr>toolHangName := name\<rparr> else m)
      in m\<lparr>toolHangStart := now, toolInFlight := True\<rparr>)"

definition observeFileDiff :: "int \<Rightarrow> progressMonitor \<Rightarrow> progressMonitor" where
  "observeFileDiff now m =
     m\<lparr>lastFileDiff := now, lastMeaningfulAction := now, sigsErr := Map.empty, sigsAll := Map.empty\<rparr>"

subsection \<open>The check\<close>

definition text_loop_reason :: string where
  "text_loop_reason = ''stalled:text_loop:You were talking in circles without making progress. On the next attempt, start fresh with a clear plan, make a concrete tool call or file edit within the first few turns.''"

text \<open>The range over a history with its early return.\<close>

fun scan_history :: "int \<Rightarrow> int \<Rightarrow> string list \<Rightarrow> history \<Rightarrow> string option \<times> history" where
  "scan_history cutoff limit [] h = (None, h)"
| "scan_history cutoff limit (sig # sigs) h =
     (let kept = trimWindow (entries h sig) cutoff; h = h(sig \<mapsto> kept)
      in if int (length kept) > limit then (Some sig, h) else scan_history cutoff limit sigs h)"

definition tier2_limit :: "int \<Rightarrow> int" where
  "tier2_limit n = (let tier2N = n * 2 in if tier2N < n + 3 then n + 3 else tier2N)"

definition check_repetition ::
    "int \<Rightarrow> string list \<Rightarrow> string list \<Rightarrow> progressMonitor \<Rightarrow> string \<times> progressMonitor" where
  "check_repetition now err_order all_order m =
     (let n = repetitionN (windows m); cutoff = now - repetitionW (windows m)
      in case scan_history cutoff n err_order (sigsErr m) of
           (Some sig, h) \<Rightarrow> (''stalled:repetition:'' @ sig, m\<lparr>sigsErr := h\<rparr>)
         | (None, h) \<Rightarrow>
             (let m = m\<lparr>sigsErr := h\<rparr>
              in case scan_history cutoff (tier2_limit n) all_order (sigsAll m) of
                   (Some sig, h) \<Rightarrow> (''stalled:repetition:completed:'' @ sig, m\<lparr>sigsAll := h\<rparr>)
                 | (None, h) \<Rightarrow> ([], m\<lparr>sigsAll := h\<rparr>)))"

definition check :: "int \<Rightarrow> string list \<Rightarrow> string list \<Rightarrow> progressMonitor \<Rightarrow> string \<times> progressMonitor" where
  "check now err_order all_order m =
     (if fired m then ([], m)
      else if toolHang (windows m) > 0 \<and> toolInFlight m \<and> \<not> toolHangFired m
              \<and> now - toolHangStart m > toolHang (windows m) then
        (''stalled:tool_hang:'' @ (if toolHangName m = [] then ''unknown'' else toolHangName m),
         m\<lparr>toolHangFired := True\<rparr>)
      else if noProgress (windows m) > 0 \<and> now - lastStepFinish m > noProgress (windows m) then
        (''stalled:no_progress'', m\<lparr>fired := True\<rparr>)
      else if noFileDiff (windows m) > 0 \<and> now - lastFileDiff m > noFileDiff (windows m) \<and> \<not> warned m then
        (''stalled:no_file_progress'', m\<lparr>warned := True\<rparr>)
      else if textLoop (windows m) > 0 \<and> now - lastMeaningfulAction m > textLoop (windows m) then
        (text_loop_reason, m)
      else if repetitionN (windows m) > 0 then check_repetition now err_order all_order m
      else ([], m))"

definition checkRevival :: "int \<Rightarrow> progressMonitor \<Rightarrow> string \<times> progressMonitor" where
  "checkRevival now m =
     (if \<not> warned m then ([], m)
      else if noFileDiff (windows m) > 0 \<and> now - lastFileDiff m \<le> noFileDiff (windows m) then
        (''recovered:no_file_progress'', m\<lparr>warned := False\<rparr>)
      else ([], m))"

definition isFatalStall :: "string \<Rightarrow> bool" where
  "isFatalStall reason \<longleftrightarrow> HasPrefix reason ''stalled:no_progress''"

definition poll_interval :: "stallWindows \<Rightarrow> int" where
  "poll_interval w =
     (let poll = 30 * second;
          poll = (if noProgress w > 0 \<and> noProgress w < poll then noProgress w else poll);
          poll = (if noFileDiff w > 0 \<and> noFileDiff w < poll then noFileDiff w else poll);
          poll = (if textLoop w > 0 \<and> textLoop w < poll then textLoop w else poll);
          poll = (if toolHang w > 0 \<and> toolHang w < poll then toolHang w else poll);
          poll = (if poll > 30 * second then 30 * second else poll);
          poll = (if poll < 5 * second then 5 * second else poll)
      in poll)"

text \<open>
  One round of \<open>run\<close> at a tick: what it reports, whether it goes on, and the monitor. The two calls
  read the clock one after the other.
\<close>

datatype report = Quiet | OnStall string | OnRecovered string

definition tick :: "int \<Rightarrow> int \<Rightarrow> string list \<Rightarrow> string list \<Rightarrow> progressMonitor \<Rightarrow> report \<times> bool \<times> progressMonitor" where
  "tick now now' err_order all_order m =
     (let (reason, m) = check now err_order all_order m
      in if reason \<noteq> [] then (OnStall reason, \<not> isFatalStall reason, m)
         else (let (recovered, m) = checkRevival now' m
               in (if recovered \<noteq> [] then OnRecovered recovered else Quiet, True, m)))"

end
