(* ===== verification/Stall_Laws.thy ===== *)
theory Stall_Laws
  imports Stall_Monitor
begin

text \<open>
  What the progress monitor reports over whole histories: every sequence of observations and ticks is
  a list of events. Fatal stalls and tool hangs are reported at most once, the advisory stall and its
  recovery alternate, the repetition check is exact for the calls since the last progress, and what
  follows from the loop reporting progress at the end of every turn.
\<close>

subsection \<open>Histories\<close>

datatype mon_event =
    Text int
  | StepFinish int "64 word"
  | Call int string bool
  | Start int string
  | FileDiff int
  | Tick int int "string list" "string list"

record mon_run =
  monitor :: progressMonitor
  running :: bool
  reports :: "report list"

fun mon_step :: "mon_event \<Rightarrow> mon_run \<Rightarrow> mon_run" where
  "mon_step (Text t) r = r\<lparr>monitor := observeText t (monitor r)\<rparr>"
| "mon_step (StepFinish t tokens) r = r\<lparr>monitor := observeStepFinish t tokens (monitor r)\<rparr>"
| "mon_step (Call t sig err) r = r\<lparr>monitor := observeToolCall t sig err (monitor r)\<rparr>"
| "mon_step (Start t name) r = r\<lparr>monitor := observeToolStart t name (monitor r)\<rparr>"
| "mon_step (FileDiff t) r = r\<lparr>monitor := observeFileDiff t (monitor r)\<rparr>"
| "mon_step (Tick t t' eo ao) r =
     (if running r
      then (let (rep, go, m) = tick t t' eo ao (monitor r)
            in r\<lparr>monitor := m, running := go, reports := reports r @ [rep]\<rparr>)
      else r)"

definition mon_start :: "stallWindows \<Rightarrow> int \<Rightarrow> mon_run" where
  "mon_start w t = \<lparr>monitor = newProgressMonitor w t, running = True, reports = []\<rparr>"

definition mon_history :: "stallWindows \<Rightarrow> int \<Rightarrow> mon_event list \<Rightarrow> mon_run" where
  "mon_history w t evs = fold mon_step evs (mon_start w t)"

lemmas observe_defs = observeText_def observeStepFinish_def observeToolCall_def observeToolStart_def
  observeFileDiff_def Let_def

subsection \<open>The reasons apart\<close>

definition hang_reason :: "string \<Rightarrow> string" where
  "hang_reason name = ''stalled:tool_hang:'' @ name"

definition is_hang :: "report \<Rightarrow> bool" where
  "is_hang rep \<longleftrightarrow> (\<exists>name. rep = OnStall (hang_reason name))"

definition is_fatal :: "report \<Rightarrow> bool" where
  "is_fatal rep \<longleftrightarrow> rep = OnStall ''stalled:no_progress''"

definition is_no_file :: "report \<Rightarrow> bool" where
  "is_no_file rep \<longleftrightarrow> rep = OnStall ''stalled:no_file_progress''"

definition is_recovery :: "report \<Rightarrow> bool" where
  "is_recovery rep \<longleftrightarrow> rep = OnRecovered ''recovered:no_file_progress''"

definition is_repetition :: "report \<Rightarrow> bool" where
  "is_repetition rep \<longleftrightarrow> (\<exists>x. rep = OnStall (''stalled:repetition:'' @ x))"

lemmas report_kinds = is_hang_def is_fatal_def is_no_file_def is_recovery_def is_repetition_def

definition repeats :: "string \<Rightarrow> bool" where
  "repeats reason \<longleftrightarrow> reason = [] \<or> (\<exists>x. reason = ''stalled:repetition:'' @ x)"

lemma check_repetition_frame:
  assumes "check_repetition now eo ao m = (reason, m')"
  shows "repeats reason \<and> m' = m\<lparr>sigsErr := sigsErr m', sigsAll := sigsAll m'\<rparr>"
  using assms by (auto simp: check_repetition_def repeats_def Let_def split: prod.splits option.splits)

lemma check_cases:
  obtains (fired) "fired m" "check now eo ao m = ([], m)"
  | (hang) name where "\<not> fired m" "\<not> toolHangFired m" "toolInFlight m" "now - toolHangStart m > toolHang (windows m)"
      "check now eo ao m = (hang_reason name, m\<lparr>toolHangFired := True\<rparr>)"
  | (fatal) "\<not> fired m" "noProgress (windows m) > 0" "now - lastStepFinish m > noProgress (windows m)"
      "check now eo ao m = (''stalled:no_progress'', m\<lparr>fired := True\<rparr>)"
  | (no_file) "\<not> fired m" "\<not> warned m" "noFileDiff (windows m) > 0" "now - lastFileDiff m > noFileDiff (windows m)"
      "check now eo ao m = (''stalled:no_file_progress'', m\<lparr>warned := True\<rparr>)"
  | (text_loop) "\<not> fired m" "now - lastMeaningfulAction m > textLoop (windows m)" "check now eo ao m = (text_loop_reason, m)"
  | (rest) reason eh ah where "\<not> fired m" "repeats reason"
      "check now eo ao m = (reason, m\<lparr>sigsErr := eh, sigsAll := ah\<rparr>)"
proof (cases "fired m")
  case True
  then show ?thesis by (intro fired) (simp_all add: check_def)
next
  case nf: False
  let ?w = "windows m"
  consider (h) "toolHang ?w > 0" "toolInFlight m" "\<not> toolHangFired m" "now - toolHangStart m > toolHang ?w"
    | (o) "\<not> (toolHang ?w > 0 \<and> toolInFlight m \<and> \<not> toolHangFired m \<and> now - toolHangStart m > toolHang ?w)"
    by blast
  then show ?thesis
  proof cases
    case h
    with nf show ?thesis by (intro hang) (simp_all add: check_def hang_reason_def)
  next
    case o
    consider (p) "noProgress ?w > 0 \<and> now - lastStepFinish m > noProgress ?w"
      | (f) "\<not> (noProgress ?w > 0 \<and> now - lastStepFinish m > noProgress ?w)"
          "noFileDiff ?w > 0 \<and> now - lastFileDiff m > noFileDiff ?w \<and> \<not> warned m"
      | (t) "\<not> (noProgress ?w > 0 \<and> now - lastStepFinish m > noProgress ?w)"
          "\<not> (noFileDiff ?w > 0 \<and> now - lastFileDiff m > noFileDiff ?w \<and> \<not> warned m)"
          "textLoop ?w > 0 \<and> now - lastMeaningfulAction m > textLoop ?w"
      | (r) "check now eo ao m = (if repetitionN ?w > 0 then check_repetition now eo ao m else ([], m))"
      using nf o by (simp only: check_def if_False) argo
    then show ?thesis
    proof cases
      case p
      with nf o show ?thesis by (intro fatal) (simp_all only: check_def if_False if_True simp_thms)
    next
      case f
      with nf o show ?thesis by (intro no_file) (simp_all only: check_def if_False if_True simp_thms)
    next
      case t
      with nf o show ?thesis by (intro text_loop) (simp_all only: check_def if_False if_True simp_thms)
    next
      case r
      obtain reason m' where cr: "check_repetition now eo ao m = (reason, m')" by (cases "check_repetition now eo ao m")
      show ?thesis
      proof (cases "repetitionN ?w > 0")
        case True
        then show ?thesis using nf r cr check_repetition_frame [OF cr] by (intro rest) auto
      next
        case False
        then show ?thesis using nf r
          by (intro rest [of "[]" "sigsAll m" "sigsErr m"]) (simp_all add: repeats_def)
      qed
    qed
  qed
qed

lemma kinds_of_reasons [simp]:
  "is_hang (OnStall (hang_reason name))" "\<not> is_fatal (OnStall (hang_reason name))"
  "\<not> is_no_file (OnStall (hang_reason name))" "\<not> isFatalStall (hang_reason name)"
  "\<not> is_hang (OnStall ''stalled:no_progress'')" "is_fatal (OnStall ''stalled:no_progress'')"
  "\<not> is_no_file (OnStall ''stalled:no_progress'')" "isFatalStall ''stalled:no_progress''"
  "\<not> is_hang (OnStall ''stalled:no_file_progress'')" "\<not> is_fatal (OnStall ''stalled:no_file_progress'')"
  "is_no_file (OnStall ''stalled:no_file_progress'')" "\<not> isFatalStall ''stalled:no_file_progress''"
  "\<not> is_hang (OnStall text_loop_reason)" "\<not> is_fatal (OnStall text_loop_reason)"
  "\<not> is_no_file (OnStall text_loop_reason)" "\<not> isFatalStall text_loop_reason"
  "\<not> is_recovery (OnStall x)"
  by (auto simp: report_kinds hang_reason_def isFatalStall_def text_loop_reason_def HasPrefix_Cons)

lemma kinds_of_repeats:
  "repeats reason \<Longrightarrow> reason \<noteq> [] \<Longrightarrow> \<not> is_hang (OnStall reason)"
  "repeats reason \<Longrightarrow> reason \<noteq> [] \<Longrightarrow> \<not> is_fatal (OnStall reason)"
  "repeats reason \<Longrightarrow> reason \<noteq> [] \<Longrightarrow> \<not> is_no_file (OnStall reason)"
  "repeats reason \<Longrightarrow> \<not> isFatalStall reason"
  by (auto simp: repeats_def report_kinds hang_reason_def isFatalStall_def HasPrefix_Cons)

lemma kinds_of_others [simp]:
  "\<not> is_hang (OnRecovered x)" "\<not> is_fatal (OnRecovered x)" "\<not> is_no_file (OnRecovered x)"
  "is_recovery (OnRecovered ''recovered:no_file_progress'')"
  "\<not> is_hang Quiet" "\<not> is_fatal Quiet" "\<not> is_no_file Quiet" "\<not> is_recovery Quiet"
  by (auto simp: report_kinds)

definition count_of :: "(report \<Rightarrow> bool) \<Rightarrow> report list \<Rightarrow> nat" where
  "count_of P reps = length (filter P reps)"

lemma count_of_simps [simp]:
  "count_of P [] = 0" "count_of P (reps @ [x]) = count_of P reps + (if P x then 1 else 0)"
  by (simp_all add: count_of_def)

definition mon_inv :: "mon_run \<Rightarrow> bool" where
  "mon_inv r \<longleftrightarrow>
     running r = (\<not> fired (monitor r))
   \<and> count_of is_fatal (reports r) = (if fired (monitor r) then 1 else 0)
   \<and> (fired (monitor r) \<longrightarrow> is_fatal (last (reports r)))
   \<and> count_of is_hang (reports r) = (if toolHangFired (monitor r) then 1 else 0)
   \<and> count_of is_no_file (reports r) = count_of is_recovery (reports r) + (if warned (monitor r) then 1 else 0)"

lemma observe_frame [simp]:
  "fired (observeText t m) = fired m" "fired (observeStepFinish t k m) = fired m"
  "fired (observeToolCall t sig err m) = fired m" "fired (observeToolStart t name m) = fired m"
  "fired (observeFileDiff t m) = fired m"
  "toolHangFired (observeText t m) = toolHangFired m" "toolHangFired (observeStepFinish t k m) = toolHangFired m"
  "toolHangFired (observeToolCall t sig err m) = toolHangFired m"
  "toolHangFired (observeToolStart t name m) = toolHangFired m" "toolHangFired (observeFileDiff t m) = toolHangFired m"
  "warned (observeText t m) = warned m" "warned (observeStepFinish t k m) = warned m"
  "warned (observeToolCall t sig err m) = warned m" "warned (observeToolStart t name m) = warned m"
  "warned (observeFileDiff t m) = warned m"
  by (simp_all add: observe_defs)

lemma tick_stall:
  "check now eo ao m = (reason, m') \<Longrightarrow> reason \<noteq> [] \<Longrightarrow>
   tick now now' eo ao m = (OnStall reason, \<not> isFatalStall reason, m')"
  by (simp add: tick_def)

lemma tick_quiet:
  "check now eo ao m = ([], m') \<Longrightarrow>
   tick now now' eo ao m =
     (if warned m' \<and> noFileDiff (windows m') > 0 \<and> now' - lastFileDiff m' \<le> noFileDiff (windows m')
      then (OnRecovered ''recovered:no_file_progress'', True, m'\<lparr>warned := False\<rparr>) else (Quiet, True, m'))"
  by (simp add: tick_def checkRevival_def)

lemma reason_ne [simp]: "text_loop_reason \<noteq> []" "hang_reason name \<noteq> []"
  by (simp_all add: text_loop_reason_def hang_reason_def)

lemma tick_inv:
  assumes inv: "mon_inv r" and run: "running r" and tick: "tick t t' eo ao (monitor r) = (rep, go, m)"
  shows "mon_inv (r\<lparr>monitor := m, running := go, reports := reports r @ [rep]\<rparr>)"
proof (rule check_cases [of "monitor r" t eo ao], goal_cases)
  case 1
  then show ?case using inv run by (simp add: mon_inv_def)
next
  case (2 name)
  then show ?case using inv run tick tick_stall [OF 2(5)] by (auto simp: mon_inv_def)
next
  case 3
  then show ?case using inv run tick tick_stall [OF 3(4)] by (auto simp: mon_inv_def)
next
  case 4
  then show ?case using inv run tick tick_stall [OF 4(5)] by (auto simp: mon_inv_def)
next
  case 5
  then show ?case using inv run tick tick_stall [OF 5(3)] by (auto simp: mon_inv_def)
next
  case (6 reason eh ah)
  show ?case
  proof (cases "reason = []")
    case True
    with 6 have "check t eo ao (monitor r) = ([], (monitor r)\<lparr>sigsErr := eh, sigsAll := ah\<rparr>)" by simp
    note tick_quiet [OF this, of t']
    then show ?thesis using inv run tick 6(1) by (auto simp: mon_inv_def split: if_splits)
  next
    case False
    then show ?thesis
      using inv run tick 6 tick_stall [OF 6(3) False] kinds_of_repeats [OF 6(2)] by (auto simp: mon_inv_def)
  qed
qed

lemma mon_step_inv: "mon_inv r \<Longrightarrow> mon_inv (mon_step ev r)"
proof (cases ev)
  case (Tick t t' eo ao)
  assume "mon_inv r"
  then show ?thesis
    using tick_inv [of r t t' eo ao] by (cases "tick t t' eo ao (monitor r)") (simp add: Tick)
qed (simp_all add: mon_inv_def)

lemma mon_history_inv: "mon_inv (mon_history w t evs)"
proof -
  have "mon_inv (fold mon_step evs r)" if "mon_inv r" for r
    using that by (induction evs arbitrary: r) (simp_all add: mon_step_inv)
  moreover have "mon_inv (mon_start w t)"
    by (simp add: mon_inv_def mon_start_def newProgressMonitor_def)
  ultimately show ?thesis by (simp add: mon_history_def)
qed

text \<open>
  Over every history of observations and ticks the reports are well formed: the fatal stall is
  reported at most once and is the last report, a hung tool is reported at most once in the session,
  and the advisory stall and its recovery alternate, the stall first.
\<close>

theorem stall_reports_well_formed:
  "case mon_history w t evs of r \<Rightarrow>
     count_of is_fatal (reports r) \<le> 1
   \<and> (count_of is_fatal (reports r) = 1 \<longrightarrow> is_fatal (last (reports r)) \<and> \<not> running r)
   \<and> count_of is_hang (reports r) \<le> 1
   \<and> count_of is_recovery (reports r) \<le> count_of is_no_file (reports r)
   \<and> count_of is_no_file (reports r) \<le> count_of is_recovery (reports r) + 1"
  using mon_history_inv [of w t evs] by (auto simp: mon_inv_def split: if_splits)

subsection \<open>The repetition check\<close>

text \<open>
  The calls that count, read off the history: all calls since the last finished step or file change,
  and the failing ones among them since the last call that succeeded.
\<close>

fun note_call :: "mon_event \<Rightarrow> (int \<times> string) list \<Rightarrow> (int \<times> string) list" where
  "note_call (StepFinish t k) calls = []"
| "note_call (FileDiff t) calls = []"
| "note_call (Call t sig err) calls = calls @ [(t, sig)]"
| "note_call _ calls = calls"

fun note_error :: "mon_event \<Rightarrow> (int \<times> string) list \<Rightarrow> (int \<times> string) list" where
  "note_error (StepFinish t k) calls = []"
| "note_error (FileDiff t) calls = []"
| "note_error (Call t sig err) calls = (if err then calls @ [(t, sig)] else [])"
| "note_error _ calls = calls"

fun event_time :: "mon_event \<Rightarrow> int" where
  "event_time (Text t) = t" | "event_time (StepFinish t k) = t" | "event_time (Call t sig err) = t"
| "event_time (Start t name) = t" | "event_time (FileDiff t) = t" | "event_time (Tick t t' eo ao) = t"

definition times_of :: "string \<Rightarrow> (int \<times> string) list \<Rightarrow> int list" where
  "times_of sig calls = map fst (filter (\<lambda>c. snd c = sig) calls)"

definition later :: "int \<Rightarrow> int list \<Rightarrow> int list" where
  "later c ts = filter (\<lambda>t. t > c) ts"

lemma later_simps [simp]:
  "later c [] = []" "later c (xs @ ys) = later c xs @ later c ys" "c' \<le> c \<Longrightarrow> later c (later c' ts) = later c ts"
  by (auto simp: later_def intro: filter_cong)

lemma trim_later: "trimWindow ts c = later c ts" "appendInWindow ts t c = later c ts @ [t]"
  by (simp_all add: trimWindow_def appendInWindow_def later_def)

lemma entries_simps [simp]: "entries Map.empty sig = []" "entries (h(x \<mapsto> ts)) sig = (if sig = x then ts else entries h sig)"
  by (simp_all add: entries_def)

lemma scan_history_keeps:
  "scan_history cutoff limit order h = (r, h') \<Longrightarrow> cutoff \<le> c \<Longrightarrow>
   later c (entries h' sig) = later c (entries h sig)"
  by (induction order arbitrary: h) (auto simp: Let_def trim_later split: if_splits)

lemma scan_history_found:
  "(fst (scan_history cutoff limit order h) \<noteq> None) =
     (\<exists>sig \<in> set order. int (length (later cutoff (entries h sig))) > limit)"
proof (induction order arbitrary: h)
  case (Cons a order)
  show ?case
  proof (cases "int (length (later cutoff (entries h a))) > limit")
    case False
    define h' where "h' = h(a \<mapsto> later cutoff (entries h a))"
    have "later cutoff (entries h' sig) = later cutoff (entries h sig)" for sig by (simp add: h'_def)
    moreover have "scan_history cutoff limit (a # order) h = scan_history cutoff limit order h'"
      using False by (simp add: Let_def trim_later h'_def)
    ultimately show ?thesis using False Cons.IH [of h'] by simp
  qed (simp add: Let_def trim_later)
qed simp

lemma repetition_keeps:
  assumes "check_repetition now eo ao m = (reason, m')" and "now - repetitionW (windows m) \<le> c"
  shows "later c (entries (sigsErr m') sig) = later c (entries (sigsErr m) sig)"
    and "later c (entries (sigsAll m') sig) = later c (entries (sigsAll m) sig)"
  using assms scan_history_keeps [of "now - repetitionW (windows m)"]
  by (auto simp: check_repetition_def Let_def split: prod.splits option.splits)

lemma check_windows: "windows (snd (check now eo ao m)) = windows m"
  by (rule check_cases [of m now eo ao]) simp_all

lemma check_keeps:
  assumes "now - repetitionW (windows m) \<le> c"
  shows "later c (entries (sigsErr (snd (check now eo ao m))) sig) = later c (entries (sigsErr m) sig)"
    and "later c (entries (sigsAll (snd (check now eo ao m))) sig) = later c (entries (sigsAll m) sig)"
  using repetition_keeps [of now eo ao m _ _ c sig] assms
  by (cases "check_repetition now eo ao m"; simp add: check_def)+

lemma tick_keeps:
  assumes "tick now now' eo ao m = (rep, go, m')" and "now - repetitionW (windows m) \<le> c"
  shows "later c (entries (sigsErr m') sig) = later c (entries (sigsErr m) sig)"
    and "later c (entries (sigsAll m') sig) = later c (entries (sigsAll m) sig)"
    and "windows m' = windows m"
  using assms check_keeps [of now m c eo ao sig] check_windows [of now eo ao m]
  by (auto simp: tick_def checkRevival_def split_beta split: if_splits)

definition tracks :: "int \<Rightarrow> (int \<times> string) list \<Rightarrow> (int \<times> string) list \<Rightarrow> progressMonitor \<Rightarrow> bool" where
  "tracks c errs calls m \<longleftrightarrow>
     (\<forall>sig. later c (entries (sigsErr m) sig) = later c (times_of sig errs))
   \<and> (\<forall>sig. later c (entries (sigsAll m) sig) = later c (times_of sig calls))"

lemma tracks_step:
  assumes "tracks c errs calls (monitor r)" and "event_time ev - repetitionW (windows (monitor r)) \<le> c"
  shows "tracks c (note_error ev errs) (note_call ev calls) (monitor (mon_step ev r))
       \<and> windows (monitor (mon_step ev r)) = windows (monitor r)"
proof (cases ev)
  case (Tick t t' eo ao)
  obtain rep go m' where tk: "tick t t' eo ao (monitor r) = (rep, go, m')" by (cases "tick t t' eo ao (monitor r)")
  show ?thesis
    using assms tick_keeps [OF tk] by (auto simp: Tick tk tracks_def)
qed (use assms in \<open>auto simp: tracks_def observe_defs times_of_def trim_later\<close>)

lemma tracks_history:
  assumes "\<forall>ev \<in> set evs. event_time ev - repetitionW (windows (monitor r)) \<le> c"
    and "tracks c errs calls (monitor r)"
  shows "tracks c (fold note_error evs errs) (fold note_call evs calls) (monitor (fold mon_step evs r))
       \<and> windows (monitor (fold mon_step evs r)) = windows (monitor r)"
  using assms
proof (induction evs arbitrary: r errs calls)
  case (Cons ev evs)
  then show ?case
    using tracks_step [of c errs calls r ev]
      Cons.IH [of "mon_step ev r" "note_error ev errs" "note_call ev calls"] by simp
qed simp

lemma tier2_eq: "tier2_limit n = max (2 * n) (n + 3)"
  by (simp add: tier2_limit_def Let_def)

definition calls_within :: "int \<Rightarrow> string \<Rightarrow> (int \<times> string) list \<Rightarrow> int" where
  "calls_within c sig calls = int (length (later c (times_of sig calls)))"

definition covers :: "string list \<Rightarrow> history \<Rightarrow> bool" where
  "covers order h \<longleftrightarrow> dom h \<subseteq> set order"

lemma scan_found_covers:
  "covers order h \<Longrightarrow> 0 \<le> limit \<Longrightarrow>
   (fst (scan_history cutoff limit order h) \<noteq> None) = (\<exists>sig. int (length (later cutoff (entries h sig))) > limit)"
  unfolding scan_history_found covers_def entries_def by (fastforce split: option.splits)

text \<open>
  C30. The repetition check is exact for every history whose instants do not run ahead of the tick: whatever
  order the maps are ranged over in, it reports a loop iff some signature failed more than \<open>N\<close> times in the
  window since the last progress, or was called more than twice \<open>N\<close> (at least \<open>N + 3\<close>) times, though
  the histories are pruned at every call and every tick.
\<close>

theorem repetition_check_exact:
  assumes n: "repetitionN w > 0" and past: "\<forall>ev \<in> set evs. event_time ev \<le> now"
    and orders: "covers eo (sigsErr (monitor (mon_history w t0 evs)))"
      "covers ao (sigsAll (monitor (mon_history w t0 evs)))"
  shows "fst (check_repetition now eo ao (monitor (mon_history w t0 evs))) \<noteq> []
       \<longleftrightarrow> (\<exists>sig. calls_within (now - repetitionW w) sig (fold note_error evs []) > repetitionN w)
         \<or> (\<exists>sig. calls_within (now - repetitionW w) sig (fold note_call evs []) >
                  max (2 * repetitionN w) (repetitionN w + 3))"
proof -
  let ?m = "monitor (mon_history w t0 evs)" and ?c = "now - repetitionW w"
  have w: "windows (monitor (mon_start w t0)) = w" by (simp add: mon_start_def newProgressMonitor_def)
  have "tracks ?c [] [] (monitor (mon_start w t0))"
    by (simp add: tracks_def mon_start_def newProgressMonitor_def times_of_def)
  from tracks_history [OF _ this, of evs] past
  have tr: "tracks ?c (fold note_error evs []) (fold note_call evs []) ?m" and wm: "windows ?m = w"
    by (simp_all add: w mon_history_def)
  obtain re he where e: "scan_history ?c (repetitionN w) eo (sigsErr ?m) = (re, he)" by fastforce
  have t2: "0 \<le> tier2_limit (repetitionN w)" using n by (simp add: tier2_eq)
  obtain ra ha where a: "scan_history ?c (tier2_limit (repetitionN w)) ao (sigsAll ?m) = (ra, ha)" by fastforce
  have "fst (check_repetition now eo ao ?m) \<noteq> [] \<longleftrightarrow> re \<noteq> None \<or> ra \<noteq> None"
    by (auto simp: check_repetition_def wm e a Let_def split: option.splits)
  moreover have "re \<noteq> None \<longleftrightarrow> (\<exists>sig. calls_within ?c sig (fold note_error evs []) > repetitionN w)"
    using scan_found_covers [OF orders(1), of "repetitionN w" ?c] n tr
    by (simp add: e tracks_def calls_within_def)
  moreover have "ra \<noteq> None \<longleftrightarrow>
      (\<exists>sig. calls_within ?c sig (fold note_call evs []) > max (2 * repetitionN w) (repetitionN w + 3))"
    unfolding tier2_eq [symmetric]
    using scan_found_covers [OF orders(2), of "tier2_limit (repetitionN w)" ?c] t2 tr
    by (simp add: a tracks_def calls_within_def)
  ultimately show ?thesis by blast
qed

theorem repetition_check_exact_witness:
  "fst (check_repetition 60 [''bash''] [''bash'']
     (monitor (mon_history
        \<lparr>noProgress = 0, noFileDiff = 0, textLoop = 0, repetitionN = 1, repetitionW = 100, toolHang = 0\<rparr> 0
        [Call 10 ''bash'' True, Call 20 ''bash'' True]))) \<noteq> []"
proof -
  define w where
    "w = \<lparr>noProgress = 0, noFileDiff = 0, textLoop = 0, repetitionN = 1, repetitionW = 100, toolHang = 0 :: int\<rparr>"
  let ?evs = "[Call 10 ''bash'' True, Call 20 ''bash'' True]"
  have "covers [''bash''] (sigsErr (monitor (mon_history w 0 ?evs)))"
    "covers [''bash''] (sigsAll (monitor (mon_history w 0 ?evs)))"
    by (auto simp: covers_def mon_history_def mon_start_def newProgressMonitor_def observe_defs split: if_splits)
  then have "fst (check_repetition 60 [''bash''] [''bash''] (monitor (mon_history w 0 ?evs))) \<noteq> []
       \<longleftrightarrow> (\<exists>sig. calls_within (60 - repetitionW w) sig (fold note_error ?evs []) > repetitionN w)
         \<or> (\<exists>sig. calls_within (60 - repetitionW w) sig (fold note_call ?evs []) >
                  max (2 * repetitionN w) (repetitionN w + 3))"
    by (intro repetition_check_exact) (simp_all add: w_def)
  moreover have "calls_within (60 - repetitionW w) ''bash'' (fold note_error ?evs []) > repetitionN w"
    by (simp add: calls_within_def times_of_def later_def w_def)
  ultimately show ?thesis unfolding w_def by blast
qed

subsection \<open>What the session loop makes of it\<close>

text \<open>
  \<open>Session.Run\<close> reports a finished step at the end of every turn, before it runs the turn's tool calls:
  the history a turn leaves is that step, the starts of its calls, and their results.
\<close>

definition turn_events :: "int \<Rightarrow> 64 word \<Rightarrow> string list \<Rightarrow> (int \<times> string \<times> bool) list \<Rightarrow> mon_event list" where
  "turn_events t tokens names results =
     StepFinish t tokens # map (Start t) names @ map (\<lambda>(t, sig, err). Call t sig err) results"

lemma later_length: "length (later c ts) \<le> length ts"
  by (simp add: later_def)

definition few_entries :: "nat \<Rightarrow> nat \<Rightarrow> progressMonitor \<Rightarrow> bool" where
  "few_entries e a m \<longleftrightarrow>
     (\<forall>sig. length (entries (sigsErr m) sig) \<le> e) \<and> (\<forall>sig. length (entries (sigsAll m) sig) \<le> a)"

lemma few_entries_calls:
  "few_entries e a (monitor r) \<Longrightarrow>
   few_entries (e + length results) (a + length results)
     (monitor (fold mon_step (map (\<lambda>(t, sig, err). Call t sig err) results) r))"
proof (induction results arbitrary: e a r)
  case (Cons c results)
  obtain t sig err where c: "c = (t, sig, err)" by (cases c)
  have "few_entries (Suc e) (Suc a) (monitor (mon_step (Call t sig err) r))"
    using Cons.prems le_trans [OF later_length]
    by (auto simp: few_entries_def observe_defs trim_later intro: le_SucI)
  from Cons.IH [OF this] show ?case by (simp add: c)
qed simp

lemma few_entries_turns:
  assumes "\<forall>(t, k, names, results) \<in> set turns. length results \<le> n" and "few_entries n n (monitor r)"
  shows "few_entries n n
           (monitor (fold mon_step (concat (map (\<lambda>(t, k, names, results). turn_events t k names results) turns)) r))"
  using assms
proof (induction turns arbitrary: r)
  case (Cons turn turns)
  obtain t k names results where turn: "turn = (t, k, names, results)" by (cases turn)
  let ?r1 = "mon_step (StepFinish t k) r"
  let ?r2 = "fold mon_step (map (Start t) names) ?r1"
  have starts: "sigsErr (monitor (fold mon_step (map (Start t) names) r')) = sigsErr (monitor r')
      \<and> sigsAll (monitor (fold mon_step (map (Start t) names) r')) = sigsAll (monitor r')" for r'
    by (induction names arbitrary: r') (simp_all add: observe_defs)
  have "few_entries 0 0 (monitor ?r2)" by (simp add: few_entries_def starts) (simp add: observe_defs)
  from few_entries_calls [OF this, of results]
  have "few_entries n n (monitor (fold mon_step (turn_events t k names results) r))"
    using Cons.prems(1) by (auto simp: turn turn_events_def few_entries_def intro: le_trans)
  with Cons show ?case by (simp add: turn)
qed simp

lemma not_repetition:
  "\<not> is_repetition (OnStall [])" "\<not> is_repetition (OnStall (''stalled:tool_hang:'' @ name))"
  "\<not> is_repetition (OnStall ''stalled:no_progress'')" "\<not> is_repetition (OnStall ''stalled:no_file_progress'')"
  "\<not> is_repetition (OnStall text_loop_reason)"
  by (simp_all add: is_repetition_def text_loop_reason_def)

lemma few_no_repetition:
  assumes "few_entries n n m" and "int n \<le> repetitionN (windows m)" and "repetitionN (windows m) > 0"
  shows "\<not> is_repetition (OnStall (fst (check now eo ao m)))"
proof -
  let ?N = "repetitionN (windows m)" and ?c = "now - repetitionW (windows m)"
  have no: "fst (scan_history c limit order h) = None"
    if "\<forall>sig. length (entries h sig) \<le> n" "?N \<le> limit" for c limit order h
  proof -
    have "\<not> int (length (later c (entries h sig))) > limit" for sig
    proof -
      have "length (later c (entries h sig)) \<le> n" using that(1) later_length le_trans by blast
      then show ?thesis using that(2) assms(2) by linarith
    qed
    then show ?thesis using scan_history_found [of c limit order h] by blast
  qed
  have e: "fst (scan_history ?c ?N eo (sigsErr m)) = None" using assms(1) no by (simp add: few_entries_def)
  moreover have "fst (scan_history ?c (tier2_limit ?N) ao (sigsAll m)) = None"
    using assms(1,3) no by (simp add: few_entries_def tier2_eq)
  ultimately obtain he ha where "scan_history ?c ?N eo (sigsErr m) = (None, he)"
    "scan_history ?c (tier2_limit ?N) ao (sigsAll m) = (None, ha)" by (metis prod.collapse)
  then have "fst (check_repetition now eo ao m) = []" by (simp add: check_repetition_def)
  then show ?thesis
    using not_repetition by (simp only: check_def fst_conv if_distrib [of fst] split: if_split) blast
qed

text \<open>
  The repetition check cannot see a loop that runs over turns. A session whose turns make at most
  \<open>N\<close> tool calls each, however many turns there are and even if every call is the same failing one, is
  never reported as repeating, since the step reported at the end of each turn clears both histories.
\<close>

theorem loop_over_turns_unseen:
  assumes "\<forall>(t, k, names, results) \<in> set turns. length results \<le> n"
    and "int n \<le> repetitionN w" and "repetitionN w > 0"
  shows "\<not> is_repetition (OnStall (fst (check now eo ao (monitor
           (mon_history w t0 (concat (map (\<lambda>(t, k, names, results). turn_events t k names results) turns)))))))"
proof (rule few_no_repetition)
  let ?evs = "concat (map (\<lambda>(t, k, names, results). turn_events t k names results) turns)"
  show "few_entries n n (monitor (mon_history w t0 ?evs))"
    unfolding mon_history_def using assms(1)
    by (intro few_entries_turns) (simp_all add: few_entries_def mon_start_def newProgressMonitor_def)
  have "windows (monitor (mon_step ev r)) = windows (monitor r)" for ev r
    using check_windows by (cases ev) (auto simp: observe_defs tick_def checkRevival_def split_beta)
  then have "windows (monitor (fold mon_step evs r)) = windows (monitor r)" for evs r
    by (induction evs arbitrary: r) simp_all
  then have "windows (monitor (mon_history w t0 ?evs)) = w"
    by (simp add: mon_history_def mon_start_def newProgressMonitor_def)
  then show "int n \<le> repetitionN (windows (monitor (mon_history w t0 ?evs)))"
    "repetitionN (windows (monitor (mon_history w t0 ?evs))) > 0" using assms(2,3) by simp_all
qed

theorem loop_over_turns_unseen_witness:
  "\<not> is_repetition (OnStall (fst (check 1000 [''bash''] [''bash''] (monitor
     (mon_history \<lparr>noProgress = 0, noFileDiff = 0, textLoop = 0, repetitionN = 5, repetitionW = 300, toolHang = 0\<rparr> 0
       (concat (map (\<lambda>(t, k, names, results). turn_events t k names results)
          (replicate 100 (900, 1, [''bash''], [(901, ''bash'', True)])))))))))"
  by (rule loop_over_turns_unseen [of _ 1]) simp_all

text \<open>
  A tool call does not hold off the fatal stall. Whatever is running, once no text has come and no step has
  ended for the window, and the hang of the tool has been reported or is not watched, the next tick
  ends the session, although the tool's own limit may allow it to run longer.
\<close>

theorem busy_tool_is_fatal:
  assumes "running r" and "\<not> fired (monitor r)" and "toolInFlight (monitor r)"
    and "toolHangFired (monitor r) \<or> toolHang (windows (monitor r)) \<le> 0"
    and "0 < noProgress (windows (monitor r))" and "now - lastStepFinish (monitor r) > noProgress (windows (monitor r))"
  shows "let r' = mon_step (Tick now now' eo ao) r
         in reports r' = reports r @ [OnStall ''stalled:no_progress''] \<and> \<not> running r'"
proof -
  have "check now eo ao (monitor r) = (''stalled:no_progress'', (monitor r)\<lparr>fired := True\<rparr>)"
    using assms by (auto simp: check_def)
  from tick_stall [OF this, of now'] show ?thesis using assms(1) by simp
qed

end
