(* ===== verification/Stall_Nudge.thy ===== *)
theory Stall_Nudge
  imports Stall_Laws
begin

text \<open>
  What a session does with a stall (\<open>internal/orchicon/loop.go\<close>): a fatal one ends it, an advisory one nudges
  the model until the budget is spent, and each nudge starts a watchdog that ends a session which does
  not answer. The monitor goroutine, the turn loop and the watchdogs interleave; each critical section
  is one step. The locked reads and writes of one call of \<open>handleStallSignal\<close> are one step, since
  nothing else writes the counters it reads. The loop delivers its own verdicts through the same latch,
  except that the completion probe (\<open>internal/orchicon/completion.go\<close>) fails a session without taking it. What the
  output of a turn says to a probe is an argument. The transcript and the log are left out.
\<close>

subsection \<open>The session\<close>

text \<open>
  A watchdog is the instant its timer fires and the instant of its next 5-second tick. \<open>probe_failed\<close> records that
  a completion probe has delivered its verdict, \<open>loop_over\<close> that the turn loop has returned.
\<close>

record watchdog =
  deadline :: int
  next_tick :: int

record nudge_session =
  nudgeMaxVal :: int
  nudgeReplyWindowVal :: int
  nudgeCooldownVal :: int
  nudgesSent :: int
  lastNudgeAt :: "int option"
  nudgePending :: bool
  nudgeFinished :: bool
  terminalFired :: bool
  stallCh :: "string list"
  injected :: "string list"
  on_stall :: "(string \<times> bool) list"
  on_result :: "(bool \<times> string) list"
  watchdogs :: "watchdog list"
  completionProbesSent :: int
  completionProbeAwaiting :: bool
  completionProbeSawReply :: bool
  completionProbeDeferrals :: int
  probe_failed :: bool
  loop_over :: bool

definition stallNudgeMessages :: "string list" where
  "stallNudgeMessages =
     [''Are you still making progress? If you are stuck in a loop, change approach and move the task forward.'',
      ''You appear to be repeating the same actions without progress. Step back, pick a different approach, and deliver the work.'',
      ''This is the final check: break the pattern now. Complete the deliverable with the fewest possible remaining tool calls.'']"

text \<open>The knobs are resolved once, like the windows.\<close>

definition nudgeMaxFromManifest :: "env_var \<Rightarrow> int option \<Rightarrow> int" where
  "nudgeMaxFromManifest v manifestMax = or_setting (v = Unset) manifestMax (envInt v 2)"

definition nudgeReplyWindowFromManifest :: "env_var \<Rightarrow> int option \<Rightarrow> int" where
  "nudgeReplyWindowFromManifest v manifestSec = or_setting (v = Unset) (seconds manifestSec) (envDuration v (300 * second))"

definition nudgeCooldownFromManifest :: "env_var \<Rightarrow> int option \<Rightarrow> int" where
  "nudgeCooldownFromManifest v manifestSec = or_setting (v = Unset) (seconds manifestSec) (envDuration v (60 * second))"

definition fireTerminalOnce :: "bool \<Rightarrow> string \<Rightarrow> nudge_session \<Rightarrow> bool \<times> nudge_session" where
  "fireTerminalOnce succeeded reason s =
     (if terminalFired s then (False, s)
      else (True, s\<lparr>terminalFired := True, on_result := on_result s @ [(succeeded, reason)]\<rparr>))"

text \<open>The send on the one-slot channel that is skipped when the slot is full.\<close>

definition signal_stall :: "string \<Rightarrow> nudge_session \<Rightarrow> nudge_session" where
  "signal_stall reason s = (if stallCh s = [] then s\<lparr>stallCh := [reason]\<rparr> else s)"

definition end_with :: "string \<Rightarrow> nudge_session \<Rightarrow> nudge_session" where
  "end_with reason s =
     (let s = s\<lparr>on_stall := on_stall s @ [(reason, True)]\<rparr>; (fresh, s) = fireTerminalOnce False reason s
      in if fresh then signal_stall reason s else s)"

text \<open>\<open>lastNudgeAt\<close> starts as Go's zero time, which no cooldown reaches back to.\<close>

definition in_cooldown :: "int \<Rightarrow> nudge_session \<Rightarrow> bool" where
  "in_cooldown now s = (case lastNudgeAt s of Some t \<Rightarrow> now - t < nudgeCooldownVal s | None \<Rightarrow> False)"

definition send_nudge :: "int \<Rightarrow> nudge_session \<Rightarrow> nudge_session" where
  "send_nudge now s =
     (let s = s\<lparr>nudgesSent := nudgesSent s + 1, lastNudgeAt := Some now\<rparr>;
          idx = nat (nudgesSent s - 1);
          idx = (if idx \<ge> length stallNudgeMessages then length stallNudgeMessages - 1 else idx);
          s = s\<lparr>injected := injected s @ [stallNudgeMessages ! idx]\<rparr>;
          s = s\<lparr>nudgePending := True\<rparr>
      in if nudgeReplyWindowVal s \<le> 0 then s
         else s\<lparr>watchdogs := watchdogs s @ [\<lparr>deadline = now + nudgeReplyWindowVal s, next_tick = now + 5 * second\<rparr>]\<rparr>)"

definition handleStallSignal :: "int \<Rightarrow> string \<Rightarrow> nudge_session \<Rightarrow> nudge_session" where
  "handleStallSignal now reason s =
     (if isFatalStall reason then end_with reason s
      else (let s = s\<lparr>on_stall := on_stall s @ [(reason, False)]\<rparr>;
                budgetSpent = (nudgesSent s \<ge> nudgeMaxVal s)
            in if budgetSpent \<or> in_cooldown now s then
                 (if budgetSpent then end_with (reason @ '':nudge_budget_spent'') s else s)
               else send_nudge now s))"

definition no_response :: string where
  "no_response = ''stalled:no_file_progress:liveness_probe_no_response''"

definition remove_watchdog :: "nat \<Rightarrow> nudge_session \<Rightarrow> nudge_session" where
  "remove_watchdog i s = s\<lparr>watchdogs := take i (watchdogs s) @ drop (Suc i) (watchdogs s)\<rparr>"

definition watchdog_timer :: "nat \<Rightarrow> nudge_session \<Rightarrow> nudge_session" where
  "watchdog_timer i s =
     (let s' = remove_watchdog i s
      in if nudgePending s \<and> \<not> nudgeFinished s then end_with no_response s' else s')"

definition watchdog_tick :: "nat \<Rightarrow> nudge_session \<Rightarrow> nudge_session" where
  "watchdog_tick i s =
     (if nudgeFinished s \<or> \<not> nudgePending s then remove_watchdog i s
      else s\<lparr>watchdogs := (watchdogs s)[i := (watchdogs s ! i)\<lparr>next_tick := next_tick (watchdogs s ! i) + 5 * second\<rparr>]\<rparr>)"

datatype probe_reply = ProbeReplyNone | ProbeReplySummary | ProbeReplyWorking

definition nudgeObserved :: "probe_reply \<Rightarrow> nudge_session \<Rightarrow> nudge_session" where
  "nudgeObserved reply s =
     (let s = s\<lparr>nudgePending := False\<rparr>
      in if completionProbeAwaiting s \<and> reply \<noteq> ProbeReplyNone
         then (let s = s\<lparr>completionProbeAwaiting := False, completionProbeSawReply := False, completionProbeDeferrals := 0\<rparr>
               in if reply = ProbeReplyWorking then s\<lparr>completionProbesSent := 0\<rparr> else s)
         else s)"

text \<open>A turn that streamed something, after which the loop calls \<open>nudgeObserved\<close>.\<close>

definition turn_streamed :: "probe_reply \<Rightarrow> nudge_session \<Rightarrow> nudge_session" where
  "turn_streamed reply s = nudgeObserved reply (if completionProbeAwaiting s then s\<lparr>completionProbeSawReply := True\<rparr> else s)"

definition markNudgeFinished :: "nudge_session \<Rightarrow> nudge_session" where
  "markNudgeFinished s = s\<lparr>nudgeFinished := True\<rparr>"

definition completionProbeMaxTurns :: int where "completionProbeMaxTurns = 2"

definition probe_no_response :: string where
  "probe_no_response = ''stalled:missing_decision_signal:completion_probe_no_response''"

text \<open>The direct verdict: neither the test nor the set of the latch.\<close>

definition fail_probe :: "nudge_session \<Rightarrow> nudge_session" where
  "fail_probe s = markNudgeFinished (s\<lparr>on_result := on_result s @ [(False, probe_no_response)], probe_failed := True\<rparr>)"

text \<open>\<open>append_error\<close> is the failure of the transcript, if it fails.\<close>

definition runCompletionProbe :: "string option \<Rightarrow> nudge_session \<Rightarrow> bool \<times> nudge_session" where
  "runCompletionProbe append_error s =
     (if completionProbeAwaiting s \<and> \<not> completionProbeSawReply s
      then (let s = s\<lparr>completionProbeDeferrals := completionProbeDeferrals s + 1\<rparr>
            in if completionProbeDeferrals s > 1 then (False, fail_probe s) else (True, s))
      else if completionProbesSent s \<ge> completionProbeMaxTurns then (False, fail_probe s)
      else (let s = s\<lparr>completionProbesSent := completionProbesSent s + 1, completionProbeAwaiting := True,
                    completionProbeSawReply := False, completionProbeDeferrals := 0\<rparr>
            in case append_error of
                 None \<Rightarrow> (True, s)
               | Some e \<Rightarrow> (False, markNudgeFinished (snd (fireTerminalOnce False
                   (''completion probe transcript append failed: '' @ e) s)))))"

definition new_nudges :: "int \<Rightarrow> int \<Rightarrow> int \<Rightarrow> nudge_session" where
  "new_nudges limit window cooldown =
     \<lparr>nudgeMaxVal = limit, nudgeReplyWindowVal = window, nudgeCooldownVal = cooldown, nudgesSent = 0,
      lastNudgeAt = None, nudgePending = False, nudgeFinished = False, terminalFired = False, stallCh = [],
      injected = [], on_stall = [], on_result = [], watchdogs = [], completionProbesSent = 0,
      completionProbeAwaiting = False, completionProbeSawReply = False, completionProbeDeferrals = 0,
      probe_failed = False, loop_over = False\<rparr>"

subsection \<open>Interleavings\<close>

text \<open>
  The clock advances, a watchdog may act once its instant has come, and the monitor hands in a stall, also
  after the loop has returned. The loop, while it runs, streams a turn, runs the completion probe, delivers a
  verdict of its own and returns, or finds the signal of a stall and returns. Text of a turn in progress
  is observed as well.
\<close>

inductive nstep :: "int \<times> nudge_session \<Rightarrow> int \<times> nudge_session \<Rightarrow> bool" where
  Wait: "now \<le> now' \<Longrightarrow> nstep (now, s) (now', s)"
| Stall: "nstep (now, s) (now, handleStallSignal now reason s)"
| Answer: "nstep (now, s) (now, nudgeObserved reply s)"
| Turn: "\<not> loop_over s \<Longrightarrow> nstep (now, s) (now, turn_streamed reply s)"
| Probe: "\<not> loop_over s \<Longrightarrow> runCompletionProbe e s = (continues, s') \<Longrightarrow> nstep (now, s) (now, s'\<lparr>loop_over := \<not> continues\<rparr>)"
| Verdict: "\<not> loop_over s \<Longrightarrow> nstep (now, s) (now, (markNudgeFinished (snd (fireTerminalOnce ok reason s)))\<lparr>loop_over := True\<rparr>)"
| Unwind: "\<not> loop_over s \<Longrightarrow> stallCh s \<noteq> [] \<Longrightarrow> nstep (now, s) (now, (markNudgeFinished s)\<lparr>stallCh := [], loop_over := True\<rparr>)"
| Timer: "i < length (watchdogs s) \<Longrightarrow> deadline (watchdogs s ! i) \<le> now \<Longrightarrow> nstep (now, s) (now, watchdog_timer i s)"
| WTick: "i < length (watchdogs s) \<Longrightarrow> next_tick (watchdogs s ! i) \<le> now \<Longrightarrow> nstep (now, s) (now, watchdog_tick i s)"

inductive nreach :: "int \<times> nudge_session \<Rightarrow> int \<times> nudge_session \<Rightarrow> bool" where
  Start: "nreach c c"
| Step: "nreach c d \<Longrightarrow> nstep d e \<Longrightarrow> nreach c e"

inductive_cases nstepE: "nstep (now, s) d"












subsection \<open>Schedules\<close>

text \<open>A schedule as a list of actions, run with the guards of the step relation.\<close>

datatype action = AWait int | AStall string | AAnswer | ATurn | AProbe | ATimer nat | ATick nat

fun act :: "action \<Rightarrow> int \<times> nudge_session \<Rightarrow> (int \<times> nudge_session) option" where
  "act (AWait t) (now, s) = (if now \<le> t then Some (t, s) else None)"
| "act (AStall reason) (now, s) = Some (now, handleStallSignal now reason s)"
| "act AAnswer (now, s) = Some (now, nudgeObserved ProbeReplyNone s)"
| "act ATurn (now, s) = (if loop_over s then None else Some (now, turn_streamed ProbeReplyNone s))"
| "act AProbe (now, s) =
     (if loop_over s then None
      else (case runCompletionProbe None s of (continues, s') \<Rightarrow> Some (now, s'\<lparr>loop_over := \<not> continues\<rparr>)))"
| "act (ATimer i) (now, s) =
     (if i < length (watchdogs s) \<and> deadline (watchdogs s ! i) \<le> now then Some (now, watchdog_timer i s) else None)"
| "act (ATick i) (now, s) =
     (if i < length (watchdogs s) \<and> next_tick (watchdogs s ! i) \<le> now then Some (now, watchdog_tick i s) else None)"

fun run_schedule :: "action list \<Rightarrow> int \<times> nudge_session \<Rightarrow> (int \<times> nudge_session) option" where
  "run_schedule [] c = Some c"
| "run_schedule (a # as) c = (case act a c of Some d \<Rightarrow> run_schedule as d | None \<Rightarrow> None)"

lemma act_step: "act a c = Some d \<Longrightarrow> nstep c d"
  by (induction a c rule: act.induct) (auto intro: nstep.intros split: if_splits prod.splits)

lemma schedule_reaches: "run_schedule as c = Some d \<Longrightarrow> nreach b c \<Longrightarrow> nreach b d"
proof (induction as arbitrary: c)
  case (Cons a as)
  then obtain e where "act a c = Some e" "run_schedule as e = Some d" by (auto split: option.splits)
  then show ?case using Cons by (metis act_step nreach.Step)
qed simp


text \<open>
  Two probes answered by status lines fail the session; a fatal stall that the monitor reports before it is closed
  delivers a second verdict.
\<close>

theorem probe_failure_leaves_latch_open:
  "\<exists>s. nreach (0, new_nudges 1 0 0) (0, s) \<and> on_result s = [(False, probe_no_response), (False, ''stalled:no_progress'')]"
proof -
  let ?c = "(0, new_nudges 1 0 0)" and ?schedule = "[AProbe, ATurn, AProbe, ATurn, AProbe, AStall ''stalled:no_progress'']"
  have "(case run_schedule ?schedule ?c of
      Some (t, s) \<Rightarrow> t = 0 \<and> on_result s = [(False, probe_no_response), (False, ''stalled:no_progress'')] | None \<Rightarrow> False)"
    by code_simp
  then obtain t s where "run_schedule ?schedule ?c = Some (t, s)" "t = 0"
    "on_result s = [(False, probe_no_response), (False, ''stalled:no_progress'')]"
    by (auto simp only: split: option.splits prod.splits)
  then show ?thesis using schedule_reaches [OF _ nreach.Start, of ?schedule ?c] by blast
qed

subsection \<open>A stall that persists\<close>

fun spaced :: "int \<Rightarrow> int option \<Rightarrow> int list \<Rightarrow> bool" where
  "spaced gap earlier [] = True"
| "spaced gap earlier (t # ts) =
     ((case earlier of None \<Rightarrow> True | Some u \<Rightarrow> t - u \<ge> gap) \<and> spaced gap (Some t) ts)"

definition signals :: "string \<Rightarrow> int list \<Rightarrow> nudge_session \<Rightarrow> nudge_session" where
  "signals reason ts s = fold (\<lambda>t. handleStallSignal t reason) ts s"

lemma signals_nudge:
  assumes "\<not> isFatalStall reason" and "spaced (nudgeCooldownVal s) (lastNudgeAt s) ts"
    and "nudgesSent s + int (length ts) \<le> nudgeMaxVal s"
  shows "nudgesSent (signals reason ts s) = nudgesSent s + int (length ts)
       \<and> terminalFired (signals reason ts s) = terminalFired s
       \<and> on_result (signals reason ts s) = on_result s
       \<and> nudgeMaxVal (signals reason ts s) = nudgeMaxVal s"
  using assms(2,3)
proof (induction ts arbitrary: s)
  case (Cons t ts)
  have "\<not> in_cooldown t s" using Cons.prems(1) by (auto simp: in_cooldown_def split: option.splits)
  moreover have "in_cooldown t (s\<lparr>on_stall := x\<rparr>) = in_cooldown t s" for x
    by (simp add: in_cooldown_def split: option.splits)
  ultimately have "handleStallSignal t reason s = send_nudge t (s\<lparr>on_stall := on_stall s @ [(reason, False)]\<rparr>)"
    using assms(1) Cons.prems(2) by (simp add: handleStallSignal_def Let_def)
  with Cons show ?case by (simp add: signals_def send_nudge_def Let_def)
qed (simp add: signals_def)

text \<open>
  A looping session is ended: when an advisory stall keeps being reported at instants at least the cooldown apart,
  each of the first \<open>limit\<close> reports sends a nudge and delivers no verdict, and the next one fails the
  session with the reason of the stall.
\<close>

theorem persistent_stall_escalates:
  assumes "\<not> isFatalStall reason" and "0 \<le> limit" and "length ts = nat limit"
    and "spaced cooldown None (ts @ [t])"
  shows "let before_last = signals reason ts (new_nudges limit window cooldown);
             s = handleStallSignal t reason before_last
         in on_result before_last = [] \<and> nudgesSent before_last = limit
          \<and> on_result s = [(False, reason @ '':nudge_budget_spent'')]
          \<and> stallCh s = [reason @ '':nudge_budget_spent'']"
proof -
  let ?s0 = "new_nudges limit window cooldown" and ?s1 = "signals reason ts (new_nudges limit window cooldown)"
  have "spaced gap u (xs @ ys) \<Longrightarrow> spaced gap u xs" for gap u xs ys
    by (induction gap u xs rule: spaced.induct) auto
  then have "spaced (nudgeCooldownVal ?s0) (lastNudgeAt ?s0) ts" using assms(4) by (simp add: new_nudges_def)
  from signals_nudge [OF assms(1) this] assms(2,3)
  have s1: "nudgesSent ?s1 = limit" "\<not> terminalFired ?s1" "on_result ?s1 = []" "nudgeMaxVal ?s1 = limit"
    by (simp_all add: new_nudges_def)
  have "stallCh (handleStallSignal u reason s) = stallCh s" if "nudgesSent s < nudgeMaxVal s" for u s
    using that assms(1) by (auto simp: handleStallSignal_def send_nudge_def Let_def)
  then have "stallCh (signals reason xs s) = stallCh s" if "nudgesSent s + int (length xs) \<le> nudgeMaxVal s" for xs s
    using that
  proof (induction xs arbitrary: s)
    case (Cons u xs)
    have "nudgesSent (handleStallSignal u reason s) \<le> nudgesSent s + 1"
      "nudgeMaxVal (handleStallSignal u reason s) = nudgeMaxVal s"
      using assms(1) by (auto simp: handleStallSignal_def send_nudge_def end_with_def fireTerminalOnce_def signal_stall_def Let_def)
    with Cons show ?case by (simp add: signals_def)
  qed (simp add: signals_def)
  then have "stallCh ?s1 = []" using assms(2,3) by (simp add: new_nudges_def)
  with s1 assms(1) show ?thesis
    by (simp add: Let_def handleStallSignal_def end_with_def fireTerminalOnce_def signal_stall_def)
qed

theorem persistent_stall_escalates_witness:
  "on_result (handleStallSignal 130 text_loop_reason (signals text_loop_reason [0, 65] (new_nudges 2 300 60))) =
     [(False, text_loop_reason @ '':nudge_budget_spent'')]"
  using persistent_stall_escalates [of text_loop_reason 2 "[0, 65]" 60 130 300]
  by (simp add: Let_def)

text \<open>
  A watchdog does not know which nudge it belongs to. With a reply window of 20 and a cooldown of 10 seconds
  there is a schedule, every watchdog tick on time, in which a session that answered its first nudge is
  ended for silence 10 seconds after the second one.
\<close>

theorem watchdog_outlives_its_nudge:
  "\<exists>s. nreach (0, new_nudges 3 (20 * second) (10 * second)) (20 * second, s)
     \<and> on_result s = [(False, no_response)] \<and> lastNudgeAt s = Some (10 * second)"
proof -
  let ?schedule =
    "[AStall ''stalled:repetition:x'', AWait (5 * second), ATick 0, AWait (8 * second), AAnswer,
      AWait (10 * second), AStall ''stalled:repetition:x'', ATick 0, AWait (15 * second), ATick 0, ATick 1,
      AWait (20 * second), ATimer 0]"
  let ?c = "(0, new_nudges 3 (20 * second) (10 * second))"
  have "(case run_schedule ?schedule ?c of
           Some (t, s) \<Rightarrow> t = 20 * second \<and> on_result s = [(False, no_response)] \<and> lastNudgeAt s = Some (10 * second)
         | None \<Rightarrow> False)"
    by code_simp
  then obtain t s where "run_schedule ?schedule ?c = Some (t, s)" "t = 20 * second"
    "on_result s = [(False, no_response)]" "lastNudgeAt s = Some (10 * second)"
    by (auto simp only: split: option.splits prod.splits)
  then show ?thesis using schedule_reaches [OF _ nreach.Start, of ?schedule ?c] by blast
qed

end
