(* ===== verification/Go_Time.thy ===== *)
theory Go_Time
  imports Go_Prelude Go_Numbers
begin

text \<open>
  The part of Go's package \<open>time\<close> that recurring schedules use. An instant is its number of nanoseconds since
  1970 in UTC; the values that occur are far from the limits of \<open>time.Time\<close>, durations are \<open>int64\<close>.
  A location is what its zone data says: the wall clock of an instant, as the nanoseconds of the same
  digits in UTC, and the instant \<open>time.Date\<close> gives for a wall clock. The zone database is an argument.
  Parsing follows the layouts the source uses: \<open>15:04\<close> takes one or two digits for the hour and two for
  the minute, \<open>2006-01-02\<close> four, two and two.
\<close>

definition Hour :: int where "Hour = 60 * Minute"
definition Day :: int where "Day = 24 * Hour"

lemma Day_pos [simp]: "0 < Minute" "0 < Hour" "0 < Day" "Minute \<noteq> 0" "Hour \<noteq> 0" "Day \<noteq> 0" "0 \<le> Minute"
  by (simp_all add: Minute_def Hour_def Day_def Second_def)

lemma Day_Minute: "Day = Minute * 1440"
  by (simp add: Day_def Hour_def)

record location =
  wall :: "int \<Rightarrow> int"
  at_wall :: "int \<Rightarrow> int"

definition UTC :: location where
  "UTC = \<lparr>wall = (\<lambda>t. t), at_wall = (\<lambda>w. w)\<rparr>"

definition fixed_zone :: "int \<Rightarrow> location" where
  "fixed_zone offset = \<lparr>wall = (\<lambda>t. t + offset), at_wall = (\<lambda>w. w - offset)\<rparr>"

text \<open>The civil calendar: days since 1970-01-01 of a date, whose day may lie outside its month.\<close>

definition days_from_civil :: "int \<Rightarrow> int \<Rightarrow> int \<Rightarrow> int" where
  "days_from_civil y m d =
     (let y' = (if m \<le> 2 then y - 1 else y);
          era = y' div 400;
          yoe = y' - era * 400;
          doy = (153 * (if m > 2 then m - 3 else m + 9) + 2) div 5 + d - 1;
          doe = yoe * 365 + yoe div 4 - yoe div 100 + doy
      in era * 146097 + doe - 719468)"

definition civil_from_days :: "int \<Rightarrow> int \<times> int \<times> int" where
  "civil_from_days days =
     (let z = days + 719468;
          era = z div 146097;
          doe = z - era * 146097;
          yoe = (doe - doe div 1460 + doe div 36524 - doe div 146096) div 365;
          doy = doe - (365 * yoe + yoe div 4 - yoe div 100);
          mp = (5 * doy + 2) div 153;
          d = doy - (153 * mp + 2) div 5 + 1;
          m = (if mp < 10 then mp + 3 else mp - 9);
          y = yoe + era * 400
      in (if m \<le> 2 then y + 1 else y, m, d))"

definition is_leap :: "int \<Rightarrow> bool" where
  "is_leap y \<longleftrightarrow> y mod 4 = 0 \<and> (y mod 100 \<noteq> 0 \<or> y mod 400 = 0)"

definition days_in :: "int \<Rightarrow> int \<Rightarrow> int" where
  "days_in y m =
     (if m = 2 then (if is_leap y then 29 else 28) else if m \<in> {4, 6, 9, 11} then 30 else 31)"

definition minute_of_day :: "location \<Rightarrow> int \<Rightarrow> int" where
  "minute_of_day loc t = (wall loc t mod Day) div Minute"

definition Weekday :: "location \<Rightarrow> int \<Rightarrow> int" where
  "Weekday loc t = (wall loc t div Day + 4) mod 7"

text \<open>\<open>t.AddDate(0, 0, n)\<close> and \<open>t.AddDate(0, n, 0)\<close>.\<close>

definition AddDays :: "location \<Rightarrow> int \<Rightarrow> int \<Rightarrow> int" where
  "AddDays loc n t = at_wall loc (wall loc t + n * Day)"

definition AddMonths :: "location \<Rightarrow> int \<Rightarrow> int \<Rightarrow> int" where
  "AddMonths loc n t =
     (case civil_from_days (wall loc t div Day) of
        (y, m, d) \<Rightarrow>
          let months = y * 12 + (m - 1) + n
          in at_wall loc (days_from_civil (months div 12) (months mod 12 + 1) d * Day + wall loc t mod Day))"

text \<open>\<open>time.Date\<close> on the day of \<open>t\<close>, or the day after, at a minute of the day.\<close>

definition Date_at :: "location \<Rightarrow> int \<Rightarrow> int \<Rightarrow> int" where
  "Date_at loc t minutes = at_wall loc (wall loc t div Day * Day + minutes * Minute)"

text \<open>\<open>t.Sub(u)\<close> saturates.\<close>

definition Sub :: "int \<Rightarrow> int \<Rightarrow> int" where
  "Sub t u = max (- (2 ^ 63)) (min (2 ^ 63 - 1) (t - u))"

subsection \<open>Parsing\<close>

definition digit :: "char \<Rightarrow> int option" where
  "digit c = (let n = (of_char c :: nat) in if 48 \<le> n \<and> n \<le> 57 then Some (int n - 48) else None)"

fun digits :: "string \<Rightarrow> int \<Rightarrow> int option" where
  "digits [] acc = Some acc"
| "digits (c # s) acc = (case digit c of Some d \<Rightarrow> digits s (acc * 10 + d) | None \<Rightarrow> None)"

definition parse_minutes :: "int option \<Rightarrow> int option \<Rightarrow> int option" where
  "parse_minutes h m =
     (case (h, m) of (Some h, Some m) \<Rightarrow> if h < 24 \<and> m < 60 then Some (h * 60 + m) else None | _ \<Rightarrow> None)"

fun parse_clock :: "string \<Rightarrow> int option" where
  "parse_clock [a, b, c, d, e] = (if c = CHR '':'' then parse_minutes (digits [a, b] 0) (digits [d, e] 0) else None)"
| "parse_clock [a, b, d, e] = (if b = CHR '':'' then parse_minutes (digits [a] 0) (digits [d, e] 0) else None)"
| "parse_clock _ = None"

fun parse_date :: "string \<Rightarrow> (int \<times> int \<times> int) option" where
  "parse_date [a, b, c, d, h, m, n, k, p, q] =
     (if h = CHR ''-'' \<and> k = CHR ''-''
      then (case (digits [a, b, c, d] 0, digits [m, n] 0, digits [p, q] 0) of
              (Some y, Some mo, Some da) \<Rightarrow>
                if 1 \<le> mo \<and> mo \<le> 12 \<and> 1 \<le> da \<and> da \<le> days_in y mo then Some (y, mo, da) else None
            | _ \<Rightarrow> None)
      else None)"
| "parse_date _ = None"

definition parse_in_location :: "string \<Rightarrow> string \<Rightarrow> location \<Rightarrow> int option" where
  "parse_in_location date clock loc =
     (case (parse_date date, parse_clock clock) of
        (Some (y, m, d), Some minutes) \<Rightarrow> Some (at_wall loc (days_from_civil y m d * Day + minutes * Minute))
      | _ \<Rightarrow> None)"

end
