(* ===== verification/Recurrence.thy ===== *)
theory Recurrence
  imports Go_Time Domain_Types
begin

text \<open>
  Recurring schedules (\<open>workitem/validate.go\<close>): validation at the boundary, the daily window, and the
  computation of the next occurrence. The proto message and the stored JSON object have the same fields and
  are one record; marshalling is not modelled. The zone database is the argument \<open>zones\<close>
  (\<open>time.LoadLocation\<close> on the name), the clock reading is \<open>now\<close>. A loop the code caps at 1000 rounds
  recurses on that number.
\<close>

section \<open>Schedules\<close>

record schedule =
  Frequency :: string
  Interval :: int
  Days :: "string list"
  StartDate :: string
  StartTime :: string
  OutputsMode :: string
  WindowStart :: string
  WindowEnd :: string
  Timezone :: string

datatype schedule_error =
    BadFrequency string
  | BadInterval int
  | BadDay string
  | NoStartDate
  | BadStartDate string
  | NoStartTime
  | BadStartTime string
  | HalfWindow
  | BadWindowStart string
  | BadWindowEnd string
  | EmptyWindow
  | StartOutsideWindow
  | LocalZone
  | UnknownZone string

definition validFrequencies :: "string list" where
  "validFrequencies = [''minute'', ''hourly'', ''daily'', ''weekly'', ''monthly'']"

definition validDays :: "string list" where
  "validDays = [''Mon'', ''Tue'', ''Wed'', ''Thu'', ''Fri'', ''Sat'', ''Sun'']"

definition IsRecurringScheduleEmpty :: "schedule option \<Rightarrow> bool" where
  "IsRecurringScheduleEmpty msg =
     (case msg of
        None \<Rightarrow> False
      | Some s \<Rightarrow> TrimSpace (Frequency s) = [] \<and> Interval s = 0 \<and> Days s = [] \<and>
          TrimSpace (StartDate s) = [] \<and> TrimSpace (StartTime s) = [] \<and>
          TrimSpace (WindowStart s) = [] \<and> TrimSpace (WindowEnd s) = [])"

definition RecurringZone :: "(string \<Rightarrow> location option) \<Rightarrow> string \<Rightarrow> schedule_error + location" where
  "RecurringZone zones name =
     (let name = TrimSpace name
      in if name = [] then Inr UTC
         else if name = ''Local'' then Inl LocalZone
         else (case zones name of None \<Rightarrow> Inl (UnknownZone name) | Some loc \<Rightarrow> Inr loc))"

fun validate_days :: "string list \<Rightarrow> schedule_error + string list" where
  "validate_days [] = Inr []"
| "validate_days (d # ds) =
     (let d = TrimSpace d
      in if d = [] then validate_days ds
         else if d \<notin> List.set validDays then Inl (BadDay d)
         else (case validate_days ds of Inl e \<Rightarrow> Inl e | Inr days \<Rightarrow> Inr (d # days)))"

definition validate_window :: "string \<Rightarrow> string \<Rightarrow> string \<Rightarrow> string \<Rightarrow> schedule_error option" where
  "validate_window freq startTime windowStart windowEnd =
     (if (windowStart = []) \<noteq> (windowEnd = []) then Some HalfWindow
      else if windowStart \<noteq> [] \<and> windowEnd \<noteq> []
      then (case parse_clock windowStart of
              None \<Rightarrow> Some (BadWindowStart windowStart)
            | Some ws \<Rightarrow>
                (case parse_clock windowEnd of
                   None \<Rightarrow> Some (BadWindowEnd windowEnd)
                 | Some we \<Rightarrow>
                     if we \<le> ws then Some EmptyWindow
                     else if freq \<in> {''daily'', ''weekly'', ''monthly''}
                     then (let m = (case parse_clock startTime of Some m \<Rightarrow> m | None \<Rightarrow> 0)
                           in if m < ws \<or> we \<le> m then Some StartOutsideWindow else None)
                     else None))
      else None)"

definition ValidateRecurringSchedule ::
    "(string \<Rightarrow> location option) \<Rightarrow> schedule option \<Rightarrow> schedule_error + schedule option" where
  "ValidateRecurringSchedule zones msg =
     (case msg of
        None \<Rightarrow> Inr None
      | Some m \<Rightarrow>
          let freq = ToLower (TrimSpace (Frequency m));
              startDate = TrimSpace (StartDate m);
              startTime = TrimSpace (StartTime m);
              windowStart = TrimSpace (WindowStart m);
              windowEnd = TrimSpace (WindowEnd m);
              timezone = TrimSpace (Timezone m)
          in if freq \<notin> List.set validFrequencies then Inl (BadFrequency (Frequency m))
             else if Interval m < 1 then Inl (BadInterval (Interval m))
             else (case validate_days (Days m) of
                Inl e \<Rightarrow> Inl e
              | Inr days \<Rightarrow>
                  if startDate = [] then Inl NoStartDate
                  else if parse_date startDate = None then Inl (BadStartDate startDate)
                  else if startTime = [] then Inl NoStartTime
                  else if parse_clock startTime = None then Inl (BadStartTime startTime)
                  else (case validate_window freq startTime windowStart windowEnd of
                     Some e \<Rightarrow> Inl e
                   | None \<Rightarrow>
                       (case (if timezone = [] then Inr UTC else RecurringZone zones timezone) of
                          Inl e \<Rightarrow> Inl e
                        | Inr _ \<Rightarrow>
                            Inr (Some \<lparr>Frequency = freq, Interval = Interval m, Days = days,
                                  StartDate = startDate, StartTime = startTime,
                                  OutputsMode = NormalizeRecurringOutputsMode (OutputsMode m),
                                  WindowStart = windowStart, WindowEnd = windowEnd, Timezone = timezone\<rparr>)))))"

section \<open>The next occurrence\<close>

definition parseWindow :: "schedule \<Rightarrow> bool \<times> int \<times> int" where
  "parseWindow s =
     (let ws = TrimSpace (WindowStart s); we = TrimSpace (WindowEnd s)
      in if ws = [] \<and> we = [] then (False, 0, 0)
         else if ws = [] \<or> we = [] then (False, 0, 0)
         else (case parse_clock ws of
                 None \<Rightarrow> (False, 0, 0)
               | Some sm \<Rightarrow>
                   (case parse_clock we of
                      None \<Rightarrow> (False, 0, 0)
                    | Some em \<Rightarrow> if em \<le> sm then (False, 0, 0) else (True, sm, em))))"

definition isInWindow :: "location \<Rightarrow> int \<Rightarrow> int \<Rightarrow> int \<Rightarrow> bool" where
  "isInWindow loc t startMin endMin =
     (let m = minute_of_day loc t in startMin \<le> m \<and> m < endMin)"

definition nextWindowStart :: "location \<Rightarrow> int \<Rightarrow> int \<Rightarrow> int" where
  "nextWindowStart loc t startMin =
     (let m = minute_of_day loc t
      in if m < startMin then Date_at loc t startMin
         else Date_at loc (AddDays loc 1 t) startMin)"

definition weekdayOffset :: "string \<Rightarrow> int" where
  "weekdayOffset day =
     (if day = ''Sun'' then 0 else if day = ''Mon'' then 1 else if day = ''Tue'' then 2
      else if day = ''Wed'' then 3 else if day = ''Thu'' then 4 else if day = ''Fri'' then 5
      else if day = ''Sat'' then 6 else 0)"

definition advanceTime :: "location \<Rightarrow> int \<Rightarrow> string \<Rightarrow> int \<Rightarrow> int" where
  "advanceTime loc t freq interval =
     (if freq = ''minute'' then t + i64 (interval * Minute)
      else if freq = ''hourly'' then t + i64 (interval * Hour)
      else if freq = ''daily'' then AddDays loc interval t
      else if freq = ''weekly'' then AddDays loc (7 * interval) t
      else if freq = ''monthly'' then AddMonths loc interval t
      else AddDays loc interval t)"

definition align_step :: "int \<Rightarrow> int \<Rightarrow> int \<Rightarrow> int" where
  "align_step target anchor step =
     (let diff = Sub target anchor
      in if diff \<le> 0 then anchor
         else (let remainder = go_rem diff step
               in if remainder = 0 then target else target + i64 (step - remainder)))"

fun align_walk :: "location \<Rightarrow> string \<Rightarrow> int \<Rightarrow> int \<Rightarrow> nat \<Rightarrow> int \<Rightarrow> int" where
  "align_walk loc freq interval target 0 candidate = target"
| "align_walk loc freq interval target (Suc n) candidate =
     (if target \<le> candidate then candidate
      else align_walk loc freq interval target n (advanceTime loc candidate freq interval))"

definition alignToGrid :: "location \<Rightarrow> int \<Rightarrow> int \<Rightarrow> string \<Rightarrow> int \<Rightarrow> int" where
  "alignToGrid loc target anchor freq interval =
     (if freq = ''minute'' then align_step target anchor (i64 (interval * Minute))
      else if freq = ''hourly'' then align_step target anchor (i64 (interval * Hour))
      else align_walk loc freq interval target 1000 anchor)"

definition validOffsets :: "int \<Rightarrow> string list \<Rightarrow> int list" where
  "validOffsets anchorWeekday days =
     (if days = [] then [0 .. 6] else map (\<lambda>d. (weekdayOffset d - anchorWeekday + 7) mod 7) days)"

fun weekly_walk ::
    "location \<Rightarrow> bool \<times> int \<times> int \<Rightarrow> int list \<Rightarrow> int \<Rightarrow> int \<Rightarrow> nat \<Rightarrow> int \<Rightarrow> int \<Rightarrow> int option" where
  "weekly_walk loc win offsets cadenceDays now 0 candidate daysSinceAnchor = None"
| "weekly_walk loc (hasWindow, wsMin, weMin) offsets cadenceDays now (Suc n) candidate daysSinceAnchor =
     (if now \<le> candidate \<and> daysSinceAnchor mod cadenceDays \<in> List.set offsets \<and>
         (\<not> hasWindow \<or> isInWindow loc candidate wsMin weMin)
      then Some candidate
      else weekly_walk loc (hasWindow, wsMin, weMin) offsets cadenceDays now n
             (AddDays loc 1 candidate) (daysSinceAnchor + 1))"

fun step_walk ::
    "location \<Rightarrow> bool \<times> int \<times> int \<Rightarrow> string \<Rightarrow> int \<Rightarrow> int \<Rightarrow> int \<Rightarrow> nat \<Rightarrow> int \<Rightarrow> int option" where
  "step_walk loc win freq interval anchor now 0 candidate = None"
| "step_walk loc (hasWindow, wsMin, weMin) freq interval anchor now (Suc n) candidate =
     (if candidate < now
      then step_walk loc (hasWindow, wsMin, weMin) freq interval anchor now n
             (advanceTime loc candidate freq interval)
      else if hasWindow \<and> \<not> isInWindow loc candidate wsMin weMin
      then step_walk loc (hasWindow, wsMin, weMin) freq interval anchor now n
             (alignToGrid loc (nextWindowStart loc candidate wsMin) anchor freq interval)
      else Some candidate)"

definition schedule_zone :: "(string \<Rightarrow> location option) \<Rightarrow> schedule \<Rightarrow> location" where
  "schedule_zone zones s = (case RecurringZone zones (Timezone s) of Inl _ \<Rightarrow> UTC | Inr loc \<Rightarrow> loc)"

definition schedule_anchor :: "(string \<Rightarrow> location option) \<Rightarrow> schedule \<Rightarrow> int option" where
  "schedule_anchor zones s =
     parse_in_location (TrimSpace (StartDate s)) (TrimSpace (StartTime s)) (schedule_zone zones s)"

definition ComputeNextRunAt :: "(string \<Rightarrow> location option) \<Rightarrow> schedule option \<Rightarrow> int \<Rightarrow> int option" where
  "ComputeNextRunAt zones schedule now =
     (case schedule of
        None \<Rightarrow> None
      | Some s \<Rightarrow>
          let loc = schedule_zone zones s
          in (case schedule_anchor zones s of
                None \<Rightarrow> None
              | Some anchor \<Rightarrow>
                  let freq = ToLower (TrimSpace (Frequency s));
                      interval = (if Interval s < 1 then 1 else Interval s);
                      win = parseWindow s
                  in if freq = ''weekly''
                     then (case weekly_walk loc win (validOffsets (Weekday loc anchor) (Days s))
                                  (7 * interval) now 1000 anchor 0 of
                             Some t \<Rightarrow> Some t | None \<Rightarrow> Some anchor)
                     else (case step_walk loc win freq interval anchor now 1000 anchor of
                             Some t \<Rightarrow> Some t | None \<Rightarrow> Some anchor)))"

definition dayMatches :: "location \<Rightarrow> int \<Rightarrow> string list \<Rightarrow> bool" where
  "dayMatches loc t days \<longleftrightarrow>
     [''Sun'', ''Mon'', ''Tue'', ''Wed'', ''Thu'', ''Fri'', ''Sat''] ! nat (Weekday loc t) \<in> List.set days"

end
