(* ===== verification/Recurrence_Laws.thy ===== *)
theory Recurrence_Laws
  imports Recurrence
begin

text \<open>
  Facts about the next occurrence. The locale \<open>fixed_offset\<close> states what a zone without clock changes
  promises; UTC and the fixed zones are interpretations. In such a zone the day-by-day and the grid walks
  are characterised exactly, and the cap of 1000 rounds is accounted for.
\<close>

section \<open>Zones without clock changes\<close>

lemma zdiv_less_mult: "w div m < k" if "w < k * m" "0 < m" for w m k :: int
proof (rule ccontr)
  assume "\<not> w div m < k"
  then have "k * m \<le> w div m * m" using \<open>0 < m\<close> by (simp add: mult_right_mono)
  then show False
    using that div_mod_decomp_int [of w m] pos_mod_sign [of m w] by linarith
qed

lemma closed_until_open:
  fixes q p ws we :: int
  assumes "0 \<le> ws" "ws < we" "we \<le> 1440" "q mod 1440 < ws \<or> we \<le> q mod 1440"
    and Q: "Q = q div 1440 * 1440 + (if q mod 1440 < ws then 0 else 1440) + ws"
  shows "q < Q" and "\<lbrakk>q \<le> p; p < Q\<rbrakk> \<Longrightarrow> p mod 1440 < ws \<or> we \<le> p mod 1440"
proof -
  obtain d r where q: "q = 1440 * d + r" "q div 1440 = d" "q mod 1440 = r" "0 \<le> r" "r < 1440"
    by (metis mult_div_mod_eq pos_mod_bound pos_mod_sign zero_less_numeral)
  obtain e s where p: "p = 1440 * e + s" "p mod 1440 = s" "0 \<le> s" "s < 1440"
    by (metis mult_div_mod_eq pos_mod_bound pos_mod_sign zero_less_numeral)
  show "q < Q" using assms(1) q unfolding Q by (simp split: if_splits)
  assume "q \<le> p" "p < Q"
  show "p mod 1440 < ws \<or> we \<le> p mod 1440"
  proof (cases "r < ws")
    case True
    then have "p < 1440 * d + ws" using \<open>p < Q\<close> q unfolding Q by simp
    then have "e \<le> d" using assms(1-3) p by linarith
    moreover have "d \<le> e" using \<open>q \<le> p\<close> q p by linarith
    ultimately show ?thesis using \<open>p < 1440 * d + ws\<close> p by simp
  next
    case False
    then have "we \<le> r" using assms(4) q by simp
    have "p < 1440 * d + 1440 + ws" using False \<open>p < Q\<close> q unfolding Q by simp
    then have "e \<le> d + 1" using assms(1-3) p by linarith
    moreover have "d \<le> e" using \<open>q \<le> p\<close> q p by linarith
    ultimately consider "e = d" | "e = d + 1" by linarith
    then show ?thesis
      using \<open>p < 1440 * d + 1440 + ws\<close> \<open>we \<le> r\<close> \<open>q \<le> p\<close> q p by cases simp_all
  qed
qed

locale fixed_offset =
  fixes loc :: location
  assumes wall_shift: "wall loc (t + d) = wall loc t + d"
    and wall_at: "wall loc (at_wall loc w) = w"
begin

lemma wall_eq: "wall loc t = wall loc u + (t - u)"
  using wall_shift [of u "t - u"] by simp

lemma AddDays_plain: "AddDays loc n t = t + n * Day"
  using wall_eq [of "AddDays loc n t" t] by (simp add: AddDays_def wall_at)

lemma AddDays_funpow: "(AddDays loc 1 ^^ k) t = t + int k * Day"
  by (induction k) (simp_all add: AddDays_plain algebra_simps)

lemma minute_AddDays: "minute_of_day loc (t + n * Day) = minute_of_day loc t"
  by (simp add: minute_of_day_def wall_shift)

lemma window_AddDays: "isInWindow loc (t + n * Day) a b = isInWindow loc t a b"
  by (simp add: isInWindow_def minute_AddDays)

lemma Weekday_AddDays: "Weekday loc (t + n * Day) = (Weekday loc t + n) mod 7"
  by (simp add: Weekday_def wall_shift mod_simps algebra_simps)

lemma minute_of_day_alt: "minute_of_day loc t = (wall loc t div Minute) mod 1440"
  using zmod_zmult2_eq [of 1440 "wall loc t" Minute]
  by (simp add: minute_of_day_def Day_Minute)

lemma Date_at_wall: "wall loc (Date_at loc t m) = (wall loc t div Minute div 1440 * 1440 + m) * Minute"
  by (simp add: Date_at_def wall_at Day_Minute zdiv_zmult2_eq algebra_simps)

lemma less_wall: "t < u \<longleftrightarrow> wall loc t < wall loc u"
  using wall_eq [of t u] by linarith

lemma le_wall: "t \<le> u \<longleftrightarrow> wall loc t \<le> wall loc u"
  using wall_eq [of t u] by linarith

text \<open>Where the window opens next: after the instant, and no instant between lies in the window.\<close>

lemma nextWindowStart_wall:
  "wall loc (nextWindowStart loc c ws) =
     (let q = wall loc c div Minute
      in (q div 1440 * 1440 + (if q mod 1440 < ws then 0 else 1440) + ws) * Minute)"
proof -
  have "wall loc (AddDays loc 1 c) div Minute = wall loc c div Minute + 1440"
    by (simp add: AddDays_plain wall_shift Day_Minute)
  moreover have "(wall loc c div Minute + 1440) div 1440 = wall loc c div Minute div 1440 + 1"
    by (rule div_add_self2) simp
  ultimately show ?thesis
    by (simp add: nextWindowStart_def minute_of_day_alt Date_at_wall Let_def)
qed

lemma nextWindowStart_gap:
  assumes "0 \<le> ws" "ws < we" "we \<le> 1440" "\<not> isInWindow loc c ws we"
  shows "c < nextWindowStart loc c ws"
    and "\<lbrakk>c \<le> x; x < nextWindowStart loc c ws\<rbrakk> \<Longrightarrow> \<not> isInWindow loc x ws we"
proof -
  define q where "q = wall loc c div Minute"
  define Q where "Q = q div 1440 * 1440 + (if q mod 1440 < ws then 0 else 1440) + ws"
  have target: "wall loc (nextWindowStart loc c ws) = Q * Minute"
    by (simp add: nextWindowStart_wall q_def Q_def Let_def)
  have outside: "q mod 1440 < ws \<or> we \<le> q mod 1440"
    using assms(4) by (auto simp: isInWindow_def minute_of_day_alt q_def Let_def)
  note minutes = closed_until_open [OF assms(1-3) outside Q_def]
  note below = minutes(1)
  have "wall loc c < (q + 1) * Minute"
    using div_mod_decomp_int [of "wall loc c" Minute] pos_mod_bound [OF Day_pos(1), of "wall loc c"]
    unfolding q_def distrib_right by linarith
  also have "\<dots> \<le> Q * Minute"
    using below by (intro mult_right_mono) auto
  finally show "c < nextWindowStart loc c ws" by (simp add: less_wall [of c] target)
  assume "c \<le> x" "x < nextWindowStart loc c ws"
  define p where "p = wall loc x div Minute"
  have "q \<le> p" using \<open>c \<le> x\<close> le_wall [of c x] by (simp add: p_def q_def zdiv_mono1)
  moreover have "p < Q"
    using \<open>x < nextWindowStart loc c ws\<close> less_wall [of x "nextWindowStart loc c ws"]
    by (simp add: p_def target zdiv_less_mult)
  ultimately have "p mod 1440 < ws \<or> we \<le> p mod 1440"
    by (rule minutes(2))
  then show "\<not> isInWindow loc x ws we"
    by (auto simp: isInWindow_def minute_of_day_alt p_def Let_def)
qed

end

interpretation utc: fixed_offset UTC
  by unfold_locales (simp_all add: UTC_def)

interpretation fixed: fixed_offset "fixed_zone k" for k
  by unfold_locales (simp_all add: fixed_zone_def)


lemma UTC_fixed: "UTC = fixed_zone 0"
  by (simp add: UTC_def fixed_zone_def)

section \<open>The grid walk\<close>

definition grid_step :: "string \<Rightarrow> int \<Rightarrow> int" where
  "grid_step freq interval =
     (if freq = ''minute'' then i64 (interval * Minute)
      else if freq = ''hourly'' then i64 (interval * Hour)
      else interval * Day)"

text \<open>The number of steps from \<open>c\<close> to the first grid instant that is not before \<open>now\<close>.\<close>

definition rounds :: "int \<Rightarrow> int \<Rightarrow> int \<Rightarrow> nat" where
  "rounds step c now = nat (- ((c - now) div step))"

lemma rounds_least:
  assumes "0 < step"
  shows "now \<le> c + int (rounds step c now) * step"
    and "now \<le> c + int j * step \<Longrightarrow> rounds step c now \<le> j"
proof -
  define d where "d = (c - now) div step"
  have "d * step \<le> c - now" "c - now < (d + 1) * step"
    using div_mod_decomp_int [of "c - now" step] pos_mod_sign [OF assms, of "c - now"]
      pos_mod_bound [OF assms, of "c - now"]
    unfolding d_def distrib_right by linarith+
  have "- d \<le> int (rounds step c now)" by (simp add: rounds_def d_def)
  then have "- d * step \<le> int (rounds step c now) * step"
    using assms by (intro mult_right_mono) simp_all
  then show "now \<le> c + int (rounds step c now) * step"
    using \<open>d * step \<le> c - now\<close> by linarith
  assume "now \<le> c + int j * step"
  then have "- int j * step \<le> c - now" by simp
  then have "- int j \<le> d"
    using zdiv_mono1 [OF _ assms, of "- int j * step" "c - now"] assms
    by (simp add: d_def flip: mult_minus_left)
  then show "rounds step c now \<le> j" by (simp add: rounds_def d_def)
qed

lemma rounds_step:
  assumes "0 < step" "c < now"
  shows "rounds step c now = Suc (rounds step (c + step) now)"
proof -
  have "(c + step - now) div step = (c - now) div step + 1"
    using div_add_self2 [of step "c - now"] assms(1) by (simp add: algebra_simps)
  moreover have "(c - now) div step < 0"
    using assms by (simp add: pos_imp_zdiv_neg_iff)
  ultimately show ?thesis by (simp add: rounds_def)
qed

lemma rounds_0: "0 < step \<Longrightarrow> now \<le> c \<Longrightarrow> rounds step c now = 0"
  by (simp add: rounds_def pos_imp_zdiv_nonneg_iff)

lemma step_walk_plain:
  assumes "0 < step" and adv: "\<And>t. advanceTime loc t freq interval = t + step"
  shows "step_walk loc (False, a, b) freq interval anchor now n c =
     (if rounds step c now < n then Some (c + int (rounds step c now) * step) else None)"
  by (induction n arbitrary: c)
    (simp_all add: adv assms(1) rounds_step rounds_0 algebra_simps)

lemma advance_grid:
  "freq \<in> {''minute'', ''hourly''} \<Longrightarrow> advanceTime loc t freq interval = t + grid_step freq interval"
  by (auto simp: advanceTime_def grid_step_def)

lemma align_grid:
  "freq \<in> {''minute'', ''hourly''} \<Longrightarrow>
     alignToGrid loc target anchor freq interval = align_step target anchor (grid_step freq interval)"
  by (auto simp: alignToGrid_def grid_step_def)

lemma advance_grid_fixed:
  "freq \<in> {''minute'', ''hourly'', ''daily''} \<Longrightarrow>
     advanceTime (fixed_zone k) t freq interval = t + grid_step freq interval"
  by (auto simp: advanceTime_def grid_step_def fixed.AddDays_plain)

lemma align_step_ge:
  assumes "0 < step" "in_i64 step" "anchor \<le> target"
  shows "target \<le> align_step target anchor step"
proof -
  define r where "r = go_rem (Sub target anchor) step"
  have "0 \<le> Sub target anchor" using assms(3) by (simp add: Sub_def)
  then have r: "0 \<le> r" "r < step"
    using assms(1) by (simp_all add: r_def go_rem_nonneg)
  then have "in_i64 (step - r)" using assms(2) by (simp add: in_i64_def)
  moreover have "Sub target anchor \<le> 0 \<Longrightarrow> target = anchor"
    using assms(3) by (simp add: Sub_def)
  ultimately show ?thesis
    using r by (auto simp: align_step_def Let_def r_def [symmetric])
qed

lemma align_step_least:
  assumes "0 < step" "in_i64 step" "anchor < target" "target - anchor < 2 ^ 63"
  obtains k where "align_step target anchor step = anchor + k * step" "0 \<le> k"
    "anchor + (k - 1) * step < target"
proof -
  define d where "d = target - anchor"
  have "Sub target anchor = d" using assms(3,4) by (simp add: Sub_def d_def)
  have "0 < d" using assms(3) by (simp add: d_def)
  have rem: "go_rem d step = d mod step" using \<open>0 < d\<close> assms(1) by (simp add: go_rem_nonneg)
  have "d = step * (d div step) + d mod step" by simp
  have bounds: "0 \<le> d mod step" "d mod step < step" "0 \<le> d div step"
    using assms(1) \<open>0 < d\<close> by (simp_all add: pos_imp_zdiv_nonneg_iff)
  then have "in_i64 (step - d mod step)" using assms(2) by (simp add: in_i64_def)
  show thesis
  proof (cases "d mod step = 0")
    case True
    then have "align_step target anchor step = anchor + (d div step) * step"
      using \<open>Sub target anchor = d\<close> rem \<open>0 < d\<close> div_mod_decomp_int [of d step] d_def
      by (simp add: align_step_def Let_def)
    moreover have "anchor + (d div step - 1) * step < target"
      using True assms(1) div_mod_decomp_int [of d step] d_def by (simp add: left_diff_distrib)
    ultimately show thesis using bounds(3) that by blast
  next
    case False
    have "target + (step - d mod step) = anchor + (d div step + 1) * step"
      using div_mod_decomp_int [of d step] d_def unfolding distrib_right by linarith
    then have "align_step target anchor step = anchor + (d div step + 1) * step"
      using \<open>Sub target anchor = d\<close> rem \<open>0 < d\<close> False \<open>in_i64 (step - d mod step)\<close>
      by (simp add: align_step_def Let_def)
    moreover have "anchor + (d div step + 1 - 1) * step < target"
      using div_mod_decomp_int [of d step] False bounds(1) d_def unfolding add_diff_cancel_right' by linarith
    ultimately show thesis using bounds(3) that [of "d div step + 1"] by linarith
  qed
qed


text \<open>A candidate the walk returns: not before the clock, inside the window, and no earlier than where it began.\<close>

definition gate :: "location \<Rightarrow> bool \<times> int \<times> int \<Rightarrow> int \<Rightarrow> bool" where
  "gate loc win t = (case win of (hasWindow, wsMin, weMin) \<Rightarrow> \<not> hasWindow \<or> isInWindow loc t wsMin weMin)"

lemma step_walk_Some:
  "step_walk loc win freq interval anchor now n c = Some t \<Longrightarrow> now \<le> t \<and> gate loc win t"
  by (induction loc win freq interval anchor now n c rule: step_walk.induct)
    (auto simp: gate_def split: if_splits)

lemma weekly_walk_Some:
  "weekly_walk loc win offsets cad now n c d = Some t \<Longrightarrow> now \<le> t \<and> gate loc win t"
  by (induction loc win offsets cad now n c d rule: weekly_walk.induct)
    (auto simp: gate_def split: if_splits)

definition valid_window :: "bool \<times> int \<times> int \<Rightarrow> bool" where
  "valid_window win = (case win of (h, ws, we) \<Rightarrow> h \<longrightarrow> 0 \<le> ws \<and> ws < we \<and> we \<le> 1440)"

context fixed_offset
begin

lemma step_walk_ge:
  assumes "freq \<in> {''minute'', ''hourly''}" and step: "0 < grid_step freq interval" "in_i64 (grid_step freq interval)"
    and "valid_window win"
  shows "step_walk loc win freq interval anchor now n c = Some t \<Longrightarrow> anchor \<le> c \<Longrightarrow> c \<le> t"
  using assms(1,4)
proof (induction n arbitrary: c)
  case 0
  then show ?case by (cases win) simp
next
  case (Suc n)
  obtain h ws we where win: "win = (h, ws, we)" by (cases win)
  consider "c < now" | "now \<le> c" "h" "\<not> isInWindow loc c ws we" | "t = c"
    using Suc.prems(1) by (auto simp: win split: if_splits)
  then show ?case
  proof cases
    case 1
    then have "step_walk loc win freq interval anchor now n (c + grid_step freq interval) = Some t"
      using Suc.prems by (simp add: win advance_grid)
    then show ?thesis using Suc.IH Suc.prems(2-) step by force
  next
    case 2
    let ?target = "nextWindowStart loc c ws"
    have "c < ?target" using nextWindowStart_gap(1) [of ws we c] 2 Suc.prems(4) by (simp add: win valid_window_def)
    moreover from this have "?target \<le> align_step ?target anchor (grid_step freq interval)"
      using align_step_ge [OF step] Suc.prems(2) by simp
    moreover have "step_walk loc win freq interval anchor now n
        (align_step ?target anchor (grid_step freq interval)) = Some t"
      using Suc.prems 2 by (simp add: win align_grid)
    ultimately show ?thesis using Suc.IH Suc.prems(2-) by force
  qed simp
qed

lemma nextWindowStart_le:
  assumes "ws \<le> 1440"
  shows "nextWindowStart loc c ws \<le> c + Day"
proof -
  define q where "q = wall loc c div Minute"
  define Q where "Q = q div 1440 * 1440 + (if q mod 1440 < ws then 0 else 1440) + ws"
  have "Q \<le> q + 1440"
  proof (cases "q mod 1440 < ws")
    case True
    then have "Q = q div 1440 * 1440 + ws" by (simp add: Q_def)
    then show ?thesis using assms div_mod_decomp_int [of q 1440] pos_mod_sign [of 1440 q] by linarith
  next
    case False
    then have "Q = q div 1440 * 1440 + 1440 + ws" by (simp add: Q_def)
    then show ?thesis using False div_mod_decomp_int [of q 1440] by linarith
  qed
  then have "Q * Minute \<le> (q + 1440) * Minute" by (rule mult_right_mono) simp
  moreover have "q * Minute \<le> wall loc c"
    using div_mod_decomp_int [of "wall loc c" Minute] pos_mod_sign [OF Day_pos(1), of "wall loc c"]
    unfolding q_def by linarith
  ultimately have "Q * Minute \<le> wall loc (c + Day)"
    by (simp add: wall_shift Day_Minute distrib_right)
  then show ?thesis
    using le_wall [of "nextWindowStart loc c ws" "c + Day"]
    by (simp add: nextWindowStart_wall Q_def q_def Let_def)
qed

text \<open>When no instant of the grid lies in the window, the walk gives up.\<close>

lemma step_walk_never:
  assumes freq: "freq \<in> {''minute'', ''hourly''}" and step: "grid_step freq interval = step" "0 < step" "in_i64 step"
    and win: "valid_window win" and never: "\<And>j. \<not> gate loc win (anchor + j * step)"
  shows "\<lbrakk>0 \<le> i; i * step + int n * (Day + step) < 2 ^ 63\<rbrakk> \<Longrightarrow>
     step_walk loc win freq interval anchor now n (anchor + i * step) = None"
proof (induction n arbitrary: i)
  case 0
  then show ?case by (cases win) simp
next
  case (Suc n)
  obtain h ws we where w: "win = (h, ws, we)" by (cases win)
  let ?c = "anchor + i * step"
  have "h" "\<not> isInWindow loc ?c ws we" using never [of i] by (simp_all add: gate_def w)
  then have range: "0 \<le> ws" "ws < we" "we \<le> 1440" using win by (simp_all add: w valid_window_def)
  show ?case
  proof (cases "?c < now")
    case True
    have "(i + 1) * step + int n * (Day + step) < 2 ^ 63"
      using Suc.prems(2) less_imp_le [OF Day_pos(3)] by (simp add: algebra_simps)
    then have "step_walk loc win freq interval anchor now n (anchor + (i + 1) * step) = None"
      using Suc.IH [of "i + 1"] Suc.prems(1) by simp
    then show ?thesis using True by (simp add: w advance_grid [OF freq] step algebra_simps)
  next
    case False
    let ?target = "nextWindowStart loc ?c ws"
    have "0 \<le> i * step" "0 \<le> int n * (Day + step)" using Suc.prems(1) step(2) less_imp_le [OF Day_pos(3)] by simp_all
    moreover have "?target \<le> ?c + Day" using nextWindowStart_le range by simp
    moreover have "i * step + int n * (Day + step) + Day + step < 2 ^ 63"
      using Suc.prems(2) by (simp add: algebra_simps)
    moreover have "?c < ?target"
      using nextWindowStart_gap(1) [OF range] \<open>\<not> isInWindow loc ?c ws we\<close> by simp
    ultimately have "anchor < ?target" "?target - anchor < 2 ^ 63" using step(2) by linarith+
    then obtain k where k: "align_step ?target anchor step = anchor + k * step" "0 \<le> k"
        "anchor + (k - 1) * step < ?target"
      using align_step_least [OF step(2,3)] by blast
    have "k * step < i * step + Day + step"
      using k(3) \<open>?target \<le> ?c + Day\<close> by (simp add: left_diff_distrib)
    then have "k * step + int n * (Day + step) < 2 ^ 63"
      using \<open>i * step + int n * (Day + step) + Day + step < 2 ^ 63\<close> by linarith
    then have "step_walk loc win freq interval anchor now n (anchor + k * step) = None"
      using Suc.IH [of k] k(2) by simp
    then show ?thesis
      using False \<open>h\<close> \<open>\<not> isInWindow loc ?c ws we\<close> k(1) by (simp add: w align_grid [OF freq] step)
  qed
qed

text \<open>The walk returns the least grid instant that is not before the clock and lies in the window.\<close>

lemma step_walk_least:
  assumes freq: "freq \<in> {''minute'', ''hourly''}" and step: "grid_step freq interval = step" "0 < step" "in_i64 step"
    and win: "valid_window win"
  shows "\<lbrakk>step_walk loc win freq interval anchor now n (anchor + i * step) = Some t; t - anchor < 2 ^ 63; 0 \<le> i;
          \<And>j. \<lbrakk>0 \<le> j; j < i; now \<le> anchor + j * step\<rbrakk> \<Longrightarrow> \<not> gate loc win (anchor + j * step)\<rbrakk>
         \<Longrightarrow> \<exists>k\<ge>0. t = anchor + k * step \<and>
               (\<forall>j\<ge>0. now \<le> anchor + j * step \<and> gate loc win (anchor + j * step) \<longrightarrow> k \<le> j)"
proof (induction n arbitrary: i)
  case 0
  then show ?case by (cases win) simp
next
  case (Suc n)
  obtain h ws we where w: "win = (h, ws, we)" by (cases win)
  let ?c = "anchor + i * step"
  have "anchor \<le> ?c" using Suc.prems(3) step(2) by simp
  consider "?c < now" | "now \<le> ?c" "h" "\<not> isInWindow loc ?c ws we" | "now \<le> ?c" "t = ?c"
    using Suc.prems(1) by (auto simp: w split: if_splits)
  then show ?case
  proof cases
    case 1
    then have "step_walk loc win freq interval anchor now n (anchor + (i + 1) * step) = Some t"
      using Suc.prems(1) by (simp add: w advance_grid [OF freq] step algebra_simps)
    moreover have "\<not> gate loc win (anchor + j * step)"
      if "0 \<le> j" "j < i + 1" "now \<le> anchor + j * step" for j
      using that 1 Suc.prems(4) [of j] by (cases "j = i") auto
    ultimately show ?thesis using Suc.IH [of "i + 1"] Suc.prems(2,3) by simp
  next
    case 2
    let ?target = "nextWindowStart loc ?c ws"
    have range: "0 \<le> ws" "ws < we" "we \<le> 1440" using win 2 by (simp_all add: w valid_window_def)
    note gap = nextWindowStart_gap [OF range 2(3)]
    let ?c' = "align_step ?target anchor step"
    have walk: "step_walk loc win freq interval anchor now n ?c' = Some t"
      using Suc.prems(1) 2 by (simp add: w align_grid [OF freq] step)
    have "?target \<le> ?c'" using align_step_ge step(2,3) gap(1) \<open>anchor \<le> ?c\<close> by simp
    moreover from this have "?c' \<le> t"
      using step_walk_ge [OF freq _ _ win walk] step gap(1) \<open>anchor \<le> ?c\<close> by simp
    ultimately have "?target - anchor < 2 ^ 63" using Suc.prems(2) by simp
    then obtain k where k: "?c' = anchor + k * step" "0 \<le> k" "anchor + (k - 1) * step < ?target"
      using align_step_least [OF step(2,3)] gap(1) \<open>anchor \<le> ?c\<close> by (metis order.strict_trans1)
    have "\<not> gate loc win (anchor + j * step)" if j: "0 \<le> j" "j < k" "now \<le> anchor + j * step" for j
    proof (cases "j < i")
      case False
      have "j * step \<le> (k - 1) * step" "i * step \<le> j * step"
        using j False step(2) by (simp_all add: mult_right_mono)
      then show ?thesis using gap(2) [of "anchor + j * step"] k(3) 2 by (simp add: gate_def w)
    qed (use j Suc.prems(4) in simp)
    then show ?thesis using Suc.IH [of k] walk k Suc.prems(2) by simp
  next
    case 3
    then show ?thesis
      using Suc.prems(3,4) step(2) by (intro exI [of _ i]) (metis linorder_not_less)
  qed
qed

end

end
