(* ===== verification/Recurrence_Next.thy ===== *)
theory Recurrence_Next
  imports Recurrence_Laws
begin

text \<open>
  What \<open>ComputeNextRunAt\<close> returns: the weekly day-by-day walk against a reference that reads the selected
  weekdays off the calendar, the grid frequencies in closed form, the windowed grid as a least element, and
  validation as a fixed point whose results always have an anchor.
\<close>

section \<open>The weekly walk\<close>

text \<open>Day \<open>k\<close> after the anchor lies in an active week and on a selected weekday, counted on from the weekday of the
  anchor. A name that is not a weekday counts as Sunday, as it does in the code.\<close>

definition weekly_day :: "location \<Rightarrow> schedule \<Rightarrow> int \<Rightarrow> nat \<Rightarrow> bool" where
  "weekly_day loc s anchor k \<longleftrightarrow>
     int k mod (7 * max 1 (Interval s)) < 7 \<and>
     (Days s = [] \<or> (\<exists>d \<in> List.set (Days s). weekdayOffset d = (Weekday loc anchor + int k) mod 7))"

lemma offset_mod:
  fixes aw wd m :: int
  assumes "0 \<le> aw" "aw < 7" "0 \<le> wd" "wd < 7" "0 \<le> m"
  shows "m = (wd - aw + 7) mod 7 \<longleftrightarrow> m < 7 \<and> (aw + m) mod 7 = wd"
proof -
  have "(wd - aw + 7) mod 7 = (if aw \<le> wd then wd - aw else wd - aw + 7)"
    using assms mod_pos_pos_trivial [of "wd - aw + 7" 7] mod_pos_pos_trivial [of "wd - aw" 7]
      mod_add_self2 [of "wd - aw" 7] by (cases "aw \<le> wd") (simp_all del: mod_add_self2)
  moreover have "(aw + m) mod 7 = (if aw + m < 7 then aw + m else aw + m - 7)" if "m < 7"
    using assms that minus_mod_self2 [of "aw + m" 7] mod_pos_pos_trivial [of "aw + m - 7" 7]
    by (simp del: minus_mod_self2)
  ultimately show ?thesis using assms by (cases "m < 7") (auto split: if_splits)
qed

lemma weekdayOffset_name:
  assumes "d \<in> List.set validDays" "0 \<le> w" "w < 7"
  shows "weekdayOffset d = w \<longleftrightarrow>
     [''Sun'', ''Mon'', ''Tue'', ''Wed'', ''Thu'', ''Fri'', ''Sat''] ! nat w = d"
proof -
  have "list_all (\<lambda>d. list_all (\<lambda>w. (weekdayOffset d = w) =
      ([''Sun'', ''Mon'', ''Tue'', ''Wed'', ''Thu'', ''Fri'', ''Sat''] ! nat w = d)) [0, 1, 2, 3, 4, 5, 6]) validDays"
    by code_simp
  moreover have "w \<in> List.set [0, 1, 2, 3, 4, 5, 6]" using assms(2,3) by auto
  ultimately show ?thesis using assms(1) unfolding list_all_iff by blast
qed

lemma weekdayOffset_range: "0 \<le> weekdayOffset d" "weekdayOffset d < 7"
  by (simp_all add: weekdayOffset_def)

lemma Weekday_range: "0 \<le> Weekday loc t" "Weekday loc t < 7"
  by (simp_all add: Weekday_def)

lemma validOffsets_day:
  "int k mod (7 * max 1 (Interval s)) \<in> List.set (validOffsets (Weekday loc anchor) (Days s)) \<longleftrightarrow>
     weekly_day loc s anchor k"
proof -
  define m where "m = int k mod (7 * max 1 (Interval s))"
  have "0 \<le> m" by (simp add: m_def)
  have "m mod 7 = int k mod 7" by (simp add: m_def mod_mod_cancel)
  then have w: "(Weekday loc anchor + m) mod 7 = (Weekday loc anchor + int k) mod 7" by (metis mod_add_right_eq)
  show ?thesis
  proof (cases "Days s = []")
    case True
    then show ?thesis using \<open>0 \<le> m\<close> by (auto simp: validOffsets_def weekly_day_def m_def [symmetric])
  next
    case False
    have "m = (weekdayOffset d - Weekday loc anchor + 7) mod 7 \<longleftrightarrow>
        m < 7 \<and> weekdayOffset d = (Weekday loc anchor + int k) mod 7" for d
      using offset_mod [OF Weekday_range weekdayOffset_range \<open>0 \<le> m\<close>] w by auto
    then show ?thesis
      using False by (auto simp: validOffsets_def weekly_day_def m_def [symmetric] image_iff)
  qed
qed

text \<open>The walk returns the first of the next \<open>n\<close> local days that passes its three tests.\<close>

lemma weekly_walk_first:
  fixes loc :: location and c d cad now :: int and offs :: "int list" and win :: "bool \<times> int \<times> int"
  defines "ok \<equiv> \<lambda>k c d. now \<le> (AddDays loc 1 ^^ k) c \<and> (d + int k) mod cad \<in> List.set offs \<and>
      gate loc win ((AddDays loc 1 ^^ k) c)"
  shows "weekly_walk loc win offs cad now n c d =
     (if \<exists>k<n. ok k c d then Some ((AddDays loc 1 ^^ (LEAST k. ok k c d)) c) else None)"
proof (induction n arbitrary: c d)
  case 0
  then show ?case by (cases win) simp
next
  case (Suc n)
  let ?c = "AddDays loc 1 c"
  have shift: "ok (Suc k) c d = ok k ?c (d + 1)" for k
    by (simp add: ok_def algebra_simps funpow_swap1)
  have ex: "(\<exists>k<Suc n. ok k c d) \<longleftrightarrow> ok 0 c d \<or> (\<exists>k<n. ok k ?c (d + 1))"
    by (auto simp: less_Suc_eq_0_disj shift)
  have hd: "ok 0 c d \<longleftrightarrow> now \<le> c \<and> d mod cad \<in> List.set offs \<and> gate loc win c"
    by (simp add: ok_def)
  show ?case
  proof (cases "ok 0 c d")
    case True
    then show ?thesis using hd ex by (cases win) (simp add: gate_def Least_eq_0 [of "\<lambda>k. ok k c d"])
  next
    case False
    have "weekly_walk loc win offs cad now (Suc n) c d = weekly_walk loc win offs cad now n ?c (d + 1)"
      using False hd by (cases win) (auto simp: gate_def)
    moreover have "(LEAST k. ok k c d) = Suc (LEAST k. ok k ?c (d + 1))" if "ok k ?c (d + 1)" for k
      using Least_Suc [of "\<lambda>k. ok k c d" "Suc k"] False that by (simp add: shift)
    ultimately show ?thesis using Suc.IH False ex by (auto simp: funpow_swap1)
  qed
qed

context fixed_offset
begin

text \<open>With validated names and no clock changes the selected days are those of the calendar.\<close>

lemma weekly_day_calendar:
  assumes "List.set (Days s) \<subseteq> List.set validDays"
  shows "weekly_day loc s anchor k \<longleftrightarrow>
     int k mod (7 * max 1 (Interval s)) < 7 \<and> (Days s = [] \<or> dayMatches loc ((AddDays loc 1 ^^ k) anchor) (Days s))"
proof -
  have "weekdayOffset d = Weekday loc (anchor + int k * Day) \<longleftrightarrow>
      [''Sun'', ''Mon'', ''Tue'', ''Wed'', ''Thu'', ''Fri'', ''Sat''] ! nat (Weekday loc (anchor + int k * Day)) = d"
    if "d \<in> List.set (Days s)" for d
    using that assms weekdayOffset_name [OF _ Weekday_range] by blast
  then show ?thesis by (auto simp: weekly_day_def dayMatches_def AddDays_funpow Weekday_AddDays)
qed

end

section \<open>Validation\<close>

lemma validate_days_fixed:
  "validate_days ds = Inr days \<Longrightarrow> validate_days days = Inr days \<and> List.set days \<subseteq> List.set validDays"
  by (induction ds arbitrary: days) (auto simp: Let_def split: if_splits sum.splits)

lemma validate_days_valid: "validate_days ds = Inr days \<Longrightarrow> d \<in> List.set days \<Longrightarrow> d \<in> List.set validDays"
  using validate_days_fixed by blast

lemma valid_frequency_fixed: "freq \<in> List.set validFrequencies \<Longrightarrow> ToLower (TrimSpace freq) = freq"
proof -
  have "list_all (\<lambda>freq. ToLower (TrimSpace freq) = freq) validFrequencies" by code_simp
  then show "freq \<in> List.set validFrequencies \<Longrightarrow> ToLower (TrimSpace freq) = freq" by (auto simp: list_all_iff)
qed

lemma outputs_mode_fixed:
  "NormalizeRecurringOutputsMode (NormalizeRecurringOutputsMode m) = NormalizeRecurringOutputsMode m"
proof -
  have "NormalizeRecurringOutputsMode m \<in> List.set [''idea'', ''none'', ''standard'']"
    by (auto simp: NormalizeRecurringOutputsMode_def Let_def)
  moreover have "list_all (\<lambda>m. NormalizeRecurringOutputsMode m = m) [''idea'', ''none'', ''standard'']" by code_simp
  ultimately show ?thesis by (auto simp: list_all_iff)
qed

lemmas validation = ValidateRecurringSchedule_def Let_def

text \<open>What validation stores is in normal form: validating it again accepts it and returns it unchanged.\<close>

lemma validated_is_fixed_point:
  assumes "ValidateRecurringSchedule zones (Some m) = Inr (Some s)"
  shows "ValidateRecurringSchedule zones (Some s) = Inr (Some s)"
  using assms
  by (auto simp: validation valid_frequency_fixed outputs_mode_fixed split: if_splits sum.splits option.splits
      dest: validate_days_fixed)

section \<open>What the code returns\<close>

lemma parse_clock_range:
  assumes "parse_clock s = Some m"
  shows "0 \<le> m \<and> m < 1440"
proof -
  have digit: "0 \<le> d" if "digit c = Some d" for c d
    using that by (auto simp: digit_def Let_def split: if_splits)
  have nonneg: "digits s acc = Some d \<Longrightarrow> 0 \<le> acc \<Longrightarrow> 0 \<le> d" for s acc d
    by (induction s acc rule: digits.induct) (auto split: option.splits dest: digit)
  have "0 \<le> m \<and> m < 1440" if "parse_minutes (digits a 0) (digits b 0) = Some m" for a b
    using that nonneg [of a 0] nonneg [of b 0] by (auto simp: parse_minutes_def split: option.splits if_splits)
  then show ?thesis using assms by (cases s rule: parse_clock.cases) (auto split: if_splits simp del: digits.simps)
qed

lemma valid_parseWindow: "valid_window (parseWindow s)"
  by (auto simp: valid_window_def parseWindow_def Let_def split: option.splits dest!: parse_clock_range)


lemma ComputeNextRunAt_cases:
  assumes "schedule_anchor zones s = Some a"
  shows "ComputeNextRunAt zones (Some s) now = Some
     (case (if ToLower (TrimSpace (Frequency s)) = ''weekly''
            then weekly_walk (schedule_zone zones s) (parseWindow s)
                   (validOffsets (Weekday (schedule_zone zones s) a) (Days s)) (7 * max 1 (Interval s)) now 1000 a 0
            else step_walk (schedule_zone zones s) (parseWindow s) (ToLower (TrimSpace (Frequency s)))
                   (max 1 (Interval s)) a now 1000 a) of
        Some t \<Rightarrow> t | None \<Rightarrow> a)"
proof -
  have "(if Interval s < 1 then 1 else Interval s) = max 1 (Interval s)" by simp
  then show ?thesis using assms by (simp add: ComputeNextRunAt_def Let_def split: option.splits)
qed

lemma schedule_zone_empty: "TrimSpace (Timezone s) = [] \<Longrightarrow> schedule_zone zones s = fixed_zone 0"
  by (simp add: schedule_zone_def RecurringZone_def Let_def UTC_fixed)

lemma anchor_minute:
  assumes "schedule_anchor zones s = Some a" "parse_clock (TrimSpace (StartTime s)) = Some m"
    and "schedule_zone zones s = fixed_zone z"
  shows "minute_of_day (fixed_zone z) a = m"
proof -
  obtain w where "a = at_wall (fixed_zone z) (w * Day + m * Minute)"
    using assms by (auto simp: schedule_anchor_def parse_in_location_def split: option.splits)
  then have "minute_of_day (fixed_zone z) a = (w * Day + m * Minute) div Minute mod 1440"
    by (simp add: fixed.minute_of_day_alt fixed.wall_at)
  also have "\<dots> = (w * 1440 + m) mod 1440"
    by (simp add: Day_Minute algebra_simps flip: mult.assoc)
  also have "\<dots> = m" using parse_clock_range [OF assms(2)] by simp
  finally show ?thesis .
qed

lemma validated_fields:
  assumes "ValidateRecurringSchedule zones (Some m) = Inr (Some s)"
  shows "\<exists>a. schedule_anchor zones s = Some a" and "1 \<le> Interval s"
    and "List.set (Days s) \<subseteq> List.set validDays" and "ToLower (TrimSpace (Frequency s)) = Frequency s"
    and "Frequency s \<in> List.set validFrequencies"
  using assms
  by (auto simp: validation valid_frequency_fixed schedule_anchor_def parse_in_location_def
      split: if_splits sum.splits option.splits dest: validate_days_valid)

lemma validated_start_in_window:
  assumes "ValidateRecurringSchedule zones (Some m) = Inr (Some s)"
    and "Frequency s \<in> {''daily'', ''weekly'', ''monthly''}"
    and "schedule_zone zones s = fixed_zone z" "schedule_anchor zones s = Some a"
  shows "gate (fixed_zone z) (parseWindow s) a"
proof -
  obtain m' where start: "parse_clock (TrimSpace (StartTime s)) = Some m'"
    using assms(4) by (auto simp: schedule_anchor_def parse_in_location_def split: option.splits)
  have "validate_window (Frequency s) (StartTime s) (WindowStart s) (WindowEnd s) = None"
    "TrimSpace (StartTime s) = StartTime s" "TrimSpace (WindowStart s) = WindowStart s"
    "TrimSpace (WindowEnd s) = WindowEnd s"
    using assms(1) by (auto simp: validation split: if_splits sum.splits option.splits)
  then show ?thesis
    using assms(2) start anchor_minute [OF assms(4) start assms(3)]
    by (auto simp: gate_def parseWindow_def validate_window_def isInWindow_def Let_def
        split: if_splits option.splits)
qed

text \<open>Two schedules the witnesses use: Mondays and Fridays at nine, and a daily job kept to a window its start misses.\<close>

definition standup :: schedule where
  "standup = \<lparr>Frequency = ''weekly'', Interval = 1, Days = [''Mon'', ''Fri''], StartDate = ''2026-03-02'',
     StartTime = ''09:00'', OutputsMode = ''standard'', WindowStart = ''08:30'', WindowEnd = ''17:00'', Timezone = []\<rparr>"

definition poll :: schedule where
  "poll = standup\<lparr>Frequency := ''minute'', Interval := 45, Days := []\<rparr>"

definition nightly :: schedule where
  "nightly = standup\<lparr>Frequency := ''hourly'', Interval := 24, Days := [], StartTime := ''02:00''\<rparr>"

definition no_zones :: "string \<Rightarrow> location option" where
  "no_zones name = None"

lemma sample_zones:
  "schedule_zone no_zones standup = fixed_zone 0" "schedule_zone no_zones poll = fixed_zone 0"
  "schedule_zone no_zones nightly = fixed_zone 0"
  by (simp_all add: schedule_zone_empty standup_def poll_def nightly_def)

lemma sample_anchors:
  "schedule_anchor no_zones standup = Some 1772442000000000000"
  "schedule_anchor no_zones poll = Some 1772442000000000000"
  "schedule_anchor no_zones nightly = Some 1772416800000000000"
  by code_simp+

lemma sample_validated:
  "ValidateRecurringSchedule no_zones (Some (standup\<lparr>Days := ['' Mon'', [], ''Fri '']\<rparr>)) = Inr (Some standup)"
  "ValidateRecurringSchedule no_zones (Some nightly) = Inr (Some nightly)"
  by code_simp+

lemma sample_next:
  "ComputeNextRunAt no_zones (Some standup) 1772442000000000001 = Some 1772787600000000000"
  "ComputeNextRunAt no_zones (Some poll) 1772469000000000001 = Some 1772528400000000000"
  by code_simp+

text \<open>For any zone and frequency: the next occurrence of a schedule is not before the clock and lies in the
  daily window, or it is the anchor.\<close>

lemma next_run_in_window_or_anchor:
  assumes "ComputeNextRunAt zones (Some s) now = Some t"
  shows "now \<le> t \<and> gate (schedule_zone zones s) (parseWindow s) t \<or> schedule_anchor zones s = Some t"
proof -
  obtain a where a: "schedule_anchor zones s = Some a"
    using assms by (auto simp: ComputeNextRunAt_def Let_def split: option.splits)
  show ?thesis
    using assms by (auto simp: ComputeNextRunAt_cases [OF a] a split: option.splits if_splits
        dest: step_walk_Some weekly_walk_Some)
qed

text \<open>C20. A weekly schedule, in any zone: count the local days from the anchor. The next occurrence is the first of them that
  is not before the clock, lies in an active week (one week of every \<open>Interval\<close>, an interval below one taken as one), falls on a
  selected weekday, counted on from the weekday of the anchor, and is inside the window; when the first 1000 days hold none it is
  the anchor. Any day is selected when none is named, and a name that is not exactly a weekday counts as Sunday. When all the
  names are weekdays and the zone has a fixed offset, the selected days are those on which the calendar shows such a weekday.\<close>

lemma weekly_next_run:
  assumes "schedule_anchor zones s = Some a" "ToLower (TrimSpace (Frequency s)) = ''weekly''"
  shows "let loc = schedule_zone zones s; day = (\<lambda>k. (AddDays loc 1 ^^ k) a);
             fires = (\<lambda>k. now \<le> day k \<and> weekly_day loc s a k \<and> gate loc (parseWindow s) (day k))
         in ComputeNextRunAt zones (Some s) now = Some (if \<exists>k<1000. fires k then day (LEAST k. fires k) else a) \<and>
            (\<forall>z k. loc = fixed_zone z \<and> List.set (Days s) \<subseteq> List.set validDays \<longrightarrow>
               (weekly_day loc s a k \<longleftrightarrow>
                  int k mod (7 * max 1 (Interval s)) < 7 \<and> (Days s = [] \<or> dayMatches loc (day k) (Days s))))"
proof -
  let ?fires = "\<lambda>k. now \<le> (AddDays (schedule_zone zones s) 1 ^^ k) a \<and> weekly_day (schedule_zone zones s) s a k \<and>
      gate (schedule_zone zones s) (parseWindow s) ((AddDays (schedule_zone zones s) 1 ^^ k) a)"
  have "ComputeNextRunAt zones (Some s) now =
      Some (if \<exists>k<1000. ?fires k then (AddDays (schedule_zone zones s) 1 ^^ (LEAST k. ?fires k)) a else a)"
    using assms by (cases "\<exists>k<1000. ?fires k") (auto simp: ComputeNextRunAt_cases weekly_walk_first validOffsets_day)
  then show ?thesis unfolding Let_def using fixed.weekly_day_calendar by simp
qed

lemma grid_next_run_aux:
  assumes "schedule_zone zones s = fixed_zone z" "schedule_anchor zones s = Some a"
    and "ToLower (TrimSpace (Frequency s)) = freq" "freq \<in> {''minute'', ''hourly'', ''daily''}"
    and "1 \<le> Interval s" "0 < grid_step freq (Interval s)" "\<not> fst (parseWindow s)"
  shows "ComputeNextRunAt zones (Some s) now = Some
     (let n = rounds (grid_step freq (Interval s)) a now
      in if n < 1000 then a + int n * grid_step freq (Interval s) else a)"
proof -
  obtain x y where w: "parseWindow s = (False, x, y)" using assms(7) by (cases "parseWindow s") auto
  have "freq \<noteq> ''weekly''" using assms(4) by auto
  then show ?thesis
    using assms(3,5) step_walk_plain [OF assms(6) advance_grid_fixed [OF assms(4)]]
    by (simp add: ComputeNextRunAt_cases [OF assms(2)] assms(1) w Let_def max_absorb2)
qed

text \<open>A schedule by minutes, hours or days without a window, in a zone without clock changes: the next
  occurrence is the first instant of the grid that is not before the clock if it is fewer than 1000 steps
  from the anchor, and otherwise the anchor, which is then in the past.\<close>

lemma grid_next_run:
  assumes "schedule_zone zones s = fixed_zone z" "schedule_anchor zones s = Some a"
    and "ToLower (TrimSpace (Frequency s)) = freq" "freq \<in> {''minute'', ''hourly'', ''daily''}"
    and "1 \<le> Interval s" "0 < grid_step freq (Interval s)" "\<not> fst (parseWindow s)"
  shows "ComputeNextRunAt zones (Some s) now = Some
     (let n = rounds (grid_step freq (Interval s)) a now
      in if n < 1000 then a + int n * grid_step freq (Interval s) else a)"
  by (rule grid_next_run_aux [OF assms])

text \<open>C21. A schedule by minutes or hours, with or without a daily window, in a zone with a fixed offset, with an
  interval of at least one and a step that does not overflow to zero or below. Its next occurrence is the anchor, or an instant
  292 years or more after the anchor, or else the least instant of its grid that is not before the clock and inside the window.
  The anchor can be the answer although it is in the past or outside the window: when the thousand steps of the search are used
  up, and for an hourly schedule of whole days that starts outside its window.\<close>

lemma windowed_next_run:
  assumes "schedule_zone zones s = fixed_zone z" "schedule_anchor zones s = Some a"
    and freq: "ToLower (TrimSpace (Frequency s)) = freq" "freq \<in> {''minute'', ''hourly''}"
    and "1 \<le> Interval s" "0 < grid_step freq (Interval s)"
    and t: "ComputeNextRunAt zones (Some s) now = Some t"
  shows "t = a \<or> 2 ^ 63 \<le> t - a \<or>
         (\<exists>k\<ge>0. t = a + k * grid_step freq (Interval s) \<and> now \<le> t \<and> gate (fixed_zone z) (parseWindow s) t \<and>
           (\<forall>j\<ge>0. now \<le> a + j * grid_step freq (Interval s) \<and>
                   gate (fixed_zone z) (parseWindow s) (a + j * grid_step freq (Interval s)) \<longrightarrow> k \<le> j))"
proof (cases "t = a \<or> 2 ^ 63 \<le> t - a")
  case False
  have "freq \<noteq> ''weekly''" using freq(2) by auto
  then have walk: "step_walk (fixed_zone z) (parseWindow s) freq (Interval s) a now 1000 (a + 0 * grid_step freq (Interval s)) = Some t"
    using t False assms(1,5) freq(1)
    by (simp add: ComputeNextRunAt_cases [OF assms(2)] max_absorb2 split: option.splits)
  have "in_i64 (grid_step freq (Interval s))" using freq(2) by (auto simp: grid_step_def)
  from fixed.step_walk_least [OF freq(2) refl assms(6) this valid_parseWindow walk] False
  show ?thesis using step_walk_Some [OF walk] by auto
qed blast

text \<open>An hourly schedule whose interval is a whole number of days and whose start lies outside its window
  passes validation, but no instant of its grid is ever inside the window: the next occurrence is the anchor,
  outside the window, at every clock reading.\<close>

lemma window_never_reached:
  assumes "schedule_zone zones s = fixed_zone z" "schedule_anchor zones s = Some a"
    and freq: "ToLower (TrimSpace (Frequency s)) = ''hourly''" and "1 \<le> Interval s"
    and step: "grid_step ''hourly'' (Interval s) = days * Day" "0 < days" "1000 * (days + 1) * Day < 2 ^ 63"
    and "\<not> gate (fixed_zone z) (parseWindow s) a"
  shows "ComputeNextRunAt zones (Some s) now = Some a"
proof -
  have never: "\<not> gate (fixed_zone z) (parseWindow s) (a + j * (days * Day))" for j
    using assms(8) fixed.window_AddDays [of z a "j * days"] by (simp add: gate_def mult.assoc split: prod.splits)
  have "in_i64 (days * Day)"
    using i64_range [of "Interval s * Hour"] step(1) by (simp add: grid_step_def del: i64_range)
  moreover have "0 * (days * Day) + int 1000 * (Day + days * Day) < 2 ^ 63"
    using step(3) by (simp add: algebra_simps)
  ultimately have "step_walk (fixed_zone z) (parseWindow s) ''hourly'' (Interval s) a now 1000 (a + 0 * (days * Day)) = None"
    using step(1,2) by (intro fixed.step_walk_never valid_parseWindow never) simp_all
  then show ?thesis
    using assms(1,4) freq by (simp add: ComputeNextRunAt_cases [OF assms(2)] max_absorb2)
qed

text \<open>C35. A validated schedule always has a next occurrence: in any zone it is the anchor, or an instant that is not before
  the clock and lies in the daily window. In a zone with a fixed offset the anchor of a validated daily, weekly or monthly
  schedule lies in the window too, so such a schedule never leaves it. In a zone with clock changes the anchor can fall into
  a gap and outside the window.\<close>

lemma validated_has_next:
  assumes "ValidateRecurringSchedule zones (Some m) = Inr (Some s)"
  shows "\<exists>t. ComputeNextRunAt zones (Some s) now = Some t \<and>
     (schedule_anchor zones s = Some t \<or> now \<le> t \<and> gate (schedule_zone zones s) (parseWindow s) t) \<and>
     (schedule_zone zones s = fixed_zone z \<and> Frequency s \<in> {''daily'', ''weekly'', ''monthly''} \<longrightarrow>
        gate (fixed_zone z) (parseWindow s) t)"
proof -
  obtain a where a: "schedule_anchor zones s = Some a" using validated_fields(1) [OF assms] by blast
  then obtain t where t: "ComputeNextRunAt zones (Some s) now = Some t" by (simp add: ComputeNextRunAt_cases)
  then have "now \<le> t \<and> gate (schedule_zone zones s) (parseWindow s) t \<or> t = a"
    by (auto simp: ComputeNextRunAt_cases [OF a] split: option.splits if_splits
        dest: step_walk_Some weekly_walk_Some)
  then show ?thesis using t a validated_start_in_window [OF assms _ _ a] by metis
qed

section \<open>Two divergences\<close>

text \<open>Validation trims the weekday names, but creating an item computes its first occurrence from the request as
  it came, where a padded name counts as Sunday: the first occurrence and the stored schedule disagree.\<close>

lemma untrimmed_day_is_sunday:
  "\<exists>m s now. ValidateRecurringSchedule no_zones (Some m) = Inr (Some s) \<and>
     Days s = [''Mon''] \<and> dayMatches UTC (the (ComputeNextRunAt no_zones (Some s) now)) [''Mon''] \<and>
     dayMatches UTC (the (ComputeNextRunAt no_zones (Some m) now)) [''Sun'']"
proof -
  let ?m = "standup\<lparr>Days := ['' Mon'']\<rparr>" and ?s = "standup\<lparr>Days := [''Mon'']\<rparr>"
  have "ValidateRecurringSchedule no_zones (Some ?m) = Inr (Some ?s)" by code_simp
  moreover have "dayMatches UTC (the (ComputeNextRunAt no_zones (Some ?s) 1772442000000000001)) [''Mon'']" by code_simp
  moreover have "dayMatches UTC (the (ComputeNextRunAt no_zones (Some ?m) 1772442000000000001)) [''Sun'']" by code_simp
  moreover have "Days ?s = [''Mon'']" by simp
  ultimately show ?thesis by blast
qed

definition rent :: schedule where
  "rent = standup\<lparr>Frequency := ''monthly'', Days := [], StartDate := ''2026-01-31''\<rparr>"

text \<open>A monthly schedule anchored on the 31st of January leaves the end of the month: adding a month to a
  normalised date gives the 3rd of March, and from there every month's 3rd.\<close>

lemma monthly_drift:
  "ValidateRecurringSchedule no_zones (Some rent) = Inr (Some rent) \<and>
   schedule_anchor no_zones rent = Some (days_from_civil 2026 1 31 * Day + 9 * Hour) \<and>
   ComputeNextRunAt no_zones (Some rent) (days_from_civil 2026 2 1 * Day) =
     Some (days_from_civil 2026 3 3 * Day + 9 * Hour) \<and>
   ComputeNextRunAt no_zones (Some rent) (days_from_civil 2026 3 4 * Day) =
     Some (days_from_civil 2026 4 3 * Day + 9 * Hour)"
  by (intro conjI) code_simp+

section \<open>Witnesses\<close>

lemma validated_is_fixed_point_witness:
  "ValidateRecurringSchedule no_zones (Some standup) = Inr (Some standup)"
  by (rule validated_is_fixed_point [OF sample_validated(1)])

lemma next_run_in_window_or_anchor_witness:
  "1772442000000000001 \<le> (1772787600000000000 :: int) \<and>
     gate (schedule_zone no_zones standup) (parseWindow standup) 1772787600000000000 \<or>
   schedule_anchor no_zones standup = Some 1772787600000000000"
  by (rule next_run_in_window_or_anchor [OF sample_next(1)])

lemma weekly_next_run_witness:
  "let loc = schedule_zone no_zones standup; day = (\<lambda>k. (AddDays loc 1 ^^ k) 1772442000000000000);
             fires = (\<lambda>k. 1772442000000000001 \<le> day k \<and> weekly_day loc standup 1772442000000000000 k \<and>
                        gate loc (parseWindow standup) (day k))
         in ComputeNextRunAt no_zones (Some standup) 1772442000000000001 =
              Some (if \<exists>k<1000. fires k then day (LEAST k. fires k) else 1772442000000000000)"
proof -
  have "ToLower (TrimSpace (Frequency standup)) = ''weekly''" by code_simp
  from weekly_next_run [OF sample_anchors(1) this] show ?thesis unfolding Let_def by (rule conjunct1)
qed

lemma grid_next_run_witness:
  "ComputeNextRunAt no_zones (Some (poll\<lparr>WindowStart := [], WindowEnd := []\<rparr>)) 1772466300000000001 =
     Some 1772469000000000000"
proof -
  let ?s = "poll\<lparr>WindowStart := [], WindowEnd := []\<rparr>"
  have "schedule_zone no_zones ?s = fixed_zone 0"
    by (rule schedule_zone_empty) (simp add: poll_def standup_def)
  moreover have "schedule_anchor no_zones ?s = Some 1772442000000000000" by code_simp
  moreover have "ToLower (TrimSpace (Frequency ?s)) = ''minute''" by code_simp
  moreover have "1 \<le> Interval ?s" "\<not> fst (parseWindow ?s)" by code_simp+
  moreover have "0 < grid_step ''minute'' (Interval ?s)" by code_simp
  ultimately have "ComputeNextRunAt no_zones (Some ?s) 1772466300000000001 = Some
     (let n = rounds (grid_step ''minute'' (Interval ?s)) 1772442000000000000 1772466300000000001
      in if n < 1000 then 1772442000000000000 + int n * grid_step ''minute'' (Interval ?s) else 1772442000000000000)"
    by (intro grid_next_run) simp_all
  also have "\<dots> = Some 1772469000000000000" by code_simp
  finally show ?thesis .
qed

lemma windowed_next_run_witness:
  "\<exists>k\<ge>0. (1772528400000000000 :: int) = 1772442000000000000 + k * grid_step ''minute'' (Interval poll) \<and>
     gate (fixed_zone 0) (parseWindow poll) 1772528400000000000"
proof -
  have "ToLower (TrimSpace (Frequency poll)) = ''minute''" "1 \<le> Interval poll"
    "0 < grid_step ''minute'' (Interval poll)" by code_simp+
  from windowed_next_run [OF sample_zones(2) sample_anchors(2) this(1) _ this(2,3) sample_next(2)]
  show ?thesis by auto
qed

lemma window_never_reached_witness:
  "ValidateRecurringSchedule no_zones (Some nightly) = Inr (Some nightly) \<and>
   \<not> gate (fixed_zone 0) (parseWindow nightly) 1772416800000000000 \<and>
   (\<forall>now. ComputeNextRunAt no_zones (Some nightly) now = Some 1772416800000000000)"
proof -
  have *: "ToLower (TrimSpace (Frequency nightly)) = ''hourly''" "1 \<le> Interval nightly"
    "grid_step ''hourly'' (Interval nightly) = 1 * Day" "1000 * (1 + 1) * Day < 2 ^ 63"
    "\<not> gate (fixed_zone 0) (parseWindow nightly) 1772416800000000000" by code_simp+
  show ?thesis
    using window_never_reached [OF sample_zones(3) sample_anchors(3) *(1,2,3) _ *(4,5)] *(5) sample_validated(2)
    by simp
qed

lemma validated_has_next_witness:
  "\<exists>t. ComputeNextRunAt no_zones (Some standup) 1772442000000000001 = Some t \<and>
        gate (fixed_zone 0) (parseWindow standup) t"
  using validated_has_next [OF sample_validated(1), of 1772442000000000001 0] sample_zones(1)
  by (auto simp: standup_def)

end
