(* ===== verification/Recurring_Fire.thy ===== *)
theory Recurring_Fire
  imports Recurrence_Next
begin

text \<open>
  The reconcilers that start work on a clock (\<open>scheduler/recurring_fire_reconciler.go\<close>,
  \<open>scheduler/scheduled_run_reconciler.go\<close>), and what a finished run writes back to a recurring item
  (\<open>scheduler/workflow_reconciler.go\<close>, \<open>scheduler/sequence_reconciler.go\<close>). The state is the table of work items
  with the columns these passes read and write, and the fire ledger. Starting a workflow or a sequence is
  code of other packages and an argument; so are the clocks, the order in which the database returns the due
  rows, and whether a transaction can be opened for an item. One tenant is modelled; the stored schedule is
  absent, bytes that do not parse, or a schedule.
\<close>

section \<open>Items, ledger and environment\<close>

abbreviation WorkItemRecurring :: string where "WorkItemRecurring \<equiv> ''recurring''"
abbreviation WorkItemScheduled :: string where "WorkItemScheduled \<equiv> ''scheduled''"

datatype stored = NoSchedule | Garbage | Stored schedule

record item =
  i_Status :: string
  i_Enabled :: bool
  i_Schedule :: stored
  i_NextRunAt :: "int option"
  i_ScheduledStartAt :: "int option"
  i_Version :: int
  i_HasChildren :: bool
  i_WorkflowID :: "string option"
  i_RunID :: string
  i_Error :: "string option"

record fire_row =
  fr_Item :: string
  fr_At :: int
  fr_Status :: string
  fr_RunID :: "string option"
  fr_Error :: string

record board =
  items :: "string \<Rightarrow> item option"
  ledger :: "fire_row list"

type_synonym starter = "board \<Rightarrow> string \<Rightarrow> string option \<times> board"

record fire_env =
  zones :: "string \<Rightarrow> location option"
  db_now :: int
  go_now :: int
  row_order :: "string list"
  tx_opens :: "string \<Rightarrow> bool"
  start :: starter
  start_with :: "(string \<Rightarrow> starter) option"
  sequence :: "starter option"

section \<open>Next occurrence of a stored schedule\<close>

definition computeRecurringNextRunAt :: "fire_env \<Rightarrow> stored \<Rightarrow> int option" where
  "computeRecurringNextRunAt E sched =
     (case sched of Stored s \<Rightarrow> ComputeNextRunAt (zones E) (Some s) (go_now E) | _ \<Rightarrow> None)"

definition ensureRecurringNextRun :: "fire_env \<Rightarrow> stored \<Rightarrow> int option \<Rightarrow> int option" where
  "ensureRecurringNextRun E sched nextRunAt =
     (if sched = NoSchedule \<or> nextRunAt \<noteq> None then None else computeRecurringNextRunAt E sched)"

definition recurringOutputsMode :: "stored \<Rightarrow> string" where
  "recurringOutputsMode sched =
     (case sched of Stored s \<Rightarrow> NormalizeRecurringOutputsMode (OutputsMode s) | _ \<Rightarrow> ''standard'')"

text \<open>\<open>UpdateWorkItem\<close> with a new cursor, status or error: field-mask semantics under the version check.\<close>

definition UpdateItem ::
    "board \<Rightarrow> string \<Rightarrow> int \<Rightarrow> string option \<Rightarrow> int option \<Rightarrow> string option \<Rightarrow> string + board" where
  "UpdateItem st i version status nextRunAt err =
     (case items st i of
        None \<Rightarrow> Inl ''not found''
      | Some it \<Rightarrow>
          if i_Version it \<noteq> version then Inl ''version conflict''
          else Inr (st\<lparr>items := (items st)(i \<mapsto> it\<lparr>
             i_Status := (case status of Some s \<Rightarrow> s | None \<Rightarrow> i_Status it),
             i_NextRunAt := (case nextRunAt of Some t \<Rightarrow> Some t | None \<Rightarrow> i_NextRunAt it),
             i_Error := (case err of Some e \<Rightarrow> Some e | None \<Rightarrow> i_Error it),
             i_Version := i_Version it + 1\<rparr>)\<rparr>))"

section \<open>The recurring fire\<close>

definition due :: "fire_env \<Rightarrow> item \<Rightarrow> bool" where
  "due E it =
     (i_Status it = WorkItemRecurring \<and> i_Enabled it \<and>
      (case i_NextRunAt it of None \<Rightarrow> False | Some t \<Rightarrow> db_now E - 5 * Minute \<le> t \<and> t \<le> db_now E))"

definition scan :: "fire_env \<Rightarrow> board \<Rightarrow> (string \<times> item) list" where
  "scan E st = take 100 (concat (map
     (\<lambda>i. case items st i of Some it \<Rightarrow> if due E it then [(i, it)] else [] | None \<Rightarrow> [])
     (row_order E)))"

definition advanceNextRunAt :: "fire_env \<Rightarrow> board \<Rightarrow> string \<Rightarrow> int \<Rightarrow> stored \<Rightarrow> string + board" where
  "advanceNextRunAt E st i expectedVersion sched =
     (case computeRecurringNextRunAt E sched of
        None \<Rightarrow> Inr st
      | Some next \<Rightarrow>
          if \<not> tx_opens E i then Inl ''begin tx''
          else UpdateItem st i expectedVersion None (Some next) None)"

definition recordFire :: "fire_env \<Rightarrow> board \<Rightarrow> string \<Rightarrow> string \<Rightarrow> string \<Rightarrow> string \<Rightarrow> board" where
  "recordFire E st i status workflowRunID errMsg =
     (if \<not> tx_opens E i then st
      else st\<lparr>ledger := ledger st @ [\<lparr>fr_Item = i, fr_At = go_now E, fr_Status = status,
             fr_RunID = (if workflowRunID = [] then None else Some workflowRunID), fr_Error = errMsg\<rparr>]\<rparr>)"

definition fireWorkflowRunID :: "fire_env \<Rightarrow> board \<Rightarrow> string \<Rightarrow> string" where
  "fireWorkflowRunID E st i =
     (if \<not> tx_opens E i then [] else (case items st i of None \<Rightarrow> [] | Some it \<Rightarrow> i_RunID it))"

definition failNoWorkflowItemTx :: "fire_env \<Rightarrow> board \<Rightarrow> string \<Rightarrow> string \<Rightarrow> board" where
  "failNoWorkflowItemTx E st i reason =
     (if \<not> tx_opens E i then st
      else (case items st i of
              None \<Rightarrow> st
            | Some it \<Rightarrow>
                (case UpdateItem st i (i_Version it) (Some WorkItemFailed) None (Some reason) of
                   Inl _ \<Rightarrow> st | Inr st' \<Rightarrow> st')))"

definition finish_fire :: "fire_env \<Rightarrow> string \<Rightarrow> string option \<times> board \<Rightarrow> board" where
  "finish_fire E i r =
     (case r of
        (Some e, st) \<Rightarrow> recordFire E st i ''failed'' [] e
      | (None, st) \<Rightarrow> recordFire E st i ''fired'' (fireWorkflowRunID E st i) [])"

definition no_workflow_reason :: "string \<Rightarrow> string" where
  "no_workflow_reason i = ''Cannot fire recurring item '' @ [CHR 0x22] @ i @ [CHR 0x22] @
     '': no workflow is set, so there is nothing to run. Bind a workflow to resume firing.''"

definition fire_ref :: "fire_env \<Rightarrow> string \<times> item \<Rightarrow> board \<Rightarrow> board" where
  "fire_ref E ref st =
     (case ref of (i, it) \<Rightarrow>
        if i_HasChildren it
        then (case sequence E of
                None \<Rightarrow> st
              | Some seq \<Rightarrow>
                  (case advanceNextRunAt E st i (i_Version it) (i_Schedule it) of
                     Inl _ \<Rightarrow> st
                   | Inr st' \<Rightarrow> finish_fire E i (seq st' i)))
        else if i_WorkflowID it = None \<or> i_WorkflowID it = Some []
        then recordFire E (failNoWorkflowItemTx E st i (no_workflow_reason i)) i ''failed'' [] (no_workflow_reason i)
        else (case advanceNextRunAt E st i (i_Version it) (i_Schedule it) of
                Inl _ \<Rightarrow> st
              | Inr st' \<Rightarrow>
                  finish_fire E i
                    (case start_with E of
                       Some f \<Rightarrow> f (recurringOutputsMode (i_Schedule it)) st' i
                     | None \<Rightarrow> start E st' i)))"

definition scanAndFire :: "fire_env \<Rightarrow> board \<Rightarrow> board" where
  "scanAndFire E st = fold (fire_ref E) (scan E st) st"

section \<open>The scheduled run\<close>

definition due_scheduled :: "fire_env \<Rightarrow> item \<Rightarrow> bool" where
  "due_scheduled E it =
     (i_Status it = WorkItemScheduled \<and>
      (case i_ScheduledStartAt it of None \<Rightarrow> False | Some t \<Rightarrow> db_now E - 5 * Minute \<le> t \<and> t \<le> db_now E))"

definition scan_scheduled :: "fire_env \<Rightarrow> board \<Rightarrow> (string \<times> item) list" where
  "scan_scheduled E st = take 100 (concat (map
     (\<lambda>i. case items st i of Some it \<Rightarrow> if due_scheduled E it then [(i, it)] else [] | None \<Rightarrow> [])
     (row_order E)))"

definition no_workflow_to_start :: "string \<Rightarrow> string" where
  "no_workflow_to_start i = ''Cannot start scheduled item '' @ [CHR 0x22] @ i @ [CHR 0x22] @
     '': no workflow is set, so there is nothing to run. Bind a workflow to run this item.''"

definition start_ref :: "fire_env \<Rightarrow> string \<times> item \<Rightarrow> board \<Rightarrow> board" where
  "start_ref E ref st =
     (case ref of (i, it) \<Rightarrow>
        if i_HasChildren it
        then (case sequence E of None \<Rightarrow> st | Some seq \<Rightarrow> snd (seq st i))
        else if i_WorkflowID it = None \<or> i_WorkflowID it = Some []
        then failNoWorkflowItemTx E st i (no_workflow_to_start i)
        else snd (start E st i))"

definition startScheduled :: "fire_env \<Rightarrow> board \<Rightarrow> board" where
  "startScheduled E st = fold (start_ref E) (scan_scheduled E st) st"

section \<open>A finished run\<close>

text \<open>The status and cursor a finished run, a failed run and a completed sequence write to their item.\<close>

definition run_finished :: "fire_env \<Rightarrow> string \<Rightarrow> item \<Rightarrow> item" where
  "run_finished E terminal it =
     (if i_Schedule it \<noteq> NoSchedule
      then it\<lparr>i_Status := WorkItemRecurring,
              i_NextRunAt := (case ensureRecurringNextRun E (i_Schedule it) (i_NextRunAt it) of
                                Some t \<Rightarrow> Some t | None \<Rightarrow> i_NextRunAt it),
              i_Version := i_Version it + 1\<rparr>
      else it\<lparr>i_Status := terminal, i_Version := i_Version it + 1\<rparr>)"

end
