(* ===== verification/Recurring_Laws.thy ===== *)
theory Recurring_Laws
  imports Recurring_Fire
begin

text \<open>
  The recurring fire over time. A step relation lets time pass, runs the reconciler's pass and finishes runs;
  an item whose cursor has left the five-minute window behind is never fired again, and the ways an item gets
  there are derived from the code: a run that outlasts its interval, and a grid schedule more than a thousand
  steps from its anchor.
\<close>

section \<open>Passes over the board\<close>

definition at_clock :: "fire_env \<Rightarrow> int \<Rightarrow> fire_env" where
  "at_clock E now = E\<lparr>db_now := now, go_now := now\<rparr>"

text \<open>The cursor is more than five minutes behind the clock.\<close>

definition missed :: "int \<Rightarrow> item \<Rightarrow> bool" where
  "missed now it = (case i_NextRunAt it of None \<Rightarrow> False | Some t \<Rightarrow> t + 5 * Minute < now)"

definition rows_of :: "string \<Rightarrow> board \<Rightarrow> fire_row list" where
  "rows_of i st = filter (\<lambda>r. fr_Item r = i) (ledger st)"

text \<open>Starting another item leaves item \<open>i\<close> and its ledger rows alone.\<close>

definition spares :: "string \<Rightarrow> starter \<Rightarrow> bool" where
  "spares i f \<longleftrightarrow> (\<forall>st j. j \<noteq> i \<longrightarrow> items (snd (f st j)) i = items st i \<and> rows_of i (snd (f st j)) = rows_of i st)"

definition leaves_alone :: "fire_env \<Rightarrow> string \<Rightarrow> bool" where
  "leaves_alone E i \<longleftrightarrow> spares i (start E) \<and> (\<forall>f. sequence E = Some f \<longrightarrow> spares i f) \<and>
     (\<forall>f mode. start_with E = Some f \<longrightarrow> spares i (f mode))"

inductive life :: "fire_env \<Rightarrow> int \<times> board \<Rightarrow> int \<times> board \<Rightarrow> bool" for E where
  here: "life E s s"
| wait: "life E s (now, st) \<Longrightarrow> now \<le> now' \<Longrightarrow> life E s (now', st)"
| pass: "life E s (now, st) \<Longrightarrow> life E s (now, scanAndFire (at_clock E now) st)"
| starts: "life E s (now, st) \<Longrightarrow> life E s (now, startScheduled (at_clock E now) st)"
| finish: "life E s (now, st) \<Longrightarrow> items st j = Some it \<Longrightarrow> i_Status it = WorkItemRunning \<Longrightarrow>
    life E s (now, st\<lparr>items := (items st)(j \<mapsto> run_finished (at_clock E now) terminal it)\<rparr>)"

inductive_cases lifeE: "life E s t"

lemma at_clock_simps [simp]:
  "db_now (at_clock E now) = now" "go_now (at_clock E now) = now" "zones (at_clock E now) = zones E"
  "tx_opens (at_clock E now) = tx_opens E" "row_order (at_clock E now) = row_order E"
  "sequence (at_clock E now) = sequence E" "start (at_clock E now) = start E"
  "start_with (at_clock E now) = start_with E" "leaves_alone (at_clock E now) i = leaves_alone E i"
  by (simp_all add: at_clock_def leaves_alone_def)

lemma missed_later: "missed now it \<Longrightarrow> now \<le> now' \<Longrightarrow> missed now' it"
  by (auto simp: missed_def split: option.splits)

lemma missed_not_due: "missed (db_now E) it \<Longrightarrow> \<not> due E it"
  by (auto simp: missed_def due_def split: option.splits)

lemma missed_run_finished: "missed now it \<Longrightarrow> missed now (run_finished E terminal it)"
  by (auto simp: missed_def run_finished_def ensureRecurringNextRun_def split: option.splits)

section \<open>Frames\<close>

text \<open>What a pass does to one item leaves every other item alone.\<close>

definition framed :: "string \<Rightarrow> board \<Rightarrow> board \<Rightarrow> bool" where
  "framed i st st' \<longleftrightarrow> items st' i = items st i \<and> rows_of i st' = rows_of i st"

named_theorems frames

lemma framed_refl [frames, simp]: "framed i st st"
  by (simp add: framed_def)

lemma framed_trans: "framed i st st' \<Longrightarrow> framed i st' st'' \<Longrightarrow> framed i st st''"
  by (simp add: framed_def)

lemma UpdateItem_framed: "UpdateItem st j v s n e = Inr st' \<Longrightarrow> j \<noteq> i \<Longrightarrow> framed i st st'"
  by (auto simp: UpdateItem_def framed_def rows_of_def split: option.splits if_splits)

lemma recordFire_framed: "j \<noteq> i \<Longrightarrow> framed i st (recordFire E st j s r e)"
  by (simp add: recordFire_def framed_def rows_of_def)

lemma failNoWorkflow_framed: "j \<noteq> i \<Longrightarrow> framed i st (failNoWorkflowItemTx E st j reason)"
  by (auto simp: failNoWorkflowItemTx_def split: option.splits sum.splits dest: UpdateItem_framed)

lemma advance_framed: "advanceNextRunAt E st j v s = Inr st' \<Longrightarrow> j \<noteq> i \<Longrightarrow> framed i st st'"
  by (auto simp: advanceNextRunAt_def split: option.splits if_splits dest: UpdateItem_framed)

lemma spares_framed: "spares i f \<Longrightarrow> j \<noteq> i \<Longrightarrow> framed i st (snd (f st j))"
  by (simp add: spares_def framed_def)

lemma finish_framed: "j \<noteq> i \<Longrightarrow> framed i st (finish_fire E j r) = framed i st (snd r)"
  by (auto simp: finish_fire_def framed_def recordFire_def rows_of_def split: prod.splits option.splits)

lemma fire_ref_framed:
  assumes "leaves_alone E i" "j \<noteq> i"
  shows "framed i st (fire_ref E (j, it) st)"
proof -
  have "framed i st (snd (f st' j))" if "spares i f" "advanceNextRunAt E st j v s = Inr st'" for f st' v s
    using that framed_trans advance_framed spares_framed assms(2) by metis
  moreover have "framed i st (recordFire E (failNoWorkflowItemTx E st j reason) j s r e)" for reason s r e
    using framed_trans failNoWorkflow_framed recordFire_framed assms(2) by metis
  ultimately show ?thesis
    using assms by (auto simp: fire_ref_def finish_framed leaves_alone_def split: sum.splits option.splits)
qed

lemma start_ref_framed:
  assumes "leaves_alone E i" "j \<noteq> i"
  shows "framed i st (start_ref E (j, it) st)"
  using assms by (auto simp: start_ref_def failNoWorkflow_framed leaves_alone_def intro: spares_framed
      split: option.splits)

lemma fold_framed:
  "(\<And>r st. r \<in> List.set rs \<Longrightarrow> framed i st (f r st)) \<Longrightarrow> framed i st (fold f rs st)"
  by (induction rs arbitrary: st) (auto intro: framed_trans)

lemma scan_due: "(j, it) \<in> List.set (scan E st) \<Longrightarrow> items st j = Some it \<and> due E it"
  by (auto simp: scan_def dest!: in_set_takeD split: option.splits if_splits)

lemma scan_scheduled_due:
  "(j, it) \<in> List.set (scan_scheduled E st) \<Longrightarrow> items st j = Some it \<and> due_scheduled E it"
  by (auto simp: scan_scheduled_def dest!: in_set_takeD split: option.splits if_splits)

lemma scanAndFire_framed:
  assumes "leaves_alone E i" "items st i = Some it" "\<not> due E it"
  shows "framed i st (scanAndFire E st)"
  unfolding scanAndFire_def
proof (rule fold_framed)
  fix r st' assume "r \<in> List.set (scan E st)"
  moreover obtain j it' where "r = (j, it')" by (cases r)
  ultimately show "framed i st' (fire_ref E r st')"
    using fire_ref_framed [OF assms(1), of j] scan_due [of j it' E st] assms(2,3) by (cases "j = i") auto
qed

lemma startScheduled_framed:
  assumes "leaves_alone E i" "items st i = Some it" "\<not> due_scheduled E it"
  shows "framed i st (startScheduled E st)"
  unfolding startScheduled_def
proof (rule fold_framed)
  fix r st' assume "r \<in> List.set (scan_scheduled E st)"
  moreover obtain j it' where "r = (j, it')" by (cases r)
  ultimately show "framed i st' (start_ref E r st')"
    using start_ref_framed [OF assms(1), of j] scan_scheduled_due [of j it' E st] assms(2,3)
    by (cases "j = i") auto
qed

section \<open>A missed window\<close>

definition lost :: "string \<Rightarrow> fire_row list \<Rightarrow> int \<times> board \<Rightarrow> bool" where
  "lost i rows s = (case s of (now, st) \<Rightarrow> rows_of i st = rows \<and>
     (case items st i of None \<Rightarrow> False
      | Some it \<Rightarrow> missed now it \<and> i_Schedule it \<noteq> NoSchedule \<and> i_Status it \<noteq> WorkItemScheduled))"

lemma lost_framed: "lost i rows (now, st) \<Longrightarrow> framed i st st' \<Longrightarrow> lost i rows (now, st')"
  by (simp add: lost_def framed_def)

lemma lost_wait: "lost i rows (now, st) \<Longrightarrow> now \<le> now' \<Longrightarrow> lost i rows (now', st)"
  by (auto simp: lost_def intro: missed_later split: option.splits)

lemma lost_pass:
  assumes "lost i rows (now, st)" "leaves_alone E i"
  shows "lost i rows (now, scanAndFire (at_clock E now) st)"
proof -
  obtain it where "items st i = Some it" "missed now it"
    using assms(1) by (auto simp: lost_def split: option.splits)
  then have "framed i st (scanAndFire (at_clock E now) st)"
    using assms(2) missed_not_due [of "at_clock E now" it] by (intro scanAndFire_framed) simp_all
  then show ?thesis by (rule lost_framed [OF assms(1)])
qed

lemma lost_starts:
  assumes "lost i rows (now, st)" "leaves_alone E i"
  shows "lost i rows (now, startScheduled (at_clock E now) st)"
proof -
  obtain it where "items st i = Some it" "i_Status it \<noteq> WorkItemScheduled"
    using assms(1) by (auto simp: lost_def split: option.splits)
  then have "framed i st (startScheduled (at_clock E now) st)"
    using assms(2) by (intro startScheduled_framed [where it = it]) (auto simp: due_scheduled_def)
  then show ?thesis by (rule lost_framed [OF assms(1)])
qed

lemma lost_finish:
  assumes "lost i rows (now, st)" "items st j = Some it"
  shows "lost i rows (now, st\<lparr>items := (items st)(j \<mapsto> run_finished E terminal it)\<rparr>)"
proof (cases "j = i")
  case True
  then have "missed now it" "i_Schedule it \<noteq> NoSchedule" using assms by (simp_all add: lost_def)
  moreover from this have "i_Schedule (run_finished E terminal it) \<noteq> NoSchedule"
    "i_Status (run_finished E terminal it) \<noteq> WorkItemScheduled" by (simp_all add: run_finished_def)
  ultimately show ?thesis
    using assms True missed_run_finished by (simp add: lost_def rows_of_def)
qed (use assms in \<open>simp add: lost_def rows_of_def\<close>)

lemma lost_kept:
  assumes "life E s t" "leaves_alone E i"
  shows "lost i rows s \<Longrightarrow> lost i rows t"
  using assms(1)
  by (induction rule: life.induct) (blast intro: lost_wait lost_pass [OF _ assms(2)] lost_starts [OF _ assms(2)] lost_finish)+

lemma lost_not_due: "lost i rows (now, st) \<Longrightarrow> rows_of i st = rows \<and> (\<exists>it. items st i = Some it \<and> \<not> due (at_clock E now) it)"
  using missed_not_due [of "at_clock E now"] by (auto simp: lost_def split: option.splits)

text \<open>C18. An item whose cursor is more than five minutes behind the clock is never fired again: whatever passes
  run, runs finish and time goes by, no ledger row is added for it and no later clock finds it due.\<close>

lemma missed_window_is_forever:
  assumes "life E (now, st) (now', st')" "leaves_alone E i" "items st i = Some it" "missed now it"
    and "i_Schedule it \<noteq> NoSchedule" "i_Status it \<noteq> WorkItemScheduled"
  shows "rows_of i st' = rows_of i st \<and> (\<exists>it'. items st' i = Some it' \<and> \<not> due (at_clock E now') it')"
proof -
  have "lost i (rows_of i st) (now, st)" using assms(3-6) by (simp add: lost_def)
  then show ?thesis using lost_kept [OF assms(1,2)] lost_not_due by blast
qed

text \<open>A run that is still going five minutes after the next occurrence ends the recurrence: finishing it keeps
  the stale cursor, and the item, back in status recurring, is never fired again.\<close>

lemma long_run_ends_recurrence:
  assumes "items st i = Some it" "i_Status it = WorkItemRunning" "i_Schedule it \<noteq> NoSchedule"
    and "i_NextRunAt it = Some n" "n + 5 * Minute < now" "leaves_alone E i"
    and "life E (now, st\<lparr>items := (items st)(i \<mapsto> run_finished (at_clock E now) terminal it)\<rparr>) (now', st')"
  shows "i_Status (run_finished (at_clock E now) terminal it) = WorkItemRecurring \<and>
     rows_of i st' = rows_of i st \<and> (\<exists>it'. items st' i = Some it' \<and> \<not> due (at_clock E now') it')"
proof -
  let ?it = "run_finished (at_clock E now) terminal it"
  have fin: "i_Status ?it = WorkItemRecurring" "i_Schedule ?it \<noteq> NoSchedule"
    using assms(3) by (simp_all add: run_finished_def)
  moreover have "missed now ?it" using missed_run_finished assms(4,5) by (simp add: missed_def)
  ultimately have "lost i (rows_of i st) (now, st\<lparr>items := (items st)(i \<mapsto> ?it)\<rparr>)"
    by (simp add: lost_def rows_of_def)
  then show ?thesis using fin lost_kept [OF assms(7,6)] lost_not_due by blast
qed

text \<open>A schedule by minutes, hours or days, without a window, stops after a thousand steps: the fire that
  follows moves the cursor back to the anchor, which no later pass finds due.\<close>

lemma grid_schedule_stops:
  assumes "schedule_zone (zones E) s = fixed_zone z" "schedule_anchor (zones E) s = Some a"
    and "ToLower (TrimSpace (Frequency s)) = freq" "freq \<in> {''minute'', ''hourly'', ''daily''}"
    and "1 \<le> Interval s" "Minute \<le> grid_step freq (Interval s)" "\<not> fst (parseWindow s)"
    and "a + 999 * grid_step freq (Interval s) < now" "now \<le> now'"
  shows "computeRecurringNextRunAt (at_clock E now) (Stored s) = Some a \<and>
     \<not> due (at_clock E now') (it\<lparr>i_NextRunAt := Some a\<rparr>)"
proof -
  let ?step = "grid_step freq (Interval s)"
  have pos: "0 < ?step" using assms(6) Day_pos(1) by linarith
  have "\<not> rounds ?step a now < 1000"
  proof
    assume "rounds ?step a now < 1000"
    then have "int (rounds ?step a now) * ?step \<le> 999 * ?step" using pos by (intro mult_right_mono) auto
    then show False using rounds_least(1) [OF pos, of now a] assms(8) by linarith
  qed
  then have "computeRecurringNextRunAt (at_clock E now) (Stored s) = Some a"
    using grid_next_run_aux [OF assms(1-5) pos assms(7)] by (simp add: computeRecurringNextRunAt_def Let_def)
  moreover have "a + 5 * Minute < now'"
    using assms(6,8,9) Day_pos(1) by linarith
  then have "missed (db_now (at_clock E now')) (it\<lparr>i_NextRunAt := Some a\<rparr>)"
    by (simp add: missed_def)
  ultimately show ?thesis using missed_not_due by blast
qed

section \<open>One fire\<close>

text \<open>The cursor moves before the work starts: firing a leaf with a workflow starts it on a board where the
  item already carries the next occurrence and a new version; when the version is stale nothing happens.\<close>

lemma fire_advances_first:
  assumes "items st i = Some cur" "\<not> i_HasChildren it" "i_WorkflowID it = Some w" "w \<noteq> []"
    and "start_with E = None" "tx_opens E i" "computeRecurringNextRunAt E (i_Schedule it) = Some t"
  shows "fire_ref E (i, it) st =
     (if i_Version cur = i_Version it
      then finish_fire E i (start E
        (st\<lparr>items := (items st)(i \<mapsto> cur\<lparr>i_NextRunAt := Some t, i_Version := i_Version cur + 1\<rparr>)\<rparr>) i)
      else st)"
  using assms by (simp add: fire_ref_def advanceNextRunAt_def UpdateItem_def)

text \<open>A due leaf with no workflow is failed with a reason and leaves a failed row in the ledger.\<close>

lemma leaf_without_workflow_fails_loudly:
  assumes "items st i = Some cur" "\<not> i_HasChildren it" "i_WorkflowID it \<in> {None, Some []}" "tx_opens E i"
  shows "items (fire_ref E (i, it) st) i = Some (cur\<lparr>i_Status := WorkItemFailed,
       i_Error := Some (no_workflow_reason i), i_Version := i_Version cur + 1\<rparr>) \<and>
     rows_of i (fire_ref E (i, it) st) = rows_of i st @
       [\<lparr>fr_Item = i, fr_At = go_now E, fr_Status = ''failed'', fr_RunID = None, fr_Error = no_workflow_reason i\<rparr>]"
  using assms by (auto simp: fire_ref_def failNoWorkflowItemTx_def UpdateItem_def recordFire_def rows_of_def)

section \<open>Witnesses\<close>

text \<open>A board with one item that polls every 45 minutes, and an environment whose starter marks the item running.\<close>

definition poll_free :: schedule where
  "poll_free = poll\<lparr>WindowStart := [], WindowEnd := []\<rparr>"

definition poller :: item where
  "poller = \<lparr>i_Status = WorkItemRecurring, i_Enabled = True, i_Schedule = Stored poll_free,
     i_NextRunAt = Some 1772442000000000000, i_ScheduledStartAt = None, i_Version = 1, i_HasChildren = False,
     i_WorkflowID = Some ''wf'', i_RunID = [], i_Error = None\<rparr>"

definition mark_running :: starter where
  "mark_running st i = (None, st\<lparr>items := (\<lambda>j. if j = i
     then map_option (\<lambda>it. it\<lparr>i_Status := WorkItemRunning, i_RunID := ''run''\<rparr>) (items st j) else items st j)\<rparr>)"

definition lab :: fire_env where
  "lab = \<lparr>zones = no_zones, db_now = 0, go_now = 0, row_order = [''w''], tx_opens = (\<lambda>_. True),
     start = mark_running, start_with = None, sequence = None\<rparr>"

definition one_item :: "item \<Rightarrow> board" where
  "one_item it = \<lparr>items = [''w'' \<mapsto> it], ledger = []\<rparr>"

lemma lab_spares: "leaves_alone lab i"
  by (simp add: leaves_alone_def spares_def lab_def mark_running_def rows_of_def)

lemma poll_free_zone: "schedule_zone (zones lab) poll_free = fixed_zone 0"
  by (rule schedule_zone_empty) (simp add: poll_free_def poll_def standup_def)

lemma one_item_items [simp]: "items (one_item it) ''w'' = Some it"
  by (simp add: one_item_def)

lemma missed_window_is_forever_witness:
  "rows_of ''w'' (scanAndFire (at_clock lab 1772442300000000001) (one_item poller)) = rows_of ''w'' (one_item poller) \<and>
   (\<exists>it. items (scanAndFire (at_clock lab 1772442300000000001) (one_item poller)) ''w'' = Some it \<and>
      \<not> due (at_clock lab 1772442300000000001) it)"
proof (rule missed_window_is_forever [OF life.pass [OF life.here] lab_spares one_item_items])
  show "missed 1772442300000000001 poller"
    by (simp add: missed_def poller_def Minute_def Second_def)
qed (simp_all add: poller_def)

lemma long_run_ends_recurrence_witness:
  "i_Status (run_finished (at_clock lab 1772442300000000001) ''succeeded'' (poller\<lparr>i_Status := WorkItemRunning\<rparr>)) =
     WorkItemRecurring"
proof -
  let ?now = "1772442300000000001 :: int" and ?it = "poller\<lparr>i_Status := WorkItemRunning\<rparr>"
  have "(1772442000000000000 :: int) + 5 * Minute < ?now" by code_simp
  moreover have "i_NextRunAt ?it = Some 1772442000000000000" "i_Schedule ?it \<noteq> NoSchedule"
    "i_Status ?it = WorkItemRunning" by (simp_all add: poller_def)
  ultimately show ?thesis
    using long_run_ends_recurrence [OF one_item_items _ _ _ _ lab_spares life.here] by blast
qed

lemma grid_schedule_stops_witness:
  "computeRecurringNextRunAt (at_clock lab 1775139300000000001) (Stored poll_free) = Some 1772442000000000000 \<and>
   \<not> due (at_clock lab 1775139300000000001) (poller\<lparr>i_NextRunAt := Some 1772442000000000000\<rparr>)"
proof -
  have "schedule_anchor (zones lab) poll_free = Some 1772442000000000000" by code_simp
  moreover have "ToLower (TrimSpace (Frequency poll_free)) = ''minute''" "1 \<le> Interval poll_free"
    "Minute \<le> grid_step ''minute'' (Interval poll_free)" "\<not> fst (parseWindow poll_free)" by code_simp+
  moreover have "1772442000000000000 + 999 * grid_step ''minute'' (Interval poll_free) < 1775139300000000001" by code_simp
  ultimately show ?thesis
    using grid_schedule_stops [OF poll_free_zone, of 1772442000000000000 "''minute''" 1775139300000000001 1775139300000000001 poller]
    by simp
qed

lemma fire_advances_first_witness:
  "items (fire_ref (at_clock lab 1772442000000000001) (''w'', poller) (one_item poller)) ''w'' =
     Some (poller\<lparr>i_NextRunAt := Some 1772444700000000000, i_Version := 2, i_Status := WorkItemRunning, i_RunID := ''run''\<rparr>)"
proof -
  let ?E = "at_clock lab 1772442000000000001"
  have nxt: "computeRecurringNextRunAt ?E (i_Schedule poller) = Some 1772444700000000000" by code_simp
  have "fire_ref ?E (''w'', poller) (one_item poller) =
      finish_fire ?E ''w'' (start ?E ((one_item poller)\<lparr>items := (items (one_item poller))
        (''w'' \<mapsto> poller\<lparr>i_NextRunAt := Some 1772444700000000000, i_Version := i_Version poller + 1\<rparr>)\<rparr>) ''w'')"
    using fire_advances_first [OF one_item_items _ _ _ _ _ nxt, of "''wf''"]
    by (simp add: poller_def lab_def at_clock_def)
  then show ?thesis
    by (simp add: finish_fire_def mark_running_def recordFire_def lab_def at_clock_def poller_def)
qed

lemma leaf_without_workflow_fails_loudly_witness:
  "items (fire_ref lab (''w'', poller\<lparr>i_WorkflowID := None\<rparr>) (one_item (poller\<lparr>i_WorkflowID := None\<rparr>))) ''w'' =
     Some (poller\<lparr>i_WorkflowID := None, i_Status := WorkItemFailed, i_Error := Some (no_workflow_reason ''w''), i_Version := 2\<rparr>)"
  using leaf_without_workflow_fails_loudly [of "one_item (poller\<lparr>i_WorkflowID := None\<rparr>)" "''w''" _ "poller\<lparr>i_WorkflowID := None\<rparr>" lab]
  by (simp add: poller_def lab_def)

end
