(* ===== verification/Work_Hierarchy.thy ===== *)
theory Work_Hierarchy
  imports Domain_Types "HOL-Library.AList"
begin

text \<open>
  The work-item hierarchy (\<open>workitem/validate.go\<close>, \<open>workitem/switch_kind.go\<close> and the parts of
  \<open>workitem/service.go\<close> that write an item's kind, parent and project), the status predicates, and the
  schedule-time walk over a sequence's subtree. The table is a list of rows in the order siblings are listed;
  one tenant is modelled. Whether a workflow run is active and what a workflow holds are arguments. A walk
  that follows parent pointers or children is a partial function: \<open>None\<close> means that it does not return.
\<close>

section \<open>Rows\<close>

record node =
  w_Kind :: string
  w_Parent :: "string option"
  w_Project :: string
  w_Archived :: bool
  w_Status :: string
  w_RunID :: string
  w_Workflow :: "string option"
  w_Title :: string

type_synonym table = "(string \<times> node) list"

datatype hierarchy_error =
    NotFound
  | NotTopLevel string
  | NotDeeper string string
  | OtherProject
  | BadKind string
  | SwitchRunning
  | SwitchActiveRun
  | OwnParent
  | AncestorElsewhere string
  | NoAncestor nat
  | NeedsParent string
  | ChooseParent

definition GetWorkItem_tree :: "table \<Rightarrow> string \<Rightarrow> node option" where
  "GetWorkItem_tree db i = map_of db i"

definition ListDirectChildren :: "table \<Rightarrow> string \<Rightarrow> (string \<times> node) list" where
  "ListDirectChildren db i = filter (\<lambda>(c, n). w_Parent n = Some i \<and> \<not> w_Archived n) db"

section \<open>Kinds and parents\<close>

text \<open>A kind that is not in the map has depth 0, Go's zero value.\<close>

definition kindOrder :: "string \<Rightarrow> nat" where
  "kindOrder k = (if k = ''epic'' then 1 else if k = ''feature'' then 2 else if k = ''task'' then 3
     else if k = ''subtask'' then 4 else 0)"

definition validateTopLevelKind :: "string \<Rightarrow> hierarchy_error option" where
  "validateTopLevelKind kind = (if kind \<noteq> ''epic'' then Some (NotTopLevel kind) else None)"

definition validateKindDepth :: "string \<Rightarrow> string \<Rightarrow> hierarchy_error option" where
  "validateKindDepth childKind parentKind =
     (if kindOrder childKind \<le> kindOrder parentKind then Some (NotDeeper childKind parentKind) else None)"

definition ValidateParent ::
    "table \<Rightarrow> string \<Rightarrow> string \<Rightarrow> string \<Rightarrow> bool list \<Rightarrow> hierarchy_error option" where
  "ValidateParent db parentID childKind projectID exemptions =
     (if parentID = []
      then (if length exemptions > 0 \<and> exemptions ! 0 then None
            else if length exemptions > 1 \<and> exemptions ! 1 then None
            else validateTopLevelKind childKind)
      else (case GetWorkItem_tree db parentID of
              None \<Rightarrow> Some NotFound
            | Some parent \<Rightarrow>
                if w_Project parent \<noteq> projectID then Some OtherProject
                else validateKindDepth childKind (w_Kind parent)))"

partial_function (option) nearestShallowerAncestor ::
    "table \<Rightarrow> string \<Rightarrow> nat \<Rightarrow> string \<Rightarrow> (hierarchy_error + string) option" where
  "nearestShallowerAncestor db cur newDepth projectID =
     (case GetWorkItem_tree db cur of
        None \<Rightarrow> Some (Inl NotFound)
      | Some parent \<Rightarrow>
          if w_Project parent \<noteq> projectID then Some (Inl (AncestorElsewhere cur))
          else if kindOrder (w_Kind parent) < newDepth then Some (Inr cur)
          else (case w_Parent parent of
                  None \<Rightarrow> Some (Inl (NoAncestor newDepth))
                | Some up \<Rightarrow> nearestShallowerAncestor db up newDepth projectID))"

definition isSchedulableKind :: "string \<Rightarrow> bool" where
  "isSchedulableKind kind \<longleftrightarrow> kind = ''task'' \<or> kind = ''subtask''"

section \<open>Kind switch\<close>

record switch_plan =
  NewParentID :: "string option"
  NewStatus :: "string option"
  ClearSchedule :: bool
  ReparentedChildren :: "string list"

text \<open>The resolved parent of the switched item.\<close>

definition resolve_parent ::
    "table \<Rightarrow> string \<Rightarrow> node \<Rightarrow> string \<Rightarrow> string option \<Rightarrow> string \<Rightarrow> (hierarchy_error + string option) option" where
  "resolve_parent db i current kind explicitParentID projectID =
     (if kind = ''epic'' then Some (Inr None)
      else let explicit = (if explicitParentID \<noteq> None \<and> explicitParentID = w_Parent current then None
                           else explicitParentID)
           in (case explicit of
                 Some p \<Rightarrow>
                   Some (if p = i then Inl OwnParent
                         else (case ValidateParent db p kind projectID [] of Some e \<Rightarrow> Inl e | None \<Rightarrow> Inr (Some p)))
               | None \<Rightarrow>
                   (case w_Parent current of
                      None \<Rightarrow> Some (Inl (NeedsParent kind))
                    | Some up \<Rightarrow>
                        map_option (\<lambda>r. case r of Inl e \<Rightarrow> Inl e | Inr p \<Rightarrow> Inr (Some p))
                          (nearestShallowerAncestor db up (kindOrder kind) projectID))))"

definition ResolveKindSwitch ::
    "(string \<Rightarrow> bool) \<Rightarrow> table \<Rightarrow> string \<Rightarrow> node \<Rightarrow> string \<Rightarrow> string option \<Rightarrow> string \<Rightarrow>
      (hierarchy_error + switch_plan) option" where
  "ResolveKindSwitch runActive db i current newKind explicitParentID projectID =
     (case NormalizeWorkItemKind newKind of
        None \<Rightarrow> Some (Inl (BadKind newKind))
      | Some kind \<Rightarrow>
          if w_Status current \<in> {WorkItemRunning, ''checkpointing'', WorkItemRecovering} then Some (Inl SwitchRunning)
          else if w_RunID current \<noteq> [] \<and> runActive (w_RunID current) then Some (Inl SwitchActiveRun)
          else map_option (\<lambda>r. case r of
                 Inl e \<Rightarrow> Inl e
               | Inr parent \<Rightarrow> Inr
                   \<lparr>NewParentID = parent,
                    NewStatus = (if \<not> isSchedulableKind kind \<and>
                        w_Status current \<in> {WorkItemReady, ''assigned'', ''scheduled'', ''recurring''}
                      then Some WorkItemPending else None),
                    ClearSchedule = \<not> isSchedulableKind kind,
                    ReparentedChildren = map fst (filter (\<lambda>(c, n). kindOrder (w_Kind n) \<le> kindOrder kind)
                      (ListDirectChildren db i))\<rparr>)
               (resolve_parent db i current kind explicitParentID projectID))"

section \<open>The operations that write kind, parent and project\<close>

definition create_item :: "table \<Rightarrow> string \<Rightarrow> node \<Rightarrow> bool list \<Rightarrow> hierarchy_error + table" where
  "create_item db i n exemptions =
     (case ValidateParent db (case w_Parent n of None \<Rightarrow> [] | Some p \<Rightarrow> p) (w_Kind n) (w_Project n) exemptions of
        Some e \<Rightarrow> Inl e
      | None \<Rightarrow> Inr (db @ [(i, n)]))"

text \<open>\<open>ParentID\<close> of an update: \<open>None\<close> leaves it, the empty string clears it.\<close>

definition set_parent :: "string option \<Rightarrow> node \<Rightarrow> node" where
  "set_parent p n = (case p of None \<Rightarrow> n | Some q \<Rightarrow> n\<lparr>w_Parent := (if q = [] then None else Some q)\<rparr>)"

definition update_parent ::
    "table \<Rightarrow> string \<Rightarrow> string option \<Rightarrow> string option \<Rightarrow> bool list \<Rightarrow> hierarchy_error + table" where
  "update_parent db i parentID projectID exemptions =
     (case GetWorkItem_tree db i of
        None \<Rightarrow> Inl NotFound
      | Some current \<Rightarrow>
          let effective = (case projectID of Some p \<Rightarrow> if p = [] then w_Project current else p
                                           | None \<Rightarrow> w_Project current);
              err = (case parentID of
                       Some p \<Rightarrow> ValidateParent db p (w_Kind current) effective exemptions
                     | None \<Rightarrow>
                         (case w_Parent current of
                            Some p \<Rightarrow> if effective \<noteq> w_Project current
                                      then ValidateParent db p (w_Kind current) effective exemptions else None
                          | None \<Rightarrow> None))
          in (case err of
                Some e \<Rightarrow> Inl e
              | None \<Rightarrow> Inr (AList.update i ((set_parent parentID current)\<lparr>w_Project := effective\<rparr>) db)))"

text \<open>
  The kind switch, applied with its plan, of an item that stays in its project or moves to another one in the
  same request. A move keeps the parent only when the request names it and it lives in the target project.
\<close>

definition apply_plan :: "table \<Rightarrow> string \<Rightarrow> node \<Rightarrow> string \<Rightarrow> string \<Rightarrow> switch_plan \<Rightarrow> table" where
  "apply_plan db i current kind projectID plan =
     (let switched = current\<lparr>w_Kind := kind, w_Parent := NewParentID plan, w_Project := projectID,
            w_Status := (case NewStatus plan of Some s \<Rightarrow> s | None \<Rightarrow> w_Status current)\<rparr>
      in map (\<lambda>(c, n). (c, if c \<in> List.set (ReparentedChildren plan) \<and> NewParentID plan \<noteq> None
                           then n\<lparr>w_Parent := NewParentID plan\<rparr> else n))
           (AList.update i switched db))"

definition workItemInProject :: "table \<Rightarrow> string \<Rightarrow> string \<Rightarrow> bool" where
  "workItemInProject db i projectID =
     (case map_of db i of None \<Rightarrow> False | Some n \<Rightarrow> w_Project n = projectID)"

definition move_needs_parent :: "table \<Rightarrow> node \<Rightarrow> string option \<Rightarrow> string \<Rightarrow> bool" where
  "move_needs_parent db current parentID effective =
     (let keepCurrent = (parentID \<noteq> None \<and> w_Parent current \<noteq> None \<and> parentID = w_Parent current)
      in if parentID \<noteq> None \<and> \<not> keepCurrent then False
         else \<not> (keepCurrent \<and> workItemInProject db (the (w_Parent current)) effective))"

definition switch_kind ::
    "(string \<Rightarrow> bool) \<Rightarrow> table \<Rightarrow> string \<Rightarrow> string \<Rightarrow> string option \<Rightarrow> string option \<Rightarrow> (hierarchy_error + table) option" where
  "switch_kind runActive db i kind parentID projectID =
     (case GetWorkItem_tree db i of
        None \<Rightarrow> Some (Inl NotFound)
      | Some current \<Rightarrow>
          let effective = (case projectID of Some p \<Rightarrow> if p = [] then w_Project current else p | None \<Rightarrow> w_Project current)
          in if effective \<noteq> w_Project current \<and> move_needs_parent db current parentID effective then Some (Inl ChooseParent)
             else map_option (\<lambda>r. case r of Inl e \<Rightarrow> Inl e | Inr plan \<Rightarrow> Inr (apply_plan db i current kind effective plan))
                    (ResolveKindSwitch runActive db i current kind parentID effective))"

section \<open>Statuses\<close>

definition IsActiveRunStatus :: "string \<Rightarrow> bool" where
  "IsActiveRunStatus status \<longleftrightarrow> status \<in> {WorkItemRunning, ''checkpointing'', WorkItemRecovering}"

definition IsIdeaStatus :: "string \<Rightarrow> bool" where
  "IsIdeaStatus status \<longleftrightarrow> status = ''idea''"

definition IsStartableForAutoStart :: "string \<Rightarrow> bool" where
  "IsStartableForAutoStart status \<longleftrightarrow> status \<in> {WorkItemPending, ''scheduled'', WorkItemReady, ''assigned''}"

definition IsRunnableStatus :: "string \<Rightarrow> bool" where
  "IsRunnableStatus status \<longleftrightarrow> status \<in> {WorkItemReady, ''assigned'', ''scheduled'', WorkItemRunning}"

definition ValidateStatus :: "string \<Rightarrow> string option" where
  "ValidateStatus status =
     (let s = ToLower (TrimSpace status)
      in if s \<in> List.set [WorkItemPending, ''scheduled'', WorkItemReady, ''assigned'', WorkItemRunning, ''checkpointing'',
           WorkItemSucceeded, WorkItemFailed, WorkItemCancelled, WorkItemRecovering, ''recurring'', WorkItemSkipped]
         then Some s else None)"

definition ValidateWorkflowFirstTransition :: "string \<Rightarrow> string option \<Rightarrow> bool \<Rightarrow> bool" where
  "ValidateWorkflowFirstTransition newStatus workflowID hasChildren =
     (if \<not> IsRunnableStatus newStatus then True
      else if hasChildren then True
      else workflowID \<noteq> None \<and> workflowID \<noteq> Some [])"

definition ValidateRecurringFlatness :: "bool \<Rightarrow> string \<Rightarrow> string \<Rightarrow> bool" where
  "ValidateRecurringFlatness recurring kind parentID =
     (if \<not> recurring then True else if kind \<noteq> ''task'' then False else parentID = [])"

definition ValidateRecurringWorkflowBinding :: "bool \<Rightarrow> bool \<Rightarrow> string \<Rightarrow> bool" where
  "ValidateRecurringWorkflowBinding recurring hasChildren workflowID \<longleftrightarrow>
     \<not> (recurring \<and> \<not> hasChildren \<and> workflowID = [])"

section \<open>Secrets\<close>

datatype secret_error = TooManySecrets nat | EmptySecret | DuplicateSecret string

fun check_secrets :: "string list \<Rightarrow> string list \<Rightarrow> secret_error option" where
  "check_secrets seen [] = None"
| "check_secrets seen (i # is) =
     (if i = [] then Some EmptySecret
      else if i \<in> List.set seen then Some (DuplicateSecret i)
      else check_secrets (i # seen) is)"

definition ValidateSecretIDs :: "string list \<Rightarrow> secret_error option" where
  "ValidateSecretIDs ids = (if length ids > 10 then Some (TooManySecrets (length ids)) else check_secrets [] ids)"

section \<open>The subtree of a sequence\<close>

record workflow_row =
  wf_Status :: string
  wf_Steps :: "nat option"

definition workflowHasSteps :: "workflow_row \<Rightarrow> bool" where
  "workflowHasSteps flow = (case wf_Steps flow of None \<Rightarrow> False | Some n \<Rightarrow> 0 < n)"

definition leaf_offence :: "(string \<Rightarrow> workflow_row option) \<Rightarrow> node \<Rightarrow> string list \<times> string list" where
  "leaf_offence workflows c =
     (case w_Workflow c of
        None \<Rightarrow> ([w_Title c], [])
      | Some w \<Rightarrow>
          if w = [] then ([w_Title c], [])
          else (case workflows w of
                  None \<Rightarrow> ([], [w_Title c])
                | Some flow \<Rightarrow>
                    if wf_Status flow \<notin> {''published'', ''deprecated''} then ([], [w_Title c])
                    else if \<not> workflowHasSteps flow then ([], [w_Title c])
                    else ([], [])))"

definition join_offences ::
    "(string list \<times> string list) option list \<Rightarrow> (string list \<times> string list) option" where
  "join_offences rs =
     (if None \<in> List.set rs then None
      else Some (concat (map (fst \<circ> the) rs), concat (map (snd \<circ> the) rs)))"

text \<open>The recursion of \<open>ValidateSequenceSubtree\<close>; \<open>None\<close> when \<open>fuel\<close> levels are not enough.\<close>

fun subtree_walk ::
    "nat \<Rightarrow> (string \<Rightarrow> workflow_row option) \<Rightarrow> table \<Rightarrow> string \<Rightarrow> (string list \<times> string list) option" where
  "subtree_walk 0 workflows db i = None"
| "subtree_walk (Suc fuel) workflows db i =
     join_offences (map (\<lambda>(c, n).
       if ListDirectChildren db c = [] then Some (leaf_offence workflows n)
       else subtree_walk fuel workflows db c) (ListDirectChildren db i))"

end
