(* ===== verification/Hierarchy_Laws.thy ===== *)
theory Hierarchy_Laws
  imports Work_Hierarchy
begin

text \<open>
  The hierarchy invariant: depth grows strictly from parent to child. It is kept by creation, reparenting and
  a kind switch that lets the code choose the parent; it bounds chains by four and makes every walk return.
  A kind switch with an explicit parent can break it, up to a cycle on which the ancestor walk never returns.
\<close>

lemma case_sum_Inr:
  "(case r of Inl e \<Rightarrow> Inl e | Inr p \<Rightarrow> Inr (f p)) = Inr y \<longleftrightarrow> (\<exists>x. r = Inr x \<and> y = f x)"
  by (cases r) auto

section \<open>The invariant\<close>

abbreviation depth :: "node \<Rightarrow> nat" where "depth n \<equiv> kindOrder (w_Kind n)"

definition deepens :: "(string \<rightharpoonup> node) \<Rightarrow> bool" where
  "deepens m \<longleftrightarrow> (\<forall>i n p q. m i = Some n \<longrightarrow> w_Parent n = Some p \<longrightarrow> m p = Some q \<longrightarrow> depth q < depth n)"

definition ranked :: "table \<Rightarrow> bool" where
  "ranked db \<longleftrightarrow> distinct (map fst db) \<and> deepens (map_of db) \<and>
     (\<forall>i n. map_of db i = Some n \<longrightarrow> depth n \<noteq> 0 \<and> i \<noteq> [])"

lemma kindOrder_le: "kindOrder k \<le> 4"
  by (simp add: kindOrder_def)

lemma ranked_distinct: "ranked db \<Longrightarrow> distinct (map fst db)"
  by (simp add: ranked_def)

lemma rankedD:
  "\<lbrakk>ranked db; map_of db i = Some n; w_Parent n = Some p; map_of db p = Some m\<rbrakk> \<Longrightarrow> depth m < depth n"
  by (auto simp: ranked_def deepens_def)

lemma NormalizeWorkItemKind_depth:
  "NormalizeWorkItemKind k = Some k' \<Longrightarrow> kindOrder k' \<noteq> 0"
  by (auto simp: NormalizeWorkItemKind_def kindOrder_def Let_def split: if_splits)

section \<open>Validation of a parent\<close>

lemma ValidateParent_depth:
  assumes "ValidateParent db p kind projectID ex = None" "p \<noteq> []"
  obtains m where "map_of db p = Some m" "w_Project m = projectID" "depth m < kindOrder kind"
  using assms by (auto simp: ValidateParent_def GetWorkItem_tree_def validateKindDepth_def split: option.splits if_splits)

section \<open>Creation and reparenting\<close>

lemma create_item_ranked:
  assumes "ranked db" "create_item db i n ex = Inr db'" "i \<notin> fst ` List.set db" "i \<noteq> []"
    and "depth n \<noteq> 0" "w_Parent n \<noteq> Some i" "\<And>c m. map_of db c = Some m \<Longrightarrow> w_Parent m \<noteq> Some i"
  shows "ranked db'"
proof -
  have db': "db' = db @ [(i, n)]"
    and valid: "ValidateParent db (case w_Parent n of None \<Rightarrow> [] | Some p \<Rightarrow> p) (w_Kind n) (w_Project n) ex = None"
    using assms(2) by (auto simp: create_item_def split: option.splits)
  have fresh: "map_of db i = None" using assms(3) by (simp add: map_of_eq_None_iff)
  have look: "map_of db' j = (if j = i then Some n else map_of db j)" for j
    using fresh by (auto simp: db' map_add_def split: option.splits)
  have "depth q < depth n" if "w_Parent n = Some p" "map_of db p = Some q" for p q
  proof -
    have "p \<noteq> []" using that(2) assms(1) by (auto simp: ranked_def)
    then show ?thesis using valid that by (auto elim: ValidateParent_depth)
  qed
  then have "deepens (map_of db')"
    using assms(1,6,7) unfolding deepens_def ranked_def look by (auto split: if_splits)
  moreover have "distinct (map fst db')" using assms(1,3) by (simp add: db' ranked_def)
  ultimately show ?thesis
    using assms(1,4,5) unfolding ranked_def look by auto
qed

lemma map_of_update: "map_of (AList.update i n db) j = (if j = i then Some n else map_of db j)"
  by (simp add: update_conv')

lemma update_parent_ranked:
  assumes "ranked db" "update_parent db i parentID projectID ex = Inr db'"
  shows "ranked db'"
proof -
  obtain cur where cur: "map_of db i = Some cur"
    using assms(2) by (auto simp: update_parent_def GetWorkItem_tree_def split: option.splits)
  define effective where "effective = (case projectID of Some p \<Rightarrow> if p = [] then w_Project cur else p
      | None \<Rightarrow> w_Project cur)"
  define new where "new = (set_parent parentID cur)\<lparr>w_Project := effective\<rparr>"
  have db': "db' = AList.update i new db"
    using assms(2) cur by (auto simp: update_parent_def GetWorkItem_tree_def effective_def new_def Let_def split: option.splits if_splits)
  have valid: "parentID = Some p \<Longrightarrow> ValidateParent db p (w_Kind cur) effective ex = None" for p
    using assms(2) cur by (auto simp: update_parent_def GetWorkItem_tree_def effective_def Let_def split: option.splits)
  have kind: "depth new = depth cur" by (simp add: new_def set_parent_def split: option.splits)
  have up: "depth q < depth new" if "w_Parent new = Some p" "map_of db p = Some q" for p q
  proof (cases parentID)
    case None
    then show ?thesis using that cur assms(1) kind rankedD by (simp add: new_def set_parent_def)
  next
    case (Some p')
    then have "p' = p" "p \<noteq> []" using that(1) by (auto simp: new_def set_parent_def split: if_splits)
    then show ?thesis using ValidateParent_depth [OF valid [OF Some]] that(2) kind by auto
  qed
  then have "w_Parent new \<noteq> Some i" using cur kind by fastforce
  then have "deepens (map_of db')"
    using assms(1) up cur kind unfolding deepens_def ranked_def db' map_of_update by (auto split: if_splits)
  then show ?thesis
    using assms(1) cur kind unfolding ranked_def db' map_of_update by (auto simp: distinct_update)
qed

section \<open>The ancestor walk\<close>

lemma nearest_unfold: "nearestShallowerAncestor db cur d pr =
     (case GetWorkItem_tree db cur of
        None \<Rightarrow> Some (Inl NotFound)
      | Some parent \<Rightarrow>
          if w_Project parent \<noteq> pr then Some (Inl (AncestorElsewhere cur))
          else if kindOrder (w_Kind parent) < d then Some (Inr cur)
          else (case w_Parent parent of
                  None \<Rightarrow> Some (Inl (NoAncestor d))
                | Some up \<Rightarrow> nearestShallowerAncestor db up d pr))"
  by (rule nearestShallowerAncestor.simps)

lemma nearest_returns:
  assumes "ranked db"
  shows "\<exists>r. nearestShallowerAncestor db cur d pr = Some r \<and>
     (\<forall>p. r = Inr p \<longrightarrow> (\<exists>m. map_of db p = Some m \<and> w_Project m = pr \<and> depth m < d \<and>
        (\<forall>n. map_of db cur = Some n \<longrightarrow> depth m \<le> depth n)))"
proof (induction "case map_of db cur of None \<Rightarrow> 0 | Some n \<Rightarrow> depth n" arbitrary: cur rule: less_induct)
  case less
  show ?case
  proof (cases "map_of db cur")
    case None
    then show ?thesis by (subst nearest_unfold) (simp add: GetWorkItem_tree_def)
  next
    case (Some n)
    show ?thesis
    proof (cases "w_Project n \<noteq> pr \<or> depth n < d \<or> w_Parent n = None")
      case True
      then show ?thesis using Some by (subst nearest_unfold) (auto simp: GetWorkItem_tree_def)
    next
      case False
      then obtain up where up: "w_Parent n = Some up" by auto
      have step: "nearestShallowerAncestor db cur d pr = nearestShallowerAncestor db up d pr"
        using False up Some by (subst nearest_unfold) (auto simp: GetWorkItem_tree_def)
      show ?thesis
      proof (cases "map_of db up")
        case None
        then show ?thesis unfolding step by (subst nearest_unfold) (simp add: GetWorkItem_tree_def)
      next
        case (Some m)
        then have "depth m < depth n" using rankedD [OF assms \<open>map_of db cur = Some n\<close> up] by simp
        then show ?thesis
          using less [of up] Some \<open>map_of db cur = Some n\<close> unfolding step by fastforce
      qed
    qed
  qed
qed

text \<open>What the walk says of a single ancestor, and the step to the next one when it says nothing.\<close>

definition walk_verdict :: "table \<Rightarrow> nat \<Rightarrow> string \<Rightarrow> string \<Rightarrow> (hierarchy_error + string) option" where
  "walk_verdict db d pr a =
     (case map_of db a of
        None \<Rightarrow> Some (Inl NotFound)
      | Some n \<Rightarrow>
          if w_Project n \<noteq> pr then Some (Inl (AncestorElsewhere a))
          else if depth n < d then Some (Inr a)
          else if w_Parent n = None then Some (Inl (NoAncestor d)) else None)"

definition passes_on :: "table \<Rightarrow> nat \<Rightarrow> string \<Rightarrow> string \<Rightarrow> string \<Rightarrow> bool" where
  "passes_on db d pr a b \<longleftrightarrow> walk_verdict db d pr a = None \<and> (\<exists>n. map_of db a = Some n \<and> w_Parent n = Some b)"

section \<open>The kind switch\<close>

lemma map_of_map_rows: "map_of (map (\<lambda>(c, n). (c, f c n)) xs) x = map_option (f x) (map_of xs x)"
  by (induction xs) auto

lemma apply_plan_ranked:
  assumes "ranked db" "map_of db i = Some current" "kindOrder kind \<noteq> 0"
    and parent: "\<And>p q. NewParentID plan = Some p \<Longrightarrow> map_of db p = Some q \<Longrightarrow> p \<noteq> i \<and> depth q < kindOrder kind \<and>
        (\<forall>c \<in> List.set (ReparentedChildren plan). \<forall>n. map_of db c = Some n \<longrightarrow> depth q < depth n)"
    and "i \<notin> List.set (ReparentedChildren plan)" "NewParentID plan \<noteq> Some i"
    and kept: "\<And>c n. map_of db c = Some n \<Longrightarrow> w_Parent n = Some i \<Longrightarrow>
        c \<in> List.set (ReparentedChildren plan) \<and> NewParentID plan \<noteq> None \<or> kindOrder kind < depth n"
  shows "ranked (apply_plan db i current kind pr plan)"
proof -
  define switched where "switched = current\<lparr>w_Kind := kind, w_Parent := NewParentID plan, w_Project := pr,
      w_Status := (case NewStatus plan of Some s \<Rightarrow> s | None \<Rightarrow> w_Status current)\<rparr>"
  define moved where "moved c n = (if c \<in> List.set (ReparentedChildren plan) \<and> NewParentID plan \<noteq> None
      then n\<lparr>w_Parent := NewParentID plan\<rparr> else n)" for c and n :: node
  let ?db' = "apply_plan db i current kind pr plan"
  have "?db' = map (\<lambda>(c, n). (c, moved c n)) (AList.update i switched db)"
    by (simp add: apply_plan_def switched_def moved_def Let_def)
  moreover have "moved i n = n" for n using assms(5) by (simp add: moved_def)
  ultimately have look: "map_of ?db' c = (if c = i then Some switched else map_option (moved c) (map_of db c))"
    and keys: "map fst ?db' = map fst (AList.update i switched db)" for c
    by (simp_all add: map_of_map_rows map_of_update case_prod_beta)
  have depth_moved: "depth (moved c n) = depth n" for c n by (simp add: moved_def)
  have "depth q' < depth n'" if n': "map_of ?db' c = Some n'" "w_Parent n' = Some p" and q': "map_of ?db' p = Some q'" for c n' p q'
  proof (cases "c = i")
    case True
    then have "NewParentID plan = Some p" "depth n' = kindOrder kind" using n' by (auto simp: look switched_def)
    moreover from this have "p \<noteq> i" using assms(6) by auto
    ultimately show ?thesis using parent q' by (auto simp: look depth_moved split: if_splits)
  next
    case False
    then obtain n where n: "map_of db c = Some n" "n' = moved c n" using n'(1) by (auto simp: look)
    show ?thesis
    proof (cases "c \<in> List.set (ReparentedChildren plan) \<and> NewParentID plan \<noteq> None")
      case True
      then have "NewParentID plan = Some p" using n n'(2) by (auto simp: moved_def)
      moreover from this have "p \<noteq> i" using assms(6) by auto
      ultimately show ?thesis using parent q' True n by (auto simp: look depth_moved split: if_splits)
    next
      case stay: False
      then have "w_Parent n = Some p" using n n'(2) by (auto simp: moved_def)
      then show ?thesis
        using kept [OF n(1)] stay q' n(2) rankedD [OF assms(1) n(1)]
        by (cases "p = i") (auto simp: look depth_moved switched_def)
    qed
  qed
  then have "deepens (map_of ?db')" by (auto simp: deepens_def)
  moreover have "distinct (map fst ?db')" using assms(1) by (simp add: keys ranked_def distinct_update)
  moreover have "depth n \<noteq> 0 \<and> c \<noteq> []" if "map_of ?db' c = Some n" for c n
    using that assms(1-3) by (auto simp: look depth_moved switched_def ranked_def split: if_splits)
  ultimately show ?thesis by (simp add: ranked_def)
qed

lemma switch_auto_ranked:
  assumes "ranked db" "GetWorkItem_tree db i = Some current" "switch_kind act db i kind parentID projectID = Some (Inr db')"
    and auto: "parentID = None \<or> parentID = w_Parent current" and "NormalizeWorkItemKind kind = Some kind"
    and archived: "\<And>c n. \<lbrakk>map_of db c = Some n; w_Parent n = Some i; w_Archived n\<rbrakk> \<Longrightarrow> kindOrder kind < depth n"
  shows "ranked db'"
proof -
  have cur: "map_of db i = Some current" using assms(2) by (simp add: GetWorkItem_tree_def)
  obtain pr plan where res: "ResolveKindSwitch act db i current kind parentID pr = Some (Inr plan)"
    and db': "db' = apply_plan db i current kind pr plan"
    using assms(2,3) by (auto simp: switch_kind_def case_sum_Inr Let_def split: if_splits)
  obtain P where P: "resolve_parent db i current kind parentID pr = Some (Inr P)"
    and plan: "NewParentID plan = P" "ReparentedChildren plan =
      map fst (filter (\<lambda>(c, n). kindOrder (w_Kind n) \<le> kindOrder kind) (ListDirectChildren db i))"
    using res assms(5) by (auto simp: ResolveKindSwitch_def case_sum_Inr simp del: insert_iff split: if_splits)
  have child: "w_Parent n = Some i \<and> depth current < depth n \<and> c \<noteq> i" if c: "c \<in> List.set (ReparentedChildren plan)" "map_of db c = Some n" for c n
  proof -
    obtain n' where n': "(c, n') \<in> List.set (ListDirectChildren db i)" using c(1) by (auto simp: plan(2))
    then have "map_of db c = Some n'" using ranked_distinct [OF assms(1)] by (auto simp: ListDirectChildren_def)
    then have "w_Parent n = Some i" using n' c(2) by (simp add: ListDirectChildren_def)
    then show ?thesis using rankedD [OF assms(1) c(2) _ cur] c(2) cur by (cases "c = i") auto
  qed
  have above: "depth q < kindOrder kind \<and> depth q < depth current" if p: "P = Some p" "map_of db p = Some q" for p q
  proof -
    have "kind \<noteq> ''epic''" using P p(1) by (auto simp: resolve_parent_def)
    then obtain up where up: "w_Parent current = Some up" "nearestShallowerAncestor db up (kindOrder kind) pr = Some (Inr p)"
      using P auto p(1) by (auto simp: resolve_parent_def Let_def case_sum_Inr split: option.splits if_splits)
    obtain m where m: "map_of db up = Some m"
      using up(2) by (subst (asm) nearest_unfold) (auto simp: GetWorkItem_tree_def split: option.splits)
    show ?thesis
      using nearest_returns [OF assms(1), of up "kindOrder kind" pr] up p(2) m rankedD [OF assms(1) cur up(1) m]
      by auto
  qed
  have none: "P = None \<Longrightarrow> kind = ''epic''"
    using P by (auto simp: resolve_parent_def Let_def case_sum_Inr split: option.splits if_splits)
  show ?thesis
    unfolding db'
  proof (rule apply_plan_ranked [OF assms(1) cur])
    show "kindOrder kind \<noteq> 0" by (rule NormalizeWorkItemKind_depth [OF assms(5)])
    show "i \<notin> List.set (ReparentedChildren plan)" using child cur by blast
    show "NewParentID plan \<noteq> Some i" using above cur plan(1) by blast
    show "p \<noteq> i \<and> depth q < kindOrder kind \<and>
        (\<forall>c \<in> List.set (ReparentedChildren plan). \<forall>n. map_of db c = Some n \<longrightarrow> depth q < depth n)"
      if "NewParentID plan = Some p" "map_of db p = Some q" for p q
      using above [of p q] that child cur unfolding plan(1) by fastforce
    show "c \<in> List.set (ReparentedChildren plan) \<and> NewParentID plan \<noteq> None \<or> kindOrder kind < depth n"
      if n: "map_of db c = Some n" "w_Parent n = Some i" for c n
    proof (cases "kindOrder kind < depth n \<or> w_Archived n")
      case True
      then show ?thesis using archived n by blast
    next
      case False
      then have "c \<in> List.set (ReparentedChildren plan)"
        using n map_of_SomeD [OF n(1)] by (force simp: plan(2) ListDirectChildren_def)
      moreover have "depth current \<noteq> 0" "depth current < depth n"
        using assms(1) cur rankedD [OF assms(1) n cur] by (auto simp: ranked_def)
      then have "kindOrder kind \<noteq> 1" using False by linarith
      then have "kind \<noteq> ''epic''" by (auto simp: kindOrder_def)
      then have "P \<noteq> None" using none by blast
      ultimately show ?thesis by (simp add: plan(1))
    qed
  qed
qed

section \<open>Reachable tables\<close>

inductive edited :: "(string \<Rightarrow> bool) \<Rightarrow> table \<Rightarrow> table \<Rightarrow> bool" for act where
  create: "\<lbrakk>create_item db i n ex = Inr db'; i \<notin> fst ` List.set db; i \<noteq> []; depth n \<noteq> 0; w_Parent n \<noteq> Some i;
     \<And>c m. map_of db c = Some m \<Longrightarrow> w_Parent m \<noteq> Some i\<rbrakk> \<Longrightarrow> edited act db db'"
| reparent: "update_parent db i parentID projectID ex = Inr db' \<Longrightarrow> edited act db db'"
| switch: "\<lbrakk>GetWorkItem_tree db i = Some current; switch_kind act db i kind parentID projectID = Some (Inr db');
     parentID = None \<or> parentID = w_Parent current; NormalizeWorkItemKind kind = Some kind;
     \<And>c n. \<lbrakk>map_of db c = Some n; w_Parent n = Some i; w_Archived n\<rbrakk> \<Longrightarrow> kindOrder kind < depth n\<rbrakk>
     \<Longrightarrow> edited act db db'"

lemma edited_ranked: "edited act db db' \<Longrightarrow> ranked db \<Longrightarrow> ranked db'"
  by (induction rule: edited.induct)
    (blast intro: create_item_ranked update_parent_ranked switch_auto_ranked)+

lemma ranked_Nil: "ranked []"
  by (simp add: ranked_def deepens_def)

section \<open>Chains\<close>

definition parents :: "table \<Rightarrow> (string \<times> string) set" where
  "parents db = {(i, p). \<exists>n. map_of db i = Some n \<and> w_Parent n = Some p}"

lemma finite_parents: "finite (parents db)"
proof (rule finite_subset)
  show "parents db \<subseteq> (\<lambda>(i, n). (i, the (w_Parent n))) ` List.set db"
    by (auto simp: parents_def image_iff dest!: map_of_SomeD) force
qed simp

text \<open>As long as no item is its own ancestor the walk returns, and what it returns is the verdict of the first
  ancestor that has one.\<close>

lemma nearest_exact:
  assumes "acyclic (parents db)"
  shows "\<exists>a r. nearestShallowerAncestor db cur d pr = Some r \<and> (passes_on db d pr)\<^sup>*\<^sup>* cur a \<and> walk_verdict db d pr a = Some r"
proof (induction cur rule: wf_induct_rule [OF finite_acyclic_wf_converse [OF finite_parents assms]])
  case (1 cur)
  show ?case
  proof (cases "walk_verdict db d pr cur")
    case (Some r)
    then have "nearestShallowerAncestor db cur d pr = Some r"
      by (subst nearest_unfold) (auto simp: walk_verdict_def GetWorkItem_tree_def split: option.splits if_splits)
    then show ?thesis using Some by blast
  next
    case None
    then obtain n up where n: "map_of db cur = Some n" "w_Parent n = Some up" "w_Project n = pr" "\<not> depth n < d"
      by (auto simp: walk_verdict_def split: option.splits if_splits)
    have on: "passes_on db d pr cur up" using None n by (simp add: passes_on_def)
    have step: "nearestShallowerAncestor db cur d pr = nearestShallowerAncestor db up d pr"
      using n by (subst nearest_unfold) (simp add: GetWorkItem_tree_def)
    have "(cur, up) \<in> parents db" using n by (simp add: parents_def)
    then obtain a r where "nearestShallowerAncestor db up d pr = Some r" "(passes_on db d pr)\<^sup>*\<^sup>* up a"
        "walk_verdict db d pr a = Some r"
      using 1 by blast
    then show ?thesis using on step by (metis converse_rtranclp_into_rtranclp)
  qed
qed

lemma climb_depth:
  assumes "ranked db"
  shows "\<lbrakk>(i, p) \<in> parents db ^^ k; map_of db i = Some n; map_of db p = Some m\<rbrakk> \<Longrightarrow> depth m + k \<le> depth n"
proof (induction k arbitrary: p m)
  case 0
  then show ?case by simp
next
  case (Suc k)
  then obtain j where j: "(i, j) \<in> parents db ^^ k" "(j, p) \<in> parents db" by auto
  then obtain m' where "map_of db j = Some m'" "w_Parent m' = Some p" by (auto simp: parents_def)
  then show ?case using Suc.IH [OF j(1) Suc.prems(2)] rankedD [OF assms] Suc.prems(3) by fastforce
qed

lemma ranked_acyclic:
  assumes "ranked db"
  shows "acyclic (parents db)"
proof (rule acyclicI, rule allI, rule notI)
  fix i assume "(i, i) \<in> (parents db)\<^sup>+"
  then obtain k where k: "0 < k" "(i, i) \<in> parents db ^^ k" by (auto simp: trancl_power)
  moreover obtain n where "map_of db i = Some n"
    using \<open>(i, i) \<in> (parents db)\<^sup>+\<close> by (auto simp: parents_def dest: tranclD)
  ultimately show False using climb_depth [OF assms k(2)] by fastforce
qed

section \<open>The subtree\<close>

lemma direct_child_depth:
  assumes "ranked db" "(c, n) \<in> List.set (ListDirectChildren db i)"
  shows "map_of db c = Some n" "\<And>m. map_of db i = Some m \<Longrightarrow> depth m < depth n"
proof -
  show look: "map_of db c = Some n"
    using assms(2) ranked_distinct [OF assms(1)] by (simp add: ListDirectChildren_def)
  show "\<And>m. map_of db i = Some m \<Longrightarrow> depth m < depth n"
    using assms(2) rankedD [OF assms(1) look] by (auto simp: ListDirectChildren_def)
qed

lemma subtree_walk_enough:
  assumes "ranked db"
  shows "\<lbrakk>0 < fuel; case map_of db i of None \<Rightarrow> 4 \<le> fuel | Some m \<Rightarrow> 4 \<le> depth m + fuel\<rbrakk> \<Longrightarrow>
     subtree_walk fuel workflows db i \<noteq> None"
proof (induction fuel arbitrary: i)
  case 0
  then show ?case by simp
next
  case (Suc fuel)
  have "subtree_walk fuel workflows db c \<noteq> None"
    if c: "(c, n) \<in> List.set (ListDirectChildren db i)" and g: "ListDirectChildren db c \<noteq> []" for c n
  proof -
    obtain g' n' where "(g', n') \<in> List.set (ListDirectChildren db c)" using g by (cases "ListDirectChildren db c") auto
    note grand = direct_child_depth [OF assms this]
    note child = direct_child_depth [OF assms c]
    have "depth n < depth n'" "depth n' \<le> 4" using grand(2) child(1) kindOrder_le by auto
    moreover have "depth n \<noteq> 0" using assms child(1) by (auto simp: ranked_def)
    moreover have "case map_of db i of None \<Rightarrow> 4 \<le> Suc fuel | Some m \<Rightarrow> depth m < depth n \<and> 4 \<le> depth m + Suc fuel"
      using Suc.prems(2) child(2) by (auto split: option.splits)
    ultimately show ?thesis using Suc.IH [of c] child(1) by (auto split: option.splits)
  qed
  then show ?case by (fastforce simp: join_offences_def split: if_splits)
qed

inductive below :: "table \<Rightarrow> string \<Rightarrow> string \<Rightarrow> node \<Rightarrow> bool" for db where
  child: "(c, n) \<in> List.set (ListDirectChildren db i) \<Longrightarrow> below db i c n"
| deeper: "(j, m) \<in> List.set (ListDirectChildren db i) \<Longrightarrow> below db j c n \<Longrightarrow> below db i c n"

inductive_simps below_iff: "below db i c n"

lemma join_offences_Some:
  "join_offences rs = Some (a, b) \<longleftrightarrow>
     None \<notin> List.set rs \<and> a = concat (map (fst \<circ> the) rs) \<and> b = concat (map (snd \<circ> the) rs)"
  by (auto simp: join_offences_def)

lemma join_offences_no_None: "join_offences rs = Some r \<Longrightarrow> None \<notin> List.set rs"
  by (auto simp: join_offences_def split: if_splits)

lemma leaf_below: "ListDirectChildren db c = [] \<Longrightarrow> \<not> below db c x m"
  by (subst below_iff) simp

text \<open>More fuel does not change an answer.\<close>

lemma subtree_walk_Suc: "subtree_walk fuel workflows db i = Some r \<Longrightarrow> subtree_walk (Suc fuel) workflows db i = Some r"
proof (induction fuel arbitrary: i r)
  case (Suc fuel)
  let ?go = "\<lambda>f (c, n). if ListDirectChildren db c = [] then Some (leaf_offence workflows n) else subtree_walk f workflows db c"
  have join: "join_offences (map (?go fuel) (ListDirectChildren db i)) = Some r" using Suc.prems by simp
  have "?go (Suc fuel) x = ?go fuel x" if "x \<in> List.set (ListDirectChildren db i)" for x
  proof -
    have "None \<notin> List.set (map (?go fuel) (ListDirectChildren db i))"
      by (rule join_offences_no_None [OF join])
    then have some: "?go fuel x \<noteq> None" by (simp only: list.set_map) (metis (lifting) imageI that)
    obtain c n where x: "x = (c, n)" by (cases x)
    show ?thesis
    proof (cases "ListDirectChildren db c = []")
      case False
      then obtain y where "subtree_walk fuel workflows db c = Some y" using some x by auto
      then show ?thesis using Suc.IH False x by (simp del: subtree_walk.simps)
    qed (simp add: x)
  qed
  then have "map (?go (Suc fuel)) (ListDirectChildren db i) = map (?go fuel) (ListDirectChildren db i)" by (rule map_cong [OF refl])
  then show ?case using join by (simp only: subtree_walk.simps(2))
qed simp

lemma subtree_walk_more: "f \<le> g \<Longrightarrow> subtree_walk f workflows db i = Some r \<Longrightarrow> subtree_walk g workflows db i = Some r"
  by (induction rule: dec_induct) (auto intro: subtree_walk_Suc simp del: subtree_walk.simps)

text \<open>As long as no item is its own ancestor the recursion ends.\<close>

lemma subtree_walk_ends:
  assumes "acyclic (parents db)" "distinct (map fst db)"
  shows "\<exists>fuel r. subtree_walk fuel workflows db i = Some r"
proof (induction i rule: wf_induct_rule [OF finite_acyclic_wf [OF finite_parents assms(1)]])
  case (1 i)
  have "\<exists>f r. subtree_walk f workflows db c = Some r" if "(c, n) \<in> List.set (ListDirectChildren db i)" for c n
  proof -
    have "(c, n) \<in> List.set db" "w_Parent n = Some i" using that by (auto simp: ListDirectChildren_def)
    then have "(c, i) \<in> parents db" using assms(2) by (auto simp: parents_def)
    then show ?thesis by (rule 1)
  qed
  then obtain F R where F: "\<And>c n. (c, n) \<in> List.set (ListDirectChildren db i) \<Longrightarrow> subtree_walk (F c) workflows db c = Some (R c)"
    by metis
  define top where "top = sum_list (map (F \<circ> fst) (ListDirectChildren db i))"
  have "subtree_walk top workflows db c = Some (R c)" if "(c, n) \<in> List.set (ListDirectChildren db i)" for c n
    using F [OF that] member_le_sum_list [of "F c" "map (F \<circ> fst) (ListDirectChildren db i)"] that
    by (force intro: subtree_walk_more simp: top_def)
  then have "subtree_walk (Suc top) workflows db i \<noteq> None" by (fastforce simp: join_offences_def split: if_splits)
  then show ?case by (meson not_None_eq)
qed

text \<open>The leaves in the order of the walk, each once.\<close>

fun leaf_list :: "nat \<Rightarrow> table \<Rightarrow> string \<Rightarrow> (string \<times> node) list" where
  "leaf_list 0 db i = []"
| "leaf_list (Suc fuel) db i =
     concat (map (\<lambda>(c, n). if ListDirectChildren db c = [] then [(c, n)] else leaf_list fuel db c) (ListDirectChildren db i))"

lemma subtree_walk_leaves:
  "subtree_walk fuel workflows db i = Some (no, bad) \<Longrightarrow>
     no = concat (map (\<lambda>x. fst (leaf_offence workflows (snd x))) (leaf_list fuel db i)) \<and>
     bad = concat (map (\<lambda>x. snd (leaf_offence workflows (snd x))) (leaf_list fuel db i)) \<and>
     List.set (leaf_list fuel db i) = {(c, n). below db i c n \<and> ListDirectChildren db c = []}"
proof (induction fuel arbitrary: i no bad)
  case 0
  then show ?case by simp
next
  case (Suc fuel)
  define go where "go = (\<lambda>(c, n). if ListDirectChildren db c = [] then Some (leaf_offence workflows n)
       else subtree_walk fuel workflows db c)"
  define part where "part = (\<lambda>(c, n). if ListDirectChildren db c = [] then [(c, n)] else leaf_list fuel db c)"
  let ?kids = "ListDirectChildren db i"
  have ok: "None \<notin> go ` List.set ?kids" and parts:
    "no = concat (map (fst \<circ> the) (map go ?kids))" "bad = concat (map (snd \<circ> the) (map go ?kids))"
    using Suc.prems by (simp_all add: join_offences_Some go_def)
  have each: "fst (the (go x)) = concat (map (\<lambda>x. fst (leaf_offence workflows (snd x))) (part x)) \<and>
      snd (the (go x)) = concat (map (\<lambda>x. snd (leaf_offence workflows (snd x))) (part x)) \<and>
      List.set (part x) = {(y, m). (y = fst x \<and> m = snd x \<or> below db (fst x) y m) \<and> ListDirectChildren db y = []}"
    if "x \<in> List.set ?kids" for x
  proof -
    obtain c n where x: "x = (c, n)" by (cases x)
    show ?thesis
    proof (cases "ListDirectChildren db c = []")
      case True
      then show ?thesis using leaf_below [OF True] by (auto simp: go_def part_def x)
    next
      case False
      have "go (c, n) \<noteq> None" using ok that x by (metis image_eqI)
      then obtain a b where "subtree_walk fuel workflows db c = Some (a, b)" using False by (auto simp: go_def)
      then show ?thesis using Suc.IH [of c a b] False by (auto simp: go_def part_def x)
    qed
  qed
  have no: "concat (map (fst \<circ> the) (map go xs)) = concat (map (\<lambda>x. fst (leaf_offence workflows (snd x))) (concat (map part xs)))"
    "concat (map (snd \<circ> the) (map go xs)) = concat (map (\<lambda>x. snd (leaf_offence workflows (snd x))) (concat (map part xs)))"
    if "List.set xs \<subseteq> List.set ?kids" for xs
    using that by (induction xs) (simp_all add: each)
  have "List.set (concat (map part ?kids)) = (\<Union>x \<in> List.set ?kids. {(y, m). (y = fst x \<and> m = snd x \<or> below db (fst x) y m) \<and> ListDirectChildren db y = []})"
    using each by simp
  also have "\<dots> = {(c, n). below db i c n \<and> ListDirectChildren db c = []}"
    by (rule set_eqI) (auto simp only: below_iff [of db i] mem_Collect_eq UN_iff split: prod.split, force+)
  finally have "List.set (concat (map part ?kids)) = {(c, n). below db i c n \<and> ListDirectChildren db c = []}" .
  then show ?case unfolding parts using no [OF order_refl] by (simp add: part_def)
qed

lemma below_climbs: "below db i c n \<Longrightarrow> distinct (map fst db) \<Longrightarrow> (c, i) \<in> (parents db)\<^sup>+"
proof (induction rule: below.induct)
  case (child c n i)
  then have "map_of db c = Some n" "w_Parent n = Some i" by (auto simp: ListDirectChildren_def)
  then show ?case by (auto simp: parents_def)
next
  case (deeper j m i c n)
  then have "map_of db j = Some m" "w_Parent m = Some i" by (auto simp: ListDirectChildren_def)
  then have "(j, i) \<in> parents db" by (auto simp: parents_def)
  then show ?case using deeper by (meson trancl.trancl_into_trancl)
qed

lemma siblings_apart:
  assumes "acyclic (parents db)" "(x, c) \<in> (parents db)\<^sup>*" "(x, d) \<in> (parents db)\<^sup>*" "(c, i) \<in> parents db" "(d, i) \<in> parents db"
  shows "c = d"
proof (rule ccontr)
  assume "c \<noteq> d"
  have sv: "single_valued (parents db)" by (auto simp: single_valued_def parents_def)
  have loop: False if "(a, b) \<in> (parents db)\<^sup>*" "a \<noteq> b" "(a, i) \<in> parents db" "(b, i) \<in> parents db" for a b
  proof -
    from that(1,2) obtain y where y: "(a, y) \<in> parents db" "(y, b) \<in> (parents db)\<^sup>*" by (meson converse_rtranclE)
    then have "y = i" using sv that(3) by (auto simp: single_valued_def)
    then have "(i, i) \<in> (parents db)\<^sup>+" using y(2) that(4) by auto
    then show False using assms(1) by (auto simp: acyclic_def)
  qed
  show False using single_valued_confluent [OF sv assms(2,3)] loop assms(4,5) \<open>c \<noteq> d\<close> by blast
qed

lemma distinct_concat_map:
  "\<lbrakk>distinct xs; \<And>x. x \<in> List.set xs \<Longrightarrow> distinct (g x);
    \<And>x y. x \<in> List.set xs \<Longrightarrow> y \<in> List.set xs \<Longrightarrow> x \<noteq> y \<Longrightarrow> List.set (g x) \<inter> List.set (g y) = {}\<rbrakk> \<Longrightarrow> distinct (concat (map g xs))"
proof (induction xs)
  case (Cons x xs)
  have "List.set (g x) \<inter> List.set (g y) = {}" if "y \<in> List.set xs" for y
    using Cons.prems(1,3) that by (metis distinct.simps(2) list.set_intros)
  then show ?case using Cons by auto
qed simp

lemma leaf_list_below: "(c, n) \<in> List.set (leaf_list fuel db i) \<Longrightarrow> below db i c n"
  by (induction fuel arbitrary: i) (auto split: if_splits intro: below.intros)

lemma leaf_list_distinct:
  assumes "acyclic (parents db)" "distinct (map fst db)"
  shows "distinct (map fst (leaf_list fuel db i))"
proof (induction fuel arbitrary: i)
  case (Suc fuel)
  define part where "part = (\<lambda>(c, n). if ListDirectChildren db c = [] then [(c, n)] else leaf_list fuel db c)"
  let ?kids = "ListDirectChildren db i"
  have keys: "distinct (map fst ?kids)"
    using assms(2) unfolding ListDirectChildren_def by (rule distinct_map_filter)
  have up: "(fst y, fst x) \<in> (parents db)\<^sup>*" if xy: "x \<in> List.set ?kids" "y \<in> List.set (part x)" for x y
  proof (cases "ListDirectChildren db (fst x) = []")
    case True
    then have "y = x" using xy(2) by (cases x) (simp add: part_def)
    then show ?thesis by simp
  next
    case False
    then have "y \<in> List.set (leaf_list fuel db (fst x))" using xy(2) by (simp add: part_def split_beta)
    then have "below db (fst x) (fst y) (snd y)" using leaf_list_below [of "fst y" "snd y" fuel db "fst x"] by simp
    then show ?thesis by (rule below_climbs [OF _ assms(2), THEN trancl_into_rtrancl])
  qed
  have kid: "(fst x, i) \<in> parents db" if "x \<in> List.set ?kids" for x
  proof -
    from that have "(fst x, snd x) \<in> List.set db" "w_Parent (snd x) = Some i" by (auto simp: ListDirectChildren_def)
    then show ?thesis using assms(2) by (cases x) (auto simp: parents_def)
  qed
  have "distinct (concat (map (map fst \<circ> part) ?kids))"
  proof (rule distinct_concat_map)
    show "distinct ?kids" using keys by (simp add: distinct_map)
    show "distinct ((map fst \<circ> part) x)" for x using Suc by (simp add: part_def split_beta)
    show "List.set ((map fst \<circ> part) x) \<inter> List.set ((map fst \<circ> part) y) = {}"
      if two: "x \<in> List.set ?kids" "y \<in> List.set ?kids" "x \<noteq> y" for x y
    proof (rule ccontr)
      assume shared: "\<not> ?thesis"
      from shared obtain u v where uv: "u \<in> List.set (part x)" "v \<in> List.set (part y)" "fst u = fst v"
        by (auto simp: disjoint_iff)
      have a: "(fst u, fst x) \<in> (parents db)\<^sup>*" "(fst u, fst y) \<in> (parents db)\<^sup>*"
        using up [OF two(1) uv(1)] up [OF two(2) uv(2)] uv(3) by simp_all
      have same: "fst x = fst y" using siblings_apart [OF assms(1) a kid [OF two(1)] kid [OF two(2)]] .
      show False using inj_onD [of fst "List.set ?kids" x y] keys two same by (simp add: distinct_map)
    qed
  qed
  then show ?case by (simp add: part_def map_concat comp_def split_beta)
qed simp

end
