(* ===== verification/Hierarchy_Claims.thy ===== *)
theory Hierarchy_Claims
  imports Hierarchy_Laws
begin

text \<open>
  The properties of the work-item hierarchy, their witnesses on a small project, and the kind switch that
  turns a tree into a cycle.
\<close>

section \<open>A small project\<close>

definition item_of :: "string \<Rightarrow> string option \<Rightarrow> node" where
  "item_of kind parent = \<lparr>w_Kind = kind, w_Parent = parent, w_Project = ''p'', w_Archived = False,
     w_Status = WorkItemPending, w_RunID = [], w_Workflow = None, w_Title = kind\<rparr>"

definition tree :: table where
  "tree = [(''e'', item_of ''epic'' None), (''f'', item_of ''feature'' (Some ''e'')), (''t'', item_of ''task'' (Some ''f''))]"

definition tangled :: table where
  "tangled = [(''e'', (item_of ''epic'' None)\<lparr>w_Kind := ''subtask'', w_Parent := Some ''t''\<rparr>),
     (''f'', (item_of ''feature'' (Some ''e''))\<lparr>w_Parent := Some ''t''\<rparr>), (''t'', item_of ''task'' (Some ''f''))]"

definition no_runs :: "string \<Rightarrow> bool" where
  "no_runs r = False"

lemma tree_ranked: "ranked tree"
  by (auto simp: ranked_def deepens_def tree_def item_of_def kindOrder_def split: if_splits)

lemma tree_edited: "(edited no_runs)\<^sup>*\<^sup>* [] tree"
proof -
  let ?a = "[(''e'', item_of ''epic'' None)]" and ?f = "item_of ''feature'' (Some ''e'')"
    and ?t = "item_of ''task'' (Some ''f'')"
  have "edited no_runs [] ?a"
  proof (rule edited.create [where n = "item_of ''epic'' None" and i = "''e''" and ex = "[]"])
    show "create_item [] ''e'' (item_of ''epic'' None) [] = Inr ?a" by code_simp
  qed (simp_all add: item_of_def kindOrder_def)
  moreover have "edited no_runs ?a (?a @ [(''f'', ?f)])"
  proof (rule edited.create [where n = ?f and i = "''f''" and ex = "[]"])
    show "create_item ?a ''f'' ?f [] = Inr (?a @ [(''f'', ?f)])" by code_simp
  qed (auto simp: item_of_def kindOrder_def split: if_splits)
  moreover have "edited no_runs (?a @ [(''f'', ?f)]) ((?a @ [(''f'', ?f)]) @ [(''t'', ?t)])"
  proof (rule edited.create [where n = ?t and i = "''t''" and ex = "[]"])
    show "create_item (?a @ [(''f'', ?f)]) ''t'' ?t [] = Inr ((?a @ [(''f'', ?f)]) @ [(''t'', ?t)])" by code_simp
  qed (auto simp: item_of_def kindOrder_def split: if_splits)
  ultimately show ?thesis by (simp add: tree_def)
qed

section \<open>Properties\<close>

text \<open>C19. Every table that creations, moves and automatic kind switches build from the empty one is a forest in which a
  parent that exists is strictly shallower than its child, so no item is its own ancestor. A creation has a new non-empty id that no
  item names as its parent, and a valid kind; a move is any accepted one; an automatic kind switch keeps the parent or
  lets the code choose it, with or without a move to another project, switches to a kind already normalized, and the
  item has no archived child at or above its new depth (a switch misses such a child). Switches to a parent the caller
  names are not among the steps: they can break the property.\<close>

lemma hierarchy_kept:
  assumes "(edited act)\<^sup>*\<^sup>* [] db"
  shows "ranked db \<and> acyclic (parents db)"
proof -
  have "ranked db" using assms by (induction rule: rtranclp_induct) (simp_all add: ranked_Nil edited_ranked)
  then show ?thesis by (simp add: ranked_acyclic)
qed

lemma hierarchy_kept_witness: "ranked tree \<and> acyclic (parents tree)"
  by (rule hierarchy_kept [OF tree_edited])

text \<open>C36. In a table in which no item is its own ancestor, the walk up from any item returns, and what it returns is the
  verdict of the first ancestor, the item included, that has one: not found when the id is not in the table,
  an error when it lies in another project, the ancestor itself when it is shallower than the new depth, an error when it is
  not and has no parent. On a table with a cycle, which a switch to a named parent can build, it need not return.\<close>

lemma ancestor_walk_returns:
  assumes "acyclic (parents db)"
  shows "\<exists>a r. nearestShallowerAncestor db cur d pr = Some r \<and> (passes_on db d pr)\<^sup>*\<^sup>* cur a \<and>
     (case map_of db a of
        None \<Rightarrow> r = Inl NotFound
      | Some n \<Rightarrow>
          if w_Project n \<noteq> pr then r = Inl (AncestorElsewhere a)
          else if depth n < d then r = Inr a
          else w_Parent n = None \<and> r = Inl (NoAncestor d))"
proof -
  obtain a r where "nearestShallowerAncestor db cur d pr = Some r" "(passes_on db d pr)\<^sup>*\<^sup>* cur a"
      "walk_verdict db d pr a = Some r"
    using nearest_exact [OF assms] by blast
  then show ?thesis
    by (intro exI [of _ a] exI [of _ r]) (auto simp: walk_verdict_def split: option.splits if_splits)
qed

lemma ancestor_walk_returns_witness:
  "\<exists>a r. nearestShallowerAncestor tree ''t'' 2 ''p'' = Some r \<and> (passes_on tree 2 ''p'')\<^sup>*\<^sup>* ''t'' a \<and>
     (case map_of tree a of
        None \<Rightarrow> r = Inl NotFound
      | Some n \<Rightarrow>
          if w_Project n \<noteq> ''p'' then r = Inl (AncestorElsewhere a)
          else if depth n < 2 then r = Inr a
          else w_Parent n = None \<and> r = Inl (NoAncestor 2))"
  by (rule ancestor_walk_returns [OF ranked_acyclic [OF tree_ranked]])

text \<open>C29. In a table with distinct ids in which no item is its own ancestor, the walk over a sequence's subtree ends, with four levels
  enough where every parent is shallower than its children, and its two reports list, leaf by leaf and each leaf
  below the parent once, the titles of the leaves that have no workflow and of those whose workflow cannot run. On a
  table with a cycle it need not end.\<close>

lemma subtree_validation_exact:
  assumes "acyclic (parents db)" "distinct (map fst db)"
  shows "\<exists>fuel no bad leaves. (\<forall>f \<ge> fuel. subtree_walk f workflows db i = Some (no, bad)) \<and> (ranked db \<longrightarrow> fuel = 4) \<and>
     distinct (map fst leaves) \<and> List.set leaves = {(c, n). below db i c n \<and> ListDirectChildren db c = []} \<and>
     no = concat (map (\<lambda>x. fst (leaf_offence workflows (snd x))) leaves) \<and>
     bad = concat (map (\<lambda>x. snd (leaf_offence workflows (snd x))) leaves)"
proof -
  obtain fuel no bad where walk: "subtree_walk fuel workflows db i = Some (no, bad)" "ranked db \<longrightarrow> fuel = 4"
  proof (cases "ranked db")
    case True
    then have "subtree_walk 4 workflows db i \<noteq> None" by (rule subtree_walk_enough) (auto split: option.splits)
    then show ?thesis using that by auto
  next
    case False
    then show ?thesis using subtree_walk_ends [OF assms] that by (metis surj_pair)
  qed
  show ?thesis
    using subtree_walk_more [OF _ walk(1)] walk(2) leaf_list_distinct [OF assms] subtree_walk_leaves [OF walk(1)] by blast
qed

lemma subtree_validation_exact_witness:
  "\<exists>fuel no bad leaves. (\<forall>f \<ge> fuel. subtree_walk f (\<lambda>_. None) tree ''e'' = Some (no, bad)) \<and> (ranked tree \<longrightarrow> fuel = 4) \<and>
     distinct (map fst leaves) \<and> List.set leaves = {(c, n). below tree ''e'' c n \<and> ListDirectChildren tree c = []} \<and>
     no = concat (map (\<lambda>x. fst (leaf_offence (\<lambda>_. None) (snd x))) leaves) \<and>
     bad = concat (map (\<lambda>x. snd (leaf_offence (\<lambda>_. None) (snd x))) leaves)"
  by (rule subtree_validation_exact [OF ranked_acyclic [OF tree_ranked] ranked_distinct [OF tree_ranked]])

lemma tangled_diverges: "cur \<in> {''t'', ''f''} \<Longrightarrow> nearestShallowerAncestor tangled cur 2 ''p'' = None"
proof (rule ccontr)
  assume cur: "cur \<in> {''t'', ''f''}" and "nearestShallowerAncestor tangled cur 2 ''p'' \<noteq> None"
  then obtain r where "nearestShallowerAncestor tangled cur 2 ''p'' = Some r" by auto
  then have "tangled = tangled \<longrightarrow> cur \<in> {''t'', ''f''} \<longrightarrow> (2 :: nat) = 2 \<longrightarrow> ''p'' = ''p'' \<longrightarrow> False"
  proof (rule nearestShallowerAncestor.raw_induct [where P = "\<lambda>db cur d pr r.
      db = tangled \<longrightarrow> cur \<in> {''t'', ''f''} \<longrightarrow> d = 2 \<longrightarrow> pr = ''p'' \<longrightarrow> False", rotated])
    fix walk db cur d pr r
    assume IH: "\<And>cur d pr b y. walk cur d pr b = Some y \<Longrightarrow>
        cur = tangled \<longrightarrow> d \<in> {''t'', ''f''} \<longrightarrow> pr = 2 \<longrightarrow> b = ''p'' \<longrightarrow> False"
      and body: "(case GetWorkItem_tree db cur of None \<Rightarrow> Some (Inl NotFound)
      | Some parent \<Rightarrow>
          if w_Project parent \<noteq> pr then Some (Inl (AncestorElsewhere cur))
          else if kindOrder (w_Kind parent) < d then Some (Inr cur)
               else (case w_Parent parent of None \<Rightarrow> Some (Inl (NoAncestor d))
                    | Some up \<Rightarrow> walk db up d pr)) = Some r"
    show "db = tangled \<longrightarrow> cur \<in> {''t'', ''f''} \<longrightarrow> d = 2 \<longrightarrow> pr = ''p'' \<longrightarrow> False"
      using IH [of tangled "''t''" 2 "''p''" r] IH [of tangled "''f''" 2 "''p''" r] body
      by (auto simp: GetWorkItem_tree_def tangled_def item_of_def kindOrder_def)
  qed
  then show False using cur by simp
qed

text \<open>A kind switch with an explicit parent can break the hierarchy: switching an epic to a subtask of its own
  grandchild is accepted, ties the feature and the task into a cycle, and the next kind switch that walks up
  from there never returns.\<close>

lemma explicit_switch_makes_cycle:
  "ranked tree \<and> switch_kind no_runs tree ''e'' ''subtask'' (Some ''t'') None = Some (Inr tangled) \<and>
   \<not> acyclic (parents tangled) \<and> switch_kind no_runs tangled ''e'' ''feature'' None None = None"
proof (intro conjI)
  show "ranked tree" by (rule tree_ranked)
  show "switch_kind no_runs tree ''e'' ''subtask'' (Some ''t'') None = Some (Inr tangled)" by code_simp
  have "(''f'', ''t'') \<in> parents tangled" "(''t'', ''f'') \<in> parents tangled"
    by (simp_all add: parents_def tangled_def item_of_def)
  then show "\<not> acyclic (parents tangled)" by (meson acyclic_def trancl.intros)
  have "nearestShallowerAncestor tangled ''t'' 2 ''p'' = None"
    by (rule tangled_diverges) simp
  then show "switch_kind no_runs tangled ''e'' ''feature'' None None = None"
    by (simp add: switch_kind_def GetWorkItem_tree_def ResolveKindSwitch_def resolve_parent_def tangled_def
        item_of_def NormalizeWorkItemKind_def TrimSpace_def is_space_def ToLower_def lower_char_def kindOrder_def)
qed

lemma check_secrets_None:
  "check_secrets seen ids = None \<longleftrightarrow> [] \<notin> List.set ids \<and> distinct ids \<and> List.set seen \<inter> List.set ids = {}"
  by (induction seen ids rule: check_secrets.induct) auto

text \<open>The secret selection is accepted exactly when it has at most ten entries, none empty, none twice.\<close>

lemma secret_selection_exact:
  "ValidateSecretIDs ids = None \<longleftrightarrow> length ids \<le> 10 \<and> [] \<notin> List.set ids \<and> distinct ids"
  by (auto simp: ValidateSecretIDs_def check_secrets_None)

end
