(* ===== verification/Sequence.thy ===== *)
theory Sequence
  imports Recurring_Fire "HOL-Library.AList"
begin

text \<open>
  The sequence engine (\<open>scheduler/sequence_reconciler.go\<close>): a parent with children and no run of its own is a
  sequence, and where it stands is derived from the statuses of its children on every pass. The state is the
  list of work items in sibling order, with the columns the engine reads and writes, and the dependency
  edges. A pass is one transaction; a stale version rolls it back and is a pass that did not happen. Walks
  up the parents and down the children take fuel. The start of a child's workflow
  is an argument; the environment of \<open>Recurring_Fire\<close> carries the clock and the zone database.
\<close>

section \<open>State\<close>

record seq_item =
  s_Parent :: "string option"
  s_Archived :: bool
  s_Status :: string
  s_RunID :: string
  s_Workflow :: "string option"
  s_Schedule :: stored
  s_NextRunAt :: "int option"
  s_Start :: "int option"
  s_Attempts :: int
  s_LastAttempt :: "int option"
  s_ScanErrors :: int
  s_LastProgress :: "int option"
  s_Updated :: int
  s_Reason :: "string option"

type_synonym rows = "(string \<times> seq_item) list"

record seq_state =
  table :: rows
  edges :: "(string \<times> string \<times> string) list"

definition sequenceMaxAttempts :: int where "sequenceMaxAttempts = 5"
definition sequenceMaxConsecutiveErrors :: int where "sequenceMaxConsecutiveErrors = 5"
definition sequenceStallThreshold :: int where "sequenceStallThreshold = 5 * Minute"

definition sequenceBackoff :: "int \<Rightarrow> int" where
  "sequenceBackoff attempts =
     (if attempts \<le> 0 then 0
      else let d = i64 (i64 (5 * i64 (2 ^ nat (attempts - 1))) * Second)
           in if d > 5 * Minute then 5 * Minute else d)"

definition get :: "rows \<Rightarrow> string \<Rightarrow> seq_item option" where
  "get db i = map_of db i"

definition kids :: "rows \<Rightarrow> string \<Rightarrow> (string \<times> seq_item) list" where
  "kids db p = filter (\<lambda>(c, n). s_Parent n = Some p \<and> \<not> s_Archived n) db"

definition put :: "rows \<Rightarrow> string \<Rightarrow> (seq_item \<Rightarrow> seq_item) \<Rightarrow> rows" where
  "put db i f = map (\<lambda>(j, n). (j, if j = i then f n else n)) db"

definition set_status :: "fire_env \<Rightarrow> string \<Rightarrow> seq_item \<Rightarrow> seq_item" where
  "set_status E st n = n\<lparr>s_Status := st, s_Updated := go_now E\<rparr>"

text \<open>The status of a recurring item goes back to recurring instead, with its cursor recomputed when it is gone.\<close>

definition end_cycle :: "fire_env \<Rightarrow> string \<Rightarrow> seq_item \<Rightarrow> seq_item" where
  "end_cycle E st n =
     (if s_Schedule n \<noteq> NoSchedule
      then (set_status E WorkItemRecurring n)\<lparr>s_NextRunAt :=
        (case ensureRecurringNextRun E (s_Schedule n) (s_NextRunAt n) of Some t \<Rightarrow> Some t | None \<Rightarrow> s_NextRunAt n)\<rparr>
      else set_status E st n)"

abbreviation WorkItemBlocked :: string where "WorkItemBlocked \<equiv> ''blocked''"

definition halted :: "string \<Rightarrow> bool" where
  "halted st \<longleftrightarrow> st = WorkItemFailed \<or> st = WorkItemCancelled"

definition in_flight_status :: "string \<Rightarrow> bool" where
  "in_flight_status st \<longleftrightarrow> st \<in> List.set [WorkItemRunning, ''assigned'', WorkItemReady, ''checkpointing'', WorkItemRecovering,
     WorkItemScheduled, WorkItemRecurring]"

fun deriveNextChild :: "(string \<times> seq_item) list \<Rightarrow> nat option" where
  "deriveNextChild [] = None"
| "deriveNextChild ((c, n) # cs) =
     (if \<not> WorkItemIsTerminalSuccess (s_Status n) then Some 0 else map_option Suc (deriveNextChild cs))"

definition blocking :: "(string \<times> string \<times> string) list \<Rightarrow> string \<Rightarrow> string list" where
  "blocking es c = map fst (filter (\<lambda>(f, t, ty). t = c \<and> (ty = ''blocks'' \<or> ty = ''depends_on'')) es)"

definition CheckDependenciesSatisfied :: "seq_state \<Rightarrow> string \<Rightarrow> bool" where
  "CheckDependenciesSatisfied S c =
     list_all (\<lambda>f. case get (table S) f of None \<Rightarrow> True | Some n \<Rightarrow> WorkItemIsTerminalSuccess (s_Status n))
       (blocking (edges S) c)"

fun fold_opt :: "('a \<Rightarrow> 's \<Rightarrow> 's option) \<Rightarrow> 'a list \<Rightarrow> 's \<Rightarrow> 's option" where
  "fold_opt f [] s = Some s"
| "fold_opt f (x # xs) s = (case f x s of None \<Rightarrow> None | Some s' \<Rightarrow> fold_opt f xs s')"

section \<open>Walks\<close>

fun failSequenceChain :: "nat \<Rightarrow> fire_env \<Rightarrow> rows \<Rightarrow> string option \<Rightarrow> rows option" where
  "failSequenceChain n E db None = Some db"
| "failSequenceChain 0 E db (Some p) = None"
| "failSequenceChain (Suc n) E db (Some p) =
     (case get db p of
        None \<Rightarrow> Some db
      | Some parent \<Rightarrow>
          failSequenceChain n E
            (if s_Status parent = WorkItemRunning \<and> s_RunID parent = [] \<and> kids db p \<noteq> []
             then put db p (end_cycle E WorkItemFailed) else db)
            (s_Parent parent))"

fun resetSubtree :: "nat \<Rightarrow> fire_env \<Rightarrow> rows \<Rightarrow> string \<Rightarrow> rows option" where
  "resetSubtree 0 E db p = None"
| "resetSubtree (Suc n) E db p =
     fold_opt (\<lambda>(c, it) db.
       if s_Status it = WorkItemRunning \<or> s_Status it = ''checkpointing'' \<or> s_Status it = WorkItemRecovering then Some db
       else if s_Status it = WorkItemSucceeded \<or> s_Status it = WorkItemSkipped then Some db
       else resetSubtree n E
         (if s_Status it = WorkItemPending then db else put db c (set_status E WorkItemPending)) c)
       (kids db p) db"

section \<open>One pass over a parent\<close>

definition start_failed_reason :: "int \<Rightarrow> string" where
  "start_failed_reason k = ''start failed '' @ fmt_d k @ '' times''"

text \<open>
  The arming loop. \<open>Halt\<close> is the early \<open>return nil, nil\<close>: the writes stay, the starts collected so far are
  dropped.
\<close>

datatype loop_result = Go rows "(string \<times> string) list" | Halt rows

definition backing_off :: "fire_env \<Rightarrow> seq_item \<Rightarrow> bool" where
  "backing_off E n = (0 < s_Attempts n \<and>
     (case s_LastAttempt n of None \<Rightarrow> False | Some t \<Rightarrow> Sub (go_now E) t < sequenceBackoff (s_Attempts n)))"

definition fail_child ::
    "nat \<Rightarrow> fire_env \<Rightarrow> rows \<Rightarrow> string \<Rightarrow> seq_item \<Rightarrow> string option \<Rightarrow> loop_result option" where
  "fail_child fuel E db c n reason =
     map_option Halt (failSequenceChain fuel E
       (put db c (\<lambda>m. (set_status E WorkItemFailed m)\<lparr>s_Reason := (case reason of None \<Rightarrow> s_Reason m | Some r \<Rightarrow> Some r)\<rparr>))
       (s_Parent n))"

definition arm_child ::
    "nat \<Rightarrow> fire_env \<Rightarrow> (string \<times> string \<times> string) list \<Rightarrow> string option \<Rightarrow> string \<Rightarrow> seq_item \<Rightarrow> rows \<Rightarrow>
      (string \<times> string) list \<Rightarrow> loop_result option" where
  "arm_child fuel E es prev c n db starts =
     (if s_Status n = WorkItemPending \<or> s_Status n = WorkItemBlocked
      then
        if sequenceMaxAttempts \<le> s_Attempts n
        then fail_child fuel E db c n (Some (start_failed_reason (s_Attempts n)))
        else if backing_off E n then Some (Go db starts)
        else if blocking es c = [] \<and> (case prev of None \<Rightarrow> False | Some st \<Rightarrow> \<not> WorkItemIsTerminalSuccess st)
        then Some (Go db starts)
        else if \<not> CheckDependenciesSatisfied \<lparr>table = db, edges = es\<rparr> c
        then Some (Go (if s_Status n = WorkItemPending then put db c (set_status E WorkItemBlocked) else db) starts)
        else
          let db = (if s_Status n = WorkItemBlocked then put db c (set_status E WorkItemPending) else db)
          in if kids db c \<noteq> []
             then map_option (\<lambda>db. Go db starts) (resetSubtree fuel E (put db c (set_status E WorkItemRunning)) c)
             else (case s_Workflow n of
                     None \<Rightarrow> fail_child fuel E db c n None
                   | Some w \<Rightarrow>
                       if w = [] then fail_child fuel E db c n None
                       else Some (Go (put db c (set_status E WorkItemRunning)) (starts @ [(c, w)])))
      else Some (Go db starts))"

fun arm_loop ::
    "nat \<Rightarrow> fire_env \<Rightarrow> (string \<times> string \<times> string) list \<Rightarrow> string option \<Rightarrow> (string \<times> seq_item) list \<Rightarrow> rows \<Rightarrow>
      (string \<times> string) list \<Rightarrow> (rows \<times> (string \<times> string) list) option" where
  "arm_loop fuel E es prev [] db starts = Some (db, starts)"
| "arm_loop fuel E es prev ((c, n) # rest) db starts =
     (case arm_child fuel E es prev c n db starts of
        None \<Rightarrow> None
      | Some (Halt db') \<Rightarrow> Some (db', [])
      | Some (Go db' starts') \<Rightarrow> arm_loop fuel E es (Some (s_Status n)) rest db' starts')"

definition is_sequence_parent :: "seq_item \<Rightarrow> bool" where
  "is_sequence_parent n \<longleftrightarrow> s_RunID n = [] \<and> (s_Status n = WorkItemRunning \<or> s_Status n = WorkItemFailed)"

definition reconcileParent ::
    "nat \<Rightarrow> fire_env \<Rightarrow> seq_state \<Rightarrow> string \<Rightarrow> (string + rows \<times> (string \<times> string) list) option" where
  "reconcileParent fuel E S p =
     (let db = table S
      in case get db p of
           None \<Rightarrow> Some (Inl ''not found'')
         | Some parent \<Rightarrow>
             if \<not> is_sequence_parent parent then Some (Inr (db, []))
             else if kids db p = [] then Some (Inr (db, []))
             else if deriveNextChild (kids db p) = None
             then Some (Inr (put db p (end_cycle E WorkItemSucceeded), []))
             else (case List.find (\<lambda>(c, n). halted (s_Status n)) (kids db p) of
                Some (c, n) \<Rightarrow> map_option (\<lambda>db'. Inr (db', [])) (failSequenceChain fuel E db (s_Parent n))
              | None \<Rightarrow>
                  let db' = (if s_Status parent = WorkItemFailed then put db p (set_status E WorkItemRunning) else db)
                  in map_option Inr (arm_loop fuel E (edges S) None (kids db p) db' [])))"

section \<open>Starting, resuming, stopping\<close>

text \<open>The start of a child's workflow: whether it failed, and the table after it.\<close>

type_synonym child_start = "rows \<Rightarrow> string \<Rightarrow> string \<Rightarrow> bool \<times> rows"

definition resetArmedChild :: "fire_env \<Rightarrow> rows \<Rightarrow> string \<Rightarrow> rows" where
  "resetArmedChild E db c =
     (case get db c of
        None \<Rightarrow> db
      | Some n \<Rightarrow>
          if s_Status n \<noteq> WorkItemRunning \<or> s_RunID n \<noteq> [] then db
          else put db c (\<lambda>n. (set_status E WorkItemPending n)\<lparr>s_Attempts := s_Attempts n + 1,
                 s_LastAttempt := Some (go_now E)\<rparr>))"

fun fireLeafStarts :: "fire_env \<Rightarrow> child_start \<Rightarrow> (string \<times> string) list \<Rightarrow> rows \<Rightarrow> rows" where
  "fireLeafStarts E f [] db = db"
| "fireLeafStarts E f ((c, w) # rest) db =
     (case f db c w of
        (False, db') \<Rightarrow> fireLeafStarts E f rest db'
      | (True, db') \<Rightarrow> fireLeafStarts E f rest (resetArmedChild E db' c))"

definition reconcileOne :: "nat \<Rightarrow> fire_env \<Rightarrow> child_start \<Rightarrow> seq_state \<Rightarrow> string \<Rightarrow> (string + seq_state) option" where
  "reconcileOne fuel E f S p =
     map_option (\<lambda>r. case r of
         Inl e \<Rightarrow> Inl e
       | Inr (db, starts) \<Rightarrow> Inr (S\<lparr>table := fireLeafStarts E f starts db\<rparr>))
       (reconcileParent fuel E S p)"

definition take_over :: "fire_env \<Rightarrow> seq_item \<Rightarrow> seq_item" where
  "take_over E n = (set_status E WorkItemRunning n)\<lparr>s_Workflow := None\<rparr>"

definition StartSequence :: "nat \<Rightarrow> fire_env \<Rightarrow> child_start \<Rightarrow> seq_state \<Rightarrow> string \<Rightarrow> (string + seq_state) option" where
  "StartSequence fuel E f S p =
     (case get (table S) p of
        None \<Rightarrow> Some (Inl ''not found'')
      | Some _ \<Rightarrow>
          if kids (table S) p = [] then Some (Inl ''no children'')
          else (case resetSubtree fuel E (put (table S) p (take_over E)) p of
                  None \<Rightarrow> None
                | Some db \<Rightarrow> reconcileOne fuel E f (S\<lparr>table := db\<rparr>) p))"

definition rearm_halted :: "fire_env \<Rightarrow> rows \<Rightarrow> string \<Rightarrow> rows" where
  "rearm_halted E db p =
     (case deriveNextChild (kids db p) of
        None \<Rightarrow> db
      | Some idx \<Rightarrow>
          (case kids db p ! idx of
             (c, n) \<Rightarrow> if halted (s_Status n) then put db c (set_status E WorkItemPending) else db))"

definition ResumeSequence :: "nat \<Rightarrow> fire_env \<Rightarrow> child_start \<Rightarrow> seq_state \<Rightarrow> string \<Rightarrow> (string + seq_state) option" where
  "ResumeSequence fuel E f S p =
     (case get (table S) p of
        None \<Rightarrow> Some (Inl ''not found'')
      | Some _ \<Rightarrow>
          if kids (table S) p = [] then Some (Inl ''no children'')
          else reconcileOne fuel E f (S\<lparr>table := put (rearm_halted E (table S) p) p (take_over E)\<rparr>) p)"

definition park :: "fire_env \<Rightarrow> seq_item \<Rightarrow> seq_item" where
  "park E n = (set_status E (if s_Schedule n \<noteq> NoSchedule then WorkItemRecurring else WorkItemPending) n)
     \<lparr>s_Start := None, s_RunID := []\<rparr>"

definition parkWorkItemResilient :: "fire_env \<Rightarrow> rows \<Rightarrow> string \<Rightarrow> rows" where
  "parkWorkItemResilient E db i =
     (case get db i of
        None \<Rightarrow> db
      | Some n \<Rightarrow> if WorkItemIsTerminalSuccess (s_Status n) then db else put db i (park E))"

text \<open>
  A stop ends the runs of the subtree as well: the state of a stop is the work items with the workflow runs, each
  with its linked item and its steps (status and execution), the worker executions, and the executions and
  runs collected for the kill after the commit. A write that fails rolls the stop back and is a stop that did
  not happen.
\<close>

record wf_run =
  r_Status :: string
  r_Item :: string
  r_Steps :: "(string \<times> string) list"

record stop_state =
  st_rows :: rows
  st_runs :: "(string \<times> wf_run) list"
  st_execs :: "(string \<times> string) list"
  st_killed :: "string list"
  st_reaped :: "string list"

definition run_terminal :: "string \<Rightarrow> bool" where
  "run_terminal st \<longleftrightarrow> st = ''completed'' \<or> st = ''failed'' \<or> st = ''aborted''"

definition abort_step :: "string \<times> string \<Rightarrow> string \<times> string" where
  "abort_step s = (if fst s \<in> List.set [''pending'', ''ready'', ''running'', ''approval_pending''] then (''failed'', snd s) else s)"

fun terminate_execs :: "(string \<times> string) list \<Rightarrow> (string \<times> string) list \<Rightarrow> (string \<times> string) list \<times> string list" where
  "terminate_execs [] xs = (xs, [])"
| "terminate_execs ((st, e) # steps) xs =
     (if e \<noteq> [] \<and> (map_of xs e = Some ''running'' \<or> map_of xs e = Some ''dispatching'')
      then (case terminate_execs steps (AList.update e ''terminated'' xs) of (xs', ids) \<Rightarrow> (xs', e # ids))
      else terminate_execs steps xs)"

definition AbortRunInTx :: "fire_env \<Rightarrow> string \<Rightarrow> string \<Rightarrow> stop_state \<Rightarrow> (string list option) \<times> stop_state" where
  "AbortRunInTx E r status X =
     (case map_of (st_runs X) r of
        None \<Rightarrow> (None, X)
      | Some w \<Rightarrow>
          if run_terminal (r_Status w) then (Some [], X)
          else (case terminate_execs (r_Steps w) (st_execs X) of
            (xs, ids) \<Rightarrow> (Some ids, X\<lparr>st_execs := xs,
              st_runs := AList.update r (w\<lparr>r_Status := ''aborted'', r_Steps := map abort_step (r_Steps w)\<rparr>) (st_runs X),
              st_rows := (if r_Item w \<noteq> [] then put (st_rows X) (r_Item w) (set_status E status) else st_rows X)\<rparr>)))"

definition abort_bound :: "fire_env \<Rightarrow> string \<Rightarrow> stop_state \<Rightarrow> stop_state" where
  "abort_bound E r X =
     (if r = [] then X
      else (case AbortRunInTx E r WorkItemPending X of
              (None, X') \<Rightarrow> X'
            | (Some ids, X') \<Rightarrow> X'\<lparr>st_killed := st_killed X' @ ids, st_reaped := st_reaped X' @ [r]\<rparr>))"

text \<open>No result stands for a missing row as well as for spent fuel; the stop looks its root up first.\<close>

fun haltWorkItemCollect :: "nat \<Rightarrow> fire_env \<Rightarrow> string \<Rightarrow> stop_state \<Rightarrow> stop_state option" where
  "haltWorkItemCollect 0 E i X = None"
| "haltWorkItemCollect (Suc n) E i X =
     (case get (st_rows X) i of
        None \<Rightarrow> None
      | Some it \<Rightarrow>
          if WorkItemIsTerminalSuccess (s_Status it) then Some X
          else map_option (\<lambda>X. X\<lparr>st_rows := parkWorkItemResilient E (st_rows X) i\<rparr>)
                 (fold_opt (\<lambda>(c, _). haltWorkItemCollect n E c) (kids (st_rows (abort_bound E (s_RunID it) X)) i)
                   (abort_bound E (s_RunID it) X)))"

definition StopSequence :: "nat \<Rightarrow> fire_env \<Rightarrow> stop_state \<Rightarrow> string \<Rightarrow> (string + stop_state) option" where
  "StopSequence fuel E X p =
     (case get (st_rows X) p of
        None \<Rightarrow> Some (Inl ''not found'')
      | Some _ \<Rightarrow> map_option Inr (haltWorkItemCollect fuel E p (X\<lparr>st_killed := [], st_reaped := []\<rparr>)))"

section \<open>The scan\<close>

text \<open>Oldest change first, at most a hundred; rows changed at the same time come in table order.\<close>

definition ListSequenceActiveParents :: "rows \<Rightarrow> string list" where
  "ListSequenceActiveParents db =
     take 100 (map fst (sort_key (\<lambda>(i, n). s_Updated n)
       (filter (\<lambda>(i, n). is_sequence_parent n \<and> list_ex (\<lambda>(c, m). s_Parent m = Some i) db) db)))"

definition recordScanError :: "fire_env \<Rightarrow> string \<Rightarrow> rows \<Rightarrow> string \<Rightarrow> rows" where
  "recordScanError E err db p =
     (case get db p of
        None \<Rightarrow> db
      | Some n \<Rightarrow>
          let newCount = s_ScanErrors n + 1
          in if sequenceMaxConsecutiveErrors \<le> newCount
             then put db p (\<lambda>n. (set_status E (if s_Schedule n \<noteq> NoSchedule then WorkItemRecurring else WorkItemFailed) n)
                    \<lparr>s_Reason := Some (''reconcile wedged: '' @ err)\<rparr>)
             else put db p (\<lambda>n. n\<lparr>s_ScanErrors := newCount, s_Updated := go_now E\<rparr>))"

definition clearScanError :: "fire_env \<Rightarrow> rows \<Rightarrow> string \<Rightarrow> rows" where
  "clearScanError E db p =
     (case get db p of
        None \<Rightarrow> db
      | Some n \<Rightarrow>
          if s_ScanErrors n = 0 \<and> s_LastProgress n \<noteq> None then db
          else put db p (\<lambda>n. n\<lparr>s_ScanErrors := 0, s_LastProgress := Some (go_now E), s_Updated := go_now E\<rparr>))"

definition check_stalled :: "fire_env \<Rightarrow> string \<Rightarrow> rows \<Rightarrow> rows" where
  "check_stalled E p db =
     (case get db p of
        None \<Rightarrow> db
      | Some n \<Rightarrow>
          let ref = (case s_LastProgress n of Some t \<Rightarrow> t | None \<Rightarrow> s_Updated n)
          in if Sub (go_now E) ref < sequenceStallThreshold then db
             else if s_Status n \<noteq> WorkItemRunning then db
             else if list_ex (\<lambda>(c, m). in_flight_status (s_Status m) \<or> s_Status m = WorkItemBlocked) (kids db p) then db
             else put db p (\<lambda>n. (set_status E (if s_Schedule n \<noteq> NoSchedule then WorkItemRecurring else WorkItemFailed) n)
                    \<lparr>s_Reason := Some ''stalled: no progress for 5m''\<rparr>))"

definition checkStalledParents :: "fire_env \<Rightarrow> string list \<Rightarrow> rows \<Rightarrow> rows" where
  "checkStalledParents E ps db = fold (check_stalled E) ps db"

text \<open>An error of a pass is a conflict or a missing row, which the scan does not count.\<close>

definition scan_one :: "nat \<Rightarrow> fire_env \<Rightarrow> child_start \<Rightarrow> string \<Rightarrow> seq_state \<Rightarrow> seq_state option" where
  "scan_one fuel E f p S =
     map_option (\<lambda>r. case r of Inl _ \<Rightarrow> S | Inr S' \<Rightarrow> S'\<lparr>table := clearScanError E (table S') p\<rparr>)
       (reconcileOne fuel E f S p)"

definition seq_scan :: "nat \<Rightarrow> fire_env \<Rightarrow> child_start \<Rightarrow> seq_state \<Rightarrow> seq_state option" where
  "seq_scan fuel E f S =
     (let parents = ListSequenceActiveParents (table S)
      in map_option (\<lambda>S'. S'\<lparr>table := checkStalledParents E parents (table S')\<rparr>)
           (fold_opt (scan_one fuel E f) (take 16 parents) S))"

end
