(* ===== verification/Sequence_Laws.thy ===== *)
theory Sequence_Laws
  imports Sequence
begin

text \<open>
  What the sequence engine keeps and what it promises: the shape of the table and the set of finished items
  are the same after a pass, every start a pass asks for was due, a strict chain starts its cursor only, the
  walks end on a table whose parents rank above their children, and the ways in which a chain gets stuck.
\<close>

named_theorems pass_laws

section \<open>The table under writes\<close>

lemma get_put [simp]: "get (put db i f) j = (if j = i then map_option f (get db i) else get db j)"
  unfolding get_def put_def by (induction db) auto

lemma keys_put [simp]: "map fst (put db i f) = map fst db"
  unfolding put_def by (induction db) auto

lemma get_row: "distinct (map fst db) \<Longrightarrow> (i, n) \<in> set db \<Longrightarrow> get db i = Some n"
  unfolding get_def by simp

lemma kids_row: "(c, n) \<in> set (kids db p) \<Longrightarrow> (c, n) \<in> set db \<and> s_Parent n = Some p \<and> \<not> s_Archived n"
  unfolding kids_def by auto

lemma kids_get: "distinct (map fst db) \<Longrightarrow> (c, n) \<in> set (kids db p) \<Longrightarrow> get db c = Some n"
  using get_row kids_row by blast

lemma kids_put:
  assumes "\<And>n. s_Parent (f n) = s_Parent n" "\<And>n. s_Archived (f n) = s_Archived n"
  shows "kids (put db i f) p = map (\<lambda>(c, n). (c, if c = i then f n else n)) (kids db p)"
  unfolding kids_def put_def by (induction db) (simp_all add: split_beta assms)

lemma set_status_simps [simp]:
  "s_Status (set_status E st n) = st" "s_Parent (set_status E st n) = s_Parent n" "s_Archived (set_status E st n) = s_Archived n"
  "s_Workflow (set_status E st n) = s_Workflow n" "s_RunID (set_status E st n) = s_RunID n"
  "s_Schedule (set_status E st n) = s_Schedule n" "s_Attempts (set_status E st n) = s_Attempts n"
  by (simp_all add: set_status_def)

lemma end_cycle_simps [simp]:
  "s_Parent (end_cycle E st n) = s_Parent n" "s_Archived (end_cycle E st n) = s_Archived n"
  "s_Workflow (end_cycle E st n) = s_Workflow n" "s_RunID (end_cycle E st n) = s_RunID n"
  "s_Schedule (end_cycle E st n) = s_Schedule n" "s_Attempts (end_cycle E st n) = s_Attempts n"
  "s_Status (end_cycle E st n) = (if s_Schedule n \<noteq> NoSchedule then WorkItemRecurring else st)"
  by (simp_all add: end_cycle_def)

lemma success_words [simp]:
  "\<not> WorkItemIsTerminalSuccess WorkItemRunning" "\<not> WorkItemIsTerminalSuccess WorkItemPending"
  "\<not> WorkItemIsTerminalSuccess WorkItemFailed" "\<not> WorkItemIsTerminalSuccess WorkItemBlocked"
  "\<not> WorkItemIsTerminalSuccess WorkItemRecurring" "\<not> WorkItemIsTerminalSuccess WorkItemCancelled"
  "WorkItemIsTerminalSuccess WorkItemSucceeded" "WorkItemIsTerminalSuccess WorkItemSkipped"
  by (simp_all add: WorkItemIsTerminalSuccess_def)

section \<open>What a pass keeps\<close>

definition same_item :: "seq_item \<Rightarrow> seq_item \<Rightarrow> bool" where
  "same_item n m \<longleftrightarrow> s_Parent m = s_Parent n \<and> s_Archived m = s_Archived n \<and> s_Workflow m = s_Workflow n \<and>
     s_RunID m = s_RunID n \<and> s_Schedule m = s_Schedule n \<and> s_Attempts m = s_Attempts n \<and>
     WorkItemIsTerminalSuccess (s_Status m) = WorkItemIsTerminalSuccess (s_Status n)"

definition passed :: "rows \<Rightarrow> rows \<Rightarrow> bool" where
  "passed = list_all2 (\<lambda>(i, n) (j, m). i = j \<and> same_item n m)"

lemma same_item_refl [simp]: "same_item n n"
  by (simp add: same_item_def)

lemma passed_refl [simp, pass_laws]: "passed db db"
  unfolding passed_def by (simp add: list_all2_same split_beta)

lemma same_item_trans: "same_item n m \<Longrightarrow> same_item m k \<Longrightarrow> same_item n k"
  by (simp add: same_item_def)

lemma passed_trans: "passed a b \<Longrightarrow> passed b c \<Longrightarrow> passed a c"
  unfolding passed_def
  by (rule list_all2_trans [where ?P1.0 = "\<lambda>(i, n) (j, m). i = j \<and> same_item n m"
        and ?P2.0 = "\<lambda>(i, n) (j, m). i = j \<and> same_item n m"]) (auto intro: same_item_trans)

lemma passed_keys: "passed a b \<Longrightarrow> map fst b = map fst a"
  unfolding passed_def by (induction rule: list_all2_induct) auto

lemma passed_get: "passed a b \<Longrightarrow> rel_option same_item (get a i) (get b i)"
  unfolding passed_def get_def by (induction rule: list_all2_induct) auto

lemma passed_kids: "passed a b \<Longrightarrow> passed (kids a p) (kids b p)"
  unfolding passed_def kids_def by (induction rule: list_all2_induct) (auto simp: same_item_def)

lemma passed_kids_empty: "passed a b \<Longrightarrow> (kids b p = []) = (kids a p = [])"
  using passed_kids [of a b p] unfolding passed_def by (auto dest: list_all2_lengthD)

lemma passed_put: "(\<And>n. (i, n) \<in> set db \<Longrightarrow> same_item n (f n)) \<Longrightarrow> passed db (put db i f)"
  unfolding passed_def put_def by (induction db) auto

lemma passed_set_status:
  assumes "distinct (map fst db)" "get db i = Some n" "\<not> WorkItemIsTerminalSuccess (s_Status n)"
    and "\<not> WorkItemIsTerminalSuccess st"
  shows "passed db (put db i (set_status E st))"
  using assms get_row by (intro passed_put) (fastforce simp: same_item_def)

lemma passed_row: "passed a b \<Longrightarrow> distinct (map fst a) \<Longrightarrow> (c, n) \<in> set (kids a p) \<Longrightarrow> \<exists>m. get b c = Some m \<and> same_item n m"
  using passed_get [of a b c] kids_get [of a c n p] by (cases "get b c") auto

lemma passed_deps: "passed a b \<Longrightarrow> CheckDependenciesSatisfied \<lparr>table = b, edges = es\<rparr> c = CheckDependenciesSatisfied \<lparr>table = a, edges = es\<rparr> c"
proof -
  assume p: "passed a b"
  have "(case get b i of None \<Rightarrow> True | Some n \<Rightarrow> WorkItemIsTerminalSuccess (s_Status n)) =
      (case get a i of None \<Rightarrow> True | Some n \<Rightarrow> WorkItemIsTerminalSuccess (s_Status n))" for i
    using passed_get [OF p, of i] by (cases "get a i"; cases "get b i") (auto simp: same_item_def)
  then show ?thesis unfolding CheckDependenciesSatisfied_def by simp
qed

lemma fold_opt_inv:
  assumes "fold_opt f xs s = Some s'" "P s" "\<And>x a b. x \<in> set xs \<Longrightarrow> P a \<Longrightarrow> f x a = Some b \<Longrightarrow> P b"
  shows "P s'"
  using assms
proof (induction xs arbitrary: s)
  case (Cons x xs)
  then obtain s1 where "f x s = Some s1" "fold_opt f xs s1 = Some s'" by (auto split: option.splits)
  then show ?case using Cons(1) [of s1] Cons(3,4) by (meson list.set_intros)
qed simp

lemma failSequenceChain_passed:
  "failSequenceChain n E db q = Some db' \<Longrightarrow> distinct (map fst db) \<Longrightarrow> passed db db'"
proof (induction n E db q arbitrary: db' rule: failSequenceChain.induct)
  case (3 n E db p)
  show ?case
  proof (cases "get db p")
    case (Some parent)
    define db1 where "db1 = (if s_Status parent = WorkItemRunning \<and> s_RunID parent = [] \<and> kids db p \<noteq> []
      then put db p (end_cycle E WorkItemFailed) else db)"
    have one: "passed db db1"
      using get_row 3(3) Some unfolding db1_def by (auto intro!: passed_put) (fastforce simp: same_item_def)
    have "passed db1 db'"
      using 3(2,3) Some passed_keys [OF one] by (intro 3(1) [OF Some, folded db1_def]) (auto simp: db1_def)
    then show ?thesis by (rule passed_trans [OF one])
  qed (use 3(2) in simp)
qed auto

lemma resetSubtree_passed:
  "resetSubtree n E db p = Some db' \<Longrightarrow> distinct (map fst db) \<Longrightarrow> passed db db'"
proof (induction n E db p arbitrary: db' rule: resetSubtree.induct)
  case (2 n E db p)
  show ?case
  proof (rule fold_opt_inv [where P = "passed db", OF 2(2)[simplified]])
    fix x a b
    assume x: "x \<in> set (kids db p)" and pa: "passed db a"
      and st: "(case x of (c, it) \<Rightarrow> \<lambda>db. if s_Status it = WorkItemRunning \<or> s_Status it = ''checkpointing'' \<or> s_Status it = WorkItemRecovering then Some db
       else if s_Status it = WorkItemSucceeded \<or> s_Status it = WorkItemSkipped then Some db
       else resetSubtree n E
         (if s_Status it = WorkItemPending then db else put db c (set_status E WorkItemPending)) c) a = Some b"
    obtain c it where xc: "x = (c, it)" by (cases x)
    obtain m where m: "get a c = Some m" "same_item it m" using passed_row [OF pa 2(3)] x xc by blast
    have d: "distinct (map fst a)" using passed_keys [OF pa] 2(3) by simp
    show "passed db b"
    proof (cases "WorkItemIsTerminalSuccess (s_Status it) \<or> s_Status it = WorkItemRunning \<or> s_Status it = ''checkpointing'' \<or> s_Status it = WorkItemRecovering")
      case True
      then show ?thesis using st pa xc by (auto simp: WorkItemIsTerminalSuccess_def)
    next
      case False
      define a1 where "a1 = (if s_Status it = WorkItemPending then a else put a c (set_status E WorkItemPending))"
      have one: "passed a a1"
        using passed_set_status [OF d m(1)] m(2) False unfolding a1_def by (auto simp: same_item_def)
      have run: "resetSubtree n E a1 c = Some b"
        using st False xc unfolding a1_def by (auto simp: WorkItemIsTerminalSuccess_def split: if_splits)
      have "passed a1 b"
        by (rule 2(1) [OF _ _ run [unfolded a1_def], folded a1_def])
          (use False passed_keys [OF one] d in \<open>auto simp: WorkItemIsTerminalSuccess_def\<close>)
      then show ?thesis using pa one passed_trans by blast
    qed
  qed simp
qed simp

section \<open>Small tables\<close>

definition quiet_env :: fire_env where
  "quiet_env = \<lparr>zones = (\<lambda>_. None), db_now = 0, go_now = 10 * Minute, row_order = [], tx_opens = (\<lambda>_. True),
     start = (\<lambda>b _. (None, b)), start_with = None, sequence = None\<rparr>"

definition leaf_of :: "string option \<Rightarrow> string \<Rightarrow> seq_item" where
  "leaf_of parent st = \<lparr>s_Parent = parent, s_Archived = False, s_Status = st, s_RunID = [], s_Workflow = Some ''w'',
     s_Schedule = NoSchedule, s_NextRunAt = None, s_Start = None, s_Attempts = 0, s_LastAttempt = None, s_ScanErrors = 0,
     s_LastProgress = Some 0, s_Updated = 0, s_Reason = None\<rparr>"

definition parent_of :: "string \<Rightarrow> seq_item" where
  "parent_of st = (leaf_of None st)\<lparr>s_Workflow := None\<rparr>"

lemmas small_tables = quiet_env_def leaf_of_def parent_of_def get_def kids_def put_def set_status_def end_cycle_def
  is_sequence_parent_def halted_def WorkItemIsTerminalSuccess_def blocking_def CheckDependenciesSatisfied_def
  arm_child_def backing_off_def fail_child_def sequenceMaxAttempts_def

end
