(* ===== verification/Sequence_Arming.thy ===== *)
theory Sequence_Arming
  imports Sequence_Laws
begin

text \<open>
  The arming loop: \<open>may_start\<close> says when a leaf is due, and every start a pass asks for was due in the table the
  pass began with.
\<close>

section \<open>One child\<close>

definition may_start :: "fire_env \<Rightarrow> seq_state \<Rightarrow> string option \<Rightarrow> string \<Rightarrow> seq_item \<Rightarrow> string \<Rightarrow> bool" where
  "may_start E S prev c n w \<longleftrightarrow>
     (s_Status n = WorkItemPending \<or> s_Status n = WorkItemBlocked) \<and>
     s_Attempts n < sequenceMaxAttempts \<and> \<not> backing_off E n \<and>
     (blocking (edges S) c = [] \<longrightarrow> (case prev of None \<Rightarrow> True | Some st \<Rightarrow> WorkItemIsTerminalSuccess st)) \<and>
     CheckDependenciesSatisfied S c \<and> kids (table S) c = [] \<and> s_Workflow n = Some w \<and> w \<noteq> []"

definition loop_rows :: "loop_result \<Rightarrow> rows" where
  "loop_rows r = (case r of Go db _ \<Rightarrow> db | Halt db \<Rightarrow> db)"

definition loop_starts :: "loop_result \<Rightarrow> (string \<times> string) list" where
  "loop_starts r = (case r of Go _ starts \<Rightarrow> starts | Halt _ \<Rightarrow> [])"

lemma loop_simps [simp]:
  "loop_rows (Go db s) = db" "loop_rows (Halt db) = db" "loop_starts (Go db s) = s" "loop_starts (Halt db) = []"
  by (simp_all add: loop_rows_def loop_starts_def)

lemma fail_child_passed:
  assumes "fail_child fuel E db c n r = Some res" "distinct (map fst db)" "get db c = Some m"
    and "\<not> WorkItemIsTerminalSuccess (s_Status m)"
  shows "passed db (loop_rows res) \<and> loop_starts res = []"
proof -
  define db1 where "db1 = put db c (\<lambda>m. (set_status E WorkItemFailed m)\<lparr>s_Reason := (case r of None \<Rightarrow> s_Reason m | Some r \<Rightarrow> Some r)\<rparr>)"
  have one: "passed db db1"
    using assms(2-4) get_row unfolding db1_def by (intro passed_put) (fastforce simp: same_item_def)
  obtain db2 where "failSequenceChain fuel E db1 (s_Parent n) = Some db2" "res = Halt db2"
    using assms(1) unfolding fail_child_def db1_def by auto
  then show ?thesis
    using failSequenceChain_passed [of fuel E db1 "s_Parent n" db2] passed_keys [OF one] assms(2) passed_trans [OF one] by simp
qed

lemma arm_child_step:
  assumes run: "arm_child fuel E (edges S) prev c n db starts = Some res"
    and base: "passed (table S) db" "distinct (map fst (table S))" "(c, n) \<in> set (kids (table S) p)"
  shows "passed (table S) (loop_rows res) \<and>
    (loop_starts res = [] \<or> loop_starts res = starts \<or>
      (\<exists>w. loop_starts res = starts @ [(c, w)] \<and> may_start E S prev c n w))"
proof (cases "s_Status n = WorkItemPending \<or> s_Status n = WorkItemBlocked")
  case False
  then show ?thesis using run base by (auto simp: arm_child_def)
next
  case status: True
  obtain m where m: "get db c = Some m" "same_item n m" using passed_row [OF base] by blast
  have d: "distinct (map fst db)" using passed_keys [OF base(1)] base(2) by simp
  have low: "\<not> WorkItemIsTerminalSuccess (s_Status m)" using status m(2) by (auto simp: same_item_def)
  define db1 where "db1 = (if s_Status n = WorkItemBlocked then put db c (set_status E WorkItemPending) else db)"
  have one: "passed db db1" using passed_set_status [OF d m(1) low] unfolding db1_def by simp
  have d1: "distinct (map fst db1)" using passed_keys [OF one] d by simp
  obtain m1 where m1: "get db1 c = Some m1" "\<not> WorkItemIsTerminalSuccess (s_Status m1)"
    using m(1) low unfolding db1_def by (cases "s_Status n = WorkItemBlocked") auto
  have armed: "passed db1 (put db1 c (set_status E WorkItemRunning))"
    using passed_set_status [OF d1 m1] by simp
  have to1: "passed (table S) db1" using passed_trans base(1) one by blast
  show ?thesis
  proof (cases "sequenceMaxAttempts \<le> s_Attempts n \<or> backing_off E n \<or>
      blocking (edges S) c = [] \<and> (case prev of None \<Rightarrow> False | Some st \<Rightarrow> \<not> WorkItemIsTerminalSuccess st) \<or>
      \<not> CheckDependenciesSatisfied \<lparr>table = db, edges = edges S\<rparr> c")
    case True
    then show ?thesis
      using run status base(1) fail_child_passed [OF _ d m(1) low] passed_trans [OF base(1)]
        passed_set_status [OF d m(1) low, of WorkItemBlocked E]
      by (auto simp: arm_child_def split: if_splits)
  next
    case False
    have rest: "Some res = (if kids db1 c \<noteq> []
             then map_option (\<lambda>db. Go db starts) (resetSubtree fuel E (put db1 c (set_status E WorkItemRunning)) c)
             else (case s_Workflow n of
                     None \<Rightarrow> fail_child fuel E db1 c n None
                   | Some w \<Rightarrow>
                       if w = [] then fail_child fuel E db1 c n None
                       else Some (Go (put db1 c (set_status E WorkItemRunning)) (starts @ [(c, w)]))))"
      using run status False unfolding arm_child_def db1_def Let_def by (simp cong: conj_cong)
    have due: "CheckDependenciesSatisfied S c" using False passed_deps [OF base(1), of "edges S" c] by (cases S) simp
    show ?thesis
    proof (cases "kids db1 c = []")
      case leaf: True
      have none: "kids (table S) c = []" using leaf passed_kids_empty [OF to1] by simp
      show ?thesis
      proof (cases "s_Workflow n = None \<or> s_Workflow n = Some []")
        case True
        then have "fail_child fuel E db1 c n None = Some res" using rest leaf by auto
        then show ?thesis using fail_child_passed [OF _ d1 m1] passed_trans [OF to1] by blast
      next
        case bound: False
        then obtain w where w: "s_Workflow n = Some w" "w \<noteq> []" by auto
        have "res = Go (put db1 c (set_status E WorkItemRunning)) (starts @ [(c, w)])" using rest leaf w by simp
        then show ?thesis
          using passed_trans [OF to1 armed] status False due none w
          by (auto simp: may_start_def split: option.splits)
      qed
    next
      case False
      then obtain db2 where "resetSubtree fuel E (put db1 c (set_status E WorkItemRunning)) c = Some db2" "res = Go db2 starts"
        using rest by (cases "resetSubtree fuel E (put db1 c (set_status E WorkItemRunning)) c") auto
      then show ?thesis
        using resetSubtree_passed [of fuel E _ c db2] d1 passed_trans [OF to1 armed] passed_trans by fastforce
    qed
  qed
qed

section \<open>All children\<close>

definition before :: "string option \<Rightarrow> (string \<times> seq_item) list \<Rightarrow> string option" where
  "before prev pre = (if pre = [] then prev else Some (s_Status (snd (last pre))))"

lemma arm_loop_starts:
  assumes "arm_loop fuel E (edges S) prev rest db starts = Some (db', out)" "passed (table S) db"
    and "distinct (map fst (table S))" "set rest \<subseteq> set (kids (table S) p)"
  shows "passed (table S) db' \<and> (\<forall>x \<in> set out. x \<in> set starts \<or>
    (\<exists>pre n post. rest = pre @ (fst x, n) # post \<and> may_start E S (before prev pre) (fst x) n (snd x)))"
  using assms
proof (induction rest arbitrary: prev db starts)
  case Nil
  then show ?case by auto
next
  case (Cons x rest)
  obtain c n where x: "x = (c, n)" by (cases x)
  obtain res where res: "arm_child fuel E (edges S) prev c n db starts = Some res"
    using Cons.prems(1) x by (cases "arm_child fuel E (edges S) prev c n db starts") auto
  have step: "passed (table S) (loop_rows res) \<and> (loop_starts res = [] \<or> loop_starts res = starts \<or>
      (\<exists>w. loop_starts res = starts @ [(c, w)] \<and> may_start E S prev c n w))"
    by (rule arm_child_step [OF res Cons.prems(2,3)]) (use Cons.prems(4) x in auto)
  show ?case
  proof (cases res)
    case (Halt db1)
    then show ?thesis using Cons.prems(1) res x step by auto
  next
    case (Go db1 starts1)
    have run: "arm_loop fuel E (edges S) (Some (s_Status n)) rest db1 starts1 = Some (db', out)"
      using Cons.prems(1) res Go x by simp
    have ih: "passed (table S) db' \<and> (\<forall>y \<in> set out. y \<in> set starts1 \<or>
        (\<exists>pre k post. rest = pre @ (fst y, k) # post \<and> may_start E S (before (Some (s_Status n)) pre) (fst y) k (snd y)))"
      using Cons.IH [OF run] step Go Cons.prems(3,4) by simp
    have new: "y \<in> set starts \<or> (y = (c, snd y) \<and> may_start E S prev c n (snd y))" if "y \<in> set starts1" for y
      using step that Go by auto
    have shift: "before (Some (s_Status n)) pre = before prev ((c, n) # pre)" for pre
      by (simp add: before_def)
    show ?thesis
    proof (intro conjI ballI)
      show "passed (table S) db'" using ih by simp
      fix y assume "y \<in> set out"
      then consider "y \<in> set starts1" | pre k post where "rest = pre @ (fst y, k) # post"
          "may_start E S (before (Some (s_Status n)) pre) (fst y) k (snd y)" using ih by blast
      then show "y \<in> set starts \<or> (\<exists>pre k post. x # rest = pre @ (fst y, k) # post \<and>
          may_start E S (before prev pre) (fst y) k (snd y))"
      proof cases
        case 1
        then show ?thesis using new [OF 1] x
          by (metis append_Nil before_def fst_conv)
      next
        case 2
        then show ?thesis using x shift by (metis append_Cons)
      qed
    qed
  qed
qed

lemma pass_starts:
  assumes "reconcileParent fuel E S p = Some (Inr (db, starts))" "distinct (map fst (table S))" "(c, w) \<in> set starts"
  shows "\<exists>parent pre n post. get (table S) p = Some parent \<and> is_sequence_parent parent \<and>
    kids (table S) p = pre @ (c, n) # post \<and> may_start E S (before None pre) c n w \<and>
    list_all (\<lambda>(c, n). \<not> halted (s_Status n)) (kids (table S) p)"
proof -
  obtain parent where parent: "get (table S) p = Some parent" using assms(1) by (cases "get (table S) p") (auto simp: reconcileParent_def)
  have live: "is_sequence_parent parent" "kids (table S) p \<noteq> []" "deriveNextChild (kids (table S) p) \<noteq> None"
    using assms(1,3) parent by (auto simp: reconcileParent_def Let_def split: if_splits)
  define db1 where "db1 = (if s_Status parent = WorkItemFailed then put (table S) p (set_status E WorkItemRunning) else table S)"
  have none: "List.find (\<lambda>(c, n). halted (s_Status n)) (kids (table S) p) = None"
    using assms(1,3) parent live by (auto simp: reconcileParent_def Let_def split: option.splits)
  have run: "arm_loop fuel E (edges S) None (kids (table S) p) db1 [] = Some (db, starts)"
    using assms(1) parent live none unfolding reconcileParent_def db1_def Let_def by auto
  have "passed (table S) db1"
    using passed_set_status [OF assms(2) parent] live(1) unfolding db1_def by (auto simp: is_sequence_parent_def)
  then have "\<exists>pre n post. kids (table S) p = pre @ (c, n) # post \<and> may_start E S (before None pre) c n w"
    using arm_loop_starts [OF run _ assms(2), of p] assms(3) by fastforce
  then show ?thesis using parent live(1) none by (auto simp: find_None_iff list_all_iff)
qed

end
