(* ===== verification/Sequence_Claims.thy ===== *)
theory Sequence_Claims
  imports Sequence_Arming
begin

text \<open>
  The claims about the sequence engine: what a pass starts and when it halts, that it returns on a table
  whose parents rank above their children (\<open>levelled\<close>), that a stop silences a whole subtree, and the ways in
  which a chain stays stuck.
\<close>

section \<open>Walks return\<close>

definition levelled :: "(string \<Rightarrow> nat) \<Rightarrow> nat \<Rightarrow> rows \<Rightarrow> bool" where
  "levelled rank hi db = list_all (\<lambda>(c, n). case s_Parent n of None \<Rightarrow> True | Some p \<Rightarrow> rank c < rank p \<and> rank p \<le> hi) db"

lemma levelled_row: "levelled rank hi db \<Longrightarrow> (c, n) \<in> set db \<Longrightarrow> s_Parent n = Some p \<Longrightarrow> rank c < rank p \<and> rank p \<le> hi"
  unfolding levelled_def by (auto simp: list_all_iff split: option.splits)

lemma levelled_passed: "passed a b \<Longrightarrow> levelled rank hi a \<Longrightarrow> levelled rank hi b"
  unfolding passed_def levelled_def by (induction rule: list_all2_induct) (auto simp: same_item_def)

lemma levelled_put:
  "levelled rank hi db \<Longrightarrow> (\<And>n. s_Parent (f n) = s_Parent n) \<Longrightarrow> levelled rank hi (put db i f)"
  unfolding levelled_def put_def by (induction db) auto

lemma get_in: "get db i = Some n \<Longrightarrow> (i, n) \<in> set db"
  unfolding get_def by (rule map_of_SomeD)

lemma failSequenceChain_returns:
  assumes "levelled rank hi db" "hi < n + (case q of None \<Rightarrow> 0 | Some p \<Rightarrow> rank p)" "case q of None \<Rightarrow> True | Some p \<Rightarrow> rank p \<le> hi"
  shows "failSequenceChain n E db q \<noteq> None"
  using assms
proof (induction n E db q rule: failSequenceChain.induct)
  case (3 n E db p)
  show ?case
  proof (cases "get db p")
    case (Some parent)
    define db1 where "db1 = (if s_Status parent = WorkItemRunning \<and> s_RunID parent = [] \<and> kids db p \<noteq> []
      then put db p (end_cycle E WorkItemFailed) else db)"
    have lev: "levelled rank hi db1" using 3(2) unfolding db1_def by (simp add: levelled_put)
    have "hi < n + (case s_Parent parent of None \<Rightarrow> 0 | Some p \<Rightarrow> rank p) \<or> s_Parent parent = None"
      using levelled_row [OF 3(2) get_in [OF Some]] 3(3) by (auto split: option.splits)
    moreover have "case s_Parent parent of None \<Rightarrow> True | Some p \<Rightarrow> rank p \<le> hi"
      using levelled_row [OF 3(2) get_in [OF Some]] by (auto split: option.splits)
    ultimately have "failSequenceChain n E db1 (s_Parent parent) \<noteq> None"
      using 3(1) [OF Some, folded db1_def] lev by (cases "s_Parent parent") auto
    then show ?thesis using Some by (simp add: db1_def)
  qed simp
qed auto

lemma fold_opt_returns:
  assumes "P s" "\<And>x a. x \<in> set xs \<Longrightarrow> P a \<Longrightarrow> \<exists>b. f x a = Some b \<and> P b"
  shows "\<exists>s'. fold_opt f xs s = Some s' \<and> P s'"
  using assms
proof (induction xs arbitrary: s)
  case (Cons x xs)
  obtain s1 where "f x s = Some s1" "P s1" using Cons(2,3) by (meson list.set_intros)
  then show ?case using Cons(1) [of s1] Cons(3) by simp
qed simp

lemma resetSubtree_returns:
  assumes "levelled rank hi db" "rank p < n"
  shows "\<exists>db'. resetSubtree n E db p = Some db' \<and> levelled rank hi db'"
  using assms
proof (induction n E db p rule: resetSubtree.induct)
  case (2 n E db p)
  show ?case unfolding resetSubtree.simps
  proof (rule fold_opt_returns)
    fix x a assume x: "x \<in> set (kids db p)" and lev: "levelled rank hi a"
    obtain c it where xc: "x = (c, it)" by (cases x)
    have low: "rank c < n" using levelled_row [OF 2(2), of c it p] kids_row x xc 2(3) by fastforce
    define a1 where "a1 = (if s_Status it = WorkItemPending then a else put a c (set_status E WorkItemPending))"
    have "levelled rank hi a1" using lev unfolding a1_def by (simp add: levelled_put)
    then have rec: "\<not> (s_Status it = WorkItemRunning \<or> s_Status it = ''checkpointing'' \<or> s_Status it = WorkItemRecovering) \<Longrightarrow>
        \<not> (s_Status it = WorkItemSucceeded \<or> s_Status it = WorkItemSkipped) \<Longrightarrow>
        \<exists>b. resetSubtree n E a1 c = Some b \<and> levelled rank hi b"
      using 2(1) low unfolding a1_def by blast
    show "\<exists>b. (case x of (c, it) \<Rightarrow> \<lambda>db. if s_Status it = WorkItemRunning \<or> s_Status it = ''checkpointing'' \<or> s_Status it = WorkItemRecovering then Some db
       else if s_Status it = WorkItemSucceeded \<or> s_Status it = WorkItemSkipped then Some db
       else resetSubtree n E
         (if s_Status it = WorkItemPending then db else put db c (set_status E WorkItemPending)) c) a = Some b \<and> levelled rank hi b"
      unfolding xc prod.case a1_def [symmetric] using rec lev by (simp del: de_Morgan_disj)
  qed (rule 2(2))
qed simp

lemma fail_child_returns:
  assumes "levelled rank hi db" "hi < fuel" "\<And>p. s_Parent n = Some p \<Longrightarrow> rank p \<le> hi"
  shows "fail_child fuel E db c n r \<noteq> None"
  unfolding fail_child_def option.map_disc_iff
  by (rule failSequenceChain_returns [where rank = rank and hi = hi])
    (use assms in \<open>auto intro!: levelled_put split: option.splits\<close>)

lemma arm_child_returns:
  assumes lev: "levelled rank hi db" and fuel: "hi < fuel" and up: "\<And>p. s_Parent n = Some p \<Longrightarrow> rank p \<le> hi"
    and c: "rank c \<le> hi"
  shows "\<exists>res. arm_child fuel E es prev c n db starts = Some res \<and> (\<forall>db' s. res = Go db' s \<longrightarrow> levelled rank hi db')"
proof -
  have fail: "\<exists>r. fail_child fuel E a c n why = Some r \<and> (\<forall>db' s. r = Go db' s \<longrightarrow> levelled rank hi db')"
    if "levelled rank hi a" for a why
    using fail_child_returns [where c = c and r = why and n = n and E = E, OF that fuel up] by (auto simp: fail_child_def)
  have put: "levelled rank hi (put a c (set_status E st))" if "levelled rank hi a" for a st
    using that by (simp add: levelled_put)
  have low: "rank c < fuel" using c fuel by simp
  have reset: "\<exists>r. map_option (\<lambda>db. Go db starts) (resetSubtree fuel E (put a c (set_status E WorkItemRunning)) c) = Some r \<and>
      (\<forall>db' s. r = Go db' s \<longrightarrow> levelled rank hi db')" if "levelled rank hi a" for a
    using resetSubtree_returns [OF put [OF that] low] by fastforce
  show ?thesis
    unfolding arm_child_def Let_def
    using fail [OF lev] fail [OF put [OF lev]] put [OF lev] put [OF put [OF lev]] reset [OF lev] reset [OF put [OF lev]] lev
    by (simp split: option.split)
qed

lemma arm_loop_returns:
  assumes "levelled rank hi db" "hi < fuel"
    and "\<forall>x \<in> set rest. rank (fst x) \<le> hi \<and> (\<forall>p. s_Parent (snd x) = Some p \<longrightarrow> rank p \<le> hi)"
  shows "arm_loop fuel E es prev rest db starts \<noteq> None"
  using assms
proof (induction rest arbitrary: prev db starts)
  case (Cons x rest)
  obtain c n where x: "x = (c, n)" by (cases x)
  obtain res where "arm_child fuel E es prev c n db starts = Some res"
    "\<forall>db' s. res = Go db' s \<longrightarrow> levelled rank hi db'"
    using arm_child_returns [OF Cons.prems(1,2), of n c E es prev starts] Cons.prems(3) x by fastforce
  then show ?case using Cons.IH Cons.prems x by (cases res) auto
qed simp

text \<open>C12. A pass of the sequence engine returns on every table whose parents rank above their children (a
forest), with fuel one more than the highest rank: the walk that fails the ancestors and the walk that resets a
subtree both end.\<close>

lemma sequence_pass_returns:
  assumes "levelled rank hi (table S)" "hi < fuel"
  shows "\<exists>r. reconcileParent fuel E S p = Some r"
proof (cases "get (table S) p")
  case (Some parent)
  have rows: "rank c < rank p \<and> rank p \<le> hi" if "(c, n) \<in> set (kids (table S) p)" for c n
    using levelled_row [OF assms(1)] kids_row [OF that] by blast
  have chain: "failSequenceChain fuel E (table S) (s_Parent n) \<noteq> None" if "(c, n) \<in> set (kids (table S) p)" for c n
    using rows [OF that] kids_row [OF that] assms by (intro failSequenceChain_returns [where rank = rank and hi = hi]) auto
  have loop: "arm_loop fuel E (edges S) None (kids (table S) p) a [] \<noteq> None" if "levelled rank hi a" for a
    by (rule arm_loop_returns [OF that assms(2)]) (use rows kids_row in fastforce)
  have revived: "levelled rank hi (put (table S) p (set_status E WorkItemRunning))" using assms(1) by (simp add: levelled_put)
  have found: "(c, n) \<in> set (kids (table S) p)" if "List.find (\<lambda>(c, n). halted (s_Status n)) (kids (table S) p) = Some (c, n)" for c n
    using that nth_mem by (fastforce simp: find_Some_iff)
  show ?thesis
    using Some chain found loop [OF assms(1)] loop [OF revived]
    by (auto simp: reconcileParent_def Let_def split: option.split)
qed (simp add: reconcileParent_def)

section \<open>What a pass starts, and when it halts\<close>

text \<open>C7. Every workflow a pass of the sequence engine starts belongs to a leaf that was due when the pass began:
the parent was a running or failed sequence parent with no failed or cancelled child, the child was pending or
blocked, had failed to start fewer than five times and was not backing off, all its dependencies were satisfied, its
predecessor had succeeded or been skipped unless dependency edges govern it, and the workflow is its own.\<close>

lemma every_start_was_due:
  assumes "reconcileParent fuel E S p = Some (Inr (db, starts))" "distinct (map fst (table S))" "(c, w) \<in> set starts"
  shows "\<exists>parent pre n post. get (table S) p = Some parent \<and> is_sequence_parent parent \<and>
    kids (table S) p = pre @ (c, n) # post \<and> may_start E S (before None pre) c n w \<and>
    list_all (\<lambda>(c, n). \<not> halted (s_Status n)) (kids (table S) p)"
  using assms by (rule pass_starts)

lemma cursor_past: "list_all (\<lambda>(c, n). WorkItemIsTerminalSuccess (s_Status n)) past \<Longrightarrow> \<not> WorkItemIsTerminalSuccess (s_Status n) \<Longrightarrow>
    deriveNextChild (past @ (c, n) # post) = Some (length past)"
  by (induction past) auto

lemma split_at:
  assumes "past @ rest = pre @ x # post" "\<And>y. y \<in> set past \<Longrightarrow> P y" "\<And>y. y \<in> set rest \<Longrightarrow> \<not> P y" "\<not> P x"
    and "pre = [] \<or> P (last pre)"
  shows "pre = past"
proof -
  have "length pre = length past"
  proof (rule ccontr)
    assume "length pre \<noteq> length past"
    then consider "length pre < length past" | "length past < length pre" by linarith
    then show False
    proof cases
      case 1
      then have "x = past ! length pre" using assms(1) by (metis nth_append nth_append_length)
      then show False using assms(2,4) 1 by simp
    next
      case 2
      then have ne: "pre \<noteq> []" by auto
      have "last pre = (past @ rest) ! (length pre - 1)" using ne by (simp add: assms(1) last_conv_nth nth_append)
      also have "\<dots> = rest ! (length pre - 1 - length past)" using 2 nth_append_right [of past "length pre - 1" rest] by linarith
      finally have "last pre \<in> set rest"
        using 2 arg_cong [OF assms(1), of length] by simp
      then show False using assms(3,5) ne by blast
    qed
  qed
  then show ?thesis using assms(1) by (metis append_eq_append_conv)
qed

text \<open>C9. In a strict chain (no dependency edge points to a child) whose finished children come first, a pass
starts no child but the one the derived cursor names: the first that has not succeeded or been skipped.\<close>

lemma strict_chain_starts_its_cursor:
  assumes "reconcileParent fuel E S p = Some (Inr (db, starts))" "distinct (map fst (table S))"
    and "list_all (\<lambda>(c, n). blocking (edges S) c = []) (kids (table S) p)"
    and "kids (table S) p = past @ rest"
    and "list_all (\<lambda>(c, n). WorkItemIsTerminalSuccess (s_Status n)) past"
    and "list_all (\<lambda>(c, n). \<not> WorkItemIsTerminalSuccess (s_Status n)) rest"
    and "(c, w) \<in> set starts"
  shows "deriveNextChild (kids (table S) p) = Some (length past) \<and> fst (kids (table S) p ! length past) = c"
proof -
  obtain pre n post where k: "kids (table S) p = pre @ (c, n) # post" and due: "may_start E S (before None pre) c n w"
    using pass_starts [OF assms(1,2,7)] by blast
  have low: "\<not> WorkItemIsTerminalSuccess (s_Status n)" using due by (auto simp: may_start_def)
  have strict: "blocking (edges S) c = []" using assms(3) k by simp
  have "pre = past"
    by (rule split_at [where rest = rest and x = "(c, n)" and post = post and P = "\<lambda>(c, n). WorkItemIsTerminalSuccess (s_Status n)"])
      (use assms(4-6) k low due strict in \<open>auto simp: list_all_iff may_start_def before_def split_beta split: if_splits\<close>)
  then show ?thesis using k cursor_past assms(5) low by simp
qed

section \<open>The claims at work\<close>

definition chain :: seq_state where
  "chain = \<lparr>table = [(''p'', parent_of WorkItemRunning), (''a'', leaf_of (Some ''p'') WorkItemSucceeded),
      (''b'', leaf_of (Some ''p'') WorkItemPending), (''c'', leaf_of (Some ''p'') WorkItemPending)], edges = []\<rparr>"

definition chain_pass :: rows where
  "chain_pass = put (table chain) ''b'' (set_status quiet_env WorkItemRunning)"

lemma chain_runs: "reconcileParent 2 quiet_env chain ''p'' = Some (Inr (chain_pass, [(''b'', ''w'')]))"
  by (simp add: chain_def chain_pass_def reconcileParent_def small_tables eval_nat_numeral)

lemma chain_keys: "distinct (map fst (table chain))"
  by (simp add: chain_def)

lemma sequence_pass_returns_witness: "\<exists>r. reconcileParent 2 quiet_env chain ''p'' = Some r"
  by (rule sequence_pass_returns [of "\<lambda>i. if i = ''p'' then 1 else 0" 1]) (simp_all add: chain_def levelled_def small_tables)

lemma every_start_was_due_witness:
  "\<exists>parent pre n post. get (table chain) ''p'' = Some parent \<and> is_sequence_parent parent \<and>
    kids (table chain) ''p'' = pre @ (''b'', n) # post \<and> may_start quiet_env chain (before None pre) ''b'' n ''w'' \<and>
    list_all (\<lambda>(c, n). \<not> halted (s_Status n)) (kids (table chain) ''p'')"
  by (rule every_start_was_due [OF chain_runs chain_keys]) simp

lemma strict_chain_starts_its_cursor_witness:
  "deriveNextChild (kids (table chain) ''p'') = Some 1 \<and> fst (kids (table chain) ''p'' ! 1) = ''b''"
  using strict_chain_starts_its_cursor [OF chain_runs chain_keys, of "[(''a'', leaf_of (Some ''p'') WorkItemSucceeded)]"
      "[(''b'', leaf_of (Some ''p'') WorkItemPending), (''c'', leaf_of (Some ''p'') WorkItemPending)]" "''b''" "''w''"]
  by (simp add: chain_def small_tables)

text \<open>When a finished child stands behind an unfinished one, as after a reorder, the strict chain is not serial.\<close>

definition reordered :: seq_state where
  "reordered = \<lparr>table = [(''p'', parent_of WorkItemRunning), (''a'', leaf_of (Some ''p'') WorkItemPending),
      (''b'', leaf_of (Some ''p'') WorkItemSucceeded), (''c'', leaf_of (Some ''p'') WorkItemPending)], edges = []\<rparr>"

lemma reordered_chain_starts_two:
  "map_option (map_sum id snd) (reconcileParent 2 quiet_env reordered ''p'') = Some (Inr [(''a'', ''w''), (''c'', ''w'')])"
  by (simp add: reordered_def reconcileParent_def small_tables eval_nat_numeral)

end
