(* ===== verification/Sequence_Stuck.thy ===== *)
theory Sequence_Stuck
  imports Sequence_Claims
begin

text \<open>
  How a chain halts, how a stop silences it, and how it gets stuck: the recurrence that runs nothing after its
  first success, the halted parents that keep the scan from every other one, and the runs of the model behind
  them, on concrete tables.
\<close>

section \<open>Halting\<close>

lemma failSequenceChain_frame:
  "failSequenceChain n E db q = Some db' \<Longrightarrow> get db i = Some m \<Longrightarrow>
    get db' i = Some m \<or> s_Status m = WorkItemRunning \<and> s_RunID m = [] \<and> get db' i = Some (end_cycle E WorkItemFailed m)"
proof (induction n E db q arbitrary: db' m rule: failSequenceChain.induct)
  case (3 n E db p)
  show ?case
  proof (cases "get db p")
    case (Some parent)
    define db1 where "db1 = (if s_Status parent = WorkItemRunning \<and> s_RunID parent = [] \<and> kids db p \<noteq> []
      then put db p (end_cycle E WorkItemFailed) else db)"
    have run: "failSequenceChain n E db1 (s_Parent parent) = Some db'" using 3(2) Some by (simp add: db1_def)
    show ?thesis
    proof (cases "i = p \<and> db1 \<noteq> db")
      case True
      then have now: "get db1 i = Some (end_cycle E WorkItemFailed m)" "s_Status m = WorkItemRunning" "s_RunID m = []"
        using 3(3) Some by (auto simp: db1_def split: if_splits)
      then show ?thesis using 3(1) [OF Some run [unfolded db1_def], folded db1_def, OF now(1)] now(2,3) by (auto split: if_splits)
    next
      case False
      then have "get db1 i = Some m" using 3(3) by (cases "db1 = db") (auto simp: db1_def)
      then show ?thesis using 3(1) [OF Some run [unfolded db1_def], folded db1_def] by blast
    qed
  qed (use 3(2,3) in simp)
qed auto

lemma halted_not_success: "halted st \<Longrightarrow> \<not> WorkItemIsTerminalSuccess st"
  by (auto simp: halted_def)

lemma unfinished_cursor: "(c, n) \<in> set cs \<Longrightarrow> \<not> WorkItemIsTerminalSuccess (s_Status n) \<Longrightarrow> deriveNextChild cs \<noteq> None"
  by (induction cs rule: deriveNextChild.induct) auto

lemma halted_pass:
  assumes "get (table S) p = Some parent" "is_sequence_parent parent" "(c, n) \<in> set (kids (table S) p)" "halted (s_Status n)"
  shows "reconcileParent fuel E S p = map_option (\<lambda>db. Inr (db, [])) (failSequenceChain fuel E (table S) (Some p))"
proof -
  have "deriveNextChild (kids (table S) p) \<noteq> None" "kids (table S) p \<noteq> []"
    using unfinished_cursor [OF assms(3) halted_not_success [OF assms(4)]] assms(3) by auto
  moreover obtain d m where found: "List.find (\<lambda>(c, n). halted (s_Status n)) (kids (table S) p) = Some (d, m)"
    using assms(3,4) by (cases "List.find (\<lambda>(c, n). halted (s_Status n)) (kids (table S) p)") (auto simp: find_None_iff)
  moreover have "s_Parent m = Some p" using found nth_mem kids_row by (fastforce simp: find_Some_iff)
  ultimately show ?thesis using assms(1,2) by (auto simp: reconcileParent_def Let_def)
qed

text \<open>The ancestors of an item, itself included, and what a failing chain makes of one of them.\<close>

definition uplink :: "rows \<Rightarrow> string \<Rightarrow> string \<Rightarrow> bool" where
  "uplink db i j \<longleftrightarrow> (\<exists>n. get db i = Some n \<and> s_Parent n = Some j)"

definition chain_fails :: "rows \<Rightarrow> string \<Rightarrow> seq_item \<Rightarrow> bool" where
  "chain_fails db i n \<longleftrightarrow> s_Status n = WorkItemRunning \<and> s_RunID n = [] \<and> kids db i \<noteq> []"

definition after_failure :: "fire_env \<Rightarrow> rows \<Rightarrow> string option \<Rightarrow> string \<Rightarrow> seq_item option" where
  "after_failure E db q i =
     (if \<exists>p. q = Some p \<and> (uplink db)\<^sup>*\<^sup>* p i
      then map_option (\<lambda>n. if chain_fails db i n then end_cycle E WorkItemFailed n else n) (get db i) else get db i)"

lemma climb_first: "get db p = Some parent \<Longrightarrow> (uplink db)\<^sup>*\<^sup>* p i \<longleftrightarrow> i = p \<or> (\<exists>q. s_Parent parent = Some q \<and> (uplink db)\<^sup>*\<^sup>* q i)"
  by (auto simp: uplink_def intro: converse_rtranclp_into_rtranclp elim: converse_rtranclpE)

lemma uplink_put: "(\<And>n. s_Parent (f n) = s_Parent n) \<Longrightarrow> uplink (put db p f) = uplink db"
  by (intro ext) (auto simp: uplink_def)

lemma failSequenceChain_exact:
  "failSequenceChain n E db q = Some db' \<Longrightarrow> get db' i = after_failure E db q i"
proof (induction n E db q arbitrary: db' rule: failSequenceChain.induct)
  case (3 n E db p)
  show ?case
  proof (cases "get db p")
    case None
    then have "\<not> uplink db p j" for j by (simp add: uplink_def)
    then have "(uplink db)\<^sup>*\<^sup>* p i \<Longrightarrow> i = p" by (auto elim: converse_rtranclpE)
    then show ?thesis using None 3(2) by (auto simp: after_failure_def)
  next
    case (Some parent)
    define db1 where "db1 = (if chain_fails db p parent then put db p (end_cycle E WorkItemFailed) else db)"
    have run: "failSequenceChain n E db1 (s_Parent parent) = Some db'" using 3(2) Some by (simp add: db1_def chain_fails_def)
    have ih: "get db' i = after_failure E db1 (s_Parent parent) i"
      using 3(1) [OF Some, of db'] run by (simp add: db1_def chain_fails_def)
    have up: "uplink db1 = uplink db" unfolding db1_def by (simp add: uplink_put)
    have kids: "(kids db1 j = []) = (kids db j = [])" for j
      by (simp add: db1_def kids_put)
    have climb: "(\<exists>r. Some p = Some r \<and> (uplink db)\<^sup>*\<^sup>* r i) \<longleftrightarrow> i = p \<or> (\<exists>q. s_Parent parent = Some q \<and> (uplink db)\<^sup>*\<^sup>* q i)"
      using climb_first [OF Some] by simp
    show ?thesis
      unfolding ih unfolding after_failure_def climb up
      using Some by (auto simp: db1_def chain_fails_def kids [unfolded db1_def chain_fails_def] split: if_splits)
  qed
qed (auto simp: after_failure_def)

text \<open>C11. A failed or cancelled child halts its sequence. The pass over the parent starts nothing and changes
exactly the parent and its ancestors that are running, with children and without a run of their own: these
fail, or go back to recurring when they have a schedule, their next occurrence recomputed when it was
gone. Every other item, the children included, is left as it was.\<close>

lemma failed_child_halts_chain:
  assumes "reconcileParent fuel E S p = Some (Inr (db, starts))" "get (table S) p = Some parent" "is_sequence_parent parent"
    and "(c, n) \<in> set (kids (table S) p)" "halted (s_Status n)"
  shows "starts = [] \<and> (\<forall>i. get db i = after_failure E (table S) (Some p) i)"
  using assms(1) halted_pass [OF assms(2-5), of fuel E] failSequenceChain_exact by auto

section \<open>The recurrence that runs nothing\<close>

lemma fold_opt_idle: "(\<And>x. x \<in> set xs \<Longrightarrow> f x s = Some s) \<Longrightarrow> fold_opt f xs s = Some s"
  by (induction xs) auto

lemma resetSubtree_spent:
  assumes "list_all (\<lambda>(c, n). s_Status n = WorkItemSucceeded \<or> s_Status n = WorkItemSkipped) (kids db p)"
  shows "resetSubtree (Suc k) E db p = Some db"
  unfolding resetSubtree.simps using assms by (intro fold_opt_idle) (auto simp: list_all_iff)

lemma spent_cursor: "list_all (\<lambda>(c, n). s_Status n = WorkItemSucceeded \<or> s_Status n = WorkItemSkipped) cs \<Longrightarrow> deriveNextChild cs = None"
  by (induction cs rule: deriveNextChild.induct) auto

text \<open>C13. Once every child of a recurring sequence has succeeded or been skipped, a fire of the next occurrence
starts nothing: whatever the start of a workflow does, the parent is recurring again at once and the children are
as they were.\<close>

lemma spent_recurrence_runs_nothing:
  assumes "get (table S) p = Some n" "s_Schedule n \<noteq> NoSchedule" "s_RunID n = []" "s_Parent n \<noteq> Some p"
    and "distinct (map fst (table S))" "kids (table S) p \<noteq> []" "fuel \<noteq> 0"
    and "list_all (\<lambda>(c, n). s_Status n = WorkItemSucceeded \<or> s_Status n = WorkItemSkipped) (kids (table S) p)"
  shows "\<exists>S'. (\<forall>f. StartSequence fuel E f S p = Some (Inr S')) \<and> kids (table S') p = kids (table S) p \<and>
    map_option s_Status (get (table S') p) = Some WorkItemRecurring"
proof -
  have other: "(p, m) \<notin> set (kids (table S) p)" for m
    using kids_get [OF assms(5)] kids_row assms(1,4) by fastforce
  have keep: "map (\<lambda>(c, n). (c, if c = p then g n else n)) (kids (table S) p) = kids (table S) p" for g
    by (rule map_idI) (use other in auto)
  define db where "db = put (table S) p (take_over E)"
  have kids: "kids db p = kids (table S) p"
    unfolding db_def by (subst kids_put) (simp_all add: take_over_def keep)
  have over: "get db p = Some (take_over E n)" using assms(1) by (simp add: db_def)
  obtain k where k: "fuel = Suc k" using assms(7) by (cases fuel) auto
  have reset: "resetSubtree fuel E db p = Some db" using resetSubtree_spent [of db p k E] assms(8) kids k by simp
  define S' where "S' = S\<lparr>table := put db p (end_cycle E WorkItemSucceeded)\<rparr>"
  have "reconcileParent fuel E (S\<lparr>table := db\<rparr>) p = Some (Inr (table S', []))"
    using over assms(3,6,8) kids by (simp add: reconcileParent_def is_sequence_parent_def take_over_def spent_cursor S'_def)
  then have "StartSequence fuel E f S p = Some (Inr S')" for f
    using assms(1,6) reset unfolding StartSequence_def reconcileOne_def db_def [symmetric] by (simp add: S'_def)
  moreover have "kids (table S') p = kids (table S) p"
    unfolding S'_def by (simp, subst kids_put) (simp_all add: kids keep)
  moreover have "map_option s_Status (get (table S') p) = Some WorkItemRecurring"
    using over assms(2) by (simp add: S'_def take_over_def)
  ultimately show ?thesis by blast
qed

section \<open>The scan that never gets past the halted parents\<close>

definition stuck :: "rows \<Rightarrow> string \<Rightarrow> bool" where
  "stuck db p \<longleftrightarrow> (case get db p of None \<Rightarrow> False | Some n \<Rightarrow>
     s_Status n = WorkItemFailed \<and> s_RunID n = [] \<and> s_Parent n = None \<and> s_ScanErrors n = 0 \<and> s_LastProgress n \<noteq> None \<and>
     list_ex (\<lambda>(c, m). halted (s_Status m)) (kids db p))"

lemma scan_stuck:
  assumes "stuck (table S) p"
  shows "scan_one (Suc k) E f p S = Some S"
proof -
  obtain n c m where n: "get (table S) p = Some n" "s_Status n = WorkItemFailed" "s_RunID n = []" "s_Parent n = None"
      "s_ScanErrors n = 0" "s_LastProgress n \<noteq> None" "(c, m) \<in> set (kids (table S) p)" "halted (s_Status m)"
    using assms unfolding stuck_def by (auto simp: list_ex_iff split: option.splits)
  have "reconcileParent (Suc k) E S p = Some (Inr (table S, []))"
    using halted_pass [OF n(1) _ n(7,8)] n(1-4) by (simp add: is_sequence_parent_def)
  then show ?thesis using n(1,5,6) by (simp add: scan_one_def reconcileOne_def clearScanError_def)
qed

text \<open>C10. Sixteen halted sequences starve every other: when the sixteen parents changed longest ago are failed
top-level sequences with a failed or cancelled child, that have been scanned before, a scan starts no workflow,
whatever the start does, and changes nothing but the parents it declares stalled.\<close>

lemma halted_parents_starve_the_scan:
  assumes "list_all (stuck (table S)) (take 16 (ListSequenceActiveParents (table S)))" "fuel \<noteq> 0"
  shows "seq_scan fuel E f S =
    Some (S\<lparr>table := checkStalledParents E (ListSequenceActiveParents (table S)) (table S)\<rparr>)"
proof -
  obtain k where k: "fuel = Suc k" using assms(2) by (cases fuel) auto
  have "fold_opt (scan_one fuel E f) ps S = Some S" if "list_all (stuck (table S)) ps" for ps
    using that by (induction ps) (auto simp: k scan_stuck)
  then show ?thesis using assms(1) by (simp add: seq_scan_def)
qed

section \<open>The claims at work\<close>

definition broken :: seq_state where
  "broken = \<lparr>table = [(''p'', parent_of WorkItemRunning), (''a'', leaf_of (Some ''p'') WorkItemFailed),
      (''b'', leaf_of (Some ''p'') WorkItemPending)], edges = []\<rparr>"

lemma broken_halts:
  "reconcileParent 2 quiet_env broken ''p'' = Some (Inr (put (table broken) ''p'' (end_cycle quiet_env WorkItemFailed), []))"
  by (simp add: broken_def reconcileParent_def small_tables eval_nat_numeral)

lemma failed_child_halts_chain_witness:
  "get (put (table broken) ''p'' (end_cycle quiet_env WorkItemFailed)) ''b'' = after_failure quiet_env (table broken) (Some ''p'') ''b''"
proof -
  have "get (table broken) ''p'' = Some (parent_of WorkItemRunning)" "is_sequence_parent (parent_of WorkItemRunning)"
    "(''a'', leaf_of (Some ''p'') WorkItemFailed) \<in> set (kids (table broken) ''p'')"
    "halted (s_Status (leaf_of (Some ''p'') WorkItemFailed))"
    by (simp_all add: broken_def small_tables)
  from failed_child_halts_chain [OF broken_halts this] show ?thesis by blast
qed

definition spent :: seq_state where
  "spent = \<lparr>table = [(''p'', (parent_of WorkItemRecurring)\<lparr>s_Schedule := Garbage\<rparr>), (''a'', leaf_of (Some ''p'') WorkItemSucceeded)],
     edges = []\<rparr>"

lemma spent_recurrence_runs_nothing_witness:
  "\<exists>S'. (\<forall>f. StartSequence 2 quiet_env f spent ''p'' = Some (Inr S')) \<and> kids (table S') ''p'' = kids (table spent) ''p'' \<and>
    map_option s_Status (get (table S') ''p'') = Some WorkItemRecurring"
  by (rule spent_recurrence_runs_nothing [where n = "(parent_of WorkItemRecurring)\<lparr>s_Schedule := Garbage\<rparr>"])
    (simp_all add: spent_def small_tables)

definition dead :: "nat \<Rightarrow> rows" where
  "dead k = [(''p'' @ replicate k (CHR ''x''), parent_of WorkItemFailed),
     (''c'' @ replicate k (CHR ''x''), leaf_of (Some (''p'' @ replicate k (CHR ''x''))) WorkItemFailed)]"

definition crowd :: seq_state where
  "crowd = \<lparr>table = concat (map dead [0..<16]) @
     [(''q'', (parent_of WorkItemRunning)\<lparr>s_Updated := 1\<rparr>), (''a'', leaf_of (Some ''q'') WorkItemPending)], edges = []\<rparr>"

lemma halted_parents_starve_the_scan_witness:
  "\<forall>f. seq_scan 2 quiet_env f crowd =
    Some (crowd\<lparr>table := checkStalledParents quiet_env (ListSequenceActiveParents (table crowd)) (table crowd)\<rparr>)"
  by (intro allI halted_parents_starve_the_scan)
    (simp_all add: crowd_def dead_def ListSequenceActiveParents_def stuck_def small_tables upt_rec eval_nat_numeral)

section \<open>Runs of the model\<close>

text \<open>
  A pass that fails a child drops the starts it has collected: the armed leaf is left running with no run, and
  the next pass only finds the failed child.
\<close>

definition dropping :: seq_state where
  "dropping = \<lparr>table = [(''x'', leaf_of None WorkItemSucceeded), (''p'', parent_of WorkItemRunning),
      (''a'', leaf_of (Some ''p'') WorkItemPending), (''b'', (leaf_of (Some ''p'') WorkItemPending)\<lparr>s_Attempts := 5\<rparr>)],
     edges = [(''x'', ''b'', ''depends_on'')]\<rparr>"

definition statuses :: "rows \<Rightarrow> string list" where
  "statuses db = map (\<lambda>(i, n). s_Status n) db"

lemma dropped_start_strands:
  "map_option (map_sum id (\<lambda>(db, starts). (statuses db, starts))) (reconcileParent 2 quiet_env dropping ''p'') =
    Some (Inr ([WorkItemSucceeded, WorkItemFailed, WorkItemRunning, WorkItemFailed], []))"
  by (simp add: dropping_def reconcileParent_def statuses_def small_tables eval_nat_numeral)

text \<open>A child that failed to start five times keeps its count: a resume fails it again at once.\<close>

definition worn :: seq_state where
  "worn = \<lparr>table = [(''p'', parent_of WorkItemFailed), (''a'', (leaf_of (Some ''p'') WorkItemFailed)\<lparr>s_Attempts := 5\<rparr>)], edges = []\<rparr>"

lemma worn_child_never_resumes:
  "map_option (map_sum id (\<lambda>S. statuses (table S))) (ResumeSequence 2 quiet_env f worn ''p'') =
    Some (Inr [WorkItemFailed, WorkItemFailed])"
  by (simp add: worn_def ResumeSequence_def reconcileOne_def rearm_halted_def take_over_def reconcileParent_def statuses_def
      small_tables eval_nat_numeral)

text \<open>
  Progress is recorded once: ten minutes into a cycle, a recurring sequence whose next child failed to start a
  second ago is taken for stalled and its cycle ends.
\<close>

definition healthy :: seq_state where
  "healthy = \<lparr>table = [(''p'', (parent_of WorkItemRunning)\<lparr>s_Schedule := Garbage\<rparr>), (''a'', leaf_of (Some ''p'') WorkItemSucceeded),
      (''b'', (leaf_of (Some ''p'') WorkItemPending)\<lparr>s_Attempts := 1, s_LastAttempt := Some (10 * Minute - Second)\<rparr>)], edges = []\<rparr>"

lemma healthy_sequence_called_stalled:
  "map_option (\<lambda>S. statuses (table S)) (seq_scan 2 quiet_env f healthy) =
    Some [WorkItemRecurring, WorkItemSucceeded, WorkItemPending]"
  by (simp add: healthy_def seq_scan_def scan_one_def reconcileOne_def reconcileParent_def ListSequenceActiveParents_def
      clearScanError_def checkStalledParents_def check_stalled_def in_flight_status_def sequenceStallThreshold_def statuses_def
      small_tables sequenceBackoff_def Sub_def i64_def Minute_def Second_def eval_nat_numeral)

end
