(* ===== verification/Sequence_Stop.thy ===== *)
theory Sequence_Stop
  imports Sequence_Claims
begin

text \<open>
  The stop of a sequence (\<open>StopSequence\<close>): it returns on a table whose parents rank above their children, and
  leaves everything below the stopped item idle and every run bound there ended. \<open>kept\<close> is what every stage of
  a stop keeps, \<open>quiet\<close> what it reaches.
\<close>

section \<open>What is below an item\<close>

inductive below :: "rows \<Rightarrow> string \<Rightarrow> string \<Rightarrow> bool" for db where
  here: "below db p p"
| deeper: "get db p = Some n \<Longrightarrow> \<not> WorkItemIsTerminalSuccess (s_Status n) \<Longrightarrow> (c, m) \<in> set (kids db p) \<Longrightarrow>
    below db c j \<Longrightarrow> below db p j"

inductive_cases belowE: "below db p j"

definition same_tree :: "rows \<Rightarrow> rows \<Rightarrow> bool" where
  "same_tree = list_all2 (\<lambda>(i, n) (j, m). i = j \<and> s_Parent m = s_Parent n \<and> s_Archived m = s_Archived n \<and>
     WorkItemIsTerminalSuccess (s_Status m) = WorkItemIsTerminalSuccess (s_Status n))"

lemma same_tree_refl [simp]: "same_tree db db"
  unfolding same_tree_def by (simp add: list_all2_same split_beta)

lemma same_tree_sym: "same_tree a b \<Longrightarrow> same_tree b a"
  unfolding same_tree_def by (induction rule: list_all2_induct) auto

lemma same_tree_trans: "same_tree a b \<Longrightarrow> same_tree b c \<Longrightarrow> same_tree a c"
  unfolding same_tree_def list_all2_conv_all_nth by (auto simp: split_beta)

lemma same_tree_keys: "same_tree a b \<Longrightarrow> map fst b = map fst a"
  unfolding same_tree_def by (induction rule: list_all2_induct) auto

lemma same_tree_levelled: "same_tree a b \<Longrightarrow> levelled rank hi a \<Longrightarrow> levelled rank hi b"
  unfolding same_tree_def levelled_def by (induction rule: list_all2_induct) auto

lemma same_tree_kids: "same_tree a b \<Longrightarrow> map fst (kids b p) = map fst (kids a p)"
  unfolding same_tree_def kids_def by (induction rule: list_all2_induct) auto

lemma same_tree_get:
  assumes "same_tree a b"
  shows "rel_option (\<lambda>n m. WorkItemIsTerminalSuccess (s_Status m) = WorkItemIsTerminalSuccess (s_Status n)) (get a i) (get b i)"
  using assms unfolding same_tree_def get_def by (induction rule: list_all2_induct) auto

lemma same_tree_below: "below a p j \<Longrightarrow> same_tree a b \<Longrightarrow> below b p j"
proof (induction rule: below.induct)
  case (deeper p n c m j)
  obtain n' where "get b p = Some n'" "\<not> WorkItemIsTerminalSuccess (s_Status n')"
    using same_tree_get [OF deeper.prems, of p] deeper.hyps(1,2) by (cases "get b p") auto
  moreover have "c \<in> set (map fst (kids b p))"
    unfolding same_tree_kids [OF deeper.prems] using deeper.hyps(3) by force
  then obtain m' where "(c, m') \<in> set (kids b p)" by auto
  ultimately show ?case using deeper.IH [OF deeper.prems] by (rule below.deeper)
qed (rule below.here)

lemma same_tree_put:
  assumes "distinct (map fst db)" "get db i = Some n" "s_Parent (f n) = s_Parent n" "s_Archived (f n) = s_Archived n"
    and "\<not> WorkItemIsTerminalSuccess (s_Status n)" "\<not> WorkItemIsTerminalSuccess (s_Status (f n))"
  shows "same_tree db (put db i f)"
proof -
  have "\<And>m. (i, m) \<in> set db \<Longrightarrow> m = n" using get_row [OF assms(1)] assms(2) by simp
  then show ?thesis
    unfolding same_tree_def put_def list.rel_map list_all2_same using assms(3-6) by (auto split: if_splits)
qed

section \<open>What a stop keeps\<close>

definition idle :: "seq_item \<Rightarrow> bool" where
  "idle n \<longleftrightarrow> WorkItemIsTerminalSuccess (s_Status n) \<or>
     s_RunID n = [] \<and> (s_Status n = WorkItemPending \<or> s_Status n = WorkItemRecurring)"

definition idle_at :: "stop_state \<Rightarrow> string \<Rightarrow> bool" where
  "idle_at X i = (case get (st_rows X) i of None \<Rightarrow> True | Some n \<Rightarrow> idle n)"

definition over :: "stop_state \<Rightarrow> string \<Rightarrow> bool" where
  "over X r = (case map_of (st_runs X) r of None \<Rightarrow> True | Some w \<Rightarrow> run_terminal (r_Status w))"

definition linked :: "stop_state \<Rightarrow> bool" where
  "linked X \<longleftrightarrow> list_all (\<lambda>(i, n). s_RunID n = [] \<or>
     (case map_of (st_runs X) (s_RunID n) of None \<Rightarrow> True | Some w \<Rightarrow> r_Item w = i)) (st_rows X)"

definition kept :: "stop_state \<Rightarrow> stop_state \<Rightarrow> bool" where
  "kept X Y \<longleftrightarrow> same_tree (st_rows X) (st_rows Y) \<and> (\<forall>i. idle_at X i \<longrightarrow> idle_at Y i) \<and> (\<forall>r. over X r \<longrightarrow> over Y r) \<and>
     (\<forall>r. map_option r_Item (map_of (st_runs Y) r) = map_option r_Item (map_of (st_runs X) r)) \<and>
     (\<forall>i n m. get (st_rows X) i = Some n \<longrightarrow> get (st_rows Y) i = Some m \<longrightarrow>
        s_RunID m = s_RunID n \<or> s_RunID m = [] \<and> over Y (s_RunID n))"

definition good :: "(string \<Rightarrow> nat) \<Rightarrow> nat \<Rightarrow> stop_state \<Rightarrow> bool" where
  "good rank hi X \<longleftrightarrow> distinct (map fst (st_rows X)) \<and> [] \<notin> set (map fst (st_rows X)) \<and>
     levelled rank hi (st_rows X) \<and> linked X"

definition settled :: "stop_state \<Rightarrow> stop_state \<Rightarrow> string \<Rightarrow> bool" where
  "settled X Y j \<longleftrightarrow> idle_at Y j \<and> (\<forall>m. get (st_rows X) j = Some m \<longrightarrow> \<not> WorkItemIsTerminalSuccess (s_Status m) \<longrightarrow>
     s_RunID m \<noteq> [] \<longrightarrow> over Y (s_RunID m))"

definition quiet :: "stop_state \<Rightarrow> stop_state \<Rightarrow> string \<Rightarrow> bool" where
  "quiet X Y i \<longleftrightarrow> (\<forall>j. below (st_rows X) i j \<longrightarrow> settled X Y j)"

lemma kept_refl [simp]: "kept X X"
  by (simp add: kept_def)

lemma kept_get:
  assumes "kept X Y" "get (st_rows X) i = Some n"
  obtains m where "get (st_rows Y) i = Some m"
    "WorkItemIsTerminalSuccess (s_Status m) = WorkItemIsTerminalSuccess (s_Status n)"
    "s_RunID m = s_RunID n \<or> s_RunID m = [] \<and> over Y (s_RunID n)"
proof -
  obtain m where "get (st_rows Y) i = Some m" "WorkItemIsTerminalSuccess (s_Status m) = WorkItemIsTerminalSuccess (s_Status n)"
    using assms same_tree_get [of "st_rows X" "st_rows Y" i] unfolding kept_def by (cases "get (st_rows Y) i") auto
  then show thesis using that assms unfolding kept_def by blast
qed

lemma kept_trans: "kept X Y \<Longrightarrow> kept Y Z \<Longrightarrow> kept X Z"
proof -
  assume xy: "kept X Y" and yz: "kept Y Z"
  have "s_RunID m = s_RunID n \<or> s_RunID m = [] \<and> over Z (s_RunID n)"
    if n: "get (st_rows X) i = Some n" and m: "get (st_rows Z) i = Some m" for i n m
  proof -
    obtain k where k: "get (st_rows Y) i = Some k" "s_RunID k = s_RunID n \<or> s_RunID k = [] \<and> over Y (s_RunID n)"
      by (rule kept_get [OF xy n])
    have "s_RunID m = s_RunID k \<or> s_RunID m = [] \<and> over Z (s_RunID k)" using yz k(1) m unfolding kept_def by blast
    then show ?thesis using k(2) yz unfolding kept_def by metis
  qed
  moreover have "same_tree (st_rows X) (st_rows Z)" using xy yz same_tree_trans unfolding kept_def by blast
  ultimately show ?thesis using xy yz unfolding kept_def by simp
qed

lemma kept_good: "kept X Y \<Longrightarrow> good rank hi X \<Longrightarrow> good rank hi Y"
proof -
  assume k: "kept X Y" and g: "good rank hi X"
  have d: "distinct (map fst (st_rows Y))" using k g same_tree_keys [of "st_rows X" "st_rows Y"] by (simp add: kept_def good_def)
  have "s_RunID m = [] \<or> (case map_of (st_runs Y) (s_RunID m) of None \<Rightarrow> True | Some w \<Rightarrow> r_Item w = i)"
    if row: "(i, m) \<in> set (st_rows Y)" for i m
  proof -
    have m: "get (st_rows Y) i = Some m" by (rule get_row [OF d row])
    obtain n where n: "get (st_rows X) i = Some n"
      using m same_tree_get [of "st_rows X" "st_rows Y" i] k unfolding kept_def by (cases "get (st_rows X) i") auto
    have "s_RunID n = [] \<or> (case map_of (st_runs X) (s_RunID n) of None \<Rightarrow> True | Some w \<Rightarrow> r_Item w = i)"
      using g get_in [OF n] unfolding good_def linked_def by (auto simp: list_all_iff)
    moreover have "map_option r_Item (map_of (st_runs Y) (s_RunID n)) = map_option r_Item (map_of (st_runs X) (s_RunID n))"
      using k unfolding kept_def by blast
    moreover have "s_RunID m = s_RunID n \<or> s_RunID m = []" using k n m unfolding kept_def by blast
    ultimately show ?thesis by (auto split: option.splits)
  qed
  then have "linked Y" unfolding linked_def by (auto simp: list_all_iff)
  moreover have "[] \<notin> set (map fst (st_rows Y))"
    using k g same_tree_keys [of "st_rows X" "st_rows Y"] unfolding kept_def good_def by metis
  ultimately show ?thesis using d k g same_tree_levelled unfolding kept_def good_def by blast
qed

lemma settled_later: "settled X Y j \<Longrightarrow> kept Y Z \<Longrightarrow> settled X Z j"
  unfolding settled_def kept_def by blast

lemma settled_earlier: "kept W X \<Longrightarrow> settled X Y j \<Longrightarrow> kept X Y \<Longrightarrow> settled W Y j"
proof -
  assume k: "kept W X" and s: "settled X Y j" and y: "kept X Y"
  have "over Y (s_RunID n)" if n: "get (st_rows W) j = Some n" "\<not> WorkItemIsTerminalSuccess (s_Status n)" "s_RunID n \<noteq> []" for n
  proof -
    obtain m where "get (st_rows X) j = Some m" "WorkItemIsTerminalSuccess (s_Status m) = WorkItemIsTerminalSuccess (s_Status n)"
      "s_RunID m = s_RunID n \<or> s_RunID m = [] \<and> over X (s_RunID n)" by (rule kept_get [OF k n(1)])
    then show ?thesis using s y n(2,3) unfolding settled_def kept_def by metis
  qed
  then show ?thesis using s unfolding settled_def by blast
qed

lemma quiet_later: "quiet X Y i \<Longrightarrow> kept Y Z \<Longrightarrow> quiet X Z i"
  unfolding quiet_def using settled_later by blast

lemma quiet_earlier: "kept W X \<Longrightarrow> quiet X Y i \<Longrightarrow> kept X Y \<Longrightarrow> quiet W Y i"
  unfolding quiet_def using settled_earlier same_tree_below kept_def by metis

section \<open>The stages of a stop\<close>

lemma over_rows [simp]: "over (X\<lparr>st_rows := db\<rparr>) r = over X r"
  by (simp add: over_def)

lemma rows_kept:
  assumes "st_rows Y = st_rows X" "st_runs Y = st_runs X"
  shows "kept X Y"
  using assms by (simp add: kept_def idle_at_def over_def)

lemma abort_live:
  assumes g: "good rank hi X" and it: "get (st_rows X) i = Some it" "\<not> WorkItemIsTerminalSuccess (s_Status it)" "s_RunID it \<noteq> []"
    and w: "map_of (st_runs X) (s_RunID it) = Some w"
    and Y: "st_rows Y = put (st_rows X) i (set_status E WorkItemPending)"
      "st_runs Y = AList.update (s_RunID it) (w\<lparr>r_Status := ''aborted'', r_Steps := steps\<rparr>) (st_runs X)"
  shows "kept X Y \<and> over Y (s_RunID it)"
proof -
  have runs: "map_of (st_runs Y) r = (if r = s_RunID it then Some (w\<lparr>r_Status := ''aborted'', r_Steps := steps\<rparr>)
      else map_of (st_runs X) r)" for r
    by (simp add: Y(2) update_conv')
  have "same_tree (st_rows X) (st_rows Y)"
    unfolding Y(1) using g it by (intro same_tree_put [of _ _ it]) (simp_all add: good_def)
  moreover have "idle_at X j \<Longrightarrow> idle_at Y j" for j
    using it by (auto simp: idle_at_def Y(1) idle_def)
  moreover have "over X r \<Longrightarrow> over Y r" for r
    by (auto simp: over_def runs run_terminal_def)
  moreover have "map_option r_Item (map_of (st_runs Y) r) = map_option r_Item (map_of (st_runs X) r)" for r
    by (simp add: runs w)
  moreover have "get (st_rows X) j = Some n \<Longrightarrow> get (st_rows Y) j = Some m \<Longrightarrow> s_RunID m = s_RunID n" for j n m
    by (auto simp: Y(1) split: if_splits)
  moreover have "over Y (s_RunID it)" by (simp add: over_def runs run_terminal_def)
  ultimately show ?thesis unfolding kept_def by blast
qed

lemma abort_bound_kept:
  assumes g: "good rank hi X" and it: "get (st_rows X) i = Some it" "\<not> WorkItemIsTerminalSuccess (s_Status it)"
  shows "kept X (abort_bound E (s_RunID it) X) \<and> (s_RunID it \<noteq> [] \<longrightarrow> over (abort_bound E (s_RunID it) X) (s_RunID it))"
proof (cases "s_RunID it = [] \<or> over X (s_RunID it)")
  case True
  then show ?thesis
    by (auto simp: abort_bound_def AbortRunInTx_def over_def intro!: rows_kept split: option.splits)
next
  case False
  then obtain w where w: "map_of (st_runs X) (s_RunID it) = Some w" "\<not> run_terminal (r_Status w)"
    by (auto simp: over_def split: option.splits)
  have item: "r_Item w = i"
    using g get_in [OF it(1)] w(1) False unfolding good_def linked_def by (auto simp: list_all_iff)
  obtain xs ids where x: "terminate_execs (r_Steps w) (st_execs X) = (xs, ids)" by (cases "terminate_execs (r_Steps w) (st_execs X)")
  have ne: "i \<noteq> []" using g get_in [OF it(1)] unfolding good_def by force
  have "kept X (abort_bound E (s_RunID it) X) \<and> over (abort_bound E (s_RunID it) X) (s_RunID it)"
    by (rule abort_live [OF g it _ w(1), where E = E and steps = "map abort_step (r_Steps w)"])
      (use False w x item ne in \<open>simp_all add: abort_bound_def AbortRunInTx_def\<close>)
  then show ?thesis by simp
qed

lemma park_kept:
  assumes g: "good rank hi X" and n: "get (st_rows X) i = Some n" "\<not> WorkItemIsTerminalSuccess (s_Status n)"
    and r: "s_RunID n = [] \<or> over X (s_RunID n)"
  shows "kept X (X\<lparr>st_rows := parkWorkItemResilient E (st_rows X) i\<rparr>) \<and> idle_at (X\<lparr>st_rows := parkWorkItemResilient E (st_rows X) i\<rparr>) i"
proof -
  have rows: "parkWorkItemResilient E (st_rows X) i = put (st_rows X) i (park E)" using n by (simp add: parkWorkItemResilient_def)
  have park: "idle (park E m)" for m by (simp add: idle_def park_def)
  have "same_tree (st_rows X) (put (st_rows X) i (park E))"
    using g n by (intro same_tree_put [of _ _ n]) (simp_all add: good_def park_def)
  moreover have "s_RunID m = s_RunID k \<or> s_RunID m = [] \<and> over X (s_RunID k)"
    if "get (st_rows X) j = Some k" "get (put (st_rows X) i (park E)) j = Some m" for j k m
    using that n(1) r by (auto simp: park_def split: if_splits)
  ultimately show ?thesis
    using park by (auto simp: kept_def rows idle_at_def over_def split: option.splits)
qed

section \<open>The whole subtree\<close>

lemma fold_quiet:
  assumes "\<And>c X. c \<in> fst ` set xs \<Longrightarrow> good rank hi X \<Longrightarrow> get (st_rows X) c \<noteq> None \<Longrightarrow> \<exists>Y. h c X = Some Y \<and> kept X Y \<and> quiet X Y c"
    and "good rank hi X" "\<forall>c \<in> fst ` set xs. get (st_rows X) c \<noteq> None"
  shows "\<exists>Y. fold_opt (\<lambda>(c, _). h c) xs X = Some Y \<and> kept X Y \<and> (\<forall>c \<in> fst ` set xs. quiet X Y c)"
  using assms
proof (induction xs arbitrary: X)
  case (Cons x xs)
  obtain c m where x: "x = (c, m)" by (cases x)
  obtain X1 where X1: "h c X = Some X1" "kept X X1" "quiet X X1 c" using Cons.prems x by (metis fst_conv image_eqI list.set_intros(1))
  have here: "\<forall>d \<in> fst ` set xs. get (st_rows X1) d \<noteq> None"
  proof
    fix d assume "d \<in> fst ` set xs"
    then have "get (st_rows X) d \<noteq> None" using Cons.prems(3) by auto
    then obtain n where n: "get (st_rows X) d = Some n" by auto
    show "get (st_rows X1) d \<noteq> None" by (rule kept_get [OF X1(2) n]) simp
  qed
  obtain Y where Y: "fold_opt (\<lambda>(c, _). h c) xs X1 = Some Y" "kept X1 Y" "\<forall>d \<in> fst ` set xs. quiet X1 Y d"
    using Cons.IH [OF _ kept_good [OF X1(2) Cons.prems(2)] here] Cons.prems(1) by auto
  have "quiet X Y c" using quiet_later X1(3) Y(2) by blast
  moreover have "quiet X Y d" if "d \<in> fst ` set xs" for d using quiet_earlier [OF X1(2) _ Y(2)] Y(3) that by blast
  ultimately show ?case using X1 Y x kept_trans by auto
qed simp

lemma halt_quiet:
  assumes "good rank hi X" "get (st_rows X) i \<noteq> None" "rank i < n"
  shows "\<exists>Y. haltWorkItemCollect n E i X = Some Y \<and> kept X Y \<and> quiet X Y i"
  using assms
proof (induction n arbitrary: i X)
  case (Suc n)
  obtain it where it: "get (st_rows X) i = Some it" using Suc.prems(2) by auto
  show ?case
  proof (cases "WorkItemIsTerminalSuccess (s_Status it)")
    case True
    have "quiet X X i" unfolding quiet_def
    proof (intro allI impI)
      fix j assume "below (st_rows X) i j"
      then have "j = i" using it True by (auto elim: belowE)
      then show "settled X X j" using it True by (simp add: settled_def idle_at_def idle_def)
    qed
    then show ?thesis using it True by simp
  next
    case live: False
    define X1 where "X1 = abort_bound E (s_RunID it) X"
    have k1: "kept X X1" "s_RunID it \<noteq> [] \<Longrightarrow> over X1 (s_RunID it)"
      using abort_bound_kept [OF Suc.prems(1) it live] unfolding X1_def by blast+
    have g1: "good rank hi X1" by (rule kept_good [OF k1(1) Suc.prems(1)])
    have child: "rank c < n \<and> get (st_rows X1) c \<noteq> None" if "c \<in> fst ` set (kids (st_rows X1) i)" for c
    proof -
      from that obtain m where m: "(c, m) \<in> set (kids (st_rows X1) i)" by auto
      have "rank c < rank i" using levelled_row [of rank hi "st_rows X1" c m i] g1 kids_row [OF m] by (simp add: good_def)
      then show ?thesis using kids_get [OF _ m] g1 Suc.prems(3) by (simp add: good_def)
    qed
    obtain X2 where X2: "fold_opt (\<lambda>(c, _). haltWorkItemCollect n E c) (kids (st_rows X1) i) X1 = Some X2" "kept X1 X2"
      "\<forall>c \<in> fst ` set (kids (st_rows X1) i). quiet X1 X2 c"
      using fold_quiet [where h = "haltWorkItemCollect n E" and xs = "kids (st_rows X1) i" and X = X1 and rank = rank and hi = hi]
        Suc.IH child g1 by blast
    have k2: "kept X X2" by (rule kept_trans [OF k1(1) X2(2)])
    obtain n2 where n2: "get (st_rows X2) i = Some n2" "\<not> WorkItemIsTerminalSuccess (s_Status n2)" "s_RunID n2 = [] \<or> over X2 (s_RunID n2)"
      using kept_get [OF k2 it] live k1(2) X2(2) unfolding kept_def by metis
    define Y where "Y = X2\<lparr>st_rows := parkWorkItemResilient E (st_rows X2) i\<rparr>"
    have ky: "kept X2 Y" "idle_at Y i" using park_kept [OF kept_good [OF k2 Suc.prems(1)] n2] unfolding Y_def by blast+
    have run: "haltWorkItemCollect (Suc n) E i X = Some Y" using it live X2(1) unfolding X1_def Y_def by simp
    have all: "kept X Y" by (rule kept_trans [OF k2 ky(1)])
    have below: "settled X Y j" if "below (st_rows X) i j" for j
      using that
    proof (cases rule: below.cases)
      case here
      show ?thesis using here it ky k1(2) X2(2) k2 unfolding settled_def kept_def by auto
    next
      case (deeper m c m')
      have "c \<in> fst ` set (kids (st_rows X1) i)"
        using deeper(3) same_tree_kids [of "st_rows X" "st_rows X1" i] k1(1) unfolding kept_def
        by (metis fst_conv image_eqI list.set_map)
      then have "quiet X1 X2 c" using X2(3) by blast
      then have "quiet X Y c" using quiet_earlier [OF k1(1) _ X2(2)] quiet_later ky(1) by blast
      then show ?thesis using deeper(4) unfolding quiet_def by blast
    qed
    then show ?thesis using run all unfolding quiet_def by blast
  qed
qed simp

section \<open>The claim\<close>

lemma idle_left_alone:
  assumes "idle_at Y j" "get (st_rows Y) j = Some n"
  shows "reconcileParent fuel E \<lparr>table = st_rows Y, edges = es\<rparr> j = Some (Inr (st_rows Y, []))"
  using assms by (auto simp: reconcileParent_def idle_at_def idle_def is_sequence_parent_def WorkItemIsTerminalSuccess_def)

lemma below_parent: "below db p j \<Longrightarrow> j = p \<or> (\<exists>i m. below db p i \<and> (j, m) \<in> set (kids db i))"
proof (induction rule: below.induct)
  case (deeper p n c m j)
  then show ?case by (metis below.deeper below.here)
qed simp

lemma pass_starts_kids:
  assumes "reconcileParent k E S q = Some (Inr (db, starts))" "distinct (map fst (table S))" "(c, w) \<in> set starts"
  obtains n where "(c, n) \<in> set (kids (table S) q)"
  using pass_starts [OF assms] that by (metis in_set_conv_decomp)

text \<open>C8. A stop silences what it reaches. The items form a forest, each with an identifier of its own that is not
empty, and a run bound to an item is linked to that item. Reached are the stopped item and, below an unfinished item that is
reached, its children that are not archived. The stop returns; every item it reaches is finished, or pending or recurring with
no run; the runs that unfinished ones carried are over; no idle item has woken. And a pass over any parent of the table
the stop left starts none of the reached items, except that the pass over the parent of the stopped item may start that
item itself.\<close>

lemma stop_silences_subtree:
  assumes "good rank hi X" "get (st_rows X) p \<noteq> None" "rank p < fuel"
  shows "\<exists>Y. StopSequence fuel E X p = Some (Inr Y) \<and>
    (\<forall>j. below (st_rows X) p j \<longrightarrow> settled X Y j) \<and> (\<forall>j. idle_at X j \<longrightarrow> idle_at Y j) \<and>
    (\<forall>k E es q db starts c w. reconcileParent k E \<lparr>table = st_rows Y, edges = es\<rparr> q = Some (Inr (db, starts)) \<longrightarrow>
      (c, w) \<in> set starts \<longrightarrow> below (st_rows X) p c \<longrightarrow> c = p \<and> (\<exists>n. (p, n) \<in> set (kids (st_rows Y) q)))"
proof -
  define X0 where "X0 = X\<lparr>st_killed := [], st_reaped := []\<rparr>"
  have same: "st_rows X0 = st_rows X" "st_runs X0 = st_runs X" by (simp_all add: X0_def)
  have good: "good rank hi X0" using assms(1) by (simp add: good_def linked_def same)
  obtain Y where Y: "haltWorkItemCollect fuel E p X0 = Some Y" "kept X0 Y" "quiet X0 Y p"
    using halt_quiet [OF good, of p fuel] assms(2,3) by (auto simp: same)
  have run: "StopSequence fuel E X p = Some (Inr Y)"
    using assms(2) Y(1) by (auto simp: StopSequence_def X0_def [symmetric])
  have all: "settled X Y j" if "below (st_rows X) p j" for j
    using Y(3) that by (simp add: quiet_def settled_def same)
  have tree: "same_tree (st_rows X) (st_rows Y)" and keys: "distinct (map fst (st_rows Y))"
    using Y(2) kept_good [OF Y(2) good] by (simp_all add: kept_def good_def same)
  have start: "c = p \<and> (\<exists>n. (p, n) \<in> set (kids (st_rows Y) q))"
    if pass: "reconcileParent k E \<lparr>table = st_rows Y, edges = es\<rparr> q = Some (Inr (db, starts))"
      and c: "(c, w) \<in> set starts" "below (st_rows X) p c" for k E es q db starts c w
  proof -
    obtain n where n: "(c, n) \<in> set (kids (st_rows Y) q)"
      using pass_starts_kids [OF pass _ c(1)] keys by auto
    have "c = p"
    proof (rule ccontr)
      assume "c \<noteq> p"
      then obtain i m where i: "below (st_rows X) p i" "(c, m) \<in> set (kids (st_rows X) i)"
        using below_parent [OF c(2)] by blast
      have "c \<in> fst ` set (kids (st_rows Y) i)"
        using i(2) same_tree_kids [OF tree, of i] by (metis fst_conv image_eqI list.set_map)
      then obtain m' where m': "(c, m') \<in> set (kids (st_rows Y) i)" by auto
      have "i = q" using kids_get [OF keys n] kids_get [OF keys m'] kids_row [OF n] kids_row [OF m'] by simp
      moreover have "get (st_rows Y) q \<noteq> None" using pass by (cases "get (st_rows Y) q") (simp_all add: reconcileParent_def)
      ultimately have "starts = []"
        using idle_left_alone [of Y q] all [OF i(1)] pass by (auto simp: settled_def)
      then show False using c(1) by simp
    qed
    then show ?thesis using n by blast
  qed
  moreover have "idle_at X j \<Longrightarrow> idle_at Y j" for j using Y(2) by (simp add: kept_def idle_at_def same)
  ultimately show ?thesis using run all by blast
qed

definition busy :: stop_state where
  "busy = \<lparr>st_rows = [(''p'', parent_of WorkItemRunning),
      (''a'', leaf_of (Some ''p'') WorkItemSucceeded), (''b'', (leaf_of (Some ''p'') WorkItemRunning)\<lparr>s_RunID := ''r''\<rparr>),
      (''c'', leaf_of (Some ''p'') WorkItemPending)],
    st_runs = [(''r'', \<lparr>r_Status = ''running'', r_Item = ''b'', r_Steps = [(''running'', ''x'')]\<rparr>)],
    st_execs = [(''x'', ''running'')], st_killed = [], st_reaped = []\<rparr>"

lemma stop_silences_subtree_witness:
  "\<exists>Y. StopSequence 5 quiet_env busy ''p'' = Some (Inr Y) \<and> settled busy Y ''b''"
proof -
  have good: "good (\<lambda>i. if i = ''p'' then 1 else 0) 1 busy"
    by (simp add: good_def levelled_def linked_def busy_def leaf_of_def parent_of_def)
  have "below (st_rows busy) ''p'' ''b''"
    by (rule below.deeper [where n = "parent_of WorkItemRunning" and m = "(leaf_of (Some ''p'') WorkItemRunning)\<lparr>s_RunID := ''r''\<rparr>",
          OF _ _ _ below.here]) (simp_all add: busy_def get_def kids_def leaf_of_def parent_of_def WorkItemIsTerminalSuccess_def)
  then show ?thesis
    using stop_silences_subtree [OF good, of "''p''" 5 quiet_env] by (auto simp: busy_def get_def)
qed

lemma stop_collects_the_kill:
  "map_option (\<lambda>r. case r of Inl _ \<Rightarrow> ([], [], []) | Inr Y \<Rightarrow> (st_killed Y, st_reaped Y, st_execs Y))
     (StopSequence 3 quiet_env busy ''p'') = Some ([''x''], [''r''], [(''x'', ''terminated'')])"
  by (simp add: StopSequence_def busy_def get_def kids_def leaf_of_def parent_of_def abort_bound_def AbortRunInTx_def run_terminal_def
      parkWorkItemResilient_def park_def WorkItemIsTerminalSuccess_def put_def eval_nat_numeral)

text \<open>An item stopped below a parent that is still running is started again by the next pass over that parent.\<close>

definition half_stopped :: stop_state where
  "half_stopped = busy\<lparr>st_rows := [(''p'', parent_of WorkItemRunning),
     (''b'', (leaf_of (Some ''p'') WorkItemRunning)\<lparr>s_RunID := ''r''\<rparr>)]\<rparr>"

lemma stopped_child_restarts:
  "case StopSequence 2 quiet_env half_stopped ''b'' of
     Some (Inr Y) \<Rightarrow> map_option (map_sum id snd) (reconcileParent 2 quiet_env \<lparr>table = st_rows Y, edges = []\<rparr> ''p'') =
       Some (Inr [(''b'', ''w'')])
   | _ \<Rightarrow> False"
  by (simp add: StopSequence_def half_stopped_def busy_def abort_bound_def AbortRunInTx_def run_terminal_def
      parkWorkItemResilient_def park_def reconcileParent_def small_tables eval_nat_numeral)

end
