(* ===== verification/Spec2Isabelle.thy ===== *)
theory Spec2Isabelle
  imports Perm_Policy Worker_Restrict Protected_Path Rbac Tool_Class Ask_Mode
    Guard_Shim Guard_Agreement Work_Queue Diff_Correct Diff_Hunks Edit_Entries
    Consent_Reply_Laws Recovery_Reach Recovery_Effects
    Ask_Collect Stall_Nudge Recurring_Laws Hierarchy_Claims Sequence_Stuck Sequence_Stop
begin

text \<open>
  A verification development of the control plane in this repository, over its Go sources under
  \<open>src/internal\<close>. The plane runs coding agents: an operator talks to it in conversations, workers
  execute tasks in project directories, and reconcilers drive workflows. The development models the parts that decide what
  an agent may do, the engine that records what it did, the loop that keeps the work moving, and the
  engine that brings failed work back.

  \<^bold>\<open>Parts and theories\<close>

  \<^item> \<open>Go_Prelude\<close>, \<open>Go_Numbers\<close>: the part of Go's library the sources use. Strings are byte lists;
    \<open>strings\<close> and \<open>path/filepath\<close> functions are executable definitions, with lemmas that read an absolute
    path as a list of normalised elements. \<open>int64\<close> values are integers with the wrap-around written
    out (\<open>i64\<close>). \<open>TrimSpace\<close> and \<open>ToLower\<close> are modelled on ASCII.
  \<^item> \<open>Rule_Scan\<close>: the locale \<open>first_match\<close>, the contract of every ordered rule list (first hit decides).
    It is interpreted by the protected roots, the worker's command rules, the policy entries and the
    shim's entries. \<open>Fuel_Loop\<close>: the locale \<open>fuel_loop\<close>, the contract of an unbounded loop: when it
    returns, what holds then, and when it provably never returns. It is interpreted by the reconciler's
    drain loop and by the scan for a payload.
  \<^item> \<open>Never_Allow\<close> (\<open>internal/neverallow\<close>), \<open>Ask_Mode\<close> (\<open>internal/askmode\<close>), \<open>Tool_Class\<close>
    (\<open>internal/toolclass\<close>), \<open>Rbac\<close> (\<open>internal/rbac\<close>): the declared classes and tables and the functions
    over them. A mode refuses its denied tools in every spelling; the denied names are a deterministic
    sorted list; the activity line counts what it declares; an entitlement set opens what it names.
  \<^item> \<open>Protected_Path\<close> (\<open>internal/protectedpath\<close>), \<open>Worker_Restrict\<close> (\<open>internal/workerrestrict\<close>):
    the roots no destructive target may contain, and the worker's deny patterns and project boundary.
    Both are proved exact on path elements, and the backtracking glob matcher is proved total and
    equal to the declarative meaning of a pattern.
  \<^item> \<open>Perm_Policy\<close> (\<open>internal/permpolicy\<close>): the operator's policy file. Parsing, \<open>Decide\<close>, the host suite
    guard, the write by rename as the file-system states a concurrent reader can meet (any failing call, partial
    writes, a removal that fails), and the boot. YAML, doublestar and the home directory are fields of a record
    \<open>deps\<close>; a property that needs more of them says so.
  \<^item> \<open>Bash_Match\<close>, \<open>Guard_Shim\<close>, \<open>Guard_Agreement\<close> (\<open>internal/guard\<close>): the Go part that builds the shim
    directory, and the bash script it generates, one definition per shell function, over a model of
    \<open>case\<close> matching with \<open>extglob\<close>. Shown: exactly which commands run; the never-allow class, the deny
    list and the fail-closed profile hold against FULLSEND; on cleaned paths and on entries that are
    literals or trees the script agrees with \<open>DestroyedBy\<close> and with \<open>Decide\<close>; where it does not agree
    with them, a theorem gives the input.
  \<^item> \<open>Work_Queue\<close> (\<open>internal/reconciler\<close>): the de-duplicating delay queue, the drain loop, the manager and
    the leader election. The interleavings of arrivals with the consumer are an inductive step
    relation, and the invariant is by rule induction. Instants are nanoseconds read from a clock that
    is an argument; Postgres is a record of four functions over an unknown state.
  \<^item> \<open>File_Diff\<close>, \<open>Diff_Correct\<close>, \<open>Diff_Hunks\<close>, \<open>Edit_Entries\<close> (\<open>internal/fileedit\<close>): line splitting,
    Myers' algorithm with its in-place array, trace and backtrack, hunks, and the ledger entries. The
    computed script is proved to turn the old file into the new one on all inputs; hunks cover every
    change once; a change is never silent.

  \<^item> \<open>Consent_Store\<close>, \<open>Consent_Scan\<close>, \<open>Consent_Action\<close>, \<open>Consent_Gate\<close>, \<open>Consent_Laws\<close>, \<open>Consent_Replies\<close>,
    \<open>Consent_Reply_Laws\<close> (\<open>internal/askorchicon\<close>): the consent gate of a conversation. The stores of session
    grants, once-targets, FULLSEND flags and pending asks; the reading of a shell command (tokenizer,
    heredocs, paths) and of a permission event; \<open>decide\<close> with every rung of its chain, over
    \<open>Perm_Policy\<close>, \<open>Protected_Path\<close> and \<open>Never_Allow\<close>; the reply, grant and FULLSEND calls and the end of a
    turn. Shown: the exact verdict; grants cover subtrees and never a root, and refine a set of
    directories per conversation (locale \<open>conversation_store\<close>, interpreted by the stores); an ask is
    settled once; while a turn runs, in every interleaving of clients and the turn, no reply that says something is lost.
  \<^item> \<open>Tx_Store\<close> (\<open>internal/db/db.go\<close>): database transactions, as state transformers with an error result in
    which any statement may fail and a failed one aborts the rest. The locale \<open>tx_body\<close> is the contract
    of a body under failures (all or nothing), \<open>keeps_invariant\<close> that of one with an invariant; Hoare
    triples carry the proofs. \<open>Domain_Types\<close> (\<open>internal/domain\<close>): the constants of the stored states.
  \<^item> \<open>Recovery_Store\<close> (\<open>internal/db/recovery.go\<close> and what recovery uses of its siblings), \<open>Recovery_Engine\<close>
    and \<open>Recovery_Service\<close> (\<open>internal/recovery\<close>): the tables, the trigger, the six steps, the pass and its
    escalation, the scan, the operator's decisions and the RPCs. \<open>Recovery_Atomic\<close> and
    \<open>Recovery_Effects\<close>: every operation is all or nothing, triggering twice records once, approval
    ignores the status. \<open>Recovery_Inv\<close>, \<open>Recovery_Laws\<close>, \<open>Recovery_Reach\<close>: an invariant of the tables, kept by
    every operation, and by rule induction over the histories of the system: one pass ends a
    recovery, and none is ever blocked for a human. \<open>Recovery_Sample\<close> is a small installation on which
    the operations are evaluated.

  \<^item> \<open>Think_Split\<close>, \<open>Think_Segment\<close>, \<open>Ask_Collect\<close> (\<open>internal/orchicon/thinksplit.go\<close>, \<open>internal/opencode\<close>,
    \<open>internal/askorchicon\<close>): reasoning that a model writes into its text. The streaming splitter, the
    demultiplexer of finished parts, the segmenter of the Ask service, and the accumulators of a turn.
    \<open>Think_Laws\<close> and \<open>Think_Agree\<close>: however a stream is cut the splitter reads it as a whole (locale
    \<open>chunked\<close>, interpreted by the splitter and the segmenter); on streams without stray tag characters
    all three agree; where the segmenter departs, a theorem gives the input.
  \<^item> \<open>Stall_Monitor\<close>, \<open>Stall_Laws\<close> (\<open>internal/orchicon/progress.go\<close>), \<open>Stall_Nudge\<close> (\<open>internal/orchicon/loop.go\<close>,
    \<open>completion.go\<close>): the clocks and windows that tell a stalled session, and what the session does about it. Histories of
    observations and ticks are lists of events; the monitor, the turn loop with its completion probe and the watchdogs are an
    inductive step relation. The verdict of a failed probe does not go through the terminal latch, and a
    theorem derives the two verdicts this allows.

  \<^item> \<open>Go_Time\<close>, \<open>Recurrence\<close>, \<open>Recurrence_Laws\<close>, \<open>Recurrence_Next\<close> (\<open>internal/workitem/validate.go\<close>): recurring
    schedules. Go's civil calendar with a zone as a pair of functions, validation, windows, and
    \<open>ComputeNextRunAt\<close> with its walks. The locale \<open>fixed_offset\<close> is the contract of a zone without clock
    changes, interpreted by UTC (which a schedule without a zone gets) and every fixed zone. The weekly result is
    characterised in every zone, the grid frequencies in zones without clock changes.
  \<^item> \<open>Recurring_Fire\<close>, \<open>Recurring_Laws\<close> (\<open>internal/scheduler/recurring_fire_reconciler.go\<close>,
    \<open>scheduled_run_reconciler.go\<close>): the passes that start work on a clock, over a board of items and the fire
    ledger. Histories of passes, finished runs and time are an inductive relation; a cursor that has
    left the window behind is never fired again, and two ways to get there are derived.
  \<^item> \<open>Work_Hierarchy\<close>, \<open>Hierarchy_Laws\<close>, \<open>Hierarchy_Claims\<close> (\<open>validate.go\<close>, \<open>switch_kind.go\<close> and what \<open>service.go\<close>
    writes of kind, parent and project): the tree of work items. Depth grows along it under every edit
    but a kind switch with an explicit parent and one that overlooks an archived child. As long as no item is its own
    ancestor every walk returns, and its result is characterised; a switch to an explicit parent can make a
    cycle, on which a walk does not return.

  \<^item> \<open>Sequence\<close>, \<open>Sequence_Laws\<close>, \<open>Sequence_Arming\<close>, \<open>Sequence_Claims\<close>, \<open>Sequence_Stop\<close>, \<open>Sequence_Stuck\<close>
    (\<open>internal/scheduler/sequence_reconciler.go\<close>, \<open>AbortRunInTx\<close> of \<open>internal/workflow/service.go\<close>): a parent with children runs
    them as a chain whose cursor is derived from their statuses. The pass, its arming loop, the start, the
    resume, the stop with the abort of bound runs, and the scan with its error count and stall guard, over
    a table of items in sibling order. Every start was due; a strict chain starts its cursor only; a failed
    child halts the chain and changes exactly the ancestors listed; a stop silences what it reaches, the stopped
    item excepted when its own parent still runs; and the ways a chain stays stuck are derived.

  This theory adds what spans components: the worker's two enforcement layers compared.

  \<^bold>\<open>Bounds and fuel\<close>

  \<open>ParseEngineOutput\<close>, \<open>processQueue\<close> and \<open>runReconciler\<close> take fuel, since their loops may not end. For each
  there is a theorem that enough fuel gives the result (one step per byte of the output; one iteration
  per queued key in a pass shorter than the shortest delay) and one that no fuel suffices in the
  situation it describes. All other loops are total functions with a measure. The pattern parser of
  \<open>Bash_Match\<close> has the length of the pattern as fuel, and each step consumes a character. The walk up the
  parents of a task is bounded by 32 in the source. The walks of a schedule have the 1000 rounds of the
  source as their recursion, and what happens after them is part of the theorems. The subtree walk takes
  fuel: some suffices on every table without a cycle of parents, four levels where parents are shallower than their
  children; the walk to an ancestor is a partial function. The walks of the
  sequence engine, up to the ancestors and down the subtree, take fuel, and one more than the highest rank of a
  forest is shown to suffice for a pass, the rank of its root plus one for a stop.

  \<^bold>\<open>Left out\<close>

  The prose of refusals and log lines; the rendering of the script template (its values are arguments of
  the shim, so quoting of a project directory with an apostrophe is outside the model) and the
  failures of writing it; POSIX character classes in policy entries; \<open>Manager.Run\<close>, which only starts
  goroutines. \<open>TrimSpace\<close> and \<open>ToLower\<close> treat only ASCII, where Go treats Unicode. Of the Ask service: the turn
  driver, the conversation tables and wire encodings; the end of a turn is a definition of its own and no step of
  the relation in which replies are drained. Of recovery: the read-only calls and the event stream; the deletion of a
  project, which deletes its recoveries and step runs (\<open>internal/db/project.go\<close>), is no step of the histories; the
  facts file a pass writes before it commits is a function of its own, outside the transactions. Of the loop of a session:
  how the reply to a completion probe is read is an argument. Costs and fractions in floating point are rational
  numbers. Transactions run one after the other, although the database isolates them only as read
  committed; the version column guards every update, and a stale one is a missing row here too.
  Of schedules: zones with clock changes are arguments, and only the statements for every zone speak of
  them; of the work-item service: the RPC handlers and dependencies, and of the moves between projects what they do besides parent,
  kind and project. The
  workflow and task reconcilers, the adapters for the coding engines, the other tables and the clients
  are not modelled: they are drivers of processes, containers, git, HTTP and SQL whose outcome the sources
  do not determine.

  \<^bold>\<open>What could follow\<close>

  The validation of workflow graphs, which would close the circle from a fire to its recovery; the retry policy and context reduction of the agent loop; the snapshot half of
  \<open>internal/fileedit\<close>; minimality of the computed script.
\<close>

section \<open>The worker's two layers\<close>

text \<open>
  For a worker, the shim is never wider than the Go boundary on cleaned paths: whatever it lets run, every
  absolute, cleaned argument is one \<open>OutsideProject\<close> allows.
\<close>

theorem shim_within_boundary:
  assumes "\<not> INTERACTIVE S" and "SCRATCH_DIR S = ScratchDir" and "abs_clean (PROJECT_DIR S)"
    and "TrimSpace (PROJECT_DIR S) = PROJECT_DIR S"
    and "run_guard S name args = Inr (prog, args')" and "a \<in> set args"
    and "HasPrefix a ''/''" and "Clean a = a" and "TrimSpace a = a" and "\<not> HasSuffix a ''/**''"
  shows "fst (OutsideProject a (PROJECT_DIR S))"
proof -
  have "\<not> is_flag a" using assms(7) by (auto simp: is_flag_def HasPrefix_iff)
  then have "sanctioned S a" using assms(5,6) by (auto simp: run_guard_iff)
  then have ins: "inside_dir (PROJECT_DIR S) a \<or> inside_dir ScratchDir a"
    using assms(1,2,7) by (auto simp: sanctioned_def)
  have abs: "IsAbs a" "a \<noteq> []" using assms(7) by (auto simp: IsAbs_def HasPrefix_iff)
  have scratch: "TrimSpace ScratchDir = ScratchDir" "Clean ScratchDir = ScratchDir" by code_simp+
  have "TrimSuffix a ''/**'' = a" using assms(10) by (simp add: TrimSuffix_def)
  moreover have "insideDir a d" if "inside_dir d a" "TrimSpace d = d" "Clean d = d" for d
    using that assms(8) by (auto simp: insideDir_def inside_dir_def)
  ultimately show ?thesis using ins abs assms(3,4,8,9) scratch
    by (auto simp: OutsideProject_def Let_def abs_clean_def)
qed

theorem shim_within_boundary_witness: "fst (OutsideProject ''/home/me/proj/dist'' ''/home/me/proj'')"
proof -
  have p: "PROJECT_DIR worker_shim = ''/home/me/proj''" "SCRATCH_DIR worker_shim = ScratchDir" "\<not> INTERACTIVE worker_shim"
    by (simp_all add: worker_shim_def ScratchDir_def INTERACTIVE_def)
  have "run_guard worker_shim ''rm'' [''/home/me/proj/dist''] = Inr (''/bin/rm'', [''/home/me/proj/dist''])" by code_simp
  moreover have "abs_clean ''/home/me/proj'' \<and> TrimSpace ''/home/me/proj'' = ''/home/me/proj''
    \<and> Clean ''/home/me/proj/dist'' = ''/home/me/proj/dist'' \<and> TrimSpace ''/home/me/proj/dist'' = ''/home/me/proj/dist''
    \<and> \<not> HasSuffix ''/home/me/proj/dist'' ''/**''" by code_simp
  ultimately show ?thesis using shim_within_boundary [of worker_shim "''rm''" "[''/home/me/proj/dist'']"] p
    by (simp add: HasPrefix_Cons)
qed

text \<open>Without the cleaning the layers part: the shim runs what the boundary refuses.\<close>

lemma layers_part_on_dotdot:
  "run_guard worker_shim ''rm'' [''/home/me/proj/../other''] = Inr (''/bin/rm'', [''/home/me/proj/../other''])
   \<and> \<not> fst (OutsideProject ''/home/me/proj/../other'' ''/home/me/proj'')"
  by (intro conjI) code_simp+

end
